(* ===== verification/Prelude.thy ===== *)
theory Prelude
  imports Main "HOL-Library.Word"
begin

text \<open>
  Shared vocabulary of the development: the Python exceptions the modelled code raises, the
  result type \<open>py_exn + 'a\<close> and its sequencing, byte strings as lists of 8-bit words, Python
  slices, and the fixed-width big-endian integers that \<open>struct.pack\<close> / \<open>struct.unpack\<close>
  and \<open>int.from_bytes\<close> produce and read. The lemma collection \<open>byte_simps\<close> carries the
  width and round-trip facts the packet theories use.
\<close>

named_theorems byte_simps \<open>width and round-trip facts of the byte encoders\<close>

section \<open>Results\<close>

text \<open>The exception classes; messages are not modelled.\<close>

datatype py_exn =
    ValueError
  | TypeError
  | KeyError
  | IndexError
  | StructError
  | AssertionError
  | ZeroDivisionError
  | LookupError
  | OSError
  | GenericException
  | NotImplementedError
  | TimeoutError
  | ConnectionError2
  | OverflowError
  | AttributeError
  | RuntimeError
  | ReError

type_synonym 'a result = "py_exn + 'a"

definition bindr :: "'a result \<Rightarrow> ('a \<Rightarrow> 'b result) \<Rightarrow> 'b result" where
  "bindr r f = (case r of Inl e \<Rightarrow> Inl e | Inr x \<Rightarrow> f x)"

lemma bindr_simps [simp]:
  "bindr (Inl e) f = Inl e"
  "bindr (Inr x) f = f x"
  by (simp_all add: bindr_def)

lemma bindr_eq_Inr: "bindr r f = Inr y \<longleftrightarrow> (\<exists>x. r = Inr x \<and> f x = Inr y)"
  by (cases r) auto

lemma bindr_eq_Inl: "bindr r f = Inl e \<longleftrightarrow> r = Inl e \<or> (\<exists>x. r = Inr x \<and> f x = Inl e)"
  by (cases r) auto

text \<open>For functions that call themselves on the result of a step.\<close>

lemma bindr_cong: "r = r' \<Longrightarrow> (\<And>x. r' = Inr x \<Longrightarrow> f x = g x) \<Longrightarrow> bindr r f = bindr r' g"
  by (cases r') simp_all

lemma bindr_assoc: "bindr (bindr r f) g = bindr r (\<lambda>x. bindr (f x) g)"
  by (cases r) auto

fun mapr :: "('a \<Rightarrow> 'b result) \<Rightarrow> 'a list \<Rightarrow> 'b list result" where
  "mapr f [] = Inr []"
| "mapr f (x # xs) = bindr (f x) (\<lambda>y. bindr (mapr f xs) (\<lambda>ys. Inr (y # ys)))"

lemma mapr_length: "mapr f xs = Inr ys \<Longrightarrow> length ys = length xs"
  by (induction xs arbitrary: ys) (auto simp: bindr_eq_Inr)

lemma mapr_Inr: "(\<And>x. x \<in> set xs \<Longrightarrow> f x = Inr (g x)) \<Longrightarrow> mapr f xs = Inr (map g xs)"
  by (induction xs) auto

section \<open>Bytes and slices\<close>

type_synonym byte = "8 word"
type_synonym bytes = "byte list"

text \<open>Python's \<open>buf[a:b]\<close> for non-negative bounds: it clips and never raises.\<close>

definition pyslice :: "nat \<Rightarrow> nat \<Rightarrow> 'a list \<Rightarrow> 'a list" where
  "pyslice a b xs = take (b - a) (drop a xs)"

lemma length_pyslice: "length (pyslice a b xs) = min b (length xs) - a"
  by (auto simp: pyslice_def min_def)

lemma pyslice_full: "b = length xs \<Longrightarrow> pyslice 0 b xs = xs"
  by (simp add: pyslice_def)

lemma pyslice_append_left: "b \<le> length xs \<Longrightarrow> pyslice a b (xs @ ys) = pyslice a b xs"
  by (auto simp: pyslice_def)

lemma pyslice_append_right:
  "length xs \<le> a \<Longrightarrow> pyslice a b (xs @ ys) = pyslice (a - length xs) (b - length xs) ys"
  by (auto simp: pyslice_def)

section \<open>Fixed-width big-endian integers\<close>

text \<open>\<open>be_bytes k n\<close> is the \<open>k\<close>-byte big-endian form of \<open>n mod 256 ^ k\<close>;
  \<open>be_val\<close> is \<open>int.from_bytes(b, "big")\<close>.\<close>

fun be_bytes :: "nat \<Rightarrow> int \<Rightarrow> bytes" where
  "be_bytes 0 n = []"
| "be_bytes (Suc k) n = be_bytes k (n div 256) @ [word_of_int n]"

definition be_val :: "bytes \<Rightarrow> int" where
  "be_val bs = foldl (\<lambda>a b. a * 256 + uint b) 0 bs"

lemma be_val_Nil [simp]: "be_val [] = 0"
  by (simp add: be_val_def)

lemma be_val_snoc [simp]: "be_val (bs @ [b]) = be_val bs * 256 + uint b"
  by (simp add: be_val_def)

lemma length_be_bytes [simp, byte_simps]: "length (be_bytes k n) = k"
  by (induction k arbitrary: n) auto

lemma uint_byte_bounds: "0 \<le> uint (b :: byte)" "uint (b :: byte) < 256"
  using uint_lt2p [of b] by (simp_all add: uint_ge_0)

lemma be_val_bounds: "0 \<le> be_val bs \<and> be_val bs < 256 ^ length bs"
proof (induction bs rule: rev_induct)
  case Nil
  then show ?case by simp
next
  case (snoc b bs)
  have "0 \<le> uint b" "uint b < 256" by (rule uint_byte_bounds)+
  with snoc show ?case by (auto simp: power_add)
qed

lemma be_val_be_bytes: "be_val (be_bytes k n) = n mod 256 ^ k"
proof (induction k arbitrary: n)
  case 0
  then show ?case by simp
next
  case (Suc k)
  have "be_val (be_bytes (Suc k) n) = (n div 256) mod 256 ^ k * 256 + n mod 256"
    using Suc by (simp add: uint_word_of_int)
  also have "\<dots> = n mod (256 * 256 ^ k)"
    by (simp add: zmod_zmult2_eq)
  finally show ?case by simp
qed

lemma be_val_be_bytes_id [byte_simps]:
  "0 \<le> n \<Longrightarrow> n < 256 ^ k \<Longrightarrow> be_val (be_bytes k n) = n"
  by (simp add: be_val_be_bytes)

lemma be_bytes_be_val [byte_simps]: "be_bytes (length bs) (be_val bs) = bs"
proof (induction bs rule: rev_induct)
  case Nil
  then show ?case by simp
next
  case (snoc b bs)
  have b: "0 \<le> uint b" "uint b < 256" by (rule uint_byte_bounds)+
  then have "(be_val bs * 256 + uint b) div 256 = be_val bs" by simp
  moreover have "word_of_int (be_val bs * 256 + uint b) = b"
  proof -
    have "uint (word_of_int (be_val bs * 256 + uint b) :: byte) = uint b"
      using b by (simp only: uint_word_of_int) simp
    then show ?thesis by (simp only: word_uint_eq_iff)
  qed
  ultimately show ?case using snoc by simp
qed

lemma be_bytes_inj: "length xs = length ys \<Longrightarrow> be_val xs = be_val ys \<Longrightarrow> xs = ys"
  using be_bytes_be_val by metis

declare be_bytes.simps [simp del]

text \<open>\<open>struct.pack\<close> of one unsigned field: an out-of-range integer raises \<open>struct.error\<close>.\<close>

definition pack_uint :: "nat \<Rightarrow> int \<Rightarrow> bytes result" where
  "pack_uint k n = (if 0 \<le> n \<and> n < 256 ^ k then Inr (be_bytes k n) else Inl StructError)"

lemma pack_uint_Inr: "pack_uint k n = Inr bs \<longleftrightarrow> 0 \<le> n \<and> n < 256 ^ k \<and> bs = be_bytes k n"
  by (auto simp: pack_uint_def)

lemma pack_uint_ok [simp]: "0 \<le> n \<Longrightarrow> n < 256 ^ k \<Longrightarrow> pack_uint k n = Inr (be_bytes k n)"
  by (simp add: pack_uint_def)

text \<open>A \<open>struct.pack\<close> format as the list of its fields, packed left to right; a bytes
  field \<open>ns\<close> truncates or pads its argument with zero bytes to \<open>n\<close>.\<close>

datatype field = FU nat int | FB nat bytes

definition pad_bytes :: "nat \<Rightarrow> bytes \<Rightarrow> bytes" where
  "pad_bytes n bs = take n bs @ replicate (n - length bs) 0"

lemma length_pad_bytes [simp]: "length (pad_bytes n bs) = n"
  by (simp add: pad_bytes_def)

lemma pad_bytes_exact [simp]: "length bs = n \<Longrightarrow> pad_bytes n bs = bs"
  by (simp add: pad_bytes_def)

fun pack_field :: "field \<Rightarrow> bytes result" where
  "pack_field (FU k n) = pack_uint k n"
| "pack_field (FB n bs) = Inr (pad_bytes n bs)"

fun struct_pack :: "field list \<Rightarrow> bytes result" where
  "struct_pack [] = Inr []"
| "struct_pack (f # fs) =
     bindr (pack_field f) (\<lambda>x. bindr (struct_pack fs) (\<lambda>y. Inr (x @ y)))"

fun field_width :: "field \<Rightarrow> nat" where
  "field_width (FU k n) = k"
| "field_width (FB n bs) = n"

lemma length_pack_field: "pack_field f = Inr bs \<Longrightarrow> length bs = field_width f"
  by (cases f) (auto simp: pack_uint_Inr)

lemma length_struct_pack: "struct_pack fs = Inr bs \<Longrightarrow> length bs = sum_list (map field_width fs)"
  by (induction fs arbitrary: bs) (auto simp: bindr_eq_Inr length_pack_field)

text \<open>Reading the unsigned field of width \<open>k\<close> at offset \<open>o\<close>, as \<open>struct.unpack\<close> does
  on a buffer of the right length.\<close>

definition rd :: "nat \<Rightarrow> nat \<Rightarrow> bytes \<Rightarrow> int" where
  "rd i k bs = be_val (pyslice i (i + k) bs)"

lemma rd_bounds: "0 \<le> rd i k bs" "rd i k bs < 256 ^ k"
proof -
  have b: "0 \<le> rd i k bs \<and> rd i k bs < 256 ^ length (pyslice i (i + k) bs)"
    unfolding rd_def by (rule be_val_bounds)
  then show "0 \<le> rd i k bs" by simp
  have "length (pyslice i (i + k) bs) \<le> k" by (auto simp: length_pyslice)
  then have "(256 :: int) ^ length (pyslice i (i + k) bs) \<le> 256 ^ k"
    by (intro power_increasing) auto
  with b show "rd i k bs < 256 ^ k" by linarith
qed

lemma pyslice_here: "length xs = k \<Longrightarrow> pyslice 0 k (xs @ ys) = xs"
  by (simp add: pyslice_def)

lemma rd_here [byte_simps]: "0 \<le> n \<Longrightarrow> n < 256 ^ k \<Longrightarrow> rd 0 k (be_bytes k n @ ys) = n"
  by (simp add: rd_def pyslice_here be_val_be_bytes_id)

lemma rd_skip [byte_simps]:
  "length xs \<le> i \<Longrightarrow> rd i k (xs @ ys) = rd (i - length xs) k ys"
  by (simp add: rd_def pyslice_append_right)

lemma pyslice_skip [byte_simps]:
  "length xs \<le> i \<Longrightarrow> i \<le> j \<Longrightarrow> pyslice i j (xs @ ys) = pyslice (i - length xs) (j - length xs) ys"
  by (simp add: pyslice_append_right)

text \<open>\<open>buf[i]\<close> inside the buffer; every use in the models is guarded by a length test.\<close>

definition byte_at :: "nat \<Rightarrow> bytes \<Rightarrow> int" where
  "byte_at i bs = uint (bs ! i)"

lemma byte_at_rd: "i < length bs \<Longrightarrow> byte_at i bs = rd i 1 bs"
  by (simp add: byte_at_def rd_def pyslice_def take_Suc_conv_app_nth be_val_def hd_drop_conv_nth take_Suc)

lemma byte_at_bounds: "0 \<le> byte_at i bs" "byte_at i bs < 256"
  unfolding byte_at_def by (rule uint_byte_bounds)+

end
