(* ===== verification/PyStd.thy ===== *)
theory PyStd
  imports Prelude "HOL-Library.Char_ord"
begin

text \<open>
  The parts of Python's standard library that the modelled modules use: \<open>str.split\<close>,
  \<open>str.strip\<close>, \<open>str.lower\<close>, \<open>str.splitlines\<close>, \<open>str.startswith\<close>, the decimal form
  of an integer, \<open>int(s, base)\<close>, and \<open>socket.inet_aton\<close> / \<open>socket.inet_ntoa\<close>.
  A string is a list of characters with code points below 256.
\<close>

section \<open>Characters\<close>

definition ord_c :: "char \<Rightarrow> nat" where
  "ord_c c = of_char c"

definition is_ws :: "char \<Rightarrow> bool" where
  "is_ws c = (let n = ord_c c in (9 \<le> n \<and> n \<le> 13) \<or> (28 \<le> n \<and> n \<le> 32) \<or> n = 133 \<or> n = 160)"

definition lower_c :: "char \<Rightarrow> char" where
  "lower_c c = (let n = ord_c c in if 65 \<le> n \<and> n \<le> 90 then char_of (n + 32) else c)"

definition digit_val :: "char \<Rightarrow> nat option" where
  "digit_val c = (let n = ord_c c in
     if 48 \<le> n \<and> n \<le> 57 then Some (n - 48)
     else if 97 \<le> n \<and> n \<le> 122 then Some (n - 87)
     else if 65 \<le> n \<and> n \<le> 90 then Some (n - 55)
     else None)"

definition digit_c :: "nat \<Rightarrow> char" where
  "digit_c n = char_of (if n < 10 then 48 + n else 87 + n)"

lemma ord_digit_c: "n < 36 \<Longrightarrow> ord_c (digit_c n) = (if n < 10 then 48 + n else 87 + n)"
  by (auto simp: ord_c_def digit_c_def)

lemma digit_val_digit_c [simp]: "n < 36 \<Longrightarrow> digit_val (digit_c n) = Some n"
  by (auto simp: digit_val_def ord_digit_c Let_def)

lemma digit_c_not_ws [simp]: "n < 36 \<Longrightarrow> \<not> is_ws (digit_c n)"
  by (auto simp: is_ws_def ord_digit_c Let_def)

lemma digit_c_lits:
  "digit_c 0 = CHR ''0''" "digit_c (Suc 0) = CHR ''1''" "digit_c 1 = CHR ''1''" "digit_c 2 = CHR ''2''"
  "digit_c 3 = CHR ''3''" "digit_c 4 = CHR ''4''" "digit_c 5 = CHR ''5''" "digit_c 6 = CHR ''6''"
  "digit_c 7 = CHR ''7''" "digit_c 8 = CHR ''8''" "digit_c 9 = CHR ''9''"
  by code_simp+

lemma digit_c_neq: "n < 36 \<Longrightarrow> \<not> (48 \<le> ord_c c \<and> ord_c c \<le> 57) \<Longrightarrow> \<not> (97 \<le> ord_c c \<and> ord_c c \<le> 122)
  \<Longrightarrow> digit_c n \<noteq> c"
  using ord_digit_c [of n] by (auto split: if_splits)

section \<open>Strings\<close>

definition py_lower :: "string \<Rightarrow> string" where
  "py_lower s = map lower_c s"

definition py_strip :: "string \<Rightarrow> string" where
  "py_strip s = rev (dropWhile is_ws (rev (dropWhile is_ws s)))"

definition py_rstrip :: "string \<Rightarrow> string" where
  "py_rstrip s = rev (dropWhile is_ws (rev s))"

text \<open>\<open>s.split(c)\<close> with a one-character separator.\<close>

fun py_split :: "'a \<Rightarrow> 'a list \<Rightarrow> 'a list list" where
  "py_split c [] = [[]]"
| "py_split c (x # xs) =
     (if x = c then [] # py_split c xs
      else (case py_split c xs of [] \<Rightarrow> [[x]] | (y # ys) \<Rightarrow> (x # y) # ys))"

text \<open>\<open>c.join(parts)\<close>.\<close>

fun py_join :: "'a \<Rightarrow> 'a list list \<Rightarrow> 'a list" where
  "py_join c [] = []"
| "py_join c [p] = p"
| "py_join c (p # q # ps) = p @ c # py_join c (q # ps)"

lemma py_split_nonempty [simp]: "py_split c xs \<noteq> []"
  by (induction xs) (auto split: list.splits)

lemma py_split_notin: "c \<notin> set xs \<Longrightarrow> py_split c xs = [xs]"
  by (induction xs) auto

lemma py_split_app: "c \<notin> set p \<Longrightarrow> py_split c (p @ c # xs) = p # py_split c xs"
  by (induction p) auto

lemma py_split_join:
  "ps \<noteq> [] \<Longrightarrow> \<forall>p\<in>set ps. c \<notin> set p \<Longrightarrow> py_split c (py_join c ps) = ps"
  by (induction c ps rule: py_join.induct) (auto simp: py_split_notin py_split_app)

lemma py_join_split: "py_join c (py_split c xs) = xs"
proof (induction xs)
  case Nil
  then show ?case by simp
next
  case (Cons x xs)
  then show ?case
    by (cases "py_split c xs"; cases "tl (py_split c xs)") (auto simp: neq_Nil_conv split: list.splits)
qed

text \<open>\<open>s.split()\<close>: runs of white space separate, and there are no empty fields.\<close>

fun ws_fields :: "string \<Rightarrow> string \<Rightarrow> string list" where
  "ws_fields acc [] = (if acc = [] then [] else [rev acc])"
| "ws_fields acc (x # xs) =
     (if is_ws x then (if acc = [] then ws_fields [] xs else rev acc # ws_fields [] xs)
      else ws_fields (x # acc) xs)"

definition py_fields :: "string \<Rightarrow> string list" where
  "py_fields s = ws_fields [] s"

text \<open>\<open>s.splitlines()\<close>: a final line terminator does not start another line.\<close>

fun line_split :: "string \<Rightarrow> string \<Rightarrow> string list" where
  "line_split acc [] = (if acc = [] then [] else [rev acc])"
| "line_split acc (x # xs) =
     (let n = ord_c x in
      if n = 13 then
        (case xs of
           [] \<Rightarrow> [rev acc]
         | (y # ys) \<Rightarrow> if ord_c y = 10 then rev acc # line_split [] ys else rev acc # line_split [] xs)
      else if n = 10 \<or> n = 11 \<or> n = 12 \<or> n = 28 \<or> n = 29 \<or> n = 30 \<or> n = 133
        then rev acc # line_split [] xs
      else line_split (x # acc) xs)"

definition py_splitlines :: "string \<Rightarrow> string list" where
  "py_splitlines s = line_split [] s"

fun py_startswith :: "'a list \<Rightarrow> 'a list \<Rightarrow> bool" where
  "py_startswith [] xs = True"
| "py_startswith (p # ps) [] = False"
| "py_startswith (p # ps) (x # xs) = (p = x \<and> py_startswith ps xs)"

text \<open>\<open>needle in s\<close> for strings and byte strings.\<close>

fun py_contains :: "'a list \<Rightarrow> 'a list \<Rightarrow> bool" where
  "py_contains p [] = (p = [])"
| "py_contains p (x # xs) = (py_startswith p (x # xs) \<or> py_contains p xs)"

lemma py_startswith_iff: "py_startswith p xs \<longleftrightarrow> (\<exists>ys. xs = p @ ys)"
  by (induction p xs rule: py_startswith.induct) auto

lemma py_contains_iff: "py_contains p xs \<longleftrightarrow> (\<exists>us vs. xs = us @ p @ vs)"
proof (induction xs)
  case Nil
  then show ?case by auto
next
  case (Cons x xs)
  have "(\<exists>us vs. x # xs = us @ p @ vs) \<longleftrightarrow>
      (\<exists>vs. x # xs = p @ vs) \<or> (\<exists>us vs. xs = us @ p @ vs)"
    by (metis append_Cons append_Nil list.exhaust list.inject)
  with Cons show ?case by (simp add: py_startswith_iff)
qed

section \<open>Numerals\<close>

fun show_nat :: "nat \<Rightarrow> string" where
  "show_nat n = (if n < 10 then [digit_c n] else show_nat (n div 10) @ [digit_c (n mod 10)])"

declare show_nat.simps [simp del]

text \<open>The value of a non-empty run of base-\<open>b\<close> digits.\<close>

fun digits_val :: "nat \<Rightarrow> nat \<Rightarrow> string \<Rightarrow> nat option" where
  "digits_val b acc [] = Some acc"
| "digits_val b acc (c # cs) =
     (case digit_val c of
        None \<Rightarrow> None
      | Some d \<Rightarrow> if d < b then digits_val b (acc * b + d) cs else None)"

definition parse_nat :: "nat \<Rightarrow> string \<Rightarrow> nat option" where
  "parse_nat b cs = (if cs = [] then None else digits_val b 0 cs)"

lemma digits_val_append:
  "digits_val b a (xs @ ys) = (case digits_val b a xs of None \<Rightarrow> None | Some v \<Rightarrow> digits_val b v ys)"
  by (induction xs arbitrary: a) (auto split: option.splits)

lemma show_nat_nonempty [simp]: "show_nat n \<noteq> []"
  by (subst show_nat.simps) auto

lemma digits_val_show_nat: "digits_val 10 0 (show_nat n) = Some n"
  by (induction n rule: show_nat.induct) (subst show_nat.simps, auto simp: digits_val_append)

lemma parse_show_nat [simp]: "parse_nat 10 (show_nat n) = Some n"
  by (simp add: parse_nat_def digits_val_show_nat)

lemma set_show_nat: "set (show_nat n) \<subseteq> digit_c ` {..<10}"
  by (induction n rule: show_nat.induct) (subst show_nat.simps, auto)

lemma show_nat_notin:
  assumes "\<not> (48 \<le> ord_c c \<and> ord_c c \<le> 57)"
  shows "c \<notin> set (show_nat n)"
proof
  assume "c \<in> set (show_nat n)"
  then obtain d where "d < 10" "c = digit_c d" using set_show_nat [of n] by auto
  then have "ord_c c = 48 + d" by (simp add: ord_digit_c)
  with assms \<open>d < 10\<close> show False by simp
qed

lemma show_nat_not_ws: "x \<in> set (show_nat n) \<Longrightarrow> \<not> is_ws x"
  using set_show_nat [of n] by auto

text \<open>The first digit of a decimal numeral is zero only for zero itself.\<close>

lemma hd_show_nat: "0 < n \<Longrightarrow> hd (show_nat n) \<noteq> digit_c 0"
proof (induction n rule: show_nat.induct)
  case (1 n)
  show ?case
  proof (cases "n < 10")
    case True
    then have "ord_c (digit_c n) \<noteq> ord_c (digit_c 0)"
      using 1 by (simp add: ord_digit_c)
    with True show ?thesis by (subst show_nat.simps) auto
  next
    case False
    with 1 show ?thesis by (subst show_nat.simps) simp
  qed
qed

text \<open>\<open>int(s, base)\<close>: white space is stripped, one sign is accepted, the prefix of the base may
  stand before the digits, and single underscores may stand between them.\<close>

fun drop_us :: "string \<Rightarrow> string option" where
  "drop_us [] = Some []"
| "drop_us [c] = (if c = CHR ''_'' then None else Some [c])"
| "drop_us (c # d # cs) =
     (if c = CHR ''_'' then None
      else if d = CHR ''_'' then map_option ((#) c) (drop_us cs)
      else map_option ((#) c) (drop_us (d # cs)))"

definition base_prefix :: "nat \<Rightarrow> string \<Rightarrow> string" where
  "base_prefix b s =
     (case s of
        (z # x # rest) \<Rightarrow>
          if z = CHR ''0'' \<and> b = 16 \<and> lower_c x = CHR ''x''
             \<or> z = CHR ''0'' \<and> b = 2 \<and> lower_c x = CHR ''b''
             \<or> z = CHR ''0'' \<and> b = 8 \<and> lower_c x = CHR ''o''
          then (case rest of
                  (u # rest') \<Rightarrow> if u = CHR ''_'' then rest' else rest
                | [] \<Rightarrow> rest)
          else s
      | _ \<Rightarrow> s)"

definition py_int :: "nat \<Rightarrow> string \<Rightarrow> int result" where
  "py_int b s =
     (let t = py_strip s;
          neg = (t \<noteq> [] \<and> hd t = CHR ''-'');
          u = (if t \<noteq> [] \<and> (hd t = CHR ''-'' \<or> hd t = CHR ''+'') then tl t else t)
      in case drop_us (base_prefix b u) of
           None \<Rightarrow> Inl ValueError
         | Some v \<Rightarrow>
             (case parse_nat b v of
                None \<Rightarrow> Inl ValueError
              | Some n \<Rightarrow> Inr (if neg then - int n else int n)))"

section \<open>IPv4 literals\<close>

text \<open>\<open>socket.inet_aton\<close>: one to four parts, each decimal, octal (leading 0) or hexadecimal
  (leading 0x); the last part fills the remaining bytes; anything from the first white space on is
  ignored, as in the C library.\<close>

definition aton_part :: "string \<Rightarrow> nat option" where
  "aton_part s =
     (case s of
        [] \<Rightarrow> None
      | [c] \<Rightarrow> parse_nat 10 [c]
      | (c # d # cs) \<Rightarrow>
          if c = CHR ''0'' then
            (if lower_c d = CHR ''x'' then parse_nat 16 cs else parse_nat 8 (d # cs))
          else parse_nat 10 s)"

fun aton_parts :: "nat list \<Rightarrow> bytes option" where
  "aton_parts [a] = (if a < 2 ^ 32 then Some (be_bytes 4 (int a)) else None)"
| "aton_parts [a, b] =
     (if a < 256 \<and> b < 2 ^ 24 then Some (be_bytes 1 (int a) @ be_bytes 3 (int b)) else None)"
| "aton_parts [a, b, c] =
     (if a < 256 \<and> b < 256 \<and> c < 2 ^ 16
      then Some (be_bytes 1 (int a) @ be_bytes 1 (int b) @ be_bytes 2 (int c)) else None)"
| "aton_parts [a, b, c, d] =
     (if a < 256 \<and> b < 256 \<and> c < 256 \<and> d < 256
      then Some [of_nat a, of_nat b, of_nat c, of_nat d] else None)"
| "aton_parts _ = None"

definition c_space :: "char \<Rightarrow> bool" where
  "c_space c = (let n = ord_c c in (9 \<le> n \<and> n \<le> 13) \<or> n = 32)"

lemma c_space_ws: "c_space c \<Longrightarrow> is_ws c"
  by (auto simp: c_space_def is_ws_def Let_def)

definition inet_aton :: "string \<Rightarrow> bytes result" where
  "inet_aton s =
     (case those (map aton_part (py_split (CHR ''.'') (takeWhile (\<lambda>c. \<not> c_space c) s))) of
        None \<Rightarrow> Inl OSError
      | Some ns \<Rightarrow> (case aton_parts ns of None \<Rightarrow> Inl OSError | Some bs \<Rightarrow> Inr bs))"

text \<open>\<open>socket.inet_ntoa\<close>: only four bytes are accepted.\<close>

definition inet_ntoa :: "bytes \<Rightarrow> string result" where
  "inet_ntoa bs =
     (if length bs = 4 then Inr (py_join (CHR ''.'') (map (\<lambda>b. show_nat (unat b)) bs))
      else Inl OSError)"

lemma length_aton_parts: "aton_parts ns = Some bs \<Longrightarrow> length bs = 4"
  by (induction ns rule: aton_parts.induct) (auto split: if_splits)

lemma length_inet_aton: "inet_aton s = Inr bs \<Longrightarrow> length bs = 4"
  by (auto simp: inet_aton_def length_aton_parts split: option.splits)

lemma aton_part_show_nat: "aton_part (show_nat n) = Some n"
proof -
  obtain c cs where s: "show_nat n = c # cs"
    by (cases "show_nat n") auto
  show ?thesis
  proof (cases cs)
    case Nil
    with s show ?thesis using parse_show_nat [of n] by (simp add: aton_part_def)
  next
    case (Cons d ds)
    then have "9 < n" using s by (subst (asm) show_nat.simps) (auto split: if_splits)
    then have "c \<noteq> digit_c 0" using hd_show_nat [of n] s by simp
    moreover have "digit_c 0 = CHR ''0''" by code_simp
    ultimately show ?thesis using s Cons parse_show_nat [of n] by (simp add: aton_part_def)
  qed
qed

lemma takeWhile_all: "(\<And>x. x \<in> set xs \<Longrightarrow> P x) \<Longrightarrow> takeWhile P xs = xs"
  by (induction xs) auto

theorem inet_aton_ntoa: "length bs = 4 \<Longrightarrow> inet_ntoa bs = Inr s \<Longrightarrow> inet_aton s = Inr bs"
proof -
  assume len: "length bs = 4" and s: "inet_ntoa bs = Inr s"
  obtain a b c d where bs: "bs = [a, b, c, d]"
    using len by (auto simp: numeral_eq_Suc length_Suc_conv)
  let ?ps = "map (\<lambda>b. show_nat (unat b)) bs"
  have s: "s = py_join (CHR ''.'') ?ps" using s len by (simp add: inet_ntoa_def)
  have nd: "CHR ''.'' \<notin> set (show_nat n)" for n
    by (rule show_nat_notin) code_simp
  have ws: "\<not> c_space (CHR ''.'')" by code_simp
  have tw: "takeWhile (\<lambda>c. \<not> c_space c) s = s"
    using ws by (intro takeWhile_all) (auto simp: s bs dest: c_space_ws show_nat_not_ws)
  have sp: "py_split (CHR ''.'') s = ?ps"
    unfolding s by (rule py_split_join) (auto simp: bs nd)
  have "unat x < 256" for x :: byte using unsigned_less [of x, where 'a = nat] by simp
  then show ?thesis
    unfolding inet_aton_def tw sp by (simp add: bs aton_part_show_nat)
qed

text \<open>A character that is no digit, sign, underscore or white space is not part of a decimal integer.\<close>

lemma dropWhile_keeps: "x \<in> set s \<Longrightarrow> \<not> P x \<Longrightarrow> x \<in> set (dropWhile P s)"
  by (induction s) auto

lemma drop_us_keeps: "drop_us s = Some v \<Longrightarrow> c \<in> set s \<Longrightarrow> c \<noteq> CHR ''_'' \<Longrightarrow> c \<in> set v"
  by (induction s arbitrary: v rule: drop_us.induct) (auto split: if_splits)

lemma digits_val_bad: "c \<in> set s \<Longrightarrow> digit_val c = None \<Longrightarrow> digits_val b acc s = None"
  by (induction s arbitrary: acc) (auto split: option.split)

lemma py_int_colon:
  assumes "CHR '':'' \<in> set s"
  shows "py_int 10 s = Inl ValueError"
proof -
  define t where "t = py_strip s"
  have "\<not> is_ws (CHR '':'')" by code_simp
  then have t: "CHR '':'' \<in> set t"
    using assms by (simp add: t_def py_strip_def dropWhile_keeps)
  define u where "u = (if t \<noteq> [] \<and> (hd t = CHR ''-'' \<or> hd t = CHR ''+'') then tl t else t)"
  have u: "CHR '':'' \<in> set u" using t by (cases t) (auto simp: u_def)
  have b: "base_prefix 10 u = u" by (auto simp: base_prefix_def split: list.splits)
  have "digit_val (CHR '':'') = None" by code_simp
  then have "drop_us u = Some v \<Longrightarrow> parse_nat 10 v = None" for v
    using drop_us_keeps [OF _ u] digits_val_bad by (auto simp: parse_nat_def)
  then show ?thesis
    by (simp add: py_int_def t_def [symmetric] u_def [symmetric] b Let_def split: option.split)
qed

text \<open>\<open>str(n)\<close> of an integer, \<open>str.isnumeric\<close> on ASCII text, and reading a decimal numeral back.\<close>

definition show_int :: "int \<Rightarrow> string" where
  "show_int n = (if n < 0 then CHR ''-'' # show_nat (nat (- n)) else show_nat (nat n))"

definition py_isnumeric :: "string \<Rightarrow> bool" where
  "py_isnumeric s \<longleftrightarrow> s \<noteq> [] \<and> list_all (\<lambda>c. 48 \<le> ord_c c \<and> ord_c c \<le> 57) s"

lemma show_nat_digit: "x \<in> set (show_nat n) \<Longrightarrow> 48 \<le> ord_c x \<and> ord_c x \<le> 57"
  using set_show_nat [of n] by (auto simp: ord_digit_c)

lemma isnumeric_show_nat [simp]: "py_isnumeric (show_nat n)"
  by (simp add: py_isnumeric_def list_all_iff show_nat_digit)

lemma dropWhile_none: "\<forall>x\<in>set s. \<not> P x \<Longrightarrow> dropWhile P s = s"
  by (cases s) auto

lemma drop_us_none: "CHR ''_'' \<notin> set s \<Longrightarrow> drop_us s = Some s"
  by (induction s rule: drop_us.induct) auto

lemma py_int_show_nat [simp]: "py_int 10 (show_nat n) = Inr (int n)"
proof -
  have w: "py_strip (show_nat n) = show_nat n"
    by (simp add: py_strip_def dropWhile_none show_nat_not_ws)
  have neq: "c \<notin> set (show_nat n)" if "\<not> (48 \<le> ord_c c \<and> ord_c c \<le> 57)" for c
    using that show_nat_notin by blast
  have s: "CHR ''-'' \<notin> set (show_nat n)" "CHR ''+'' \<notin> set (show_nat n)" "CHR ''_'' \<notin> set (show_nat n)"
    by (rule neq, code_simp)+
  have "hd (show_nat n) \<in> set (show_nat n)" by (rule hd_in_set) simp
  with s have h: "hd (show_nat n) \<noteq> CHR ''-''" "hd (show_nat n) \<noteq> CHR ''+''" by metis+
  have b: "base_prefix 10 (show_nat n) = show_nat n" by (auto simp: base_prefix_def split: list.splits)
  show ?thesis by (simp add: py_int_def w h b drop_us_none s)
qed

end
