(* ===== verification/Ipv4.thy ===== *)
theory Ipv4
  imports PyStd
begin

unbundle bit_operations_syntax

text \<open>
  \<open>net/pcap/ip/ipv4.py\<close>: the RFC 1071 checksum and the IPv4 header codec. Lengths and
  header fields are Python integers (\<open>int\<close>), wire data is a list of bytes.
\<close>

section \<open>Checksum\<close>

definition IPV4_HDR_LEN :: nat where
  "IPV4_HDR_LEN = 20"

text \<open>\<open>total = (total & 0xffff) + (total >> 16)\<close>.\<close>

definition fold_carry :: "nat \<Rightarrow> nat" where
  "fold_carry t = (t AND 0xffff) + drop_bit 16 t"

lemma fold_carry_arith: "fold_carry t = t mod 65536 + t div 65536"
proof -
  have "t AND 0xffff = t mod 65536"
    using take_bit_eq_mask [of 16 t] by (simp add: take_bit_eq_mod mask_eq_exp_minus_1)
  then show ?thesis by (simp add: fold_carry_def drop_bit_eq_div)
qed

fun csum_loop :: "bytes \<Rightarrow> nat \<Rightarrow> nat" where
  "csum_loop (a # b # rest) t =
     csum_loop rest (fold_carry (t + (push_bit 8 (unat a) OR unat b)))"
| "csum_loop _ t = t"

text \<open>The final \<open>while total >> 16\<close> loop; it terminates because folding a value of at least
  65536 makes it smaller.\<close>

lemma fold_carry_less: "65536 \<le> t \<Longrightarrow> fold_carry t < t"
proof -
  assume "65536 \<le> t"
  then have "0 < t div 65536" by (simp add: div_greater_zero_iff)
  moreover have "t = t div 65536 * 65536 + t mod 65536" by simp
  ultimately show ?thesis unfolding fold_carry_arith by linarith
qed

function fold_all :: "nat \<Rightarrow> nat" where
  "fold_all t = (if drop_bit 16 t = 0 then t else fold_all (fold_carry t))"
  by pat_completeness auto
termination
  by (relation "measure id") (auto simp: drop_bit_eq_div intro!: fold_carry_less)

declare fold_all.simps [simp del]

definition checksum16 :: "bytes \<Rightarrow> int" where
  "checksum16 data =
     (let buf = (if odd (length data) then data @ [0] else data);
          t = fold_all (csum_loop buf 0)
      in NOT (int t) AND 0xffff)"

text \<open>The reference: the sum of the big-endian 16-bit words (an odd last byte is a high byte),
  reduced to its one's-complement representative: 0 only for a zero sum, otherwise in 1..65535.\<close>

fun word_sum :: "bytes \<Rightarrow> nat" where
  "word_sum [] = 0"
| "word_sum [a] = unat a * 256"
| "word_sum (a # b # rest) = unat a * 256 + unat b + word_sum rest"

definition ones_sum :: "nat \<Rightarrow> nat" where
  "ones_sum n = (if n = 0 then 0 else (n - 1) mod 65535 + 1)"

lemma ones_sum_unique:
  "r \<le> 65535 \<Longrightarrow> r mod 65535 = n mod 65535 \<Longrightarrow> r = 0 \<longleftrightarrow> n = 0 \<Longrightarrow> r = ones_sum n"
proof -
  assume r: "r \<le> 65535" and m: "r mod 65535 = n mod 65535" and z: "r = 0 \<longleftrightarrow> n = 0"
  show ?thesis
  proof (cases "n = 0")
    case False
    then obtain k where n: "n = Suc k" by (cases n) auto
    obtain l where l: "r = Suc l" using z False by (cases r) auto
    have "l mod 65535 = k mod 65535"
      using m unfolding n l by (simp add: mod_Suc split: if_splits)
    with r l n show ?thesis by (simp add: ones_sum_def)
  qed (use z in \<open>simp add: ones_sum_def\<close>)
qed

lemma ones_sum_le: "ones_sum n \<le> 65535"
proof -
  have "(n - 1) mod 65535 < 65535" by simp
  then show ?thesis unfolding ones_sum_def by (auto simp del: mod_less_divisor)
qed

lemma ones_sum_mod: "ones_sum n mod 65535 = n mod 65535"
  by (cases n) (auto simp: ones_sum_def mod_Suc_eq)

lemma ones_sum_0 [simp]: "ones_sum n = 0 \<longleftrightarrow> n = 0"
  by (simp add: ones_sum_def)

lemma fold_carry_small: "t \<le> 131070 \<Longrightarrow> fold_carry t = ones_sum t"
proof (rule ones_sum_unique)
  assume t: "t \<le> 131070"
  let ?q = "t div 65536" and ?r = "t mod 65536"
  have d: "t = ?q * 65536 + ?r" "?r < 65536" by simp_all
  show "fold_carry t \<le> 65535" unfolding fold_carry_arith using t d by linarith
  have "t = (?r + ?q) + ?q * 65535" using d by linarith
  then show "fold_carry t mod 65535 = t mod 65535"
    unfolding fold_carry_arith by (metis mod_mult_self2 mult.commute)
  show "fold_carry t = 0 \<longleftrightarrow> t = 0" unfolding fold_carry_arith using d by linarith
qed

lemma or_bytes: "push_bit 8 (unat a) OR unat b = unat a * 256 + unat (b :: byte)"
proof -
  have b: "unat b < 2 ^ 8" using unsigned_less [of b, where 'a = nat] by simp
  have "push_bit 8 (unat a) OR unat b = push_bit 8 (unat a) + unat b"
  proof (rule disjunctive_add [symmetric])
    fix n
    show "\<not> bit (push_bit 8 (unat a)) n \<or> \<not> bit (unat b) n"
      using b by (auto simp: bit_push_bit_iff bit_unsigned_iff dest: bit_imp_le_length)
  qed
  then show ?thesis by (simp add: push_bit_eq_mult)
qed

lemma unat_byte_less: "unat (b :: byte) < 256"
  using unsigned_less [of b, where 'a = nat] by simp

lemma word_sum_loop: "even (length bs) \<Longrightarrow> t \<le> 65535 \<Longrightarrow>
    csum_loop bs t \<le> 65535 \<and> csum_loop bs t mod 65535 = (t + word_sum bs) mod 65535
    \<and> (csum_loop bs t = 0 \<longleftrightarrow> t + word_sum bs = 0)"
proof (induction bs t rule: csum_loop.induct)
  case (1 a b rest t)
  let ?w = "unat a * 256 + unat b"
  have w: "?w \<le> 65535" using unat_byte_less [of a] unat_byte_less [of b] by linarith
  have f: "fold_carry (t + (push_bit 8 (unat a) OR unat b)) = ones_sum (t + ?w)"
    unfolding or_bytes using 1(3) w by (intro fold_carry_small) linarith
  have "(ones_sum (t + ?w) + word_sum rest) mod 65535 = (t + ?w + word_sum rest) mod 65535"
    by (metis ones_sum_mod mod_add_left_eq)
  then show ?case using 1 f ones_sum_le [of "t + ?w"] by (auto simp: add.assoc)
qed auto

lemma fold_all_small: "t \<le> 65535 \<Longrightarrow> fold_all t = t"
  by (subst fold_all.simps) (simp add: drop_bit_eq_div)

lemma not_and_mask16: "0 \<le> n \<Longrightarrow> n \<le> 65535 \<Longrightarrow> NOT n AND 0xffff = 65535 - (n :: int)"
proof -
  assume "0 \<le> n" "n \<le> 65535"
  then have "(- n - 1) mod 65536 = 65535 - n"
    by (subst mod_add_self2 [symmetric]) (simp add: mod_pos_pos_trivial)
  moreover have "NOT n AND 0xffff = take_bit 16 (NOT n)"
    by (simp add: take_bit_eq_mask mask_eq_exp_minus_1)
  ultimately show ?thesis by (simp add: take_bit_eq_mod not_eq_complement)
qed

lemma word_sum_pad: "word_sum (if odd (length bs) then bs @ [0] else bs) = word_sum bs"
  by (induction bs rule: word_sum.induct) auto

text \<open>The loop computes the complement of the reference sum.\<close>

lemma checksum16_spec: "checksum16 bs = 65535 - int (ones_sum (word_sum bs))"
proof -
  let ?buf = "if odd (length bs) then bs @ [0] else bs"
  let ?t = "csum_loop ?buf 0"
  have "even (length ?buf)" by simp
  from word_sum_loop [OF this, of 0]
  have t: "?t \<le> 65535" "?t mod 65535 = word_sum bs mod 65535" "?t = 0 \<longleftrightarrow> word_sum bs = 0"
    by (simp_all add: word_sum_pad)
  then have "?t = ones_sum (word_sum bs)" by (rule ones_sum_unique)
  then show ?thesis
    using t(1) unfolding checksum16_def Let_def
    by (simp add: fold_all_small not_and_mask16)
qed

lemma checksum16_bounds: "0 \<le> checksum16 bs" "checksum16 bs < 65536"
  using ones_sum_le [of "word_sum bs"] by (simp_all add: checksum16_spec)

lemma checksum16_zero: "checksum16 bs = 0 \<longleftrightarrow> 0 < word_sum bs \<and> 65535 dvd word_sum bs"
proof -
  have "checksum16 bs = 0 \<longleftrightarrow> ones_sum (word_sum bs) = 65535"
    using ones_sum_le [of "word_sum bs"] by (auto simp: checksum16_spec)
  also have "\<dots> \<longleftrightarrow> 0 < word_sum bs \<and> ones_sum (word_sum bs) mod 65535 = 0"
    using ones_sum_le [of "word_sum bs"] ones_sum_0 [of "word_sum bs"]
    by (cases "ones_sum (word_sum bs) = 65535") (auto simp: mod_eq_0_iff_dvd dest: dvd_imp_le)
  finally show ?thesis by (simp add: ones_sum_mod mod_eq_0_iff_dvd)
qed

lemma word_sum_append: "even (length xs) \<Longrightarrow> word_sum (xs @ ys) = word_sum xs + word_sum ys"
  by (induction xs rule: word_sum.induct) auto

lemma word_sum_be2: "0 \<le> n \<Longrightarrow> n < 65536 \<Longrightarrow> word_sum (be_bytes 2 n) = nat n"
proof -
  assume n: "0 \<le> n" "n < 65536"
  have e: "be_bytes 2 n = [word_of_int (n div 256), word_of_int n]"
    by (simp add: numeral_2_eq_2 be_bytes.simps)
  have "int (word_sum (be_bytes 2 n)) =
      uint (word_of_int (n div 256) :: byte) * 256 + uint (word_of_int n :: byte)"
    unfolding e by (simp only: word_sum.simps of_nat_add of_nat_mult uint_nat)
  also have "\<dots> = n" using n by (simp add: uint_word_of_int)
  finally show ?thesis by simp
qed

text \<open>Putting the checksum of the zeroed data into its field makes the data verify.\<close>

lemma checksum16_insert:
  assumes "even (length pre)"
  shows "checksum16 (pre @ be_bytes 2 (checksum16 (pre @ [0, 0] @ post)) @ post) = 0"
proof -
  let ?S = "word_sum (pre @ [0, 0] @ post)"
  let ?c = "checksum16 (pre @ [0, 0] @ post)"
  have S: "?S = word_sum pre + word_sum post"
    using assms by (simp add: word_sum_append)
  have c: "word_sum (be_bytes 2 ?c) = 65535 - ones_sum ?S"
    using ones_sum_le [of ?S] by (simp add: word_sum_be2 checksum16_bounds checksum16_spec)
  have T: "word_sum (pre @ be_bytes 2 ?c @ post) = ?S + (65535 - ones_sum ?S)"
    using assms c S by (simp add: word_sum_append)
  have "(?S + (65535 - ones_sum ?S)) mod 65535 = (ones_sum ?S + (65535 - ones_sum ?S)) mod 65535"
    by (rule mod_add_cong) (simp_all only: ones_sum_mod)
  also have "\<dots> = 0"
    unfolding le_add_diff_inverse [OF ones_sum_le] by (rule mod_self)
  finally have "65535 dvd ?S + (65535 - ones_sum ?S)" by (simp add: mod_eq_0_iff_dvd)
  moreover have "0 < ?S + (65535 - ones_sum ?S)"
    using ones_sum_0 [of ?S] by (cases "?S = 0") (auto simp: ones_sum_def)
  ultimately show ?thesis unfolding checksum16_zero T by simp
qed

section \<open>Header\<close>

datatype addr_arg = AStr string | ABytes bytes

definition addr_bytes :: "addr_arg \<Rightarrow> bytes result" where
  "addr_bytes a = (case a of AStr s \<Rightarrow> inet_aton s | ABytes b \<Rightarrow> Inr b)"

record Ipv4Header =
  ih_version :: int
  ih_ihl :: int
  ih_tos :: int
  ih_total_len :: int
  ih_ident :: int
  ih_flags :: int
  ih_frag_offset :: int
  ih_ttl :: int
  ih_proto :: int
  ih_checksum :: int
  ih_src :: bytes
  ih_dst :: bytes
  ih_header_len :: nat
  ih_payload_offset :: nat
  ih_raw_header :: bytes

definition src_str :: "Ipv4Header \<Rightarrow> string result" where
  "src_str h = inet_ntoa (ih_src h)"

definition dst_str :: "Ipv4Header \<Rightarrow> string result" where
  "dst_str h = inet_ntoa (ih_dst h)"

definition ipv4_fields :: "int \<Rightarrow> int \<Rightarrow> int \<Rightarrow> int \<Rightarrow> int \<Rightarrow> int \<Rightarrow> int \<Rightarrow> int \<Rightarrow> bytes \<Rightarrow> bytes \<Rightarrow> field list" where
  "ipv4_fields ver_ihl tos total_len ident frag ttl proto csum src dst =
     [FU 1 ver_ihl, FU 1 tos, FU 2 total_len, FU 2 ident, FU 2 frag, FU 1 ttl, FU 1 proto, FU 2 csum,
      FB 4 src, FB 4 dst]"

definition pack_ipv4 :: "addr_arg \<Rightarrow> addr_arg \<Rightarrow> int \<Rightarrow> bytes \<Rightarrow> int \<Rightarrow> int \<Rightarrow> int \<Rightarrow> int \<Rightarrow> int \<Rightarrow> bytes result" where
  "pack_ipv4 src_ip dst_ip proto payload ident ttl tos flags frag_offset =
     bindr (addr_bytes src_ip) (\<lambda>src.
     bindr (addr_bytes dst_ip) (\<lambda>dst.
       if length src \<noteq> 4 \<or> length dst \<noteq> 4 then Inl ValueError
       else
         let total_len = int (IPV4_HDR_LEN + length payload);
             ver_ihl = push_bit 4 4 OR 5;
             frag_field = (flags AND 0xe000) OR (frag_offset AND 0x1fff);
             mk = (\<lambda>csum. struct_pack (ipv4_fields ver_ihl tos total_len (ident AND 0xffff)
                              frag_field ttl proto csum src dst))
         in bindr (mk 0) (\<lambda>header.
            bindr (mk (checksum16 header)) (\<lambda>header'.
            Inr (header' @ payload)))))"

definition parse_ipv4 :: "bytes \<Rightarrow> (Ipv4Header \<times> bytes) result" where
  "parse_ipv4 buf =
     (if length buf < IPV4_HDR_LEN then Inl ValueError
      else
        let ver_ihl = byte_at 0 buf;
            version = drop_bit 4 ver_ihl AND 0xf;
            ihl = ver_ihl AND 0xf
        in if version \<noteq> 4 then Inl ValueError
           else if ihl < 5 then Inl ValueError
           else
             let header_len = nat (ihl * 4)
             in if length buf < header_len then Inl ValueError
                else
                  let total_len = rd 2 2 buf;
                      frag_field = rd 6 2 buf
                  in if total_len < int header_len then Inl ValueError
                     else Inr
                       (\<lparr>ih_version = version, ih_ihl = ihl, ih_tos = rd 1 1 buf,
                         ih_total_len = total_len, ih_ident = rd 4 2 buf,
                         ih_flags = frag_field AND 0xe000,
                         ih_frag_offset = frag_field AND 0x1fff,
                         ih_ttl = rd 8 1 buf, ih_proto = rd 9 1 buf, ih_checksum = rd 10 2 buf,
                         ih_src = pyslice 12 16 buf, ih_dst = pyslice 16 20 buf,
                         ih_header_len = header_len, ih_payload_offset = header_len,
                         ih_raw_header = pyslice 0 header_len buf\<rparr>,
                        if total_len \<le> int (length buf) then pyslice header_len (nat total_len) buf
                        else drop header_len buf))"

definition ipv4_validate_checksum :: "bytes \<Rightarrow> bool" where
  "ipv4_validate_checksum buf =
     (if length buf < IPV4_HDR_LEN then False
      else checksum16 (pyslice 0 (nat ((byte_at 0 buf AND 0xf) * 4)) buf) = 0)"

definition pseudo_header_ipv4 :: "addr_arg \<Rightarrow> addr_arg \<Rightarrow> int \<Rightarrow> int \<Rightarrow> bytes result" where
  "pseudo_header_ipv4 src_ip dst_ip proto l4_length =
     bindr (addr_bytes src_ip) (\<lambda>src.
     bindr (addr_bytes dst_ip) (\<lambda>dst.
       struct_pack [FB 4 src, FB 4 dst, FU 1 0, FU 1 proto, FU 2 l4_length]))"

section \<open>Properties\<close>

lemma and_low: "0 \<le> y \<Longrightarrow> 0 \<le> (x AND y :: int) \<and> x AND y \<le> y"
  by simp

lemma and_or_fields:
  "((a AND 0xe000) OR (b AND 0x1fff)) AND 0xe000 = (a AND 0xe000 :: int)"
  "((a AND 0xe000) OR (b AND 0x1fff)) AND 0x1fff = (b AND 0x1fff :: int)"
  by (simp_all add: bit.conj_disj_distrib2 and.assoc)

lemma or_frag_bounds: "0 \<le> ((a AND 0xe000) OR (b AND 0x1fff) :: int) \<and> (a AND 0xe000) OR (b AND 0x1fff) < 65536"
proof -
  have "(a AND 0xe000 :: int) \<le> 0xe000" "(b AND 0x1fff :: int) \<le> 0x1fff" by simp_all
  then have "(a AND 0xe000) OR (b AND 0x1fff) < (2::int) ^ 16" by (intro OR_upper) auto
  then show ?thesis by simp
qed

definition ipv4_wire :: "int \<Rightarrow> int \<Rightarrow> int \<Rightarrow> int \<Rightarrow> int \<Rightarrow> int \<Rightarrow> int \<Rightarrow> bytes \<Rightarrow> bytes \<Rightarrow> bytes" where
  "ipv4_wire tos total_len ident frag ttl proto csum src dst =
     be_bytes 1 69 @ be_bytes 1 tos @ be_bytes 2 total_len @ be_bytes 2 ident @ be_bytes 2 frag @
     be_bytes 1 ttl @ be_bytes 1 proto @ be_bytes 2 csum @ src @ dst"

lemma length_ipv4_wire [simp]:
  "length src = 4 \<Longrightarrow> length dst = 4 \<Longrightarrow> length (ipv4_wire tos tln ident frag ttl proto csum src dst) = 20"
  by (simp add: ipv4_wire_def)

lemma ipv4_fields_Inr:
  assumes "length src = 4" "length dst = 4"
  shows "struct_pack (ipv4_fields 69 tos tln ident frag ttl proto csum src dst) = Inr h \<longleftrightarrow>
    0 \<le> tos \<and> tos < 256 \<and> 0 \<le> tln \<and> tln < 65536 \<and> 0 \<le> ident \<and> ident < 65536 \<and>
    0 \<le> frag \<and> frag < 65536 \<and> 0 \<le> ttl \<and> ttl < 256 \<and> 0 \<le> proto \<and> proto < 256 \<and>
    0 \<le> csum \<and> csum < 65536 \<and> h = ipv4_wire tos tln ident frag ttl proto csum src dst"
  using assms by (auto simp: ipv4_fields_def bindr_eq_Inr pack_uint_Inr ipv4_wire_def)

lemma pack_ipv4_Inr:
  assumes "pack_ipv4 src_ip dst_ip proto payload ident ttl tos flags fo = Inr pkt"
  obtains src dst csum where
    "addr_bytes src_ip = Inr src" "addr_bytes dst_ip = Inr dst" "length src = 4" "length dst = 4"
    "0 \<le> tos" "tos < 256" "0 \<le> ttl" "ttl < 256" "0 \<le> proto" "proto < 256"
    "length payload < 65516"
    "csum = checksum16 (ipv4_wire tos (20 + int (length payload)) (ident AND 0xffff)
       ((flags AND 0xe000) OR (fo AND 0x1fff)) ttl proto 0 src dst)"
    "pkt = ipv4_wire tos (20 + int (length payload)) (ident AND 0xffff)
       ((flags AND 0xe000) OR (fo AND 0x1fff)) ttl proto csum src dst @ payload"
proof -
  have v: "push_bit 4 4 OR 5 = (69 :: int)" by simp
  show ?thesis
    using assms that
    by (auto simp: pack_ipv4_def v bindr_eq_Inr ipv4_fields_Inr IPV4_HDR_LEN_def Let_def
        split: if_splits)
qed

lemma ipv4_wire_split:
  "ipv4_wire tos tln ident frag ttl proto csum src dst =
     (be_bytes 1 69 @ be_bytes 1 tos @ be_bytes 2 tln @ be_bytes 2 ident @ be_bytes 2 frag @
      be_bytes 1 ttl @ be_bytes 1 proto) @ be_bytes 2 csum @ (src @ dst)"
  by (simp add: ipv4_wire_def)

lemma be_bytes_2_0: "be_bytes 2 0 = [0, 0]"
  by (simp add: numeral_2_eq_2 be_bytes.simps)

lemma ipv4_wire_checksum:
  "checksum16 (ipv4_wire tos tln ident frag ttl proto
     (checksum16 (ipv4_wire tos tln ident frag ttl proto 0 src dst)) src dst) = 0"
  unfolding ipv4_wire_split be_bytes_2_0 by (rule checksum16_insert) simp

lemma ipv4_roundtrip:
  assumes "pack_ipv4 src_ip dst_ip proto payload ident ttl tos flags fo = Inr pkt"
  shows "\<exists>hdr. parse_ipv4 (pkt @ pad) = Inr (hdr, payload)
    \<and> Inr (ih_src hdr) = addr_bytes src_ip \<and> Inr (ih_dst hdr) = addr_bytes dst_ip
    \<and> ih_proto hdr = proto \<and> ih_ttl hdr = ttl \<and> ih_tos hdr = tos
    \<and> ih_ident hdr = ident AND 0xffff \<and> ih_flags hdr = flags AND 0xe000
    \<and> ih_frag_offset hdr = fo AND 0x1fff
    \<and> ih_total_len hdr = 20 + int (length payload) \<and> ih_header_len hdr = 20
    \<and> ipv4_validate_checksum (pkt @ pad)"
proof -
  let ?fr = "(flags AND 0xe000) OR (fo AND 0x1fff)"
  let ?buf = "pkt @ pad"
  from assms obtain src dst csum where p:
    "addr_bytes src_ip = Inr src" "addr_bytes dst_ip = Inr dst" "length src = 4" "length dst = 4"
    "0 \<le> tos" "tos < 256" "0 \<le> ttl" "ttl < 256" "0 \<le> proto" "proto < 256"
    "length payload < 65516"
    and c: "csum = checksum16 (ipv4_wire tos (20 + int (length payload)) (ident AND 0xffff)
       ?fr ttl proto 0 src dst)"
    and pkt: "pkt = ipv4_wire tos (20 + int (length payload)) (ident AND 0xffff)
       ?fr ttl proto csum src dst @ payload"
    by (rule pack_ipv4_Inr)
  have len: "length ?buf = 20 + length payload + length pad" using p by (simp add: pkt)
  have b0: "byte_at 0 ?buf = 69"
    by (simp add: byte_at_rd len pkt ipv4_wire_def byte_simps)
  have i: "0 \<le> ident AND 0xffff" "ident AND 0xffff < 65536"
    using and_low [of "0xffff" ident] by auto
  have fr: "0 \<le> ?fr" "?fr < 65536" using or_frag_bounds by auto
  have fs: "rd 1 1 ?buf = tos" "rd 2 2 ?buf = 20 + int (length payload)"
    "rd 4 2 ?buf = ident AND 0xffff" "rd 6 2 ?buf = ?fr" "rd 8 1 ?buf = ttl" "rd 9 1 ?buf = proto"
    using p i fr by (simp_all add: pkt ipv4_wire_def byte_simps)
  have ad: "pyslice 12 16 ?buf = src" "pyslice 16 20 ?buf = dst"
    using p by (simp_all add: pkt ipv4_wire_def byte_simps pyslice_here)
  have pl: "pyslice 20 (20 + length payload) ?buf = payload"
    using p by (simp add: pkt pyslice_append_right pyslice_here)
  have v: "ipv4_validate_checksum ?buf"
    using p len b0 c ipv4_wire_checksum
    by (simp add: ipv4_validate_checksum_def IPV4_HDR_LEN_def pkt pyslice_here)
  show ?thesis
    using p len b0 fs ad pl v
    by (simp add: parse_ipv4_def IPV4_HDR_LEN_def and_or_fields nat_add_distrib)
qed

text \<open>C39. Whatever header \<open>pack_ipv4\<close> accepts to build, \<open>parse_ipv4\<close> reads back, also when
  link-layer padding follows the packet: the payload, both addresses and every header field come
  out as they went in (identification, flags and fragment offset masked to their widths), and the
  header checksum verifies.\<close>

theorem parse_pack_ipv4:
  assumes "pack_ipv4 src_ip dst_ip proto payload ident ttl tos flags fo = Inr pkt"
  shows "\<exists>hdr. parse_ipv4 (pkt @ pad) = Inr (hdr, payload)
    \<and> Inr (ih_src hdr) = addr_bytes src_ip \<and> Inr (ih_dst hdr) = addr_bytes dst_ip
    \<and> ih_proto hdr = proto \<and> ih_ttl hdr = ttl \<and> ih_tos hdr = tos
    \<and> ih_ident hdr = ident AND 0xffff \<and> ih_flags hdr = flags AND 0xe000
    \<and> ih_frag_offset hdr = fo AND 0x1fff
    \<and> ih_total_len hdr = 20 + int (length payload) \<and> ih_header_len hdr = 20
    \<and> ipv4_validate_checksum (pkt @ pad)"
  using assms by (rule ipv4_roundtrip)

theorem parse_pack_ipv4_witness:
  "\<exists>hdr pkt. parse_ipv4 pkt = Inr (hdr, [1, 2, 3]) \<and> ih_proto hdr = 6 \<and> ipv4_validate_checksum pkt"
proof -
  have "\<exists>pkt. pack_ipv4 (ABytes [10, 0, 0, 1]) (ABytes [10, 0, 0, 2]) 6 [1, 2, 3] 7 64 0 0x4000 0 = Inr pkt"
    by (simp add: pack_ipv4_def addr_bytes_def ipv4_fields_def IPV4_HDR_LEN_def checksum16_bounds)
  then show ?thesis using parse_pack_ipv4 [where pad = "[]"] by fastforce
qed

lemma ones_cong:
  assumes "65535 dvd R + x" "65535 dvd R + (y :: nat)" "x \<le> 65535" "y \<le> 65535"
  shows "x = y \<or> (x = 0 \<and> y = 65535) \<or> (x = 65535 \<and> y = 0)"
proof -
  have *: "u = v \<or> (u = 0 \<and> v = 65535)"
    if "65535 dvd R + u" "65535 dvd R + v" "u \<le> v" "v \<le> 65535" for u v :: nat
  proof -
    have "65535 dvd (R + v) - (R + u)" using that(1,2) by (rule dvd_diff_nat [rotated])
    then have "65535 dvd v - u" by simp
    then have "v - u = 0 \<or> 65535 \<le> v - u" by (auto dest: dvd_imp_le)
    with that show ?thesis by linarith
  qed
  show ?thesis
    using * [of x y] * [of y x] assms by (cases "x \<le> y") auto
qed

lemma byte_pair_eq:
  "unat a * 256 + unat b = unat c * 256 + unat (d :: byte) \<longleftrightarrow> a = c \<and> b = (d :: byte)"
proof
  assume e: "unat a * 256 + unat b = unat c * 256 + unat d"
  have l: "unat b < 256" "unat d < 256" by (rule unat_byte_less)+
  have "(unat a * 256 + unat b) mod 256 = (unat c * 256 + unat d) mod 256" by (simp only: e)
  then have "unat b = unat d" using l by simp
  with e have "unat a = unat c" by simp
  with \<open>unat b = unat d\<close> show "a = c \<and> b = d" by (simp add: word_unat_eq_iff)
qed simp

text \<open>C40. A corrupted datagram is detected: if two buffers differ in one aligned 16-bit word only
  and both verify, the words are equal, or they are the two encodings 0x0000 and 0xffff of zero in
  one's complement.\<close>

theorem checksum16_detects:
  assumes "even (length pre)"
    and "checksum16 (pre @ [a, b] @ post) = 0" and "checksum16 (pre @ [c, d] @ post) = 0"
  shows "(a = c \<and> b = d) \<or> {[a, b], [c, d]} = {[0, 0], [0xff, 0xff]}"
proof -
  let ?R = "word_sum pre + word_sum post"
  let ?x = "unat a * 256 + unat b" and ?y = "unat c * 256 + unat d"
  have b: "?x \<le> 65535" "?y \<le> 65535"
    using unat_byte_less [of a] unat_byte_less [of b] unat_byte_less [of c] unat_byte_less [of d]
    by linarith+
  have "65535 dvd ?R + ?x" "65535 dvd ?R + ?y"
    using assms by (simp_all add: checksum16_zero word_sum_append ac_simps)
  then have "?x = ?y \<or> (?x = 0 \<and> ?y = 65535) \<or> (?x = 65535 \<and> ?y = 0)"
    using b by (rule ones_cong)
  moreover have "unat u * 256 + unat v = 65535 \<longleftrightarrow> u = 0xff \<and> v = (0xff :: byte)" for u v :: byte
    using byte_pair_eq [of u v "0xff" "0xff"] by simp
  ultimately show ?thesis
    using byte_pair_eq [of a b c d] by (auto simp: unat_eq_0)
qed

theorem checksum16_detects_witness:
  "checksum16 [0, 0, 0xff, 0xff] = 0 \<and> checksum16 [0xff, 0xff, 0xff, 0xff] = 0
   \<and> ([0 :: byte, 0] = [0xff, 0xff] \<or> {[0 :: byte, 0], [0xff, 0xff]} = {[0, 0], [0xff, 0xff]})"
proof -
  have c: "checksum16 ([] @ [0, 0] @ [0xff, 0xff]) = 0"
    "checksum16 ([] @ [0xff, 0xff] @ [0xff, 0xff]) = 0"
    by (simp_all add: checksum16_zero)
  from checksum16_detects [OF _ c] c show ?thesis by simp
qed

end
