(* ===== verification/Ipv6.thy ===== *)
theory Ipv6
  imports Ipv4
begin

unbundle bit_operations_syntax

text \<open>
  \<open>net/pcap/ip/ipv6.py\<close>: the IPv6 header codec and pseudo-header, over a model of the standard
  library's \<open>socket.inet_pton\<close> for IPv6 text.
\<close>

section \<open>IPv6 text\<close>

definition v4_strict_part :: "string \<Rightarrow> byte option" where
  "v4_strict_part s =
     (if s = [] \<or> 3 < length s \<or> (1 < length s \<and> hd s = CHR ''0'') then None
      else (case parse_nat 10 s of
              None \<Rightarrow> None
            | Some n \<Rightarrow> if n < 256 then Some (of_nat n) else None))"

definition v4_strict :: "string \<Rightarrow> bytes option" where
  "v4_strict s =
     (let ps = py_split (CHR ''.'') s
      in if length ps \<noteq> 4 then None else those (map v4_strict_part ps))"

definition v6_group :: "string \<Rightarrow> bytes option" where
  "v6_group g =
     (if g = [] \<or> 4 < length g then None
      else map_option (\<lambda>n. be_bytes 2 (int n)) (parse_nat 16 g))"

text \<open>The groups of one side of \<open>::\<close>; only the last group of an address may be a dotted quad.\<close>

fun v6_groups :: "bool \<Rightarrow> string list \<Rightarrow> bytes option" where
  "v6_groups v4_ok [] = Some []"
| "v6_groups v4_ok (g # gs) =
     (if gs = [] \<and> v4_ok \<and> CHR ''.'' \<in> set g then v4_strict g
      else (case v6_group g of
              None \<Rightarrow> None
            | Some b \<Rightarrow> map_option ((@) b) (v6_groups v4_ok gs)))"

definition v6_side :: "bool \<Rightarrow> string \<Rightarrow> bytes option" where
  "v6_side v4_ok s = (if s = [] then Some [] else v6_groups v4_ok (py_split (CHR '':'') s))"

fun split_dcolon :: "string \<Rightarrow> (string \<times> string) option" where
  "split_dcolon (a # b # s) =
     (if a = CHR '':'' \<and> b = CHR '':'' then Some ([], s)
      else map_option (\<lambda>(l, r). (a # l, r)) (split_dcolon (b # s)))"
| "split_dcolon _ = None"

definition inet_pton6 :: "string \<Rightarrow> bytes result" where
  "inet_pton6 s =
     (case split_dcolon s of
        None \<Rightarrow>
          (case v6_side True s of
             None \<Rightarrow> Inl OSError
           | Some b \<Rightarrow> if length b = 16 then Inr b else Inl OSError)
      | Some (l, r) \<Rightarrow>
          (case (v6_side False l, v6_side True r) of
             (Some x, Some y) \<Rightarrow>
               if length x + length y \<le> 14
               then Inr (x @ replicate (16 - length x - length y) 0 @ y) else Inl OSError
           | _ \<Rightarrow> Inl OSError))"

lemma length_inet_pton6: "inet_pton6 s = Inr b \<Longrightarrow> length b = 16"
  by (auto simp: inet_pton6_def split: option.splits if_splits prod.splits)

section \<open>Header\<close>

definition IPV6_HDR_LEN :: nat where "IPV6_HDR_LEN = 40"

definition addr16 :: "addr_arg \<Rightarrow> bytes result" where
  "addr16 a = (case a of
       ABytes b \<Rightarrow> if length b = 16 then Inr b else Inl ValueError
     | AStr s \<Rightarrow> inet_pton6 s)"

lemma length_addr16: "addr16 a = Inr b \<Longrightarrow> length b = 16"
  by (auto simp: addr16_def length_inet_pton6 split: addr_arg.splits if_splits)

definition pack_ipv6 :: "addr_arg \<Rightarrow> addr_arg \<Rightarrow> int \<Rightarrow> bytes \<Rightarrow> int \<Rightarrow> int \<Rightarrow> int \<Rightarrow> bytes result" where
  "pack_ipv6 src_ip dst_ip next_header payload hop_limit traffic_class flow_label =
     bindr (addr16 src_ip) (\<lambda>src.
     bindr (addr16 dst_ip) (\<lambda>dst.
       let ver_tc_fl = push_bit 28 6 OR push_bit 20 (traffic_class AND 0xff) OR (flow_label AND 0xfffff)
       in bindr (struct_pack [FU 4 ver_tc_fl, FU 2 (int (length payload)), FU 1 next_header,
                              FU 1 hop_limit, FB 16 src, FB 16 dst]) (\<lambda>header.
          Inr (header @ payload))))"

record Ipv6Header =
  v6_version :: int
  v6_traffic_class :: int
  v6_flow_label :: int
  v6_payload_len :: int
  v6_next_header :: int
  v6_hop_limit :: int
  v6_src :: bytes
  v6_dst :: bytes

definition parse_ipv6 :: "bytes \<Rightarrow> (Ipv6Header \<times> bytes) result" where
  "parse_ipv6 buf =
     (if length buf < IPV6_HDR_LEN then Inl ValueError
      else
        let ver_tc_fl = rd 0 4 buf;
            payload_len = rd 4 2 buf;
            version = drop_bit 28 ver_tc_fl AND 0xf
        in if version \<noteq> 6 then Inl ValueError
           else Inr
             (\<lparr>v6_version = version,
               v6_traffic_class = drop_bit 20 ver_tc_fl AND 0xff,
               v6_flow_label = ver_tc_fl AND 0xfffff,
               v6_payload_len = payload_len,
               v6_next_header = rd 6 1 buf, v6_hop_limit = rd 7 1 buf,
               v6_src = pyslice 8 24 buf, v6_dst = pyslice 24 40 buf\<rparr>,
              pyslice IPV6_HDR_LEN (IPV6_HDR_LEN + nat payload_len) buf))"

definition pseudo_header_ipv6 :: "addr_arg \<Rightarrow> addr_arg \<Rightarrow> int \<Rightarrow> int \<Rightarrow> bytes result" where
  "pseudo_header_ipv6 src_ip dst_ip next_header l4_length =
     bindr (addr16 src_ip) (\<lambda>src.
     bindr (addr16 dst_ip) (\<lambda>dst.
       struct_pack [FB 16 src, FB 16 dst, FU 4 l4_length, FB 3 [], FU 1 next_header]))"

section \<open>Properties\<close>

lemma push_or_add:
  assumes "0 \<le> y" "y < 2 ^ k"
  shows "push_bit k x OR y = x * 2 ^ k + (y :: int)"
proof -
  have y: "y = take_bit k y" using assms by (simp add: take_bit_int_eq_self)
  have "push_bit k x AND y = 0"
    by (subst y, rule bit_eqI) (auto simp: bit_and_iff bit_push_bit_iff bit_take_bit_iff)
  then have "push_bit k x OR y = push_bit k x + y"
    by (simp add: plus_and_or [of "push_bit k x" y, symmetric])
  then show ?thesis by (simp add: push_bit_eq_mult)
qed

lemma v6_word:
  fixes a b :: int
  defines "t \<equiv> a AND 0xff" and "f \<equiv> b AND 0xfffff"
  shows "push_bit 28 6 OR push_bit 20 t OR f = 6 * 2 ^ 28 + t * 2 ^ 20 + f"
    and "0 \<le> t" "t < 2 ^ 8" "0 \<le> f" "f < 2 ^ 20"
proof -
  have m: "t = take_bit 8 a" "f = take_bit 20 b"
    by (simp_all add: t_def f_def take_bit_eq_mask mask_eq_exp_minus_1)
  then show b: "0 \<le> t" "t < 2 ^ 8" "0 \<le> f" "f < 2 ^ 20"
    by (simp_all only: take_bit_nonnegative take_bit_int_less_exp)
  have "0 \<le> t * 2 ^ 20 + f" "t * 2 ^ 20 + f < 2 ^ 28" using b by simp_all
  then show "push_bit 28 6 OR push_bit 20 t OR f = 6 * 2 ^ 28 + t * 2 ^ 20 + f"
    using b by (simp only: or.assoc push_or_add)
qed

lemma v6_word_fields:
  fixes t f :: int
  assumes "0 \<le> t" "t < 2 ^ 8" "0 \<le> f" "f < 2 ^ 20"
  defines "w \<equiv> 6 * 2 ^ 28 + t * 2 ^ 20 + f"
  shows "drop_bit 28 w AND 0xf = 6" "drop_bit 20 w AND 0xff = t" "w AND 0xfffff = f"
    "0 \<le> w" "w < 256 ^ 4"
proof -
  have e: "w = f + (6 * 2 ^ 8 + t) * 2 ^ 20" by (simp add: w_def)
  have d: "w div 2 ^ 28 = 6" "w div 2 ^ 20 = 6 * 2 ^ 8 + t"
    using assms by (simp_all add: w_def)
  have t: "(6 * 2 ^ 8 + t) mod 2 ^ 8 = t"
    unfolding mod_mult_self3 using assms(1,2) by simp
  have m: "w mod 2 ^ 20 = f" unfolding e mod_mult_self1 using assms(3,4) by simp
  have a: "x AND 0xff = x mod 2 ^ 8" "x AND 0xfffff = x mod 2 ^ 20" for x :: int
    using take_bit_eq_mask [of 8 x] take_bit_eq_mask [of 20 x]
    by (simp_all add: take_bit_eq_mod mask_eq_exp_minus_1)
  show "drop_bit 28 w AND 0xf = 6" "drop_bit 20 w AND 0xff = t" "w AND 0xfffff = f"
    using assms(1-4) by (simp_all only: drop_bit_eq_div d m a t) simp_all
  show "0 \<le> w" "w < 256 ^ 4" using assms(1-4) by (simp_all add: w_def)
qed

text \<open>\<open>parse_ipv6\<close> reads back what \<open>pack_ipv6\<close> built: payload, addresses, next header, hop
  limit, and traffic class and flow label masked to 8 and 20 bits.\<close>

theorem parse_pack_ipv6:
  assumes "pack_ipv6 src_ip dst_ip nh payload hop tc fl = Inr pkt"
  shows "\<exists>hdr. parse_ipv6 pkt = Inr (hdr, payload)
    \<and> Inr (v6_src hdr) = addr16 src_ip \<and> Inr (v6_dst hdr) = addr16 dst_ip
    \<and> v6_next_header hdr = nh \<and> v6_hop_limit hdr = hop
    \<and> v6_traffic_class hdr = tc AND 0xff \<and> v6_flow_label hdr = fl AND 0xfffff
    \<and> v6_payload_len hdr = int (length payload)"
proof -
  let ?t = "tc AND 0xff" and ?f = "fl AND 0xfffff"
  let ?w = "6 * 2 ^ 28 + ?t * 2 ^ 20 + ?f"
  note b = v6_word(2,3) [of tc] v6_word(4,5) [of fl]
  note w = v6_word_fields [OF b]
  from assms obtain src dst where a: "addr16 src_ip = Inr src" "addr16 dst_ip = Inr dst"
    and n: "0 \<le> nh" "nh < 256" "0 \<le> hop" "hop < 256" "length payload < 65536"
    and p: "pkt = be_bytes 4 ?w @ be_bytes 2 (int (length payload)) @ be_bytes 1 nh @
      be_bytes 1 hop @ src @ dst @ payload"
    unfolding pack_ipv6_def v6_word(1) Let_def
    by (auto simp: bindr_eq_Inr pack_uint_Inr length_addr16)
  have l: "length src = 16" "length dst = 16" using a by (auto dest: length_addr16)
  have r: "rd 0 4 pkt = ?w" unfolding p by (rule rd_here [OF w(4,5)])
  have fs: "rd 4 2 pkt = int (length payload)" "rd 6 1 pkt = nh" "rd 7 1 pkt = hop"
    using n l by (simp_all add: p byte_simps)
  have ad: "pyslice 8 24 pkt = src" "pyslice 24 40 pkt = dst"
    "pyslice 40 (40 + length payload) pkt = payload"
    using l by (simp_all add: p byte_simps pyslice_here pyslice_full)
  have len: "length pkt = 40 + length payload" using l by (simp add: p)
  show ?thesis
    using a fs ad len w(1-3)
    by (simp add: parse_ipv6_def IPV6_HDR_LEN_def r Let_def)
qed

theorem parse_pack_ipv6_witness:
  "\<exists>hdr pkt. parse_ipv6 pkt = Inr (hdr, [7, 8]) \<and> v6_flow_label hdr = 5 \<and> v6_hop_limit hdr = 64"
proof -
  have "\<exists>pkt. pack_ipv6 (ABytes (replicate 16 1)) (ABytes (replicate 16 2)) 6 [7, 8] 64 0 5 = Inr pkt"
    by (simp add: pack_ipv6_def addr16_def Let_def)
  then obtain pkt
    where "pack_ipv6 (ABytes (replicate 16 1)) (ABytes (replicate 16 2)) 6 [7, 8] 64 0 5 = Inr pkt" ..
  from parse_pack_ipv6 [OF this] show ?thesis by auto
qed

end
