(* ===== verification/TcpSegment.thy ===== *)
theory TcpSegment
  imports Ipv6 "HOL-Library.Sublist"
begin

unbundle bit_operations_syntax

text \<open>
  \<open>net/pcap/tcp/segment.py\<close>: the TCP segment record, its options, and the wire codec with the
  pseudo-header checksum. The source masks \<open>seq\<close> and \<open>ack\<close> to 32 bits, \<open>flags\<close> to 8 and
  \<open>window\<close> and \<open>urgent\<close> to 16 in the constructor: here these masks are the word types. Ports are
  unbounded integers, checked by \<open>struct.pack\<close>.
\<close>

section \<open>Segments\<close>

definition TCP_HDR_MIN :: nat where "TCP_HDR_MIN = 20"

definition FLAG_FIN :: byte where "FLAG_FIN = 0x01"
definition FLAG_SYN :: byte where "FLAG_SYN = 0x02"
definition FLAG_RST :: byte where "FLAG_RST = 0x04"
definition FLAG_PSH :: byte where "FLAG_PSH = 0x08"
definition FLAG_ACK :: byte where "FLAG_ACK = 0x10"
definition OPT_EOL :: byte where "OPT_EOL = 0"
definition OPT_NOP :: byte where "OPT_NOP = 1"
definition OPT_MSS :: byte where "OPT_MSS = 2"

lemmas flag_defs = FLAG_FIN_def FLAG_SYN_def FLAG_RST_def FLAG_PSH_def FLAG_ACK_def
lemmas opt_defs = OPT_EOL_def OPT_NOP_def OPT_MSS_def

record TcpSegment =
  sg_src_port :: int
  sg_dst_port :: int
  sg_seq :: "32 word"
  sg_ack :: "32 word"
  sg_data_offset :: nat
  sg_flags :: byte
  sg_window :: "16 word"
  sg_checksum :: int
  sg_urgent :: "16 word"
  sg_options :: bytes
  sg_payload :: bytes

definition tcp_segment ::
  "int \<Rightarrow> int \<Rightarrow> 32 word \<Rightarrow> 32 word \<Rightarrow> byte \<Rightarrow> 16 word \<Rightarrow> bytes \<Rightarrow> bytes \<Rightarrow> 16 word \<Rightarrow> TcpSegment" where
  "tcp_segment src_port dst_port seq ack flags window options payload urgent =
     \<lparr>sg_src_port = src_port, sg_dst_port = dst_port, sg_seq = seq, sg_ack = ack,
      sg_data_offset = (TCP_HDR_MIN + length options + 3) div 4,
      sg_flags = flags, sg_window = window, sg_checksum = 0, sg_urgent = urgent,
      sg_options = options, sg_payload = payload\<rparr>"

definition has_flag :: "TcpSegment \<Rightarrow> byte \<Rightarrow> bool" where
  "has_flag seg msk \<longleftrightarrow> sg_flags seg AND msk \<noteq> 0"

definition header_len_bytes :: "TcpSegment \<Rightarrow> nat" where
  "header_len_bytes seg = sg_data_offset seg * 4"

definition segment_length :: "TcpSegment \<Rightarrow> nat" where
  "segment_length seg =
     (let n = length (sg_payload seg);
          n = (if sg_flags seg AND FLAG_SYN \<noteq> 0 then n + 1 else n);
          n = (if sg_flags seg AND FLAG_FIN \<noteq> 0 then n + 1 else n)
      in n)"

section \<open>Options\<close>

definition pad_options :: "bytes \<Rightarrow> bytes" where
  "pad_options options =
     (let pad = (4 - length options mod 4) mod 4
      in if pad \<noteq> 0 then options @ replicate pad 0x01 else options)"

definition build_mss_option :: "int \<Rightarrow> bytes" where
  "build_mss_option mss = [OPT_MSS, 4] @ be_bytes 2 (mss AND 0xffff)"

text \<open>The loop over \<open>buf[i:]\<close>: every iteration but the last consumes at least one byte.\<close>

function parse_options :: "bytes \<Rightarrow> (byte \<times> bytes) list" where
  "parse_options buf =
     (case buf of
        [] \<Rightarrow> []
      | (kind # rest) \<Rightarrow>
          if kind = OPT_EOL then [(OPT_EOL, [])]
          else if kind = OPT_NOP then (OPT_NOP, []) # parse_options rest
          else (case rest of
                  [] \<Rightarrow> []
                | (len # _) \<Rightarrow>
                    if unat len < 2 \<or> length buf < unat len then []
                    else (kind, pyslice 2 (unat len) buf) # parse_options (drop (unat len) buf)))"
  by pat_completeness auto
termination by (relation "measure length") auto

declare parse_options.simps [simp del]

definition get_option :: "(byte \<times> bytes) list \<Rightarrow> byte \<Rightarrow> bytes option" where
  "get_option opts kind = map_option snd (find (\<lambda>(k, _). k = kind) opts)"

section \<open>The wire codec\<close>

definition tcp_pseudo_header :: "bool \<Rightarrow> addr_arg \<Rightarrow> addr_arg \<Rightarrow> nat \<Rightarrow> bytes result" where
  "tcp_pseudo_header ipv6 src_ip dst_ip n =
     (if ipv6 then pseudo_header_ipv6 src_ip dst_ip 6 (int n)
      else pseudo_header_ipv4 src_ip dst_ip 6 (int n))"

definition tcp_fields :: "TcpSegment \<Rightarrow> int \<Rightarrow> int \<Rightarrow> field list" where
  "tcp_fields seg off_resv_flags csum =
     [FU 2 (sg_src_port seg), FU 2 (sg_dst_port seg), FU 4 (uint (sg_seq seg)), FU 4 (uint (sg_ack seg)),
      FU 2 off_resv_flags, FU 2 (uint (sg_window seg)), FU 2 csum, FU 2 (uint (sg_urgent seg))]"

text \<open>Packing also stores the data offset and the checksum in the segment object.\<close>

definition pack_tcp_segment ::
  "TcpSegment \<Rightarrow> addr_arg \<Rightarrow> addr_arg \<Rightarrow> bool \<Rightarrow> (bytes \<times> TcpSegment) result" where
  "pack_tcp_segment seg src_ip dst_ip ipv6 =
     (let opts = pad_options (sg_options seg);
          data_offset = (TCP_HDR_MIN + length opts) div 4
      in if 15 < data_offset then Inl ValueError
         else
           let seg1 = seg\<lparr>sg_data_offset := data_offset\<rparr>;
               off_resv_flags = push_bit 12 (int data_offset) OR uint (sg_flags seg)
           in bindr (struct_pack (tcp_fields seg off_resv_flags 0)) (\<lambda>head0.
              let body = (head0 @ opts) @ sg_payload seg
              in bindr (tcp_pseudo_header ipv6 src_ip dst_ip (length body)) (\<lambda>ph.
                 let csum = checksum16 (ph @ body)
                 in bindr (struct_pack (tcp_fields seg off_resv_flags csum)) (\<lambda>head.
                    Inr ((head @ opts) @ sg_payload seg, seg1\<lparr>sg_checksum := csum\<rparr>)))))"

definition parse_tcp_segment :: "bytes \<Rightarrow> TcpSegment result" where
  "parse_tcp_segment buf =
     (if length buf < TCP_HDR_MIN then Inl ValueError
      else
        let off_resv_flags = rd 12 2 buf;
            data_offset = nat (drop_bit 12 off_resv_flags AND 0xf);
            flags = off_resv_flags AND 0xff
        in if data_offset < 5 then Inl ValueError
           else
             let hdr_len = data_offset * 4
             in if length buf < hdr_len then Inl ValueError
                else Inr
                  ((tcp_segment (rd 0 2 buf) (rd 2 2 buf) (word_of_int (rd 4 4 buf))
                      (word_of_int (rd 8 4 buf)) (word_of_int flags) (word_of_int (rd 14 2 buf))
                      (pyslice TCP_HDR_MIN hdr_len buf) (drop hdr_len buf)
                      (word_of_int (rd 18 2 buf)))
                   \<lparr>sg_data_offset := data_offset, sg_checksum := rd 16 2 buf\<rparr>))"

definition tcp_validate_checksum :: "bytes \<Rightarrow> addr_arg \<Rightarrow> addr_arg \<Rightarrow> bool \<Rightarrow> bool result" where
  "tcp_validate_checksum buf src_ip dst_ip ipv6 =
     (if length buf < TCP_HDR_MIN then Inr False
      else bindr (tcp_pseudo_header ipv6 src_ip dst_ip (length buf)) (\<lambda>ph.
             Inr (checksum16 (ph @ buf) = 0)))"

section \<open>Option lemmas\<close>

lemma length_pad_options: "length (pad_options opts) mod 4 = 0"
proof -
  let ?r = "length opts mod 4"
  have r: "?r < 4" by simp
  have d: "length opts = length opts div 4 * 4 + ?r" by simp
  show ?thesis
  proof (cases "?r = 0")
    case True
    then show ?thesis by (simp add: pad_options_def)
  next
    case False
    then have "length (pad_options opts) = length opts div 4 * 4 + 4"
      using r by (simp add: pad_options_def Let_def) (use d r in linarith)
    then show ?thesis by simp
  qed
qed

lemma pad_options_aligned: "length opts mod 4 = 0 \<Longrightarrow> pad_options opts = opts"
  by (simp add: pad_options_def)

text \<open>The re-encoding the docstring of \<open>parse_options\<close> promises to its callers.\<close>

definition encode_option :: "byte \<times> bytes \<Rightarrow> bytes" where
  "encode_option kd = (case kd of (k, d) \<Rightarrow>
     if k = OPT_EOL \<or> k = OPT_NOP then [k] else [k, of_nat (length d + 2)] @ d)"

definition encode_options :: "(byte \<times> bytes) list \<Rightarrow> bytes" where
  "encode_options os = concat (map encode_option os)"

lemma encode_options_simps [simp]:
  "encode_options [] = []"
  "encode_options (x # xs) = encode_option x @ encode_options xs"
  by (simp_all add: encode_options_def)

lemma parse_options_simps:
  "parse_options [] = []"
  "parse_options (OPT_EOL # rest) = [(OPT_EOL, [])]"
  "parse_options (OPT_NOP # rest) = (OPT_NOP, []) # parse_options rest"
  by (subst parse_options.simps; simp add: opt_defs)+

lemmas parse_options_lit = parse_options_simps [unfolded OPT_EOL_def OPT_NOP_def]

lemma parse_options_long:
  assumes "kind \<noteq> OPT_EOL" "kind \<noteq> OPT_NOP" "length d + 2 < 256"
  shows "parse_options (encode_option (kind, d) @ rest) = (kind, d) # parse_options rest"
proof -
  have u: "unat (of_nat (length d + 2) :: byte) = length d + 2"
    using assms(3) by (simp only: unat_of_nat) simp
  show ?thesis
    using assms u by (subst parse_options.simps)
      (simp add: encode_option_def pyslice_def del: of_nat_add)
qed

lemma parse_mss_option:
  "parse_options (build_mss_option mss @ rest) = (OPT_MSS, be_bytes 2 (mss AND 0xffff)) # parse_options rest"
  using parse_options_long [of OPT_MSS "be_bytes 2 (mss AND 0xffff)" rest]
  by (simp add: build_mss_option_def encode_option_def opt_defs)

text \<open>Every option list comes from the bytes: re-encoding gives back a prefix of the input.\<close>

lemma encode_parse_options: "prefix (encode_options (parse_options buf)) buf"
proof (induction buf rule: parse_options.induct)
  case (1 buf)
  show ?case
  proof (cases buf)
    case Nil
    then show ?thesis by (simp add: parse_options_simps)
  next
    case (Cons kind rest)
    show ?thesis
    proof (cases "kind = OPT_EOL \<or> kind = OPT_NOP")
      case True
      then show ?thesis
        using 1(1) [OF Cons] Cons by (auto simp: parse_options_lit encode_option_def opt_defs)
    next
      case False
      show ?thesis
      proof (cases rest)
        case Nil
        then show ?thesis using False Cons by (subst parse_options.simps) simp
      next
        case (Cons len rest')
        note buf = \<open>buf = kind # rest\<close> Cons
        show ?thesis
        proof (cases "unat len < 2 \<or> length buf < unat len")
          case True
          then show ?thesis using False buf by (subst parse_options.simps) auto
        next
          case ok: False
          let ?d = "pyslice 2 (unat len) buf"
          have l: "length ?d + 2 = unat len"
            unfolding length_pyslice using ok by arith
          have "of_nat (length ?d + 2) = len" unfolding l by simp
          then have e: "encode_option (kind, ?d) = take (unat len) buf"
            using False ok buf by (cases "unat len")
              (auto simp: encode_option_def pyslice_def take_Cons' numeral_2_eq_2)
          have "prefix (encode_options (parse_options (drop (unat len) buf))) (drop (unat len) buf)"
            using 1(2) False ok buf by simp
          moreover have "parse_options buf = (kind, ?d) # parse_options (drop (unat len) buf)"
            using False ok buf by (subst parse_options.simps) simp
          ultimately show ?thesis
            by (simp only: encode_options_simps e) (metis append_take_drop_id same_prefix_prefix)
        qed
      qed
    qed
  qed
qed

lemma parse_encode_options:
  assumes "\<forall>(k, d)\<in>set os. k \<noteq> OPT_EOL \<and> (k = OPT_NOP \<longrightarrow> d = []) \<and> length d + 2 < 256"
  shows "parse_options (encode_options os @ rest) = os @ parse_options rest"
  using assms
proof (induction os)
  case (Cons kd os)
  obtain k d where kd: "kd = (k, d)" by (cases kd)
  show ?case
  proof (cases "k = OPT_NOP")
    case True
    then show ?thesis using Cons kd by (auto simp: encode_option_def parse_options_lit opt_defs)
  next
    case False
    then show ?thesis using Cons kd parse_options_long [of k d] by auto
  qed
qed simp

text \<open>Options are a faithful reading of the header: re-encoding what \<open>parse_options\<close> returns
  gives exactly the leading bytes of its input, in order, and parsing an encoded list of options
  gives the list back.\<close>

theorem parse_options_reencode:
  assumes "\<forall>(k, d)\<in>set os. k \<noteq> OPT_EOL \<and> (k = OPT_NOP \<longrightarrow> d = []) \<and> length d + 2 < 256"
  shows "prefix (encode_options (parse_options buf)) buf \<and> parse_options (encode_options os) = os"
  using encode_parse_options [of buf] parse_encode_options [OF assms, of "[]"]
  by (simp add: parse_options_simps)

theorem parse_options_reencode_witness:
  "prefix (encode_options (parse_options [1, 2, 4, 5, 180, 99])) [1, 2, 4, 5, 180, 99]
   \<and> parse_options (encode_options [(1, []), (2, [5, 180]), (3, [7])]) = [(1, []), (2, [5, 180]), (3, [7])]"
  by (rule parse_options_reencode) (simp add: opt_defs)

section \<open>Codec lemmas\<close>

definition tcp_wire :: "TcpSegment \<Rightarrow> int \<Rightarrow> int \<Rightarrow> bytes" where
  "tcp_wire seg off csum =
     be_bytes 2 (sg_src_port seg) @ be_bytes 2 (sg_dst_port seg) @ be_bytes 4 (uint (sg_seq seg)) @
     be_bytes 4 (uint (sg_ack seg)) @ be_bytes 2 off @ be_bytes 2 (uint (sg_window seg)) @
     be_bytes 2 csum @ be_bytes 2 (uint (sg_urgent seg))"

lemma length_tcp_wire [simp]: "length (tcp_wire seg off csum) = 20"
  by (simp add: tcp_wire_def)

lemma uint_lt_pow: "uint (w :: 'a::len word) < 2 ^ LENGTH('a)"
  by (rule uint_lt2p)

lemma uint16_bounds: "0 \<le> uint (w :: 16 word)" "uint (w :: 16 word) < 65536"
  using uint_lt2p [of w] by simp_all

lemma uint32_bounds: "0 \<le> uint (w :: 32 word)" "uint (w :: 32 word) < 4294967296"
  using uint_lt2p [of w] by simp_all

lemma tcp_fields_Inr:
  "struct_pack (tcp_fields seg off csum) = Inr h \<longleftrightarrow>
     0 \<le> sg_src_port seg \<and> sg_src_port seg < 65536 \<and> 0 \<le> sg_dst_port seg \<and> sg_dst_port seg < 65536 \<and>
     0 \<le> off \<and> off < 65536 \<and> 0 \<le> csum \<and> csum < 65536 \<and> h = tcp_wire seg off csum"
  using uint16_bounds [of "sg_window seg"] uint16_bounds [of "sg_urgent seg"]
    uint32_bounds [of "sg_seq seg"] uint32_bounds [of "sg_ack seg"]
  by (auto simp: tcp_fields_def bindr_eq_Inr pack_uint_Inr tcp_wire_def)

lemma off_flags:
  fixes f :: byte
  assumes "d < 16"
  defines "w \<equiv> push_bit 12 (int d) OR uint f"
  shows "w = int d * 4096 + uint f" "0 \<le> w" "w < 65536"
    "drop_bit 12 w AND 0xf = int d" "w AND 0xff = uint f"
proof -
  have f: "0 \<le> uint f" "uint f < 256" by (rule uint_byte_bounds)+
  show w: "w = int d * 4096 + uint f"
    unfolding w_def using f push_or_add [of "uint f" 12 "int d"] by simp
  show b: "0 \<le> w" "w < 65536" using assms(1) f by (simp_all add: w)
  have m: "x AND 0xf = x mod 16" "x AND 0xff = x mod 256" for x :: int
    using take_bit_eq_mask [of 4 x] take_bit_eq_mask [of 8 x]
    by (simp_all add: take_bit_eq_mod mask_eq_exp_minus_1)
  have "w div 4096 = int d" using f by (simp add: w)
  then show "drop_bit 12 w AND 0xf = int d"
    using assms(1) by (simp add: drop_bit_eq_div m)
  have "w = uint f + (int d * 16) * 256" by (simp add: w)
  then have "w mod 256 = uint f mod 256" by (metis mod_mult_self1)
  then show "w AND 0xff = uint f" using f by (simp add: m)
qed

lemma tcp_pseudo_header_even: "tcp_pseudo_header v6 s d n = Inr ph \<Longrightarrow> even (length ph)"
  by (auto simp: tcp_pseudo_header_def pseudo_header_ipv4_def pseudo_header_ipv6_def bindr_eq_Inr
      pack_uint_Inr length_addr16 split: if_splits)

lemma pack_tcp_Inr:
  assumes "pack_tcp_segment seg src dst v6 = Inr (wire, seg')"
  obtains ph d where
    "d = (20 + length (pad_options (sg_options seg))) div 4" "d \<le> 15"
    "0 \<le> sg_src_port seg" "sg_src_port seg < 65536" "0 \<le> sg_dst_port seg" "sg_dst_port seg < 65536"
    "tcp_pseudo_header v6 src dst (20 + length (pad_options (sg_options seg)) + length (sg_payload seg)) = Inr ph"
    "sg_checksum seg' = checksum16 (ph @ tcp_wire seg (push_bit 12 (int d) OR uint (sg_flags seg)) 0
       @ pad_options (sg_options seg) @ sg_payload seg)"
    "wire = tcp_wire seg (push_bit 12 (int d) OR uint (sg_flags seg)) (sg_checksum seg')
       @ pad_options (sg_options seg) @ sg_payload seg"
    "seg' = seg\<lparr>sg_data_offset := d, sg_checksum := sg_checksum seg'\<rparr>"
proof -
  let ?o = "pad_options (sg_options seg)"
  let ?d = "(20 + length ?o) div 4"
  let ?off = "push_bit 12 (int ?d) OR uint (sg_flags seg)"
  have d: "?d \<le> 15"
  proof (rule ccontr)
    assume "\<not> ?d \<le> 15"
    then have "15 < ?d" by simp
    with assms show False by (simp add: pack_tcp_segment_def TCP_HDR_MIN_def Let_def)
  qed
  from assms d obtain h0 ph h where
    h0: "struct_pack (tcp_fields seg ?off 0) = Inr h0"
    and ph: "tcp_pseudo_header v6 src dst (length ((h0 @ ?o) @ sg_payload seg)) = Inr ph"
    and h: "struct_pack (tcp_fields seg ?off (checksum16 (ph @ (h0 @ ?o) @ sg_payload seg))) = Inr h"
    and r: "wire = (h @ ?o) @ sg_payload seg"
      "seg' = seg\<lparr>sg_data_offset := ?d, sg_checksum := checksum16 (ph @ (h0 @ ?o) @ sg_payload seg)\<rparr>"
    unfolding pack_tcp_segment_def TCP_HDR_MIN_def Let_def
    by (simp only: bindr_eq_Inr if_False not_less [symmetric] if_not_P prod.inject sum.inject) blast
  have h0': "h0 = tcp_wire seg ?off 0" using h0 by (simp only: tcp_fields_Inr)
  have h': "h = tcp_wire seg ?off (checksum16 (ph @ (h0 @ ?o) @ sg_payload seg))"
    using h by (simp only: tcp_fields_Inr)
  have ports: "0 \<le> sg_src_port seg" "sg_src_port seg < 65536" "0 \<le> sg_dst_port seg" "sg_dst_port seg < 65536"
    using h0 by (simp_all only: tcp_fields_Inr)
  have c: "sg_checksum seg' = checksum16 (ph @ (h0 @ ?o) @ sg_payload seg)" by (simp add: r(2))
  show ?thesis
  proof (rule that [of ?d ph])
    show "tcp_pseudo_header v6 src dst (20 + length ?o + length (sg_payload seg)) = Inr ph"
      using ph by (simp add: h0' add.assoc)
    show "seg' = seg\<lparr>sg_data_offset := ?d, sg_checksum := sg_checksum seg'\<rparr>"
      unfolding c by (rule r(2))
  qed (use d ports c in \<open>simp_all add: h0' h' r(1)\<close>)
qed

lemma tcp_roundtrip:
  assumes "pack_tcp_segment seg src dst v6 = Inr (wire, seg')"
  shows "parse_tcp_segment wire = Inr (seg'\<lparr>sg_options := pad_options (sg_options seg)\<rparr>)
    \<and> tcp_validate_checksum wire src dst v6 = Inr True"
proof -
  let ?o = "pad_options (sg_options seg)"
  from assms obtain ph d where
    d: "d = (20 + length ?o) div 4" "d \<le> 15"
    and p: "0 \<le> sg_src_port seg" "sg_src_port seg < 65536" "0 \<le> sg_dst_port seg" "sg_dst_port seg < 65536"
    and ph: "tcp_pseudo_header v6 src dst (20 + length ?o + length (sg_payload seg)) = Inr ph"
    and c: "sg_checksum seg' = checksum16 (ph @ tcp_wire seg (push_bit 12 (int d) OR uint (sg_flags seg)) 0
       @ ?o @ sg_payload seg)"
    and w: "wire = tcp_wire seg (push_bit 12 (int d) OR uint (sg_flags seg)) (sg_checksum seg')
       @ ?o @ sg_payload seg"
    and s: "seg' = seg\<lparr>sg_data_offset := d, sg_checksum := sg_checksum seg'\<rparr>"
    by (rule pack_tcp_Inr)
  let ?off = "push_bit 12 (int d) OR uint (sg_flags seg)"
  have d16: "d < 16" using d by simp
  note off = off_flags [OF d16, of "sg_flags seg"]
  have hl: "d * 4 = 20 + length ?o" using d length_pad_options [of "sg_options seg"] by auto
  have cb: "0 \<le> sg_checksum seg'" "sg_checksum seg' < 65536"
    unfolding c by (rule checksum16_bounds)+
  have len: "length wire = 20 + length ?o + length (sg_payload seg)" by (simp add: w)
  have rds: "rd 0 2 wire = sg_src_port seg" "rd 2 2 wire = sg_dst_port seg"
    "rd 4 4 wire = uint (sg_seq seg)" "rd 8 4 wire = uint (sg_ack seg)" "rd 12 2 wire = ?off"
    "rd 14 2 wire = uint (sg_window seg)" "rd 16 2 wire = sg_checksum seg'"
    "rd 18 2 wire = uint (sg_urgent seg)"
    using p off cb uint16_bounds [of "sg_window seg"] uint16_bounds [of "sg_urgent seg"]
      uint32_bounds [of "sg_seq seg"] uint32_bounds [of "sg_ack seg"]
    by (simp_all add: w tcp_wire_def byte_simps)
  have sl: "pyslice 20 (20 + length ?o) wire = ?o" "drop (20 + length ?o) wire = sg_payload seg"
    by (simp_all add: w pyslice_append_right pyslice_here)
  have d5: "\<not> d < 5" using d by simp
  have parse: "parse_tcp_segment wire = Inr (seg'\<lparr>sg_options := ?o\<rparr>)"
    using len hl rds off(4,5) sl d5
    by (subst s) (simp add: parse_tcp_segment_def TCP_HDR_MIN_def tcp_segment_def Let_def)
  let ?pre = "ph @ be_bytes 2 (sg_src_port seg) @ be_bytes 2 (sg_dst_port seg) @
    be_bytes 4 (uint (sg_seq seg)) @ be_bytes 4 (uint (sg_ack seg)) @ be_bytes 2 ?off @
    be_bytes 2 (uint (sg_window seg))"
  let ?post = "be_bytes 2 (uint (sg_urgent seg)) @ ?o @ sg_payload seg"
  have "checksum16 (?pre @ be_bytes 2 (checksum16 (?pre @ [0, 0] @ ?post)) @ ?post) = 0"
    using tcp_pseudo_header_even [OF ph] by (intro checksum16_insert) simp
  then have "checksum16 (ph @ wire) = 0"
    unfolding w c by (simp add: tcp_wire_def be_bytes_2_0)
  then have "tcp_validate_checksum wire src dst v6 = Inr True"
    using len ph by (simp add: tcp_validate_checksum_def TCP_HDR_MIN_def)
  with parse show ?thesis by simp
qed

text \<open>C18. A segment that \<open>pack_tcp_segment\<close> accepts comes back from \<open>parse_tcp_segment\<close>
  unchanged except that its options are padded to a multiple of four bytes, and with the data
  offset and checksum that packing stored; and the packed bytes pass \<open>validate_checksum\<close> for the
  same two addresses.\<close>

theorem parse_pack_tcp_segment:
  assumes "pack_tcp_segment seg src dst v6 = Inr (wire, seg')"
  shows "parse_tcp_segment wire = Inr (seg'\<lparr>sg_options := pad_options (sg_options seg)\<rparr>)
    \<and> tcp_validate_checksum wire src dst v6 = Inr True"
  using assms by (rule tcp_roundtrip)

theorem parse_pack_tcp_segment_witness:
  "\<exists>wire seg'. parse_tcp_segment wire = Inr (seg'\<lparr>sg_options := [2, 4, 5, 180]\<rparr>)
    \<and> tcp_validate_checksum wire (ABytes [10, 0, 0, 1]) (ABytes [10, 0, 0, 2]) False = Inr True"
proof -
  let ?s = "tcp_segment 1000 80 7 9 0x12 512 [2, 4, 5, 180] [1, 2, 3] 0"
  have "pad_options [2, 4, 5, 180] = [2, 4, 5, 180]" by (simp add: pad_options_def)
  then have "\<exists>wire seg'. pack_tcp_segment ?s (ABytes [10, 0, 0, 1]) (ABytes [10, 0, 0, 2]) False = Inr (wire, seg')"
    using off_flags [of 6 "0x12"]
    by (simp add: pack_tcp_segment_def TCP_HDR_MIN_def Let_def tcp_fields_def tcp_segment_def
        tcp_pseudo_header_def pseudo_header_ipv4_def addr_bytes_def checksum16_bounds)
  then obtain wire seg' where
    "pack_tcp_segment ?s (ABytes [10, 0, 0, 1]) (ABytes [10, 0, 0, 2]) False = Inr (wire, seg')" by blast
  from parse_pack_tcp_segment [OF this] show ?thesis
    by (auto simp: tcp_segment_def pad_options_def)
qed

end
