(* ===== verification/TcpState.thy ===== *)
theory TcpState
  imports TcpSegment
begin

unbundle bit_operations_syntax

text \<open>
  \<open>net/pcap/tcp/state.py\<close>: the TCP state machine. Sequence variables, which the source masks
  with \<open>0xffffffff\<close> after every update, are 32-bit words; the read and send buffers and the
  outbox are lists. The random initial sequence number is an argument \<open>iss\<close> of the operations
  that draw one.
\<close>

section \<open>State\<close>

datatype tcp_fsm =
    CLOSED | LISTEN | SYN_SENT | SYN_RECEIVED | ESTABLISHED | FIN_WAIT_1 | FIN_WAIT_2
  | CLOSE_WAIT | CLOSING | LAST_ACK | TIME_WAIT

definition seq_in_window :: "32 word \<Rightarrow> 32 word \<Rightarrow> 32 word \<Rightarrow> bool" where
  "seq_in_window seq win_start win_end =
     (let win_size = win_end - win_start; rel = seq - win_start in rel < win_size)"

record TcpState =
  ts_local_ip :: string
  ts_local_port :: int
  ts_remote_ip :: "string option"
  ts_remote_port :: int
  ts_state :: tcp_fsm
  ts_snd_nxt :: "32 word"
  ts_snd_una :: "32 word"
  ts_iss :: "32 word"
  ts_snd_wnd :: "16 word"
  ts_rcv_nxt :: "32 word"
  ts_irs :: "32 word"
  ts_rcv_wnd :: "16 word"
  ts_outbox :: "TcpSegment list"
  ts_read_buf :: bytes
  ts_send_buf :: bytes
  ts_unacked_data :: bytes
  ts_unacked_seq :: "32 word"
  ts_have_unacked :: bool
  ts_local_mss :: nat
  ts_peer_mss :: nat
  ts_fin_received :: bool
  ts_fin_sent :: bool
  ts_aborted :: bool
  ts_abort_reason :: "tcp_fsm option"

definition tcp_init :: "string \<Rightarrow> int \<Rightarrow> nat \<Rightarrow> TcpState" where
  "tcp_init local_ip local_port mss =
     \<lparr>ts_local_ip = local_ip, ts_local_port = local_port, ts_remote_ip = None, ts_remote_port = 0,
      ts_state = CLOSED, ts_snd_nxt = 0, ts_snd_una = 0, ts_iss = 0, ts_snd_wnd = 65535,
      ts_rcv_nxt = 0, ts_irs = 0, ts_rcv_wnd = 65535, ts_outbox = [], ts_read_buf = [],
      ts_send_buf = [], ts_unacked_data = [], ts_unacked_seq = 0, ts_have_unacked = False,
      ts_local_mss = mss, ts_peer_mss = mss, ts_fin_received = False, ts_fin_sent = False,
      ts_aborted = False, ts_abort_reason = None\<rparr>"

section \<open>Emitting segments\<close>

definition push_seg :: "TcpSegment \<Rightarrow> TcpState \<Rightarrow> TcpState" where
  "push_seg seg s = s\<lparr>ts_outbox := ts_outbox s @ [seg]\<rparr>"

definition seg_of :: "TcpState \<Rightarrow> 32 word \<Rightarrow> 32 word \<Rightarrow> byte \<Rightarrow> 16 word \<Rightarrow> bytes \<Rightarrow> bytes \<Rightarrow> TcpSegment" where
  "seg_of s seq ack flags window options payload =
     tcp_segment (ts_local_port s) (ts_remote_port s) seq ack flags window options payload 0"

definition emit :: "byte \<Rightarrow> bytes \<Rightarrow> 32 word option \<Rightarrow> TcpState \<Rightarrow> TcpState" where
  "emit flags payload ack s =
     (let seg = seg_of s (ts_snd_nxt s) (case ack of None \<Rightarrow> ts_rcv_nxt s | Some a \<Rightarrow> a)
                  flags (ts_rcv_wnd s) [] payload;
          seg = (if flags AND FLAG_SYN \<noteq> 0
                 then seg\<lparr>sg_options := build_mss_option (int (ts_local_mss s))\<rparr> else seg);
          s = push_seg seg s;
          adv = segment_length seg;
          s = s\<lparr>ts_snd_nxt := ts_snd_nxt s + of_nat adv\<rparr>;
          s = (if payload \<noteq> []
               then s\<lparr>ts_unacked_data := payload,
                      ts_unacked_seq := ts_snd_nxt s - of_nat (length payload),
                      ts_have_unacked := True\<rparr>
               else s)
      in (if flags AND FLAG_FIN \<noteq> 0 then s\<lparr>ts_fin_sent := True\<rparr> else s))"

definition emit_rst :: "32 word option \<Rightarrow> 32 word option \<Rightarrow> TcpState \<Rightarrow> TcpState" where
  "emit_rst seq ack s =
     (let flags = (if ack \<noteq> None then FLAG_RST OR FLAG_ACK else FLAG_RST)
      in push_seg (seg_of s (case seq of None \<Rightarrow> ts_snd_nxt s | Some q \<Rightarrow> q)
                     (case ack of None \<Rightarrow> 0 | Some a \<Rightarrow> a) flags 0 [] []) s)"

definition emit_pure_ack :: "TcpState \<Rightarrow> TcpState" where
  "emit_pure_ack s =
     push_seg (seg_of s (ts_snd_nxt s) (ts_rcv_nxt s) FLAG_ACK (ts_rcv_wnd s) [] []) s"

definition emit_syn_ack :: "TcpState \<Rightarrow> TcpState" where
  "emit_syn_ack s =
     push_seg (seg_of s (ts_iss s) (ts_rcv_nxt s) (FLAG_SYN OR FLAG_ACK) (ts_rcv_wnd s)
                 (build_mss_option (int (ts_local_mss s))) []) s"

section \<open>User calls\<close>

definition open_active :: "32 word \<Rightarrow> string \<Rightarrow> int \<Rightarrow> TcpState \<Rightarrow> TcpState result" where
  "open_active iss remote_ip remote_port s =
     (if ts_state s \<noteq> CLOSED then Inl ValueError
      else
        let s = s\<lparr>ts_remote_ip := Some remote_ip, ts_remote_port := remote_port, ts_iss := iss,
                  ts_snd_nxt := iss, ts_snd_una := iss\<rparr>;
            s = emit FLAG_SYN [] None s
        in Inr (s\<lparr>ts_state := SYN_SENT\<rparr>))"

definition open_listen :: "TcpState \<Rightarrow> TcpState result" where
  "open_listen s =
     (if ts_state s \<noteq> CLOSED then Inl ValueError else Inr (s\<lparr>ts_state := LISTEN\<rparr>))"

definition open_simul :: "32 word \<Rightarrow> string \<Rightarrow> int \<Rightarrow> TcpState \<Rightarrow> TcpState result" where
  "open_simul iss remote_ip remote_port s = open_active iss remote_ip remote_port s"

definition flush_send :: "TcpState \<Rightarrow> TcpState" where
  "flush_send s =
     (if ts_send_buf s = [] then s
      else if ts_have_unacked s then s
      else
        let chunk = take (ts_peer_mss s) (ts_send_buf s)
        in emit (FLAG_ACK OR FLAG_PSH) chunk None
             (s\<lparr>ts_send_buf := drop (length chunk) (ts_send_buf s)\<rparr>))"

definition tcp_write :: "bytes \<Rightarrow> TcpState \<Rightarrow> TcpState result" where
  "tcp_write data s =
     (if ts_state s \<in> {CLOSED, LISTEN, SYN_SENT, SYN_RECEIVED}
      then Inr (s\<lparr>ts_send_buf := ts_send_buf s @ data\<rparr>)
      else if ts_state s \<noteq> ESTABLISHED then Inl ValueError
      else Inr (flush_send (s\<lparr>ts_send_buf := ts_send_buf s @ data\<rparr>)))"

definition tcp_close :: "TcpState \<Rightarrow> TcpState" where
  "tcp_close s =
     (if ts_state s = CLOSED \<or> ts_state s = LISTEN then s\<lparr>ts_state := CLOSED\<rparr>
      else if ts_state s = SYN_SENT then s\<lparr>ts_state := CLOSED\<rparr>
      else if ts_state s = SYN_RECEIVED
        then (emit (FLAG_FIN OR FLAG_ACK) [] None s)\<lparr>ts_state := FIN_WAIT_1\<rparr>
      else if ts_state s = ESTABLISHED
        then (emit (FLAG_FIN OR FLAG_ACK) [] None s)\<lparr>ts_state := FIN_WAIT_1\<rparr>
      else if ts_state s = CLOSE_WAIT
        then (emit (FLAG_FIN OR FLAG_ACK) [] None s)\<lparr>ts_state := LAST_ACK\<rparr>
      else s)"

text \<open>\<open>pop_read(n)\<close>, with \<open>None\<close> for all bytes.\<close>

definition pop_read :: "nat option \<Rightarrow> TcpState \<Rightarrow> bytes \<times> TcpState" where
  "pop_read n s =
     (case n of
        None \<Rightarrow> (ts_read_buf s, s\<lparr>ts_read_buf := []\<rparr>)
      | Some k \<Rightarrow>
          if length (ts_read_buf s) \<le> k then (ts_read_buf s, s\<lparr>ts_read_buf := []\<rparr>)
          else (take k (ts_read_buf s), s\<lparr>ts_read_buf := drop k (ts_read_buf s)\<rparr>))"

definition is_established :: "TcpState \<Rightarrow> bool" where
  "is_established s \<longleftrightarrow> ts_state s = ESTABLISHED"

definition is_closed :: "TcpState \<Rightarrow> bool" where
  "is_closed s \<longleftrightarrow> ts_state s = CLOSED"

section \<open>Inbound segments\<close>

definition fin_acked :: "TcpState \<Rightarrow> bool" where
  "fin_acked s = (if \<not> ts_fin_sent s then False else ts_snd_una s = ts_snd_nxt s)"

definition read_peer_mss :: "TcpSegment \<Rightarrow> TcpState \<Rightarrow> TcpState" where
  "read_peer_mss seg s =
     (if \<not> has_flag seg FLAG_SYN then s
      else (case get_option (parse_options (sg_options seg)) OPT_MSS of
              None \<Rightarrow> s
            | Some raw \<Rightarrow>
                if length raw = 2 then s\<lparr>ts_peer_mss := max 536 (nat (be_val raw))\<rparr> else s))"

definition handle_rst :: "TcpSegment \<Rightarrow> TcpState \<Rightarrow> bool \<times> TcpState" where
  "handle_rst seg s =
     (if ts_state s = SYN_SENT \<and> \<not> has_flag seg FLAG_ACK then (False, s)
      else if ts_state s = SYN_SENT \<and> sg_ack seg \<noteq> ts_iss s + 1 then (False, s)
      else (True, s\<lparr>ts_aborted := True, ts_abort_reason := Some (ts_state s), ts_state := CLOSED\<rparr>))"

definition handle_peer_fin :: "TcpState \<Rightarrow> TcpState" where
  "handle_peer_fin s =
     (if ts_fin_received s then s
      else
        let s = emit_pure_ack (s\<lparr>ts_fin_received := True, ts_rcv_nxt := ts_rcv_nxt s + 1\<rparr>)
        in if ts_state s = ESTABLISHED then s\<lparr>ts_state := CLOSE_WAIT\<rparr>
           else if ts_state s = FIN_WAIT_1
             then (if fin_acked s then s\<lparr>ts_state := TIME_WAIT\<rparr> else s\<lparr>ts_state := CLOSING\<rparr>)
           else if ts_state s = FIN_WAIT_2 then s\<lparr>ts_state := TIME_WAIT\<rparr>
           else s)"

definition on_segment_listen :: "32 word \<Rightarrow> TcpSegment \<Rightarrow> string \<Rightarrow> TcpState \<Rightarrow> bool \<times> TcpState" where
  "on_segment_listen iss seg src_ip s =
     (if has_flag seg FLAG_ACK then (False, emit_rst (Some (sg_ack seg)) None s)
      else if \<not> has_flag seg FLAG_SYN then (False, s)
      else
        let s = s\<lparr>ts_remote_ip := Some src_ip, ts_remote_port := sg_src_port seg,
                  ts_irs := sg_seq seg, ts_rcv_nxt := sg_seq seg + 1,
                  ts_iss := iss, ts_snd_nxt := iss, ts_snd_una := iss\<rparr>;
            s = read_peer_mss seg s;
            s = emit (FLAG_SYN OR FLAG_ACK) [] None s
        in (True, s\<lparr>ts_state := SYN_RECEIVED\<rparr>))"

definition on_segment_syn_sent :: "TcpSegment \<Rightarrow> TcpState \<Rightarrow> bool \<times> TcpState" where
  "on_segment_syn_sent seg s =
     (if has_flag seg FLAG_ACK \<and> \<not> seq_in_window (sg_ack seg) (ts_snd_una s + 1) (ts_snd_nxt s + 1)
      then (False, s)
      else if \<not> has_flag seg FLAG_SYN then (False, s)
      else
        let s = s\<lparr>ts_irs := sg_seq seg, ts_rcv_nxt := sg_seq seg + 1\<rparr>;
            s = read_peer_mss seg s
        in if has_flag seg FLAG_ACK then
             let s = emit_pure_ack (s\<lparr>ts_snd_una := sg_ack seg, ts_snd_wnd := sg_window seg\<rparr>)
             in (True, flush_send (s\<lparr>ts_state := ESTABLISHED\<rparr>))
           else (True, (emit_syn_ack s)\<lparr>ts_state := SYN_RECEIVED\<rparr>))"

definition on_segment_syn_received :: "TcpSegment \<Rightarrow> TcpState \<Rightarrow> bool \<times> TcpState" where
  "on_segment_syn_received seg s =
     (if has_flag seg FLAG_SYN \<and> \<not> has_flag seg FLAG_ACK then (True, emit_syn_ack s)
      else if \<not> has_flag seg FLAG_ACK then (False, s)
      else if sg_ack seg \<noteq> ts_iss s + 1 then (False, s)
      else
        let s = s\<lparr>ts_snd_una := sg_ack seg, ts_snd_wnd := sg_window seg, ts_state := ESTABLISHED\<rparr>;
            s = (if sg_payload seg \<noteq> []
                 then emit_pure_ack
                        (s\<lparr>ts_read_buf := ts_read_buf s @ sg_payload seg,
                           ts_rcv_nxt := ts_rcv_nxt s + of_nat (length (sg_payload seg))\<rparr>)
                 else s);
            s = (if has_flag seg FLAG_FIN then handle_peer_fin s else s)
        in (True, flush_send s))"

text \<open>The stages of \<open>on_segment_established\<close>, in the order of the code: the acknowledgement,
  the payload, the FIN and the closing transitions.\<close>

definition est_ack :: "TcpSegment \<Rightarrow> TcpState \<Rightarrow> TcpState" where
  "est_ack seg s =
     (if has_flag seg FLAG_ACK then
        (if seq_in_window (sg_ack seg) (ts_snd_una s + 1) (ts_snd_nxt s + 1) then
           let s = s\<lparr>ts_snd_una := sg_ack seg, ts_snd_wnd := sg_window seg\<rparr>
           in if ts_have_unacked s then
                let end_seq = ts_unacked_seq s + of_nat (length (ts_unacked_data s))
                in if seq_in_window end_seq (ts_snd_una s) (ts_snd_una s + 1) \<or> end_seq = ts_snd_una s
                   then s\<lparr>ts_unacked_data := [], ts_have_unacked := False\<rparr>
                   else s
              else s
         else s)
      else s)"

definition est_payload :: "TcpSegment \<Rightarrow> TcpState \<Rightarrow> TcpState" where
  "est_payload seg s =
     (if sg_payload seg \<noteq> [] \<and> sg_seq seg = ts_rcv_nxt s
      then emit_pure_ack
             (s\<lparr>ts_read_buf := ts_read_buf s @ sg_payload seg,
                ts_rcv_nxt := ts_rcv_nxt s + of_nat (length (sg_payload seg))\<rparr>)
      else if sg_payload seg \<noteq> [] then emit_pure_ack s
      else s)"

text \<open>The FIN test compares unmasked Python integers.\<close>

definition est_fin :: "TcpSegment \<Rightarrow> TcpState \<Rightarrow> TcpState" where
  "est_fin seg s =
     (if has_flag seg FLAG_FIN \<and>
         uint (sg_seq seg) + int (length (sg_payload seg)) = uint (ts_rcv_nxt s)
      then handle_peer_fin s else s)"

definition est_close :: "TcpState \<Rightarrow> TcpState" where
  "est_close s =
     (let s = (if ts_state s = FIN_WAIT_1 \<and> fin_acked s
               then (if ts_fin_received s then s\<lparr>ts_state := TIME_WAIT\<rparr> else s\<lparr>ts_state := FIN_WAIT_2\<rparr>)
               else s);
          s = (if ts_state s = CLOSING \<and> fin_acked s then s\<lparr>ts_state := TIME_WAIT\<rparr> else s)
      in (if ts_state s = LAST_ACK \<and> fin_acked s then s\<lparr>ts_state := CLOSED\<rparr> else s))"

definition on_segment_established :: "TcpSegment \<Rightarrow> TcpState \<Rightarrow> bool \<times> TcpState" where
  "on_segment_established seg s =
     (if 0 < segment_length seg \<and>
         \<not> seq_in_window (sg_seq seg) (ts_rcv_nxt s)
             (ts_rcv_nxt s + word_of_int (max 1 (uint (ts_rcv_wnd s))))
      then (False, emit_pure_ack s)
      else
        let s = est_close (est_fin seg (est_payload seg (est_ack seg s)))
        in (True, if ts_state s = ESTABLISHED then flush_send s else s))"

definition on_segment :: "32 word \<Rightarrow> TcpSegment \<Rightarrow> string \<Rightarrow> TcpState \<Rightarrow> bool \<times> TcpState" where
  "on_segment iss seg src_ip s =
     (if ts_state s \<noteq> CLOSED \<and> ts_state s \<noteq> LISTEN \<and>
         (sg_src_port seg \<noteq> ts_remote_port s \<or> Some src_ip \<noteq> ts_remote_ip s)
      then (False, s)
      else if has_flag seg FLAG_RST then handle_rst seg s
      else (case ts_state s of
              CLOSED \<Rightarrow> (False, s)
            | LISTEN \<Rightarrow> on_segment_listen iss seg src_ip s
            | SYN_SENT \<Rightarrow> on_segment_syn_sent seg s
            | SYN_RECEIVED \<Rightarrow> on_segment_syn_received seg s
            | TIME_WAIT \<Rightarrow> (True, if has_flag seg FLAG_FIN then emit_pure_ack s else s)
            | _ \<Rightarrow> on_segment_established seg s))"

section \<open>Retransmission\<close>

text \<open>One round of \<open>retx_loop\<close> in \<open>net/pcap/tcp/conn.py\<close>, up to the flush: the outstanding
  block is queued again with its original sequence number.\<close>

definition retransmit :: "TcpState \<Rightarrow> TcpState" where
  "retransmit s =
     (if ts_have_unacked s \<and> ts_unacked_data s \<noteq> []
      then push_seg (seg_of s (ts_unacked_seq s) (ts_rcv_nxt s) (FLAG_ACK OR FLAG_PSH)
                       (ts_rcv_wnd s) [] (ts_unacked_data s)) s
      else s)"

end
