(* ===== verification/TcpInv.thy ===== *)
theory TcpInv
  imports TcpState
begin

unbundle bit_operations_syntax

text \<open>
  Lemmas on the TCP state machine: which fields each operation leaves alone, the transitions it
  may cause, the connection invariant over every history of calls, and what acknowledgements and
  resets can do.
\<close>

section \<open>Flags\<close>

lemma flag_and_simps [simp]:
  "FLAG_SYN \<noteq> 0" "FLAG_FIN \<noteq> 0" "FLAG_ACK \<noteq> 0" "FLAG_RST \<noteq> 0"
  "FLAG_SYN AND FLAG_SYN \<noteq> 0" "FLAG_FIN AND FLAG_FIN \<noteq> 0" "FLAG_ACK AND FLAG_ACK \<noteq> 0"
  "FLAG_SYN AND FLAG_FIN = 0" "FLAG_SYN AND FLAG_ACK = 0" "FLAG_SYN AND FLAG_RST = 0"
  "FLAG_ACK AND FLAG_SYN = 0" "FLAG_ACK AND FLAG_FIN = 0" "FLAG_ACK AND FLAG_RST = 0"
  "FLAG_RST AND FLAG_RST \<noteq> 0" "FLAG_RST AND FLAG_SYN = 0" "FLAG_RST AND FLAG_FIN = 0"
  "FLAG_RST AND FLAG_ACK = 0"
  "(FLAG_SYN OR FLAG_ACK) AND FLAG_SYN \<noteq> 0" "(FLAG_SYN OR FLAG_ACK) AND FLAG_ACK \<noteq> 0"
  "(FLAG_SYN OR FLAG_ACK) AND FLAG_FIN = 0" "(FLAG_SYN OR FLAG_ACK) AND FLAG_RST = 0"
  "(FLAG_FIN OR FLAG_ACK) AND FLAG_FIN \<noteq> 0" "(FLAG_FIN OR FLAG_ACK) AND FLAG_ACK \<noteq> 0"
  "(FLAG_FIN OR FLAG_ACK) AND FLAG_SYN = 0" "(FLAG_FIN OR FLAG_ACK) AND FLAG_RST = 0"
  "(FLAG_ACK OR FLAG_PSH) AND FLAG_ACK \<noteq> 0" "(FLAG_ACK OR FLAG_PSH) AND FLAG_FIN = 0"
  "(FLAG_ACK OR FLAG_PSH) AND FLAG_SYN = 0" "(FLAG_ACK OR FLAG_PSH) AND FLAG_RST = 0"
  by (simp_all add: flag_defs)

section \<open>Frame lemmas\<close>

lemma seg_of_simps [simp]:
  "sg_src_port (seg_of s q a f w os p) = ts_local_port s"
  "sg_dst_port (seg_of s q a f w os p) = ts_remote_port s"
  "sg_seq (seg_of s q a f w os p) = q" "sg_ack (seg_of s q a f w os p) = a"
  "sg_flags (seg_of s q a f w os p) = f" "sg_window (seg_of s q a f w os p) = w"
  "sg_options (seg_of s q a f w os p) = os" "sg_payload (seg_of s q a f w os p) = p"
  "sg_urgent (seg_of s q a f w os p) = 0"
  by (simp_all add: seg_of_def tcp_segment_def)

lemma has_flag_seg_of [simp]: "has_flag (seg_of s q a f w os p) m \<longleftrightarrow> f AND m \<noteq> 0"
  by (simp add: has_flag_def)

lemma has_flag_upd [simp]: "has_flag (g\<lparr>sg_options := x\<rparr>) m = has_flag g m"
  by (simp add: has_flag_def)

lemma segment_length_seg_of [simp]:
  "segment_length (seg_of s q a f w os p) =
     length p + (if f AND FLAG_SYN \<noteq> 0 then 1 else 0) + (if f AND FLAG_FIN \<noteq> 0 then 1 else 0)"
  by (simp add: segment_length_def)

lemma segment_length_upd [simp]: "segment_length (g\<lparr>sg_options := x\<rparr>) = segment_length g"
  by (simp add: segment_length_def)

lemma segment_length_0: "segment_length g = 0 \<longleftrightarrow>
    sg_payload g = [] \<and> \<not> has_flag g FLAG_SYN \<and> \<not> has_flag g FLAG_FIN"
  by (simp add: segment_length_def has_flag_def Let_def)

lemma emit_pure_ack_eq:
  "emit_pure_ack s = s\<lparr>ts_outbox := ts_outbox s @
     [seg_of s (ts_snd_nxt s) (ts_rcv_nxt s) FLAG_ACK (ts_rcv_wnd s) [] []]\<rparr>"
  by (simp add: emit_pure_ack_def push_seg_def)

lemma emit_pure_ack_fields [simp]:
  "ts_state (emit_pure_ack s) = ts_state s" "ts_snd_nxt (emit_pure_ack s) = ts_snd_nxt s"
  "ts_snd_una (emit_pure_ack s) = ts_snd_una s" "ts_rcv_nxt (emit_pure_ack s) = ts_rcv_nxt s"
  "ts_iss (emit_pure_ack s) = ts_iss s" "ts_read_buf (emit_pure_ack s) = ts_read_buf s"
  "ts_send_buf (emit_pure_ack s) = ts_send_buf s" "ts_unacked_data (emit_pure_ack s) = ts_unacked_data s"
  "ts_unacked_seq (emit_pure_ack s) = ts_unacked_seq s" "ts_have_unacked (emit_pure_ack s) = ts_have_unacked s"
  "ts_fin_received (emit_pure_ack s) = ts_fin_received s" "ts_fin_sent (emit_pure_ack s) = ts_fin_sent s"
  "ts_local_ip (emit_pure_ack s) = ts_local_ip s" "ts_local_port (emit_pure_ack s) = ts_local_port s"
  "ts_remote_ip (emit_pure_ack s) = ts_remote_ip s" "ts_remote_port (emit_pure_ack s) = ts_remote_port s"
  "ts_rcv_wnd (emit_pure_ack s) = ts_rcv_wnd s" "ts_snd_wnd (emit_pure_ack s) = ts_snd_wnd s"
  "ts_peer_mss (emit_pure_ack s) = ts_peer_mss s" "ts_local_mss (emit_pure_ack s) = ts_local_mss s"
  "ts_irs (emit_pure_ack s) = ts_irs s" "ts_aborted (emit_pure_ack s) = ts_aborted s"
  "ts_outbox (emit_pure_ack s) = ts_outbox s @
     [seg_of s (ts_snd_nxt s) (ts_rcv_nxt s) FLAG_ACK (ts_rcv_wnd s) [] []]"
  by (simp_all add: emit_pure_ack_eq)

lemma emit_syn_ack_fields [simp]:
  "ts_state (emit_syn_ack s) = ts_state s" "ts_snd_nxt (emit_syn_ack s) = ts_snd_nxt s"
  "ts_snd_una (emit_syn_ack s) = ts_snd_una s" "ts_rcv_nxt (emit_syn_ack s) = ts_rcv_nxt s"
  "ts_iss (emit_syn_ack s) = ts_iss s" "ts_read_buf (emit_syn_ack s) = ts_read_buf s"
  "ts_send_buf (emit_syn_ack s) = ts_send_buf s" "ts_unacked_data (emit_syn_ack s) = ts_unacked_data s"
  "ts_unacked_seq (emit_syn_ack s) = ts_unacked_seq s" "ts_have_unacked (emit_syn_ack s) = ts_have_unacked s"
  "ts_fin_received (emit_syn_ack s) = ts_fin_received s" "ts_fin_sent (emit_syn_ack s) = ts_fin_sent s"
  "ts_local_ip (emit_syn_ack s) = ts_local_ip s" "ts_local_port (emit_syn_ack s) = ts_local_port s"
  "ts_remote_ip (emit_syn_ack s) = ts_remote_ip s" "ts_remote_port (emit_syn_ack s) = ts_remote_port s"
  "ts_rcv_wnd (emit_syn_ack s) = ts_rcv_wnd s" "ts_snd_wnd (emit_syn_ack s) = ts_snd_wnd s"
  "ts_peer_mss (emit_syn_ack s) = ts_peer_mss s" "ts_local_mss (emit_syn_ack s) = ts_local_mss s"
  "ts_irs (emit_syn_ack s) = ts_irs s" "ts_aborted (emit_syn_ack s) = ts_aborted s"
  "ts_outbox (emit_syn_ack s) = ts_outbox s @
     [seg_of s (ts_iss s) (ts_rcv_nxt s) (FLAG_SYN OR FLAG_ACK) (ts_rcv_wnd s)
        (build_mss_option (int (ts_local_mss s))) []]"
  by (simp_all add: emit_syn_ack_def push_seg_def)

lemma emit_fields [simp]:
  "ts_state (emit f p a s) = ts_state s" "ts_snd_una (emit f p a s) = ts_snd_una s"
  "ts_rcv_nxt (emit f p a s) = ts_rcv_nxt s" "ts_iss (emit f p a s) = ts_iss s"
  "ts_read_buf (emit f p a s) = ts_read_buf s" "ts_send_buf (emit f p a s) = ts_send_buf s"
  "ts_fin_received (emit f p a s) = ts_fin_received s"
  "ts_local_ip (emit f p a s) = ts_local_ip s" "ts_local_port (emit f p a s) = ts_local_port s"
  "ts_remote_ip (emit f p a s) = ts_remote_ip s" "ts_remote_port (emit f p a s) = ts_remote_port s"
  "ts_rcv_wnd (emit f p a s) = ts_rcv_wnd s" "ts_snd_wnd (emit f p a s) = ts_snd_wnd s"
  "ts_peer_mss (emit f p a s) = ts_peer_mss s" "ts_local_mss (emit f p a s) = ts_local_mss s"
  "ts_irs (emit f p a s) = ts_irs s" "ts_aborted (emit f p a s) = ts_aborted s"
  "ts_fin_sent (emit f p a s) \<longleftrightarrow> ts_fin_sent s \<or> f AND FLAG_FIN \<noteq> 0"
  "ts_have_unacked (emit f p a s) \<longleftrightarrow> ts_have_unacked s \<or> p \<noteq> []"
  "ts_unacked_data (emit f p a s) = (if p = [] then ts_unacked_data s else p)"
  by (auto simp: emit_def push_seg_def Let_def)

lemma emit_snd_nxt [simp]:
  "ts_snd_nxt (emit f p a s) = ts_snd_nxt s + of_nat (length p)
     + (if f AND FLAG_SYN \<noteq> 0 then 1 else 0) + (if f AND FLAG_FIN \<noteq> 0 then 1 else 0)"
  by (auto simp: emit_def push_seg_def Let_def)

lemma emit_unacked_seq:
  "ts_unacked_seq (emit f p a s) =
     (if p = [] then ts_unacked_seq s else ts_snd_nxt (emit f p a s) - of_nat (length p))"
  by (auto simp: emit_def push_seg_def Let_def)

text \<open>The segment that \<open>emit\<close> queues.\<close>

definition emitted :: "byte \<Rightarrow> bytes \<Rightarrow> 32 word option \<Rightarrow> TcpState \<Rightarrow> TcpSegment" where
  "emitted f p a s =
     (let g = seg_of s (ts_snd_nxt s) (case a of None \<Rightarrow> ts_rcv_nxt s | Some x \<Rightarrow> x) f (ts_rcv_wnd s) [] p
      in if f AND FLAG_SYN \<noteq> 0
         then g\<lparr>sg_options := build_mss_option (int (ts_local_mss s))\<rparr> else g)"

lemma emitted_fields [simp]:
  "sg_src_port (emitted f p a s) = ts_local_port s" "sg_dst_port (emitted f p a s) = ts_remote_port s"
  "sg_seq (emitted f p a s) = ts_snd_nxt s" "sg_flags (emitted f p a s) = f"
  "sg_ack (emitted f p None s) = ts_rcv_nxt s" "sg_window (emitted f p a s) = ts_rcv_wnd s"
  "sg_payload (emitted f p a s) = p"
  "sg_options (emitted f p a s) =
     (if f AND FLAG_SYN \<noteq> 0 then build_mss_option (int (ts_local_mss s)) else [])"
  "has_flag (emitted f p a s) m \<longleftrightarrow> f AND m \<noteq> 0"
  by (simp_all add: emitted_def has_flag_def Let_def)

lemma emit_outbox [simp]: "ts_outbox (emit f p a s) = ts_outbox s @ [emitted f p a s]"
  by (auto simp: emit_def push_seg_def Let_def emitted_def)

lemma read_peer_mss_cases:
  obtains "read_peer_mss g s = s" | m where "536 \<le> m" "read_peer_mss g s = s\<lparr>ts_peer_mss := m\<rparr>"
proof -
  have "read_peer_mss g s = s \<or> (\<exists>m\<ge>536. read_peer_mss g s = s\<lparr>ts_peer_mss := m\<rparr>)"
    unfolding read_peer_mss_def
    by (auto split: option.split intro: exI [of _ "max 536 (nat (be_val x))" for x])
  then show thesis using that by blast
qed

lemma read_peer_mss_fields [simp]:
  "ts_state (read_peer_mss g s) = ts_state s" "ts_snd_nxt (read_peer_mss g s) = ts_snd_nxt s"
  "ts_snd_una (read_peer_mss g s) = ts_snd_una s" "ts_rcv_nxt (read_peer_mss g s) = ts_rcv_nxt s"
  "ts_iss (read_peer_mss g s) = ts_iss s" "ts_read_buf (read_peer_mss g s) = ts_read_buf s"
  "ts_send_buf (read_peer_mss g s) = ts_send_buf s" "ts_unacked_data (read_peer_mss g s) = ts_unacked_data s"
  "ts_unacked_seq (read_peer_mss g s) = ts_unacked_seq s" "ts_have_unacked (read_peer_mss g s) = ts_have_unacked s"
  "ts_fin_received (read_peer_mss g s) = ts_fin_received s" "ts_fin_sent (read_peer_mss g s) = ts_fin_sent s"
  "ts_local_ip (read_peer_mss g s) = ts_local_ip s" "ts_local_port (read_peer_mss g s) = ts_local_port s"
  "ts_remote_ip (read_peer_mss g s) = ts_remote_ip s" "ts_remote_port (read_peer_mss g s) = ts_remote_port s"
  "ts_rcv_wnd (read_peer_mss g s) = ts_rcv_wnd s" "ts_outbox (read_peer_mss g s) = ts_outbox s"
  "ts_local_mss (read_peer_mss g s) = ts_local_mss s" "ts_irs (read_peer_mss g s) = ts_irs s"
  "ts_aborted (read_peer_mss g s) = ts_aborted s"
  by (rule read_peer_mss_cases [of g s]; simp)+

text \<open>What \<open>flush_send\<close> can change: nothing, or one data segment is queued.\<close>

lemma flush_send_cases:
  obtains (idle) "flush_send s = s" "ts_send_buf s = [] \<or> ts_have_unacked s"
  | (send) chunk where "ts_send_buf s \<noteq> []" "\<not> ts_have_unacked s"
      "chunk = take (ts_peer_mss s) (ts_send_buf s)"
      "flush_send s = emit (FLAG_ACK OR FLAG_PSH) chunk None
         (s\<lparr>ts_send_buf := drop (length chunk) (ts_send_buf s)\<rparr>)"
proof (cases "ts_send_buf s = [] \<or> ts_have_unacked s")
  case True
  then show thesis by (intro idle) (auto simp: flush_send_def)
next
  case False
  then show thesis by (intro send [OF _ _ refl]) (auto simp: flush_send_def Let_def)
qed

lemma flush_send_fields [simp]:
  "ts_state (flush_send s) = ts_state s" "ts_snd_una (flush_send s) = ts_snd_una s"
  "ts_rcv_nxt (flush_send s) = ts_rcv_nxt s" "ts_iss (flush_send s) = ts_iss s"
  "ts_read_buf (flush_send s) = ts_read_buf s"
  "ts_fin_received (flush_send s) = ts_fin_received s" "ts_fin_sent (flush_send s) = ts_fin_sent s"
  "ts_local_ip (flush_send s) = ts_local_ip s" "ts_local_port (flush_send s) = ts_local_port s"
  "ts_remote_ip (flush_send s) = ts_remote_ip s" "ts_remote_port (flush_send s) = ts_remote_port s"
  "ts_rcv_wnd (flush_send s) = ts_rcv_wnd s" "ts_peer_mss (flush_send s) = ts_peer_mss s"
  "ts_local_mss (flush_send s) = ts_local_mss s" "ts_aborted (flush_send s) = ts_aborted s"
  "ts_irs (flush_send s) = ts_irs s"
  by (rule flush_send_cases [of s]; simp)+

lemma est_ack_fields [simp]:
  "ts_state (est_ack g s) = ts_state s" "ts_snd_nxt (est_ack g s) = ts_snd_nxt s"
  "ts_rcv_nxt (est_ack g s) = ts_rcv_nxt s" "ts_iss (est_ack g s) = ts_iss s"
  "ts_read_buf (est_ack g s) = ts_read_buf s" "ts_send_buf (est_ack g s) = ts_send_buf s"
  "ts_unacked_seq (est_ack g s) = ts_unacked_seq s" "ts_outbox (est_ack g s) = ts_outbox s"
  "ts_fin_received (est_ack g s) = ts_fin_received s" "ts_fin_sent (est_ack g s) = ts_fin_sent s"
  "ts_local_ip (est_ack g s) = ts_local_ip s" "ts_local_port (est_ack g s) = ts_local_port s"
  "ts_remote_ip (est_ack g s) = ts_remote_ip s" "ts_remote_port (est_ack g s) = ts_remote_port s"
  "ts_rcv_wnd (est_ack g s) = ts_rcv_wnd s" "ts_peer_mss (est_ack g s) = ts_peer_mss s"
  "ts_local_mss (est_ack g s) = ts_local_mss s" "ts_aborted (est_ack g s) = ts_aborted s"
  "ts_irs (est_ack g s) = ts_irs s"
  by (simp_all add: est_ack_def Let_def)

lemma est_payload_fields [simp]:
  "ts_state (est_payload g s) = ts_state s" "ts_snd_nxt (est_payload g s) = ts_snd_nxt s"
  "ts_snd_una (est_payload g s) = ts_snd_una s" "ts_iss (est_payload g s) = ts_iss s"
  "ts_send_buf (est_payload g s) = ts_send_buf s" "ts_unacked_data (est_payload g s) = ts_unacked_data s"
  "ts_unacked_seq (est_payload g s) = ts_unacked_seq s" "ts_have_unacked (est_payload g s) = ts_have_unacked s"
  "ts_fin_received (est_payload g s) = ts_fin_received s" "ts_fin_sent (est_payload g s) = ts_fin_sent s"
  "ts_local_ip (est_payload g s) = ts_local_ip s" "ts_local_port (est_payload g s) = ts_local_port s"
  "ts_remote_ip (est_payload g s) = ts_remote_ip s" "ts_remote_port (est_payload g s) = ts_remote_port s"
  "ts_rcv_wnd (est_payload g s) = ts_rcv_wnd s" "ts_peer_mss (est_payload g s) = ts_peer_mss s"
  "ts_local_mss (est_payload g s) = ts_local_mss s" "ts_aborted (est_payload g s) = ts_aborted s"
  "ts_irs (est_payload g s) = ts_irs s"
  by (simp_all add: est_payload_def Let_def)

lemma handle_peer_fin_fields [simp]:
  "ts_snd_nxt (handle_peer_fin s) = ts_snd_nxt s" "ts_snd_una (handle_peer_fin s) = ts_snd_una s"
  "ts_iss (handle_peer_fin s) = ts_iss s" "ts_read_buf (handle_peer_fin s) = ts_read_buf s"
  "ts_send_buf (handle_peer_fin s) = ts_send_buf s"
  "ts_unacked_data (handle_peer_fin s) = ts_unacked_data s"
  "ts_unacked_seq (handle_peer_fin s) = ts_unacked_seq s"
  "ts_have_unacked (handle_peer_fin s) = ts_have_unacked s"
  "ts_fin_received (handle_peer_fin s)" "ts_fin_sent (handle_peer_fin s) = ts_fin_sent s"
  "ts_local_ip (handle_peer_fin s) = ts_local_ip s" "ts_local_port (handle_peer_fin s) = ts_local_port s"
  "ts_remote_ip (handle_peer_fin s) = ts_remote_ip s" "ts_remote_port (handle_peer_fin s) = ts_remote_port s"
  "ts_rcv_wnd (handle_peer_fin s) = ts_rcv_wnd s" "ts_peer_mss (handle_peer_fin s) = ts_peer_mss s"
  "ts_local_mss (handle_peer_fin s) = ts_local_mss s" "ts_aborted (handle_peer_fin s) = ts_aborted s"
  "ts_irs (handle_peer_fin s) = ts_irs s"
  by (simp_all add: handle_peer_fin_def Let_def)

lemma est_close_fields [simp]:
  "ts_snd_nxt (est_close s) = ts_snd_nxt s" "ts_snd_una (est_close s) = ts_snd_una s"
  "ts_rcv_nxt (est_close s) = ts_rcv_nxt s" "ts_outbox (est_close s) = ts_outbox s"
  "ts_iss (est_close s) = ts_iss s" "ts_read_buf (est_close s) = ts_read_buf s"
  "ts_send_buf (est_close s) = ts_send_buf s"
  "ts_unacked_data (est_close s) = ts_unacked_data s"
  "ts_unacked_seq (est_close s) = ts_unacked_seq s"
  "ts_have_unacked (est_close s) = ts_have_unacked s"
  "ts_fin_received (est_close s) = ts_fin_received s" "ts_fin_sent (est_close s) = ts_fin_sent s"
  "ts_local_ip (est_close s) = ts_local_ip s" "ts_local_port (est_close s) = ts_local_port s"
  "ts_remote_ip (est_close s) = ts_remote_ip s" "ts_remote_port (est_close s) = ts_remote_port s"
  "ts_rcv_wnd (est_close s) = ts_rcv_wnd s" "ts_peer_mss (est_close s) = ts_peer_mss s"
  "ts_local_mss (est_close s) = ts_local_mss s" "ts_aborted (est_close s) = ts_aborted s"
  "ts_irs (est_close s) = ts_irs s"
  by (simp_all add: est_close_def Let_def)

section \<open>Possible transitions\<close>

text \<open>The transitions a received segment may cause at most, and those of the user's close call.
  (Which of them it causes is the subject of theory TcpGraph.) The flag says whether the segment carries RST; a reset may lead to CLOSED from
  every state, any other segment only from LAST_ACK.\<close>

inductive seg_edge :: "bool \<Rightarrow> tcp_fsm \<Rightarrow> tcp_fsm \<Rightarrow> bool" where
  stay: "seg_edge r a a"
| reset: "seg_edge True a CLOSED"
| listen: "seg_edge False LISTEN SYN_RECEIVED"
| syn_ack: "seg_edge False SYN_SENT ESTABLISHED"
| simul: "seg_edge False SYN_SENT SYN_RECEIVED"
| ack: "seg_edge False SYN_RECEIVED ESTABLISHED"
| ack_fin: "seg_edge False SYN_RECEIVED CLOSE_WAIT"
| fin: "seg_edge False ESTABLISHED CLOSE_WAIT"
| fin_ack: "seg_edge False FIN_WAIT_1 FIN_WAIT_2"
| both_fin: "seg_edge False FIN_WAIT_1 CLOSING"
| fin_fin_ack: "seg_edge False FIN_WAIT_1 TIME_WAIT"
| fin2: "seg_edge False FIN_WAIT_2 TIME_WAIT"
| closing: "seg_edge False CLOSING TIME_WAIT"
| last_ack: "seg_edge False LAST_ACK CLOSED"

inductive_simps seg_edge_from [simp]:
  "seg_edge r CLOSED b" "seg_edge r LISTEN b" "seg_edge r SYN_SENT b" "seg_edge r SYN_RECEIVED b"
  "seg_edge r ESTABLISHED b" "seg_edge r FIN_WAIT_1 b" "seg_edge r FIN_WAIT_2 b" "seg_edge r CLOSE_WAIT b"
  "seg_edge r CLOSING b" "seg_edge r LAST_ACK b" "seg_edge r TIME_WAIT b"

inductive close_edge :: "tcp_fsm \<Rightarrow> tcp_fsm \<Rightarrow> bool" where
  "close_edge CLOSED CLOSED"
| "close_edge LISTEN CLOSED"
| "close_edge SYN_SENT CLOSED"
| "close_edge SYN_RECEIVED FIN_WAIT_1"
| "close_edge ESTABLISHED FIN_WAIT_1"
| "close_edge CLOSE_WAIT LAST_ACK"
| "a \<in> {FIN_WAIT_1, FIN_WAIT_2, CLOSING, LAST_ACK, TIME_WAIT} \<Longrightarrow> close_edge a a"

lemma tcp_close_edge: "close_edge (ts_state s) (ts_state (tcp_close s))"
  by (cases "ts_state s") (auto simp: tcp_close_def close_edge.simps)

lemma handle_peer_fin_state:
  "ts_state (handle_peer_fin s) =
     (if ts_fin_received s then ts_state s
      else case ts_state s of
        ESTABLISHED \<Rightarrow> CLOSE_WAIT
      | FIN_WAIT_1 \<Rightarrow> (if fin_acked s then TIME_WAIT else CLOSING)
      | FIN_WAIT_2 \<Rightarrow> TIME_WAIT
      | st \<Rightarrow> st)"
  by (cases "ts_state s") (auto simp: handle_peer_fin_def Let_def fin_acked_def)

lemma est_fin_cases:
  obtains "est_fin g s = s"
  | "has_flag g FLAG_FIN" "uint (sg_seq g) + int (length (sg_payload g)) = uint (ts_rcv_nxt s)"
    "est_fin g s = handle_peer_fin s"
proof (cases "has_flag g FLAG_FIN \<and>
    uint (sg_seq g) + int (length (sg_payload g)) = uint (ts_rcv_nxt s)")
  case True
  then show thesis by (intro that(2)) (auto simp: est_fin_def)
next
  case False
  then show thesis by (intro that(1)) (auto simp: est_fin_def)
qed

lemma est_close_state:
  "ts_state (est_close s) =
     (if \<not> fin_acked s then ts_state s
      else case ts_state s of
        FIN_WAIT_1 \<Rightarrow> (if ts_fin_received s then TIME_WAIT else FIN_WAIT_2)
      | CLOSING \<Rightarrow> TIME_WAIT
      | LAST_ACK \<Rightarrow> CLOSED
      | st \<Rightarrow> st)"
  by (cases "ts_state s") (auto simp: est_close_def Let_def fin_acked_def)

text \<open>The state after the established-state stages, whatever the segment.\<close>

lemma est_stages_edge:
  assumes "ts_state s \<in> {ESTABLISHED, FIN_WAIT_1, FIN_WAIT_2, CLOSE_WAIT, CLOSING, LAST_ACK}"
  shows "seg_edge False (ts_state s) (ts_state (est_close (est_fin g (est_payload g (est_ack g s)))))"
proof -
  let ?a = "est_payload g (est_ack g s)"
  have a: "ts_state ?a = ts_state s" by simp
  show ?thesis
    by (rule est_fin_cases [of g ?a])
      (use assms a in \<open>auto simp: est_close_state handle_peer_fin_state fin_acked_def\<close>)
qed

lemma on_segment_established_edge:
  assumes "ts_state s \<in> {ESTABLISHED, FIN_WAIT_1, FIN_WAIT_2, CLOSE_WAIT, CLOSING, LAST_ACK}"
  shows "seg_edge False (ts_state s) (ts_state (snd (on_segment_established g s)))"
  using est_stages_edge [OF assms, of g]
  by (auto simp: on_segment_established_def Let_def intro: seg_edge.intros)

lemma on_segment_listen_edge:
  "ts_state s = LISTEN \<Longrightarrow> seg_edge False LISTEN (ts_state (snd (on_segment_listen iss g ip s)))"
  by (simp add: on_segment_listen_def Let_def emit_rst_def push_seg_def)

lemma on_segment_syn_sent_edge:
  "ts_state s = SYN_SENT \<Longrightarrow> seg_edge False SYN_SENT (ts_state (snd (on_segment_syn_sent g s)))"
  by (simp add: on_segment_syn_sent_def Let_def)

lemma on_segment_syn_received_edge:
  "ts_state s = SYN_RECEIVED \<Longrightarrow> seg_edge False SYN_RECEIVED (ts_state (snd (on_segment_syn_received g s)))"
  by (auto simp: on_segment_syn_received_def Let_def handle_peer_fin_state)

lemma handle_rst_edge: "seg_edge True (ts_state s) (ts_state (snd (handle_rst g s)))"
  by (auto simp: handle_rst_def intro: seg_edge.intros)

section \<open>Sequence space\<close>

text \<open>Bytes and control flags in flight: from the oldest unacknowledged number to the next.\<close>

definition flight :: "TcpState \<Rightarrow> nat" where
  "flight s = unat (ts_snd_nxt s - ts_snd_una s)"

lemma window_ack:
  fixes a u n :: "32 word"
  assumes "seq_in_window a (u + 1) (n + 1)"
  shows "unat (n - a) < unat (n - u)" "unat (a - u) + unat (n - a) = unat (n - u)" "a \<noteq> u"
proof -
  let ?x = "a - u" and ?w = "n - u"
  have lt: "?x - 1 < ?w"
    using assms by (simp add: seq_in_window_def Let_def algebra_simps)
  have x: "?x \<noteq> 0"
  proof
    assume "?x = 0"
    with lt have "- 1 < ?w" by simp
    then show False using word_order.extremum_strict by simp
  qed
  then have "unat (?x - 1) = unat ?x - 1" by (rule unat_minus_one)
  moreover have "0 < unat ?x" using x by (simp add: unat_gt_0)
  ultimately have le: "unat ?x \<le> unat ?w" using lt by (simp add: word_less_nat_alt)
  have e: "n - a = ?w - ?x" by simp
  have na: "unat (n - a) = unat ?w - unat ?x"
    unfolding e using le by (intro unat_sub) (simp only: word_le_nat_alt)
  show "unat (n - a) < unat ?w" "unat ?x + unat (n - a) = unat ?w"
    using na le \<open>0 < unat ?x\<close> by simp_all
  show "a \<noteq> u" using x by simp
qed

lemma window_one: "seq_in_window e (u :: 32 word) (u + 1) \<longleftrightarrow> e = u"
proof -
  have "e - u < 1 \<longleftrightarrow> e - u = 0" by (simp add: word_less_nat_alt unat_eq_0)
  then show ?thesis by (simp add: seq_in_window_def Let_def)
qed

lemma window_single: "seq_in_window a (u + 1) (u + 1 + 1 :: 32 word) \<longleftrightarrow> a = u + 1"
  using window_one [of a "u + 1"] .

text \<open>An acknowledgement is either ignored or moves the oldest unacknowledged number forward,
  inside what was sent.\<close>

lemma est_ack_cases:
  obtains (ignored) "est_ack g s = s"
  | (partly) "has_flag g FLAG_ACK" "seq_in_window (sg_ack g) (ts_snd_una s + 1) (ts_snd_nxt s + 1)"
      "est_ack g s = s\<lparr>ts_snd_una := sg_ack g, ts_snd_wnd := sg_window g\<rparr>"
  | (cleared) "has_flag g FLAG_ACK" "seq_in_window (sg_ack g) (ts_snd_una s + 1) (ts_snd_nxt s + 1)"
      "ts_have_unacked s" "ts_unacked_seq s + of_nat (length (ts_unacked_data s)) = sg_ack g"
      "est_ack g s = s\<lparr>ts_snd_una := sg_ack g, ts_snd_wnd := sg_window g, ts_unacked_data := [],
         ts_have_unacked := False\<rparr>"
proof -
  let ?w = "has_flag g FLAG_ACK \<and> seq_in_window (sg_ack g) (ts_snd_una s + 1) (ts_snd_nxt s + 1)"
  let ?c = "ts_have_unacked s \<and> ts_unacked_seq s + of_nat (length (ts_unacked_data s)) = sg_ack g"
  consider "\<not> ?w" | "?w" "\<not> ?c" | "?w" "?c" by blast
  then show thesis
  proof cases
    case 1
    then show thesis by (intro ignored) (auto simp: est_ack_def)
  next
    case 2
    then show thesis by (intro partly) (auto simp: est_ack_def Let_def window_one)
  next
    case 3
    then show thesis by (intro cleared) (auto simp: est_ack_def Let_def window_one)
  qed
qed

lemma est_ack_flight: "flight (est_ack g s) \<le> flight s"
  by (rule est_ack_cases [of g s])
    (use window_ack(1) in \<open>auto simp: flight_def intro: less_imp_le\<close>)

section \<open>The connection invariant\<close>

text \<open>What the FIN flags, the outstanding block and the send sequence variables say in each state.\<close>

definition flow_ok :: "nat \<Rightarrow> TcpState \<Rightarrow> bool" where
  "flow_ok fin s =
     (if ts_have_unacked s
      then ts_unacked_seq s + of_nat (length (ts_unacked_data s) + fin) = ts_snd_nxt s
           \<and> flight s \<le> length (ts_unacked_data s) + fin
      else flight s \<le> 2 * fin)"

definition fsm_ok :: "TcpState \<Rightarrow> bool" where
  "fsm_ok s = (case ts_state s of
       CLOSED \<Rightarrow> True
     | LISTEN \<Rightarrow> \<not> ts_fin_sent s \<and> \<not> ts_fin_received s \<and> \<not> ts_have_unacked s
     | SYN_SENT \<Rightarrow> \<not> ts_fin_sent s \<and> \<not> ts_fin_received s \<and> \<not> ts_have_unacked s
         \<and> ts_snd_una s = ts_iss s \<and> ts_snd_nxt s = ts_iss s + 1
     | SYN_RECEIVED \<Rightarrow> \<not> ts_fin_sent s \<and> \<not> ts_fin_received s \<and> \<not> ts_have_unacked s
         \<and> ts_snd_una s = ts_iss s \<and> ts_snd_nxt s = ts_iss s + 1
     | ESTABLISHED \<Rightarrow> \<not> ts_fin_sent s \<and> \<not> ts_fin_received s \<and> flow_ok 0 s
     | CLOSE_WAIT \<Rightarrow> \<not> ts_fin_sent s \<and> ts_fin_received s \<and> flow_ok 0 s
     | FIN_WAIT_1 \<Rightarrow> ts_fin_sent s \<and> \<not> ts_fin_received s \<and> flow_ok 1 s
     | FIN_WAIT_2 \<Rightarrow> ts_fin_sent s \<and> \<not> ts_fin_received s \<and> flow_ok 1 s
     | CLOSING \<Rightarrow> ts_fin_sent s \<and> ts_fin_received s \<and> flow_ok 1 s
     | LAST_ACK \<Rightarrow> ts_fin_sent s \<and> ts_fin_received s \<and> flow_ok 1 s
     | TIME_WAIT \<Rightarrow> ts_fin_sent s \<and> ts_fin_received s \<and> flow_ok 1 s)"

definition tcp_inv :: "TcpState \<Rightarrow> bool" where
  "tcp_inv s \<longleftrightarrow> fsm_ok s
     \<and> (ts_have_unacked s \<longleftrightarrow> ts_unacked_data s \<noteq> [])
     \<and> length (ts_unacked_data s) \<le> 65536 \<and> ts_peer_mss s \<le> 65536
     \<and> (ts_aborted s \<longrightarrow> ts_state s = CLOSED)
     \<and> (ts_state s \<notin> {CLOSED, LISTEN} \<longrightarrow> ts_remote_ip s \<noteq> None)"

lemmas inv_defs = tcp_inv_def fsm_ok_def flow_ok_def

lemma flight_one [simp]: "unat (1 :: 32 word) = 1"
  by simp

lemma flow_ok_cong:
  assumes "ts_have_unacked s' = ts_have_unacked s" "ts_unacked_seq s' = ts_unacked_seq s"
    "ts_unacked_data s' = ts_unacked_data s" "ts_snd_nxt s' = ts_snd_nxt s"
    "ts_snd_una s' = ts_snd_una s"
  shows "flow_ok n s' = flow_ok n s"
  by (simp only: flow_ok_def flight_def assms)

lemma flow_ok_est_ack: "flow_ok n s \<Longrightarrow> flow_ok n (est_ack g s)"
proof (rule est_ack_cases [of g s])
  assume f: "flow_ok n s" and w: "seq_in_window (sg_ack g) (ts_snd_una s + 1) (ts_snd_nxt s + 1)"
    and e: "est_ack g s = s\<lparr>ts_snd_una := sg_ack g, ts_snd_wnd := sg_window g\<rparr>"
  show ?thesis using f est_ack_flight [of g s] by (auto simp: flow_ok_def e)
next
  assume f: "flow_ok n s" and h: "ts_have_unacked s"
    and a: "ts_unacked_seq s + of_nat (length (ts_unacked_data s)) = sg_ack g"
    and e: "est_ack g s = s\<lparr>ts_snd_una := sg_ack g, ts_snd_wnd := sg_window g, ts_unacked_data := [],
         ts_have_unacked := False\<rparr>"
  have "ts_snd_nxt s = sg_ack g + of_nat n"
    using f h a by (auto simp: flow_ok_def simp flip: add.assoc)
  then have "flight (est_ack g s) = unat (of_nat n :: 32 word)"
    by (simp add: flight_def e)
  also have "\<dots> \<le> n" by (simp add: unat_of_nat)
  finally show ?thesis by (simp add: flow_ok_def e)
qed simp

lemma flow_ok_flush:
  assumes "flow_ok 0 s" "ts_peer_mss s \<le> 65536"
  shows "flow_ok 0 (flush_send s)"
proof (rule flush_send_cases [of s])
  fix chunk
  assume h: "\<not> ts_have_unacked s" and c: "chunk = take (ts_peer_mss s) (ts_send_buf s)"
    and e: "flush_send s = emit (FLAG_ACK OR FLAG_PSH) chunk None
         (s\<lparr>ts_send_buf := drop (length chunk) (ts_send_buf s)\<rparr>)"
  have u: "ts_snd_nxt s = ts_snd_una s"
    using assms(1) h by (simp add: flow_ok_def flight_def unat_eq_0)
  have "length chunk \<le> 65536" using assms(2) by (simp add: c)
  then have "unat (of_nat (length chunk) :: 32 word) = length chunk"
    by (simp add: unat_of_nat)
  then show ?thesis
    using h u by (simp add: e flow_ok_def flight_def emit_unacked_seq)
qed (use assms in simp)

lemma flow_ok_fin:
  assumes "flow_ok 0 s" "length (ts_unacked_data s) \<le> 65536"
  shows "flow_ok 1 (emit (FLAG_FIN OR FLAG_ACK) [] None s)"
proof -
  let ?d = "ts_snd_nxt s - ts_snd_una s"
  have d: "unat ?d \<le> 65536"
    using assms by (auto simp: flow_ok_def flight_def split: if_splits)
  have e: "ts_snd_nxt s + 1 - ts_snd_una s = ?d + 1" by simp
  have "unat (?d + 1) = unat ?d + 1"
    using d by (subst unat_add_lem [THEN iffD1]) simp_all
  then have "flight (emit (FLAG_FIN OR FLAG_ACK) [] None s) = flight s + 1"
    by (simp add: flight_def e)
  then show ?thesis
    using assms by (auto simp: flow_ok_def emit_unacked_seq simp flip: add.assoc split: if_splits)
qed

section \<open>Histories of calls\<close>

text \<open>The calls made on a connection's machine, in any order: received segments (with the random
  number drawn if a listener answers), user writes, reads and close, the retransmission timer, and
  the driver taking a queued segment away. A call that raises leaves the state as it was.\<close>

datatype tcp_call =
    Segment "32 word" TcpSegment string
  | Write bytes
  | Close
  | Read "nat option"
  | Timer
  | Transmit

definition or_same :: "'s \<Rightarrow> 's result \<Rightarrow> 's" where
  "or_same s r = (case r of Inl _ \<Rightarrow> s | Inr s' \<Rightarrow> s')"

fun tcp_step :: "tcp_call \<Rightarrow> TcpState \<Rightarrow> TcpState" where
  "tcp_step (Segment iss seg ip) s = snd (on_segment iss seg ip s)"
| "tcp_step (Write d) s = or_same s (tcp_write d s)"
| "tcp_step Close s = tcp_close s"
| "tcp_step (Read n) s = snd (pop_read n s)"
| "tcp_step Timer s = retransmit s"
| "tcp_step Transmit s = s\<lparr>ts_outbox := tl (ts_outbox s)\<rparr>"

inductive tcp_reach :: "TcpState \<Rightarrow> bool" where
  opener: "mss \<le> 65536 \<Longrightarrow> open_active iss rip rport (tcp_init ip port mss) = Inr s \<Longrightarrow> tcp_reach s"
| listener: "mss \<le> 65536 \<Longrightarrow> open_listen (tcp_init ip port mss) = Inr s \<Longrightarrow> tcp_reach s"
| call: "tcp_reach s \<Longrightarrow> tcp_reach (tcp_step c s)"

text \<open>Each operation preserves the invariant.\<close>

lemma push_seg_fields [simp]:
  "ts_state (push_seg g s) = ts_state s" "ts_snd_nxt (push_seg g s) = ts_snd_nxt s"
  "ts_snd_una (push_seg g s) = ts_snd_una s" "ts_rcv_nxt (push_seg g s) = ts_rcv_nxt s"
  "ts_iss (push_seg g s) = ts_iss s" "ts_read_buf (push_seg g s) = ts_read_buf s"
  "ts_send_buf (push_seg g s) = ts_send_buf s" "ts_unacked_data (push_seg g s) = ts_unacked_data s"
  "ts_unacked_seq (push_seg g s) = ts_unacked_seq s" "ts_have_unacked (push_seg g s) = ts_have_unacked s"
  "ts_fin_received (push_seg g s) = ts_fin_received s" "ts_fin_sent (push_seg g s) = ts_fin_sent s"
  "ts_local_port (push_seg g s) = ts_local_port s" "ts_local_ip (push_seg g s) = ts_local_ip s"
  "ts_remote_ip (push_seg g s) = ts_remote_ip s" "ts_remote_port (push_seg g s) = ts_remote_port s"
  "ts_rcv_wnd (push_seg g s) = ts_rcv_wnd s" "ts_aborted (push_seg g s) = ts_aborted s"
  "ts_peer_mss (push_seg g s) = ts_peer_mss s" "ts_local_mss (push_seg g s) = ts_local_mss s"
  "ts_outbox (push_seg g s) = ts_outbox s @ [g]"
  by (simp_all add: push_seg_def)

text \<open>The invariant does not look at the buffers, the outbox or the receive variables.\<close>

lemma tcp_inv_cong:
  assumes "ts_state s' = ts_state s" "ts_fin_sent s' = ts_fin_sent s"
    "ts_fin_received s' = ts_fin_received s" "ts_have_unacked s' = ts_have_unacked s"
    "ts_unacked_data s' = ts_unacked_data s" "ts_unacked_seq s' = ts_unacked_seq s"
    "ts_snd_nxt s' = ts_snd_nxt s" "ts_snd_una s' = ts_snd_una s" "ts_iss s' = ts_iss s"
    "ts_peer_mss s' = ts_peer_mss s" "ts_aborted s' = ts_aborted s" "ts_remote_ip s' = ts_remote_ip s"
  shows "tcp_inv s' = tcp_inv s"
  by (simp only: tcp_inv_def fsm_ok_def flow_ok_def flight_def assms)

lemma inv_push [simp]: "tcp_inv (push_seg g s) = tcp_inv s"
  by (rule tcp_inv_cong) simp_all

lemma inv_pure_ack [simp]: "tcp_inv (emit_pure_ack s) = tcp_inv s"
  by (simp add: emit_pure_ack_def)

lemma inv_syn_ack [simp]: "tcp_inv (emit_syn_ack s) = tcp_inv s"
  by (simp add: emit_syn_ack_def)

lemma inv_retransmit: "tcp_inv s \<Longrightarrow> tcp_inv (retransmit s)"
  by (simp add: retransmit_def)

lemma inv_flush:
  assumes "tcp_inv s" "ts_state s = ESTABLISHED \<or> ts_state s = CLOSE_WAIT"
  shows "tcp_inv (flush_send s)"
proof -
  have f: "flow_ok 0 (flush_send s)"
    using assms by (intro flow_ok_flush) (auto simp: tcp_inv_def fsm_ok_def)
  have d: "(ts_have_unacked (flush_send s) \<longleftrightarrow> ts_unacked_data (flush_send s) \<noteq> [])
      \<and> length (ts_unacked_data (flush_send s)) \<le> 65536"
    by (rule flush_send_cases [of s]) (use assms(1) in \<open>auto simp: tcp_inv_def\<close>)
  show ?thesis
    using assms f d by (auto simp: tcp_inv_def fsm_ok_def)
qed

lemma inv_write: "tcp_inv s \<Longrightarrow> tcp_inv (or_same s (tcp_write d s))"
proof -
  assume i: "tcp_inv s"
  let ?s = "s\<lparr>ts_send_buf := ts_send_buf s @ d\<rparr>"
  have b: "tcp_inv ?s" using i by (subst tcp_inv_cong) simp_all
  show ?thesis
    using i b inv_flush [OF b] by (simp add: tcp_write_def or_same_def)
qed

lemma inv_read: "tcp_inv s \<Longrightarrow> tcp_inv (snd (pop_read n s))"
  by (subst tcp_inv_cong [where s = s]) (auto simp: pop_read_def split: option.splits)

lemma inv_open_active:
  assumes "open_active iss rip rport (tcp_init ip port mss) = Inr s" "mss \<le> 65536"
  shows "tcp_inv s"
  using assms by (auto simp: open_active_def tcp_init_def Let_def inv_defs)

lemma inv_open_listen:
  assumes "open_listen (tcp_init ip port mss) = Inr s" "mss \<le> 65536"
  shows "tcp_inv s"
  using assms by (auto simp: open_listen_def tcp_init_def inv_defs)

lemma inv_close:
  assumes "tcp_inv s"
  shows "tcp_inv (tcp_close s)"
proof (cases "ts_state s \<in> {ESTABLISHED, CLOSE_WAIT}")
  case True
  then have "flow_ok 1 (emit (FLAG_FIN OR FLAG_ACK) [] None s)"
    using assms by (intro flow_ok_fin) (auto simp: tcp_inv_def fsm_ok_def)
  then have f: "flow_ok 1 (emit (FLAG_FIN OR FLAG_ACK) [] None s\<lparr>ts_state := st\<rparr>)" for st
    by (subst flow_ok_cong) simp_all
  show ?thesis
    using True assms f by (auto simp: tcp_close_def tcp_inv_def fsm_ok_def)
next
  case False
  then show ?thesis
    using assms by (cases "ts_state s") (auto simp: tcp_close_def inv_defs flight_def)
qed

text \<open>The stages of the established states. Between the FIN stage and the closing stage the state
  may be FIN_WAIT_1 with the FIN acknowledged, so the invariant holds after each of them.\<close>

lemma inv_est_ack: "tcp_inv s \<Longrightarrow> ts_state s \<notin> {LISTEN, SYN_SENT, SYN_RECEIVED} \<Longrightarrow> tcp_inv (est_ack g s)"
proof -
  assume i: "tcp_inv s" and st: "ts_state s \<notin> {LISTEN, SYN_SENT, SYN_RECEIVED}"
  have f: "fsm_ok (est_ack g s)"
    using i st flow_ok_est_ack [of 0 s g] flow_ok_est_ack [of 1 s g]
    by (cases "ts_state s") (simp_all add: tcp_inv_def fsm_ok_def)
  have d: "(ts_have_unacked (est_ack g s) \<longleftrightarrow> ts_unacked_data (est_ack g s) \<noteq> [])
      \<and> length (ts_unacked_data (est_ack g s)) \<le> 65536"
    by (rule est_ack_cases [of g s]) (use i in \<open>auto simp: tcp_inv_def\<close>)
  show ?thesis using i f d by (simp add: tcp_inv_def)
qed

lemma inv_est_payload: "tcp_inv s \<Longrightarrow> tcp_inv (est_payload g s)"
  by (subst tcp_inv_cong) simp_all

lemma handle_peer_fin_inv:
  assumes "tcp_inv s" "ts_state s \<notin> {LISTEN, SYN_SENT, SYN_RECEIVED}"
  shows "tcp_inv (handle_peer_fin s)"
proof (cases "ts_fin_received s")
  case True
  then show ?thesis using assms by (simp add: handle_peer_fin_def)
next
  case False
  have f: "flow_ok n (handle_peer_fin s) = flow_ok n s" for n by (rule flow_ok_cong) simp_all
  show ?thesis
    using assms False
    by (cases "ts_state s") (auto simp: tcp_inv_def fsm_ok_def f handle_peer_fin_state)
qed

lemma inv_est_fin:
  "tcp_inv s \<Longrightarrow> ts_state s \<notin> {LISTEN, SYN_SENT, SYN_RECEIVED} \<Longrightarrow> tcp_inv (est_fin g s)"
  using handle_peer_fin_inv by (cases rule: est_fin_cases [of g s]) auto

lemma inv_est_close: "tcp_inv s \<Longrightarrow> tcp_inv (est_close s)"
proof -
  assume i: "tcp_inv s"
  have f: "flow_ok n (est_close s) = flow_ok n s" for n by (rule flow_ok_cong) simp_all
  show ?thesis
    using i by (cases "ts_state s") (auto simp: tcp_inv_def fsm_ok_def f est_close_state)
qed

lemma est_fin_state:
  "ts_state s \<notin> {LISTEN, SYN_SENT, SYN_RECEIVED} \<Longrightarrow>
     ts_state (est_fin g s) \<notin> {LISTEN, SYN_SENT, SYN_RECEIVED}"
  by (cases rule: est_fin_cases [of g s]; cases "ts_state s") (auto simp: handle_peer_fin_state)

lemma inv_established:
  assumes "tcp_inv s" "ts_state s \<notin> {LISTEN, SYN_SENT, SYN_RECEIVED}"
  shows "tcp_inv (snd (on_segment_established g s))"
proof -
  let ?e = "est_close (est_fin g (est_payload g (est_ack g s)))"
  have "tcp_inv ?e"
    using assms by (intro inv_est_close inv_est_fin inv_est_payload inv_est_ack) auto
  then show ?thesis
    using assms(1) inv_flush [of ?e] by (simp add: on_segment_established_def Let_def)
qed

lemma inv_handle_rst: "tcp_inv s \<Longrightarrow> tcp_inv (snd (handle_rst g s))"
proof -
  assume i: "tcp_inv s"
  then have "tcp_inv (s\<lparr>ts_aborted := True, ts_abort_reason := Some (ts_state s), ts_state := CLOSED\<rparr>)"
    by (simp add: tcp_inv_def fsm_ok_def)
  with i show ?thesis by (simp add: handle_rst_def)
qed

lemma read_peer_mss_bound: "ts_peer_mss s \<le> 65536 \<Longrightarrow> ts_peer_mss (read_peer_mss g s) \<le> 65536"
proof -
  assume p: "ts_peer_mss s \<le> 65536"
  have b: "nat (be_val raw) \<le> 65536" if "length raw = 2" for raw
    using be_val_bounds [of raw] that by (simp add: nat_le_iff)
  show ?thesis
    using p b by (auto simp: read_peer_mss_def split: option.split)
qed

lemma inv_listen:
  "tcp_inv s \<Longrightarrow> ts_state s = LISTEN \<Longrightarrow> tcp_inv (snd (on_segment_listen iss g ip s))"
  by (auto simp: on_segment_listen_def Let_def emit_rst_def tcp_inv_def fsm_ok_def read_peer_mss_bound)

lemma inv_syn_sent:
  assumes "tcp_inv s" "ts_state s = SYN_SENT"
  shows "tcp_inv (snd (on_segment_syn_sent g s))"
proof -
  let ?r = "read_peer_mss g (s\<lparr>ts_irs := sg_seq g, ts_rcv_nxt := sg_seq g + 1\<rparr>)"
  let ?e = "emit_pure_ack (?r\<lparr>ts_snd_una := sg_ack g, ts_snd_wnd := sg_window g\<rparr>)\<lparr>ts_state := ESTABLISHED\<rparr>"
  have m: "ts_peer_mss ?r \<le> 65536"
    using assms(1) by (intro read_peer_mss_bound) (simp add: tcp_inv_def)
  have c: "tcp_inv (emit_syn_ack ?r\<lparr>ts_state := SYN_RECEIVED\<rparr>)"
    using assms m by (auto simp: tcp_inv_def fsm_ok_def)
  have "tcp_inv (flush_send ?e)"
    if "seq_in_window (sg_ack g) (ts_snd_una s + 1) (ts_snd_nxt s + 1)"
  proof (rule inv_flush)
    have "sg_ack g = ts_snd_nxt s"
      using assms that window_single [of "sg_ack g" "ts_iss s"] by (simp add: tcp_inv_def fsm_ok_def)
    then show "tcp_inv ?e"
      using assms m by (auto simp: tcp_inv_def fsm_ok_def flow_ok_def flight_def)
  qed simp
  with assms(1) c show ?thesis by (simp add: on_segment_syn_sent_def Let_def)
qed

lemma inv_syn_received:
  assumes "tcp_inv s" "ts_state s = SYN_RECEIVED"
  shows "tcp_inv (snd (on_segment_syn_received g s))"
proof -
  let ?a = "s\<lparr>ts_snd_una := ts_iss s + 1, ts_snd_wnd := sg_window g, ts_state := ESTABLISHED\<rparr>"
  let ?p = "if sg_payload g \<noteq> []
     then emit_pure_ack (?a\<lparr>ts_read_buf := ts_read_buf ?a @ sg_payload g,
            ts_rcv_nxt := ts_rcv_nxt ?a + of_nat (length (sg_payload g))\<rparr>)
     else ?a"
  let ?f = "if has_flag g FLAG_FIN then handle_peer_fin ?p else ?p"
  have "tcp_inv ?a"
    using assms by (auto simp: tcp_inv_def fsm_ok_def flow_ok_def flight_def)
  moreover have "tcp_inv ?p = tcp_inv ?a" by (rule tcp_inv_cong) simp_all
  ultimately have p: "tcp_inv ?p" by simp
  have ps: "ts_state ?p = ESTABLISHED" by simp
  have "tcp_inv ?f" using p ps handle_peer_fin_inv [of ?p] by simp
  moreover have "ts_state ?f = ESTABLISHED \<or> ts_state ?f = CLOSE_WAIT"
    using ps by (simp add: handle_peer_fin_state)
  ultimately have "tcp_inv (flush_send ?f)" by (rule inv_flush)
  with assms(1) show ?thesis by (simp add: on_segment_syn_received_def Let_def)
qed

lemma inv_segment:
  assumes "tcp_inv s"
  shows "tcp_inv (snd (on_segment iss g ip s))"
  using assms inv_handle_rst [of s g] inv_listen [of s iss g ip] inv_syn_sent [of s g]
    inv_syn_received [of s g] inv_established [of s g]
  by (cases "ts_state s") (simp_all add: on_segment_def)

lemma tcp_reach_inv: "tcp_reach s \<Longrightarrow> tcp_inv s"
proof (induction rule: tcp_reach.induct)
  case (call s c)
  have t: "tcp_inv (s\<lparr>ts_outbox := tl (ts_outbox s)\<rparr>) = tcp_inv s" by (rule tcp_inv_cong) simp_all
  show ?case
    using call t inv_segment inv_write inv_close inv_read inv_retransmit by (cases c) auto
qed (auto intro: inv_open_active inv_open_listen)

text \<open>C3. In every state a connection can reach by any sequence of received segments, user calls
  and timer events: the FIN flags agree with the state, at most one block of data is outstanding,
  it is exactly the bytes just below SND.NXT (below the FIN once that is sent), never more is in
  flight than that block and the FIN, and an aborted connection is CLOSED.\<close>

theorem tcp_invariant:
  assumes "tcp_reach s"
  shows "tcp_inv s"
  using assms by (rule tcp_reach_inv)

theorem tcp_invariant_witness:
  "\<exists>s. ts_state s = SYN_SENT \<and> tcp_inv s \<and> ts_snd_nxt s = 0"
proof -
  obtain s where o: "open_active 0xffffffff ''10.0.0.2'' 80 (tcp_init ''10.0.0.1'' 4000 1460) = Inr s"
    by (simp add: open_active_def tcp_init_def)
  have "ts_state s = SYN_SENT \<and> ts_snd_nxt s = 0"
    using o by (auto simp: open_active_def tcp_init_def Let_def)
  moreover have "tcp_inv s"
    by (rule tcp_invariant, rule tcp_reach.opener [OF _ o]) simp
  ultimately show ?thesis by blast
qed

end
