(* ===== verification/TcpHandshake.thy ===== *)
theory TcpHandshake
  imports TcpInv
begin

unbundle bit_operations_syntax

text \<open>
  Two machines of \<open>net/pcap/tcp/state.py\<close> connected by a network that may lose, repeat and
  reorder segments: the three-way handshake and the simultaneous open of \<open>tcp_punch\<close>. The
  outbox of a machine is never drained here, so it is the set of segments it ever sent; a delivery
  takes any of them.
\<close>

section \<open>The two-machine system\<close>

record endpoint =
  ep_ip :: string
  ep_port :: int
  ep_mss :: nat
  ep_iss :: "32 word"

definition ep_state :: "endpoint \<Rightarrow> TcpState" where
  "ep_state x = tcp_init (ep_ip x) (ep_port x) (ep_mss x)"

inductive handshake :: "endpoint \<Rightarrow> endpoint \<Rightarrow> TcpState \<Rightarrow> TcpState \<Rightarrow> bool" for x y where
  both_open: "open_simul (ep_iss x) (ep_ip y) (ep_port y) (ep_state x) = Inr A \<Longrightarrow>
    open_simul (ep_iss y) (ep_ip x) (ep_port x) (ep_state y) = Inr B \<Longrightarrow> handshake x y A B"
| one_listens: "open_active (ep_iss x) (ep_ip y) (ep_port y) (ep_state x) = Inr A \<Longrightarrow>
    open_listen (ep_state y) = Inr B \<Longrightarrow> handshake x y A B"
| to_first: "handshake x y A B \<Longrightarrow> g \<in> set (ts_outbox B) \<Longrightarrow>
    handshake x y (snd (on_segment (ep_iss x) g (ep_ip y) A)) B"
| to_second: "handshake x y A B \<Longrightarrow> g \<in> set (ts_outbox A) \<Longrightarrow>
    handshake x y A (snd (on_segment (ep_iss y) g (ep_ip x) B))"

section \<open>Invariant\<close>

text \<open>The segments an endpoint \<open>x\<close> sends to \<open>y\<close> before there is data: its SYN, with or without an
  acknowledgement of the other SYN, and bare acknowledgements.\<close>

definition hs_seg :: "endpoint \<Rightarrow> endpoint \<Rightarrow> TcpSegment \<Rightarrow> bool" where
  "hs_seg x y g \<longleftrightarrow> sg_src_port g = ep_port x \<and> sg_payload g = []
     \<and> \<not> has_flag g FLAG_FIN \<and> \<not> has_flag g FLAG_RST
     \<and> (if has_flag g FLAG_SYN
        then sg_seq g = ep_iss x \<and> sg_options g = build_mss_option (int (ep_mss x))
        else sg_seq g = ep_iss x + 1 \<and> has_flag g FLAG_ACK)
     \<and> (has_flag g FLAG_ACK \<longrightarrow> sg_ack g = ep_iss y + 1)"

definition mss_of :: "endpoint \<Rightarrow> nat" where
  "mss_of y = max 536 (ep_mss y mod 65536)"

definition hs_half :: "endpoint \<Rightarrow> endpoint \<Rightarrow> TcpState \<Rightarrow> bool" where
  "hs_half x y A \<longleftrightarrow> ts_local_port A = ep_port x \<and> ts_remote_port A = ep_port y
     \<and> ts_remote_ip A = Some (ep_ip y) \<and> ts_iss A = ep_iss x \<and> ts_snd_nxt A = ep_iss x + 1
     \<and> ts_local_mss A = ep_mss x \<and> ts_send_buf A = [] \<and> ts_read_buf A = [] \<and> ts_rcv_wnd A = 65535
     \<and> \<not> ts_have_unacked A \<and> \<not> ts_fin_received A \<and> \<not> ts_fin_sent A \<and> \<not> ts_aborted A
     \<and> (\<forall>g\<in>set (ts_outbox A). hs_seg x y g)
     \<and> (\<exists>g\<in>set (ts_outbox A). has_flag g FLAG_SYN)
     \<and> (ts_state A = SYN_SENT \<and> ts_snd_una A = ep_iss x
        \<or> (ts_state A = SYN_RECEIVED \<and> ts_snd_una A = ep_iss x
           \<or> ts_state A = ESTABLISHED \<and> ts_snd_una A = ep_iss x + 1)
          \<and> ts_rcv_nxt A = ep_iss y + 1 \<and> ts_irs A = ep_iss y \<and> ts_peer_mss A = mss_of y
          \<and> (\<exists>g\<in>set (ts_outbox A). has_flag g FLAG_ACK))"

definition hs_listening :: "endpoint \<Rightarrow> TcpState \<Rightarrow> bool" where
  "hs_listening y B \<longleftrightarrow> ts_state B = LISTEN \<and> ts_local_port B = ep_port y \<and> ts_outbox B = []
     \<and> ts_local_mss B = ep_mss y \<and> ts_send_buf B = [] \<and> ts_read_buf B = [] \<and> ts_rcv_wnd B = 65535
     \<and> \<not> ts_have_unacked B \<and> \<not> ts_fin_received B \<and> \<not> ts_fin_sent B \<and> \<not> ts_aborted B"

definition hs_inv :: "endpoint \<Rightarrow> endpoint \<Rightarrow> TcpState \<Rightarrow> TcpState \<Rightarrow> bool" where
  "hs_inv x y A B \<longleftrightarrow> hs_half x y A \<and>
     (hs_half y x B \<or>
      hs_listening y B \<and> ts_state A = SYN_SENT \<and> (\<forall>g\<in>set (ts_outbox A). \<not> has_flag g FLAG_ACK))"

lemma read_peer_mss_option:
  assumes "has_flag g FLAG_SYN" "sg_options g = build_mss_option (int (ep_mss y))"
  shows "read_peer_mss g s = s\<lparr>ts_peer_mss := mss_of y\<rparr>"
proof -
  have m: "int (ep_mss y) AND 0xffff = int (ep_mss y) mod 65536"
    using take_bit_eq_mask [of 16 "int (ep_mss y)"]
    by (simp add: take_bit_eq_mod mask_eq_exp_minus_1)
  have "parse_options (build_mss_option (int (ep_mss y)))
      = [(OPT_MSS, be_bytes 2 (int (ep_mss y) AND 0xffff))]"
    using parse_mss_option [of "int (ep_mss y)" "[]"] by (simp add: parse_options_simps)
  moreover have "be_val (be_bytes 2 (int (ep_mss y) AND 0xffff)) = int (ep_mss y mod 65536)"
    by (simp add: be_val_be_bytes m of_nat_mod)
  ultimately show ?thesis
    using assms by (simp add: read_peer_mss_def get_option_def mss_of_def)
qed

lemma seq_behind:
  "\<not> seq_in_window q (q + 1) (q + 1 + word_of_int (max 1 (uint (65535 :: 16 word))))"
proof -
  have e: "q - (q + 1) = (- 1 :: 32 word)" by simp
  have "(q + 1 + 65535) - (q + 1) = (65535 :: 32 word)" by simp
  then show ?thesis 
    by (simp add: seq_in_window_def Let_def e word_less_def unsigned_minus_1_eq_mask mask_eq_exp_minus_1)
qed

lemma hs_seg_pure_ack:
  "hs_seg x y (seg_of s (ep_iss x + 1) (ep_iss y + 1) FLAG_ACK w [] []) \<longleftrightarrow> ts_local_port s = ep_port x"
  by (simp add: hs_seg_def)

lemma hs_seg_syn_ack:
  "hs_seg x y (seg_of s (ep_iss x) (ep_iss y + 1) (FLAG_SYN OR FLAG_ACK) w
     (build_mss_option (int (ep_mss x))) []) \<longleftrightarrow> ts_local_port s = ep_port x"
  by (simp add: hs_seg_def)

lemma flush_send_empty: "ts_send_buf s = [] \<Longrightarrow> flush_send s = s"
  by (simp add: flush_send_def)

text \<open>Delivery in each state.\<close>

lemma half_syn_sent:
  assumes h: "hs_half x y A" and g: "hs_seg y x g" and s: "ts_state A = SYN_SENT"
  shows "hs_half x y (snd (on_segment_syn_sent g A))"
proof (cases "has_flag g FLAG_SYN")
  case True
  have w: "seq_in_window (ep_iss x + 1) (ep_iss x + 1) (ep_iss x + 1 + 1)"
    using window_one [of "ep_iss x + 1" "ep_iss x + 1"] by simp
  have r: "read_peer_mss g B = B\<lparr>ts_peer_mss := mss_of y\<rparr>" for B
    using True g by (intro read_peer_mss_option) (auto simp: hs_seg_def)
  have q: "sg_seq g = ep_iss y" using True g by (simp add: hs_seg_def)
  show ?thesis
  proof (cases "has_flag g FLAG_ACK")
    case a: True
    then have k: "sg_ack g = ep_iss x + 1" using g by (simp add: hs_seg_def)
    show ?thesis
      using h s a True w q k r
      by (auto simp: on_segment_syn_sent_def Let_def hs_half_def flush_send_empty hs_seg_pure_ack)
  next
    case False
    then show ?thesis
      using h s True q r
      by (auto simp: on_segment_syn_sent_def Let_def hs_half_def hs_seg_syn_ack)
  qed
qed (use h in \<open>simp add: on_segment_syn_sent_def\<close>)

lemma half_syn_received:
  assumes h: "hs_half x y A" and g: "hs_seg y x g" and s: "ts_state A = SYN_RECEIVED"
  shows "hs_half x y (snd (on_segment_syn_received g A))"
  using assms
  by (auto simp: on_segment_syn_received_def Let_def hs_half_def flush_send_empty hs_seg_syn_ack hs_seg_def
      split: if_splits)

lemma half_established:
  assumes h: "hs_half x y A" and g: "hs_seg y x g" and s: "ts_state A = ESTABLISHED"
  shows "hs_half x y (snd (on_segment_established g A))"
proof (cases "has_flag g FLAG_SYN")
  case True
  then have "0 < segment_length g"
    by (simp add: segment_length_def has_flag_def Let_def)
  moreover have "\<not> seq_in_window (sg_seq g) (ts_rcv_nxt A)
      (ts_rcv_nxt A + word_of_int (max 1 (uint (ts_rcv_wnd A))))"
    using h s g True seq_behind [of "ep_iss y"] by (auto simp: hs_half_def hs_seg_def)
  ultimately show ?thesis
    using h s by (auto simp: on_segment_established_def hs_half_def hs_seg_pure_ack)
next
  case False
  then have "segment_length g = 0" using g segment_length_0 [of g] by (simp add: hs_seg_def)
  moreover have "est_ack g A = A"
    using h s g False by (auto simp: est_ack_def hs_half_def hs_seg_def seq_in_window_def Let_def)
  moreover have "est_payload g A = A" "est_fin g A = A"
    using g by (simp_all add: est_payload_def est_fin_def hs_seg_def)
  moreover have "est_close A = A" using s by (simp add: est_close_def)
  moreover have "flush_send A = A" using h by (simp add: flush_send_empty hs_half_def)
  ultimately show ?thesis using h by (simp add: on_segment_established_def Let_def)
qed

lemma half_segment:
  assumes "hs_half x y A" "hs_seg y x g"
  shows "hs_half x y (snd (on_segment i g (ep_ip y) A))"
proof -
  have "ts_state A \<in> {SYN_SENT, SYN_RECEIVED, ESTABLISHED}"
    "sg_src_port g = ts_remote_port A" "ts_remote_ip A = Some (ep_ip y)" "\<not> has_flag g FLAG_RST"
    using assms by (auto simp: hs_half_def hs_seg_def)
  then show ?thesis
    using half_syn_sent [OF assms] half_syn_received [OF assms] half_established [OF assms]
    by (auto simp: on_segment_def)
qed

lemma half_open:
  assumes "open_active (ep_iss x) (ep_ip y) (ep_port y) (ep_state x) = Inr A"
  shows "hs_half x y A" "ts_state A = SYN_SENT" "\<forall>g\<in>set (ts_outbox A). \<not> has_flag g FLAG_ACK"
  using assms
  by (auto simp: open_active_def ep_state_def tcp_init_def Let_def hs_half_def hs_seg_def)

lemma listening_segment:
  assumes l: "hs_listening y B" and g: "hs_seg x y g" and na: "\<not> has_flag g FLAG_ACK"
  shows "hs_half y x (snd (on_segment (ep_iss y) g (ep_ip x) B))"
proof -
  have f: "has_flag g FLAG_SYN" "\<not> has_flag g FLAG_RST" "sg_seq g = ep_iss x"
    "sg_src_port g = ep_port x" "sg_options g = build_mss_option (int (ep_mss x))"
    using g na by (auto simp: hs_seg_def split: if_splits)
  have r: "read_peer_mss g C = C\<lparr>ts_peer_mss := mss_of x\<rparr>" for C
    using f by (intro read_peer_mss_option)
  show ?thesis
    using l f na r
    by (simp add: on_segment_def on_segment_listen_def Let_def hs_listening_def hs_half_def hs_seg_def)
qed

lemma handshake_inv: "handshake x y A B \<Longrightarrow> hs_inv x y A B"
proof (induction rule: handshake.induct)
  case (both_open A B)
  then show ?case using half_open unfolding open_simul_def hs_inv_def by blast
next
  case (one_listens A B)
  then have "hs_listening y B"
    by (auto simp: open_listen_def ep_state_def tcp_init_def hs_listening_def)
  with one_listens show ?case using half_open unfolding hs_inv_def by blast
next
  case (to_first A B g)
  then have "hs_half y x B" "hs_seg y x g"
    by (auto simp: hs_inv_def hs_listening_def hs_half_def)
  then show ?case using to_first half_segment by (auto simp: hs_inv_def)
next
  case (to_second A B g)
  then have "hs_half x y A" "hs_seg x y g" by (auto simp: hs_inv_def hs_half_def)
  then show ?case
    using to_second half_segment [of y x B g] listening_segment [of y B x g]
    by (auto simp: hs_inv_def)
qed

text \<open>C2. Three-way handshake and simultaneous open, for all initial sequence numbers and under
  any loss, repetition and reordering: neither side aborts or closes, and a side that has
  reached ESTABLISHED agrees with the other endpoint on both sequence numbers, the address and port
  of the peer and the peer's segment size, with its own SYN acknowledged.\<close>

theorem handshake_agreement:
  assumes "handshake x y A B" and "ts_state A = ESTABLISHED" and "ts_state B = ESTABLISHED"
  shows "ts_rcv_nxt A = ts_snd_nxt B \<and> ts_rcv_nxt B = ts_snd_nxt A
    \<and> ts_snd_una A = ts_snd_nxt A \<and> ts_snd_una B = ts_snd_nxt B
    \<and> ts_remote_ip A = Some (ep_ip y) \<and> ts_remote_port A = ep_port y
    \<and> ts_remote_ip B = Some (ep_ip x) \<and> ts_remote_port B = ep_port x
    \<and> ts_peer_mss A = max 536 (ep_mss y mod 65536) \<and> ts_peer_mss B = max 536 (ep_mss x mod 65536)
    \<and> \<not> ts_aborted A \<and> \<not> ts_aborted B"
  using handshake_inv [OF assms(1)] assms(2,3)
  by (auto simp: hs_inv_def hs_half_def hs_listening_def mss_of_def)

section \<open>Progress\<close>

inductive leads :: "endpoint \<Rightarrow> endpoint \<Rightarrow> TcpState \<times> TcpState \<Rightarrow> TcpState \<times> TcpState \<Rightarrow> bool" for x y where
  here: "leads x y (A, B) (A, B)"
| first: "g \<in> set (ts_outbox B) \<Longrightarrow>
    leads x y (snd (on_segment (ep_iss x) g (ep_ip y) A), B) C \<Longrightarrow> leads x y (A, B) C"
| second: "g \<in> set (ts_outbox A) \<Longrightarrow>
    leads x y (A, snd (on_segment (ep_iss y) g (ep_ip x) B)) C \<Longrightarrow> leads x y (A, B) C"

lemma leads_trans: "leads x y s t \<Longrightarrow> leads x y t u \<Longrightarrow> leads x y s u"
  by (induction rule: leads.induct) (auto intro: leads.intros)

text \<open>A SYN moves a machine out of SYN_SENT, an acknowledgement out of SYN_RECEIVED.\<close>

lemma syn_moves:
  assumes "hs_half x y A" "hs_seg y x g" "has_flag g FLAG_SYN" "ts_state A = SYN_SENT"
  shows "ts_state (snd (on_segment i g (ep_ip y) A)) \<in> {SYN_RECEIVED, ESTABLISHED}"
  using assms window_one [of "ep_iss x + 1" "ep_iss x + 1"]
  by (auto simp: on_segment_def on_segment_syn_sent_def Let_def hs_half_def hs_seg_def)

lemma ack_moves:
  assumes "hs_half x y A" "hs_seg y x g" "has_flag g FLAG_ACK" "ts_state A = SYN_RECEIVED"
  shows "ts_state (snd (on_segment i g (ep_ip y) A)) = ESTABLISHED"
  using assms
  by (auto simp: on_segment_def on_segment_syn_received_def Let_def hs_half_def hs_seg_def split: if_splits)

lemma half_state: "hs_half x y A \<Longrightarrow> ts_state A \<in> {SYN_SENT, SYN_RECEIVED, ESTABLISHED}"
  by (auto simp: hs_half_def)

lemma leads_swap: "leads x y (A, B) (C, D) \<Longrightarrow> leads y x (B, A) (D, C)"
  by (induction "(A, B)" "(C, D)" arbitrary: A B rule: leads.induct) (auto intro: leads.intros)

text \<open>One side, from SYN_SENT to past it.\<close>

lemma past_syn_sent:
  assumes "hs_half x y A" "hs_half y x B"
  shows "\<exists>A'. leads x y (A, B) (A', B) \<and> hs_half x y A' \<and> ts_state A' \<in> {SYN_RECEIVED, ESTABLISHED}"
proof (cases "ts_state A = SYN_SENT")
  case True
  obtain g where g: "g \<in> set (ts_outbox B)" "has_flag g FLAG_SYN" "hs_seg y x g"
    using assms(2) by (auto simp: hs_half_def)
  let ?A = "snd (on_segment (ep_iss x) g (ep_ip y) A)"
  have "leads x y (A, B) (?A, B)" using g(1) by (auto intro: leads.intros)
  then show ?thesis
    using half_segment [OF assms(1) g(3)] syn_moves [OF assms(1) g(3) g(2) True] by blast
next
  case False
  then show ?thesis using assms(1) half_state leads.here by blast
qed

lemma to_established:
  assumes "hs_half x y A" "hs_half y x B" "ts_state A \<in> {SYN_RECEIVED, ESTABLISHED}"
    and "ts_state B \<in> {SYN_RECEIVED, ESTABLISHED}"
  shows "\<exists>A'. leads x y (A, B) (A', B) \<and> hs_half x y A' \<and> ts_state A' = ESTABLISHED"
proof (cases "ts_state A = ESTABLISHED")
  case False
  obtain g where g: "g \<in> set (ts_outbox B)" "has_flag g FLAG_ACK" "hs_seg y x g"
    using assms(2,4) by (auto simp: hs_half_def)
  let ?A = "snd (on_segment (ep_iss x) g (ep_ip y) A)"
  have "leads x y (A, B) (?A, B)" using g(1) by (auto intro: leads.intros)
  moreover have "ts_state ?A = ESTABLISHED"
    using False assms(3) by (intro ack_moves [OF assms(1) g(3) g(2)]) simp
  ultimately show ?thesis using half_segment [OF assms(1) g(3)] by blast
qed (use assms(1) leads.here in blast)

lemma handshake_can_complete:
  assumes "handshake x y A B"
  shows "\<exists>A' B'. leads x y (A, B) (A', B') \<and> ts_state A' = ESTABLISHED \<and> ts_state B' = ESTABLISHED"
proof -
  have i: "hs_inv x y A B" using assms by (rule handshake_inv)
  have "\<exists>B1. leads x y (A, B) (A, B1) \<and> hs_half y x B1"
  proof (cases "hs_half y x B")
    case False
    then have l: "hs_listening y B" "\<forall>g\<in>set (ts_outbox A). \<not> has_flag g FLAG_ACK" and h: "hs_half x y A"
      using i by (auto simp: hs_inv_def)
    obtain g where g: "g \<in> set (ts_outbox A)" "hs_seg x y g" using h by (auto simp: hs_half_def)
    then have "hs_half y x (snd (on_segment (ep_iss y) g (ep_ip x) B))"
      using listening_segment l by blast
    with g(1) show ?thesis by (blast intro: leads.intros)
  qed (blast intro: leads.here)
  then obtain B1 where b1: "leads x y (A, B) (A, B1)" "hs_half y x B1" by blast
  have hA: "hs_half x y A" using i by (simp add: hs_inv_def)
  obtain A1 where a1: "leads x y (A, B1) (A1, B1)" "hs_half x y A1"
    "ts_state A1 \<in> {SYN_RECEIVED, ESTABLISHED}"
    using past_syn_sent [OF hA b1(2)] by blast
  obtain B2 where b2: "leads x y (A1, B1) (A1, B2)" "hs_half y x B2"
    "ts_state B2 \<in> {SYN_RECEIVED, ESTABLISHED}"
    using past_syn_sent [OF b1(2) a1(2)] leads_swap by blast
  obtain A2 where a2: "leads x y (A1, B2) (A2, B2)" "hs_half x y A2" "ts_state A2 = ESTABLISHED"
    using to_established [OF a1(2) b2(2) a1(3) b2(3)] by blast
  obtain B3 where b3: "leads x y (A2, B2) (A2, B3)" "ts_state B3 = ESTABLISHED"
    using to_established [OF b2(2) a2(2) b2(3)] a2(3) leads_swap by blast
  have "leads x y (A, B) (A2, B3)"
    using b1(1) a1(1) b2(1) a2(1) b3(1) by (blast intro: leads_trans)
  with a2(3) b3(2) show ?thesis by blast
qed

text \<open>C7. The handshake can always be completed: from every reachable pair of states there are
  deliveries of segments that were already sent after which both sides are ESTABLISHED.\<close>

theorem handshake_completes:
  assumes "handshake x y A B"
  shows "\<exists>A' B'. leads x y (A, B) (A', B') \<and> ts_state A' = ESTABLISHED \<and> ts_state B' = ESTABLISHED"
  using assms by (rule handshake_can_complete)

section \<open>Witnesses\<close>

definition demo_x :: endpoint where
  "demo_x = \<lparr>ep_ip = ''10.0.0.1'', ep_port = 4000, ep_mss = 1460, ep_iss = 0xffffffff\<rparr>"

definition demo_y :: endpoint where
  "demo_y = \<lparr>ep_ip = ''10.0.0.2'', ep_port = 5000, ep_mss = 500, ep_iss = 0\<rparr>"

lemma demo_start: "\<exists>A B. handshake demo_x demo_y A B"
proof -
  have "\<exists>A. open_simul i ip p (ep_state e) = Inr A" for i ip p e
    by (simp add: open_simul_def open_active_def ep_state_def tcp_init_def)
  then show ?thesis using handshake.both_open by metis
qed

lemma leads_handshake:
  "leads x y s t \<Longrightarrow> handshake x y (fst s) (snd s) \<Longrightarrow> handshake x y (fst t) (snd t)"
  by (induction rule: leads.induct) (auto intro: handshake.intros)

theorem handshake_completes_witness:
  "\<exists>A B A' B'. handshake demo_x demo_y A B \<and> leads demo_x demo_y (A, B) (A', B')
     \<and> ts_state A' = ESTABLISHED \<and> ts_state B' = ESTABLISHED"
  using demo_start handshake_completes by blast

theorem handshake_agreement_witness:
  "\<exists>(A :: TcpState) (B :: TcpState). ts_state A = ESTABLISHED \<and> ts_state B = ESTABLISHED \<and> ts_rcv_nxt A = ts_snd_nxt B
     \<and> ts_peer_mss A = 536 \<and> ts_peer_mss B = 1460"
proof -
  obtain A B where h: "handshake demo_x demo_y A B" using demo_start by blast
  from handshake_can_complete [OF h] obtain A' B' where
    l: "leads demo_x demo_y (A, B) (A', B')" and st: "ts_state A' = ESTABLISHED" "ts_state B' = ESTABLISHED"
    by blast
  have e: "handshake demo_x demo_y A' B'" using leads_handshake [OF l] h by simp
  have "ts_rcv_nxt A' = ts_snd_nxt B' \<and> ts_peer_mss A' = 536 \<and> ts_peer_mss B' = 1460"
    using handshake_agreement [OF e st] by (simp add: demo_x_def demo_y_def)
  with st show ?thesis by blast
qed

end
