(* ===== verification/TcpStream.thy ===== *)
theory TcpStream
  imports TcpHandshake
begin

unbundle bit_operations_syntax

text \<open>
  The byte streams of an established pair of machines. Starting from any completed handshake,
  both sides write, read, close, retransmit and receive segments the other side has ever sent, in
  any order and any number of times. Ghost fields record what was written and read.
\<close>

section \<open>Sessions\<close>

record side =
  sd_tcp :: TcpState
  sd_written :: bytes
  sd_read :: bytes

definition stream_limit :: nat where
  "stream_limit = 2 ^ 32 - 2"

definition sd_deliver :: "string \<Rightarrow> TcpSegment \<Rightarrow> side \<Rightarrow> side" where
  "sd_deliver ip g a = a\<lparr>sd_tcp := snd (on_segment 0 g ip (sd_tcp a))\<rparr>"

definition sd_write :: "bytes \<Rightarrow> side \<Rightarrow> side" where
  "sd_write d a = (case tcp_write d (sd_tcp a) of
       Inl _ \<Rightarrow> a
     | Inr s \<Rightarrow> a\<lparr>sd_tcp := s, sd_written := sd_written a @ d\<rparr>)"

definition sd_recv :: "nat option \<Rightarrow> side \<Rightarrow> side" where
  "sd_recv n a = (case pop_read n (sd_tcp a) of
       (out, s) \<Rightarrow> a\<lparr>sd_tcp := s, sd_read := sd_read a @ out\<rparr>)"

definition sd_close :: "side \<Rightarrow> side" where
  "sd_close a = a\<lparr>sd_tcp := tcp_close (sd_tcp a)\<rparr>"

definition sd_timer :: "side \<Rightarrow> side" where
  "sd_timer a = a\<lparr>sd_tcp := retransmit (sd_tcp a)\<rparr>"

text \<open>What one side can do on its own, and with a segment of the peer. The streams stay below
  the wrap-around of the sequence space.\<close>

inductive sd_step :: "endpoint \<Rightarrow> side \<Rightarrow> side \<Rightarrow> side \<Rightarrow> bool" for y b a where
  sd_del: "g \<in> set (ts_outbox (sd_tcp b)) \<Longrightarrow> sd_step y b a (sd_deliver (ep_ip y) g a)"
| sd_wri: "length (sd_written a) + length d \<le> stream_limit \<Longrightarrow> sd_step y b a (sd_write d a)"
| sd_rec: "sd_step y b a (sd_recv n a)"
| sd_clo: "sd_step y b a (sd_close a)"
| sd_tim: "sd_step y b a (sd_timer a)"

inductive session :: "endpoint \<Rightarrow> endpoint \<Rightarrow> side \<Rightarrow> side \<Rightarrow> bool" for x y where
  opened: "handshake x y A B \<Longrightarrow> ts_state A = ESTABLISHED \<Longrightarrow> ts_state B = ESTABLISHED \<Longrightarrow>
    ep_mss x \<le> 65536 \<Longrightarrow> ep_mss y \<le> 65536 \<Longrightarrow>
    session x y \<lparr>sd_tcp = A, sd_written = [], sd_read = []\<rparr> \<lparr>sd_tcp = B, sd_written = [], sd_read = []\<rparr>"
| left: "session x y a b \<Longrightarrow> sd_step y b a a' \<Longrightarrow> session x y a' b"
| right: "session x y a b \<Longrightarrow> sd_step x a b b' \<Longrightarrow> session x y a b'"

section \<open>The sending side\<close>

text \<open>Bytes of the written stream already put into segments.\<close>

definition sent_n :: "side \<Rightarrow> nat" where
  "sent_n a = length (sd_written a) - length (ts_send_buf (sd_tcp a))"

definition fin_n :: "bool \<Rightarrow> 32 word" where
  "fin_n f = (if f then 1 else 0)"

definition data_seg :: "endpoint \<Rightarrow> bytes \<Rightarrow> nat \<Rightarrow> bool \<Rightarrow> TcpSegment \<Rightarrow> bool" where
  "data_seg x w n fin g \<longleftrightarrow> sg_src_port g = ep_port x \<and> \<not> has_flag g FLAG_RST
     \<and> (sg_payload g \<noteq> [] \<longrightarrow> (\<exists>k. sg_seq g = ep_iss x + 1 + of_nat k
            \<and> k + length (sg_payload g) \<le> n \<and> sg_payload g = take (length (sg_payload g)) (drop k w)))
     \<and> (has_flag g FLAG_FIN \<longrightarrow> fin \<and> sg_payload g = [] \<and> sg_seq g = ep_iss x + 1 + of_nat n)"

definition sent_of :: "bytes \<Rightarrow> TcpState \<Rightarrow> nat" where
  "sent_of w s = length w - length (ts_send_buf s)"

definition peer_ok :: "endpoint \<Rightarrow> endpoint \<Rightarrow> TcpState \<Rightarrow> bool" where
  "peer_ok x y s \<longleftrightarrow> tcp_inv s \<and> ts_state s \<notin> {LISTEN, SYN_SENT, SYN_RECEIVED}
     \<and> ts_local_port s = ep_port x \<and> ts_remote_port s = ep_port y \<and> ts_remote_ip s = Some (ep_ip y)"

definition snd_ok :: "endpoint \<Rightarrow> endpoint \<Rightarrow> bytes \<Rightarrow> TcpState \<Rightarrow> bool" where
  "snd_ok x y w s \<longleftrightarrow> peer_ok x y s
     \<and> length w \<le> stream_limit \<and> length (ts_send_buf s) \<le> length w
     \<and> ts_send_buf s = drop (sent_of w s) w
     \<and> ts_snd_nxt s = ep_iss x + 1 + of_nat (sent_of w s) + fin_n (ts_fin_sent s)
     \<and> (ts_have_unacked s \<longrightarrow>
          (\<exists>k. k + length (ts_unacked_data s) = sent_of w s
             \<and> ts_unacked_seq s = ep_iss x + 1 + of_nat k
             \<and> ts_unacked_data s = drop k (take (sent_of w s) w)))
     \<and> (\<forall>g\<in>set (ts_outbox s). data_seg x w (sent_of w s) (ts_fin_sent s) g)"

definition sender_ok :: "endpoint \<Rightarrow> endpoint \<Rightarrow> side \<Rightarrow> bool" where
  "sender_ok x y a \<longleftrightarrow> snd_ok x y (sd_written a) (sd_tcp a)"

lemma sent_n_of: "sent_n a = sent_of (sd_written a) (sd_tcp a)"
  by (simp add: sent_n_def sent_of_def)

text \<open>Steps that queue nothing but bare acknowledgements and do not touch the send side.\<close>

lemma snd_ok_frame:
  assumes "snd_ok x y w s" "peer_ok x y s'"
    and "ts_send_buf s' = ts_send_buf s" "ts_snd_nxt s' = ts_snd_nxt s" "ts_fin_sent s' = ts_fin_sent s"
    and "ts_have_unacked s' \<Longrightarrow> ts_have_unacked s \<and> ts_unacked_data s' = ts_unacked_data s"
    and "ts_unacked_seq s' = ts_unacked_seq s"
    and "\<And>g. g \<in> set (ts_outbox s') \<Longrightarrow> g \<in> set (ts_outbox s) \<or>
          sg_payload g = [] \<and> sg_flags g = FLAG_ACK \<and> sg_src_port g = ep_port x"
  shows "snd_ok x y w s'"
proof -
  have n: "sent_of w s' = sent_of w s" by (simp add: sent_of_def assms(3))
  have "data_seg x w (sent_of w s) (ts_fin_sent s) g" if "g \<in> set (ts_outbox s')" for g
    using assms(1) assms(8) [OF that] by (auto simp: snd_ok_def data_seg_def has_flag_def)
  then show ?thesis
    using assms(1-7) by (auto simp: snd_ok_def n)
qed

lemma data_seg_mono:
  assumes "data_seg x w n False g" "n \<le> m" "n \<le> length w"
  shows "data_seg x (w @ v) m f g"
proof -
  have "take l (drop k (w @ v)) = take l (drop k w)" if "k + l \<le> n" for k l
    using that assms(3) by simp
  then show ?thesis using assms unfolding data_seg_def by fastforce
qed

lemma data_seg_extend:
  assumes "data_seg x w n f g" "n \<le> length w"
  shows "data_seg x (w @ v) n f g"
proof -
  have "take l (drop k (w @ v)) = take l (drop k w)" if "k + l \<le> n" for k l
    using that assms(2) by simp
  then show ?thesis using assms unfolding data_seg_def by fastforce
qed

text \<open>\<open>flush_send\<close> cuts the next block off the stream.\<close>

lemma snd_ok_flush:
  assumes s: "snd_ok x y w s" and e: "ts_state s = ESTABLISHED"
  shows "snd_ok x y w (flush_send s)"
proof (cases rule: flush_send_cases [of s])
  case (send chunk)
  let ?n = "sent_of w s" and ?c = "length chunk"
  let ?s = "flush_send s"
  have f: "\<not> ts_fin_sent s" using s e by (simp add: snd_ok_def peer_ok_def tcp_inv_def fsm_ok_def)
  have p: "peer_ok x y ?s"
    using s e inv_flush by (auto simp: snd_ok_def peer_ok_def)
  have sb: "ts_send_buf s = drop ?n w" "length (ts_send_buf s) \<le> length w"
    using s by (simp_all add: snd_ok_def)
  have c: "chunk = take ?c (drop ?n w)" "?c \<le> length (ts_send_buf s)"
    using send(3) sb by (simp_all add: min_def)
  have n: "?n + length (ts_send_buf s) = length w" using sb(2) by (simp add: sent_of_def)
  have sb': "ts_send_buf ?s = drop (?n + ?c) w" using send(4) sb(1) by (simp add: add.commute)
  have n': "sent_of w ?s = ?n + ?c" using sb' n c(2) by (simp add: sent_of_def)
  have nx: "ts_snd_nxt s = ep_iss x + 1 + of_nat ?n" using s f by (simp add: snd_ok_def fin_n_def)
  have d: "data_seg x w (?n + ?c) False (emitted (FLAG_ACK OR FLAG_PSH) chunk None
      (s\<lparr>ts_send_buf := drop ?c (ts_send_buf s)\<rparr>))"
    using c(1) nx s by (auto simp: data_seg_def snd_ok_def peer_ok_def)
  have o: "data_seg x w (?n + ?c) False g" if "g \<in> set (ts_outbox s)" for g
  proof -
    have "data_seg x w ?n False g" using s f that by (auto simp: snd_ok_def)
    then show ?thesis using data_seg_mono [of x w ?n g "?n + ?c" "[]"] n by simp
  qed
  have u: "ts_unacked_seq ?s = ep_iss x + 1 + of_nat ?n \<and> ts_unacked_data ?s = chunk" if "chunk \<noteq> []"
    using that send(4) nx by (simp add: emit_unacked_seq)
  have k: "\<exists>k. k + length (ts_unacked_data ?s) = ?n + ?c
      \<and> ts_unacked_seq ?s = ep_iss x + 1 + of_nat k
      \<and> ts_unacked_data ?s = drop k (take (?n + ?c) w)" if "ts_have_unacked ?s"
  proof (intro exI conjI)
    have ne: "chunk \<noteq> []" using that send(2,4) by simp
    show "?n + length (ts_unacked_data ?s) = ?n + ?c" using u [OF ne] by simp
    show "ts_unacked_seq ?s = ep_iss x + 1 + of_nat ?n" using u [OF ne] by simp
    show "ts_unacked_data ?s = drop ?n (take (?n + ?c) w)"
      using u [OF ne] c(1) by (simp add: drop_take)
  qed
  show ?thesis
    unfolding snd_ok_def n'
    using p s sb' n c(2) f nx d o k send(4)
    by (auto simp: snd_ok_def fin_n_def sb)
qed (use s in simp)

text \<open>The FIN stands right behind everything sent.\<close>

lemma snd_ok_fin:
  assumes s: "snd_ok x y w s" and e: "ts_state s \<in> {ESTABLISHED, CLOSE_WAIT}"
  shows "snd_ok x y w (tcp_close s)"
proof -
  have f: "\<not> ts_fin_sent s" using s e by (auto simp: snd_ok_def peer_ok_def tcp_inv_def fsm_ok_def)
  have i: "tcp_inv (tcp_close s)" using s by (simp add: snd_ok_def peer_ok_def inv_close)
  obtain st where c: "tcp_close s = emit (FLAG_FIN OR FLAG_ACK) [] None s\<lparr>ts_state := st\<rparr>"
    and st: "st \<in> {FIN_WAIT_1, LAST_ACK}"
  proof (rule that)
    show "tcp_close s = emit (FLAG_FIN OR FLAG_ACK) [] None s
        \<lparr>ts_state := (if ts_state s = ESTABLISHED then FIN_WAIT_1 else LAST_ACK)\<rparr>"
      using e by (elim insertE) (simp_all add: tcp_close_def)
  qed simp
  have "ts_local_port (tcp_close s) = ts_local_port s" "ts_remote_port (tcp_close s) = ts_remote_port s"
    "ts_remote_ip (tcp_close s) = ts_remote_ip s" "ts_state (tcp_close s) = st"
    by (simp_all add: c)
  with i s st have p: "peer_ok x y (tcp_close s)" by (auto simp: snd_ok_def peer_ok_def)
  have n: "sent_of w (tcp_close s) = sent_of w s" by (simp add: sent_of_def c)
  have d: "data_seg x w (sent_of w s) True (emitted (FLAG_FIN OR FLAG_ACK) [] None s)"
    using s f by (auto simp: data_seg_def snd_ok_def peer_ok_def fin_n_def)
  have o: "data_seg x w (sent_of w s) True g" if "g \<in> set (ts_outbox s)" for g
  proof -
    have "data_seg x w (sent_of w s) False g" using s f that by (auto simp: snd_ok_def)
    then show ?thesis using data_seg_mono [of x w "sent_of w s" g "sent_of w s" "[]"]
      by (auto simp: sent_of_def)
  qed
  show ?thesis
    unfolding snd_ok_def n
    using p s f d o by (auto simp: snd_ok_def c fin_n_def emit_unacked_seq)
qed

text \<open>The receiving side, against the peer's stream \<open>w\<close>, the number \<open>n\<close> of its bytes sent so far
  and whether it has sent its FIN.\<close>

definition rcv_ok :: "endpoint \<Rightarrow> bytes \<Rightarrow> nat \<Rightarrow> bool \<Rightarrow> bytes \<Rightarrow> TcpState \<Rightarrow> bool" where
  "rcv_ok x w n fin rdb s \<longleftrightarrow>
     (let r = length (rdb @ ts_read_buf s); f = ts_fin_received s in
        rdb @ ts_read_buf s = take r w \<and> r \<le> n
        \<and> ts_rcv_nxt s = ep_iss x + 1 + of_nat r + fin_n f
        \<and> (f \<longrightarrow> fin \<and> r = n))"

definition receiver_ok :: "endpoint \<Rightarrow> side \<Rightarrow> side \<Rightarrow> bool" where
  "receiver_ok x a b \<longleftrightarrow>
     rcv_ok x (sd_written a) (sent_n a) (ts_fin_sent (sd_tcp a)) (sd_read b) (sd_tcp b)"

section \<open>Preservation\<close>

lemma snd_ok_close: "snd_ok x y w s \<Longrightarrow> snd_ok x y w (tcp_close s)"
proof (cases "ts_state s \<in> {ESTABLISHED, CLOSE_WAIT}")
  case False
  moreover assume s: "snd_ok x y w s"
  ultimately have "tcp_close s = s \<or> tcp_close s = s\<lparr>ts_state := CLOSED\<rparr> \<and> ts_state s = CLOSED"
    by (auto simp: tcp_close_def snd_ok_def peer_ok_def)
  then have "tcp_close s = s" by auto
  with s show ?thesis by simp
qed (rule snd_ok_fin)

lemma snd_ok_retransmit: "snd_ok x y w s \<Longrightarrow> snd_ok x y w (retransmit s)"
proof (cases "ts_have_unacked s \<and> ts_unacked_data s \<noteq> []")
  case True
  assume s: "snd_ok x y w s"
  let ?g = "seg_of s (ts_unacked_seq s) (ts_rcv_nxt s) (FLAG_ACK OR FLAG_PSH) (ts_rcv_wnd s) [] (ts_unacked_data s)"
  have r: "retransmit s = push_seg ?g s" using True by (simp add: retransmit_def)
  from s True obtain k where k: "k + length (ts_unacked_data s) = sent_of w s"
    "ts_unacked_seq s = ep_iss x + 1 + of_nat k" "ts_unacked_data s = drop k (take (sent_of w s) w)"
    unfolding snd_ok_def by blast
  have "ts_unacked_data s = take (length (ts_unacked_data s)) (drop k w)"
    using k(3) k(1) by (metis add_diff_cancel_left' drop_take)
  then have "data_seg x w (sent_of w s) (ts_fin_sent s) ?g"
    using s k(1,2) by (auto simp: data_seg_def snd_ok_def peer_ok_def)
  moreover have "sent_of w (push_seg ?g s) = sent_of w s" by (simp add: sent_of_def)
  moreover have "peer_ok x y (push_seg ?g s)" using s by (simp add: snd_ok_def peer_ok_def)
  ultimately show ?thesis using s by (auto simp: snd_ok_def r)
qed (auto simp: retransmit_def)

lemma sd_read_fields [simp]:
  "ts_state (snd (pop_read n s)) = ts_state s" "ts_send_buf (snd (pop_read n s)) = ts_send_buf s"
  "ts_snd_nxt (snd (pop_read n s)) = ts_snd_nxt s" "ts_rcv_nxt (snd (pop_read n s)) = ts_rcv_nxt s"
  "ts_fin_sent (snd (pop_read n s)) = ts_fin_sent s" "ts_fin_received (snd (pop_read n s)) = ts_fin_received s"
  "ts_have_unacked (snd (pop_read n s)) = ts_have_unacked s"
  "ts_unacked_data (snd (pop_read n s)) = ts_unacked_data s"
  "ts_unacked_seq (snd (pop_read n s)) = ts_unacked_seq s" "ts_outbox (snd (pop_read n s)) = ts_outbox s"
  "ts_local_port (snd (pop_read n s)) = ts_local_port s" "ts_remote_port (snd (pop_read n s)) = ts_remote_port s"
  "ts_remote_ip (snd (pop_read n s)) = ts_remote_ip s"
  by (auto simp: pop_read_def split: option.splits)

lemma pop_read_all: "fst (pop_read n s) @ ts_read_buf (snd (pop_read n s)) = ts_read_buf s"
  by (auto simp: pop_read_def split: option.splits)

lemma snd_ok_read: "snd_ok x y w s \<Longrightarrow> snd_ok x y w (snd (pop_read n s))"
proof -
  assume s: "snd_ok x y w s"
  then have "peer_ok x y (snd (pop_read n s))" by (simp add: snd_ok_def peer_ok_def inv_read)
  then show ?thesis by (rule snd_ok_frame [OF s]) auto
qed

lemma snd_ok_write:
  assumes s: "snd_ok x y w s" and t: "tcp_write d s = Inr s'" and l: "length w + length d \<le> stream_limit"
  shows "snd_ok x y (w @ d) s'"
proof -
  let ?s = "s\<lparr>ts_send_buf := ts_send_buf s @ d\<rparr>"
  have n: "sent_of (w @ d) ?s = sent_of w s" by (simp add: sent_of_def)
  have sn: "sent_of w s \<le> length w" by (simp add: sent_of_def)
  have "tcp_inv ?s = tcp_inv s" by (rule tcp_inv_cong) simp_all
  then have p: "peer_ok x y ?s" using s by (simp add: snd_ok_def peer_ok_def)
  have g: "\<forall>g\<in>set (ts_outbox s). data_seg x (w @ d) (sent_of w s) (ts_fin_sent s) g"
    using s sn data_seg_extend by (auto simp: snd_ok_def)
  have u: "take (sent_of w s) (w @ d) = take (sent_of w s) w" using sn by simp
  have b: "ts_send_buf s @ d = drop (sent_of w s) (w @ d)" using s sn by (simp add: snd_ok_def)
  have k: "ts_have_unacked s \<longrightarrow>
      (\<exists>k. k + length (ts_unacked_data s) = sent_of w s \<and> ts_unacked_seq s = ep_iss x + 1 + of_nat k
         \<and> ts_unacked_data s = drop k (take (sent_of w s) (w @ d)))"
    unfolding u using s unfolding snd_ok_def by blast
  have sl: "length (ts_send_buf s @ d) \<le> length (w @ d)"
    "ts_snd_nxt s = ep_iss x + 1 + of_nat (sent_of w s) + fin_n (ts_fin_sent s)"
    using s unfolding snd_ok_def by simp_all
  have ld: "length (w @ d) \<le> stream_limit" using l by simp
  have fs: "ts_send_buf ?s = ts_send_buf s @ d" "ts_snd_nxt ?s = ts_snd_nxt s"
    "ts_fin_sent ?s = ts_fin_sent s" "ts_have_unacked ?s = ts_have_unacked s"
    "ts_unacked_data ?s = ts_unacked_data s" "ts_unacked_seq ?s = ts_unacked_seq s"
    "ts_outbox ?s = ts_outbox s"
    by simp_all
  have ok: "snd_ok x y (w @ d) ?s"
    unfolding snd_ok_def n fs by (intro conjI p ld sl b k g)
  have "s' = flush_send ?s \<and> ts_state s = ESTABLISHED \<or> s' = ?s"
    using t by (auto simp: tcp_write_def split: if_splits)
  then show ?thesis using ok snd_ok_flush [OF ok] by auto
qed

text \<open>An incoming segment.\<close>

lemma est_ack_have:
  "ts_have_unacked (est_ack g s) \<Longrightarrow> ts_have_unacked s \<and> ts_unacked_data (est_ack g s) = ts_unacked_data s"
  by (cases rule: est_ack_cases [of g s]) auto

lemma est_payload_outbox:
  "h \<in> set (ts_outbox (est_payload g s)) \<Longrightarrow> h \<in> set (ts_outbox s) \<or>
     sg_payload h = [] \<and> sg_flags h = FLAG_ACK \<and> sg_src_port h = ts_local_port s"
  by (auto simp: est_payload_def split: if_splits)

lemma handle_peer_fin_outbox:
  "h \<in> set (ts_outbox (handle_peer_fin s)) \<Longrightarrow> h \<in> set (ts_outbox s) \<or>
     sg_payload h = [] \<and> sg_flags h = FLAG_ACK \<and> sg_src_port h = ts_local_port s"
  by (auto simp: handle_peer_fin_def Let_def split: if_splits)

lemma est_fin_fields [simp]:
  "ts_send_buf (est_fin g s) = ts_send_buf s" "ts_snd_nxt (est_fin g s) = ts_snd_nxt s"
  "ts_fin_sent (est_fin g s) = ts_fin_sent s" "ts_have_unacked (est_fin g s) = ts_have_unacked s"
  "ts_unacked_data (est_fin g s) = ts_unacked_data s" "ts_unacked_seq (est_fin g s) = ts_unacked_seq s"
  "ts_read_buf (est_fin g s) = ts_read_buf s"
  "ts_local_port (est_fin g s) = ts_local_port s" "ts_remote_port (est_fin g s) = ts_remote_port s"
  "ts_remote_ip (est_fin g s) = ts_remote_ip s"
  by (simp_all add: est_fin_def)

lemma est_fin_outbox:
  "h \<in> set (ts_outbox (est_fin g s)) \<Longrightarrow> h \<in> set (ts_outbox s) \<or>
     sg_payload h = [] \<and> sg_flags h = FLAG_ACK \<and> sg_src_port h = ts_local_port s"
  using handle_peer_fin_outbox by (auto simp: est_fin_def split: if_splits)

lemma est_close_state_not:
  "ts_state s \<notin> {LISTEN, SYN_SENT, SYN_RECEIVED} \<Longrightarrow> ts_state (est_close s) \<notin> {LISTEN, SYN_SENT, SYN_RECEIVED}"
  by (cases "ts_state s") (auto simp: est_close_state)

lemma snd_ok_established:
  assumes s: "snd_ok x y w s"
  shows "snd_ok x y w (snd (on_segment_established g s))"
proof -
  have st: "ts_state s \<notin> {LISTEN, SYN_SENT, SYN_RECEIVED}" and i: "tcp_inv s"
    using s by (simp_all add: snd_ok_def peer_ok_def)
  let ?a = "est_ack g s"
  let ?p = "est_payload g ?a"
  let ?f = "est_fin g ?p"
  let ?e = "est_close ?f"
  have ie: "tcp_inv ?e"
    using i st by (intro inv_est_close inv_est_fin inv_est_payload inv_est_ack) auto
  have "ts_state ?e \<notin> {LISTEN, SYN_SENT, SYN_RECEIVED}"
    using st by (intro est_close_state_not est_fin_state) simp
  with ie s have pe: "peer_ok x y ?e" by (auto simp: snd_ok_def peer_ok_def)
  have o: "h \<in> set (ts_outbox s) \<or> sg_payload h = [] \<and> sg_flags h = FLAG_ACK \<and> sg_src_port h = ep_port x"
    if "h \<in> set (ts_outbox ?e)" for h
  proof -
    have "h \<in> set (ts_outbox ?f)" using that by simp
    from est_fin_outbox [OF this] est_payload_outbox [of h g ?a] show ?thesis
      using s by (auto simp: snd_ok_def peer_ok_def)
  qed
  have e: "snd_ok x y w ?e"
    by (rule snd_ok_frame [OF s pe]) (use est_ack_have [of g s] o in auto)
  have pp: "peer_ok x y (emit_pure_ack s)" using s by (simp add: snd_ok_def peer_ok_def)
  have a: "snd_ok x y w (emit_pure_ack s)"
    by (rule snd_ok_frame [OF s pp]) (use s in \<open>auto simp: snd_ok_def peer_ok_def\<close>)
  show ?thesis
    using a e snd_ok_flush [OF e] by (simp add: on_segment_established_def Let_def)
qed

lemma snd_ok_segment:
  assumes s: "snd_ok x y w s" and r: "\<not> has_flag g FLAG_RST"
  shows "snd_ok x y w (snd (on_segment i g ip s))"
proof -
  have pp: "peer_ok x y (emit_pure_ack s)" using s by (simp add: snd_ok_def peer_ok_def)
  have a: "snd_ok x y w (emit_pure_ack s)"
    by (rule snd_ok_frame [OF s pp]) (use s in \<open>auto simp: snd_ok_def peer_ok_def\<close>)
  have "ts_state s \<notin> {LISTEN, SYN_SENT, SYN_RECEIVED}" using s by (simp add: snd_ok_def peer_ok_def)
  then show ?thesis
    using s r a snd_ok_established [OF s, of g]
    by (cases "ts_state s") (simp_all add: on_segment_def)
qed

section \<open>The receiving side\<close>

lemma word_offset_eq:
  fixes b :: "32 word"
  assumes "b + of_nat k = b + of_nat m" "k < 2 ^ 32" "m < 2 ^ 32"
  shows "k = m"
proof -
  have "(of_nat k :: 32 word) = of_nat m" using assms(1) by simp
  then have "unat (of_nat k :: 32 word) = unat (of_nat m :: 32 word)" by simp
  then show ?thesis using assms(2,3) by (simp add: unat_of_nat)
qed

lemma fin_n_of_nat: "fin_n f = of_nat (if f then 1 else 0)"
  by (simp add: fin_n_def)

lemma rcv_ok_cong:
  assumes "ts_read_buf s' = ts_read_buf s" "ts_rcv_nxt s' = ts_rcv_nxt s"
    "ts_fin_received s' = ts_fin_received s"
  shows "rcv_ok x w n fin rdb s' = rcv_ok x w n fin rdb s"
  by (simp only: rcv_ok_def assms)

text \<open>Payload is taken exactly when it continues the stream.\<close>

lemma rcv_ok_payload:
  assumes r: "rcv_ok x w n fin rdb s" and d: "data_seg x w n fin' g"
    and n: "n \<le> length w" "length w \<le> stream_limit"
  shows "rcv_ok x w n fin rdb (est_payload g s)"
proof (cases "sg_payload g \<noteq> [] \<and> sg_seq g = ts_rcv_nxt s")
  case True
  let ?p = "sg_payload g"
  let ?r = "length (rdb @ ts_read_buf s)" and ?f = "ts_fin_received s"
  from True d obtain k where k: "sg_seq g = ep_iss x + 1 + of_nat k" "k + length ?p \<le> n"
    "?p = take (length ?p) (drop k w)"
    unfolding data_seg_def by blast
  have rc: "rdb @ ts_read_buf s = take ?r w" "?r \<le> n" "ts_rcv_nxt s = ep_iss x + 1 + of_nat ?r + fin_n ?f"
    "?f \<longrightarrow> fin \<and> ?r = n"
    using r unfolding rcv_ok_def Let_def by blast+
  have lim: "n < 2 ^ 32 - 1" using n by (simp add: stream_limit_def)
  have "ep_iss x + 1 + of_nat k = ep_iss x + 1 + of_nat (?r + (if ?f then 1 else 0))"
    using k(1) rc(3) True by (simp only: fin_n_of_nat of_nat_add add.assoc)
  then have kr: "k = ?r + (if ?f then 1 else 0)"
    by (rule word_offset_eq) (use k(2) rc(2) lim in auto)
  have nf: "\<not> ?f" using kr k(2) rc(4) True by (cases ?p) auto
  then have "k = ?r" using kr by simp
  then have g1: "rdb @ ts_read_buf s @ ?p = take (?r + length ?p) w"
    using rc(1) k(3) by (metis append_assoc take_add)
  have e: "ts_read_buf (est_payload g s) = ts_read_buf s @ ?p"
    "ts_rcv_nxt (est_payload g s) = ts_rcv_nxt s + of_nat (length ?p)"
    using True by (simp_all add: est_payload_def)
  have l: "length (rdb @ ts_read_buf (est_payload g s)) = ?r + length ?p" by (simp add: e)
  show ?thesis
    unfolding rcv_ok_def Let_def l
    using g1 k(2) \<open>k = ?r\<close> rc(3) nf by (simp add: e fin_n_def)
next
  case False
  then show ?thesis using r by (subst rcv_ok_cong [of _ s]) (auto simp: est_payload_def)
qed

text \<open>A FIN is taken exactly at the end of what was sent.\<close>

lemma rcv_ok_fin:
  assumes r: "rcv_ok x w n fin rdb s" and d: "data_seg x w n fin g"
    and n: "n \<le> length w" "length w \<le> stream_limit"
  shows "rcv_ok x w n fin rdb (est_fin g s)"
proof (cases rule: est_fin_cases [of g s])
  case 2
  let ?r = "length (rdb @ ts_read_buf s)"
  have g: "fin" "sg_payload g = []" "sg_seq g = ep_iss x + 1 + of_nat n"
    using d 2(1) by (auto simp: data_seg_def)
  have rc: "rdb @ ts_read_buf s = take ?r w" "?r \<le> n"
    "ts_rcv_nxt s = ep_iss x + 1 + of_nat ?r + fin_n (ts_fin_received s)"
    using r unfolding rcv_ok_def Let_def by blast+
  show ?thesis
  proof (cases "ts_fin_received s")
    case True
    then show ?thesis using r 2 by (simp add: handle_peer_fin_def)
  next
    case False
    have "sg_seq g = ts_rcv_nxt s" using 2(2) g(2) by (simp add: word_uint_eq_iff)
    then have "ep_iss x + 1 + of_nat n = ep_iss x + 1 + of_nat ?r"
      using g(3) rc(3) False by (simp add: fin_n_def)
    then have "n = ?r"
      by (rule word_offset_eq) (use n rc(2) in \<open>auto simp: stream_limit_def\<close>)
    have "ts_rcv_nxt (handle_peer_fin s) = ts_rcv_nxt s + 1"
      using False by (simp add: handle_peer_fin_def Let_def)
    then have nx: "ts_rcv_nxt (est_fin g s) = ep_iss x + 1 + of_nat ?r + fin_n True"
      using 2(3) rc(3) False by (simp only: fin_n_def if_True if_False add_0_right)
    have f: "ts_read_buf (est_fin g s) = ts_read_buf s" "ts_fin_received (est_fin g s) = True"
      using 2(3) by simp_all
    show ?thesis
      unfolding rcv_ok_def Let_def f using rc(1,2) nx g(1) \<open>n = ?r\<close> by blast
  qed
qed (use r in simp)

lemma rcv_ok_segment:
  assumes r: "rcv_ok x w n fin rdb s" and d: "data_seg x w n fin g"
    and n: "n \<le> length w" "length w \<le> stream_limit"
    and st: "ts_state s \<notin> {LISTEN, SYN_SENT, SYN_RECEIVED}"
  shows "rcv_ok x w n fin rdb (snd (on_segment i g ip s))"
proof -
  let ?a = "est_ack g s"
  let ?e = "est_close (est_fin g (est_payload g ?a))"
  have "rcv_ok x w n fin rdb ?a" using r by (subst rcv_ok_cong [of _ s]) simp_all
  then have "rcv_ok x w n fin rdb (est_fin g (est_payload g ?a))"
    using d n by (intro rcv_ok_fin rcv_ok_payload)
  then have e: "rcv_ok x w n fin rdb ?e" by (subst rcv_ok_cong) simp_all
  have f: "rcv_ok x w n fin rdb (flush_send ?e)" using e by (subst rcv_ok_cong [of _ ?e]) simp_all
  have p: "rcv_ok x w n fin rdb (emit_pure_ack s)" using r by (subst rcv_ok_cong [of _ s]) simp_all
  have "\<not> has_flag g FLAG_RST" using d by (simp add: data_seg_def)
  then show ?thesis
    using st r e f p
    by (cases "ts_state s") (simp_all add: on_segment_def on_segment_established_def Let_def)
qed

lemma rcv_ok_read:
  "rcv_ok x w n fin rdb s \<Longrightarrow> rcv_ok x w n fin (rdb @ fst (pop_read m s)) (snd (pop_read m s))"
proof -
  have e: "(rdb @ fst (pop_read m s)) @ ts_read_buf (snd (pop_read m s)) = rdb @ ts_read_buf s"
    by (simp add: pop_read_all)
  assume "rcv_ok x w n fin rdb s"
  then show ?thesis unfolding rcv_ok_def Let_def e sd_read_fields .
qed

text \<open>The peer's own steps only extend its stream, and only before its FIN.\<close>

lemma rcv_ok_grow:
  assumes "rcv_ok x w n fin rdb s" "n \<le> n'" "n \<le> length w" "fin \<Longrightarrow> n' = n \<and> fin'"
  shows "rcv_ok x (w @ v) n' fin' rdb s"
  using assms by (auto simp: rcv_ok_def Let_def)

section \<open>Session invariant\<close>

definition stream_inv :: "endpoint \<Rightarrow> endpoint \<Rightarrow> side \<Rightarrow> side \<Rightarrow> bool" where
  "stream_inv x y a b \<longleftrightarrow> sender_ok x y a \<and> sender_ok y x b \<and> receiver_ok x a b \<and> receiver_ok y b a"

lemma stream_inv_sym: "stream_inv x y a b \<Longrightarrow> stream_inv y x b a"
  by (auto simp: stream_inv_def)

lemma sent_of_le: "sent_of w s \<le> length w"
  by (simp add: sent_of_def)

text \<open>What a step of the sender does to its sent count.\<close>

lemma flush_sent: "length (ts_send_buf s) \<le> length w \<Longrightarrow> sent_of w s \<le> sent_of w (flush_send s)"
  by (cases rule: flush_send_cases [of s]) (auto simp: sent_of_def)

lemma segment_sent:
  assumes "snd_ok x y w s" "\<not> has_flag g FLAG_RST"
  shows "sent_of w s \<le> sent_of w (snd (on_segment i g ip s))
    \<and> (ts_fin_sent s \<longrightarrow> sent_of w (snd (on_segment i g ip s)) = sent_of w s)
    \<and> ts_fin_sent (snd (on_segment i g ip s)) = ts_fin_sent s"
proof -
  let ?e = "est_close (est_fin g (est_payload g (est_ack g s)))"
  have st: "ts_state s \<notin> {LISTEN, SYN_SENT, SYN_RECEIVED}" and i: "tcp_inv s"
    and l: "length (ts_send_buf s) \<le> length w"
    using assms(1) by (simp_all add: snd_ok_def peer_ok_def)
  have n: "sent_of w ?e = sent_of w s" by (simp add: sent_of_def)
  have "tcp_inv ?e" using i st by (intro inv_est_close inv_est_fin inv_est_payload inv_est_ack) auto
  then have fin: "\<not> ts_fin_sent s" if "ts_state ?e = ESTABLISHED"
    using that by (simp add: tcp_inv_def fsm_ok_def)
  have fl: "sent_of w ?e \<le> sent_of w (flush_send ?e)" using l by (intro flush_sent) simp
  have pa: "sent_of w (emit_pure_ack s) = sent_of w s" by (simp add: sent_of_def)
  show ?thesis
    using st assms(2) n fin fl pa
    by (cases "ts_state s") (simp_all add: on_segment_def on_segment_established_def Let_def)
qed

text \<open>One step of one side preserves the invariant.\<close>

lemma step_inv:
  assumes v: "stream_inv x y a b" and t: "sd_step y b a a'"
  shows "stream_inv x y a' b"
proof -
  have sa: "snd_ok x y (sd_written a) (sd_tcp a)" and sb: "snd_ok y x (sd_written b) (sd_tcp b)"
    and ra: "receiver_ok y b a" and rb: "receiver_ok x a b"
    using v by (simp_all add: stream_inv_def sender_ok_def)
  have nb: "sent_n b \<le> length (sd_written b)" "length (sd_written b) \<le> stream_limit"
    using sb by (simp_all add: sent_n_def snd_ok_def)
  have na: "sent_n a \<le> length (sd_written a)" by (simp add: sent_n_def)
  have keep: "receiver_ok x a'' b"
    if "sent_n a \<le> sent_n a''" "\<exists>v. sd_written a'' = sd_written a @ v"
      "ts_fin_sent (sd_tcp a) \<Longrightarrow> sent_n a'' = sent_n a \<and> ts_fin_sent (sd_tcp a'')" for a''
  proof -
    obtain v where v: "sd_written a'' = sd_written a @ v" using \<open>\<exists>v. _\<close> by blast
    show ?thesis
      using rb unfolding receiver_ok_def v by (rule rcv_ok_grow) (use that na in auto)
  qed
  have recv_same: "receiver_ok y b a''"
    if "sd_read a'' = sd_read a" "ts_read_buf (sd_tcp a'') = ts_read_buf (sd_tcp a)"
      "ts_rcv_nxt (sd_tcp a'') = ts_rcv_nxt (sd_tcp a)"
      "ts_fin_received (sd_tcp a'') = ts_fin_received (sd_tcp a)" for a''
    using ra that unfolding receiver_ok_def by (subst rcv_ok_cong [of _ "sd_tcp a"]) simp_all
  show ?thesis using t
  proof cases
    case (sd_del g)
    let ?s = "snd (on_segment 0 g (ep_ip y) (sd_tcp a))"
    have d: "data_seg y (sd_written b) (sent_n b) (ts_fin_sent (sd_tcp b)) g"
      using sb sd_del(2) by (simp add: snd_ok_def sent_n_of)
    have rst: "\<not> has_flag g FLAG_RST" using d by (simp add: data_seg_def)
    have "snd_ok x y (sd_written a) ?s" using sa rst by (rule snd_ok_segment)
    moreover have "receiver_ok y b a'"
      using ra sa d nb unfolding receiver_ok_def sd_del sd_deliver_def
      by (auto intro!: rcv_ok_segment simp: snd_ok_def peer_ok_def)
    moreover have "receiver_ok x a' b"
      using segment_sent [OF sa rst, of 0 "ep_ip y"]
      by (intro keep) (auto simp: sd_del sd_deliver_def sent_n_of)
    ultimately show ?thesis using sb by (simp add: stream_inv_def sender_ok_def sd_del sd_deliver_def)
  next
    case (sd_wri d)
    show ?thesis
    proof (cases "tcp_write d (sd_tcp a)")
      case (Inl e)
      then show ?thesis using v by (simp add: sd_wri sd_write_def)
    next
      case (Inr s')
      have a': "a' = a\<lparr>sd_tcp := s', sd_written := sd_written a @ d\<rparr>"
        by (simp add: sd_wri sd_write_def Inr)
      have s': "snd_ok x y (sd_written a @ d) s'" using sa Inr sd_wri(2) by (rule snd_ok_write)
      let ?s = "sd_tcp a\<lparr>ts_send_buf := ts_send_buf (sd_tcp a) @ d\<rparr>"
      have f: "s' = flush_send ?s \<and> ts_state (sd_tcp a) = ESTABLISHED \<or> s' = ?s"
        using Inr by (auto simp: tcp_write_def split: if_splits)
      have n: "sent_of (sd_written a @ d) ?s = sent_n a" by (simp add: sent_of_def sent_n_def)
      have "length (ts_send_buf ?s) \<le> length (sd_written a @ d)" using sa by (simp add: snd_ok_def)
      then have ge: "sent_n a \<le> sent_of (sd_written a @ d) s'"
        using f n flush_sent [of ?s "sd_written a @ d"] by auto
      have fin: "\<not> ts_fin_sent (sd_tcp a)" if "ts_state (sd_tcp a) = ESTABLISHED"
        using that sa by (simp add: snd_ok_def peer_ok_def tcp_inv_def fsm_ok_def)
      have "receiver_ok x a' b"
        by (rule keep) (use ge f n fin in \<open>auto simp: a' sent_n_of\<close>)
      moreover have "receiver_ok y b a'" by (rule recv_same) (use f in \<open>auto simp: a'\<close>)
      ultimately show ?thesis using s' sb by (simp add: stream_inv_def sender_ok_def a')
    qed
  next
    case (sd_rec m)
    let ?s = "snd (pop_read m (sd_tcp a))"
    have a': "a' = a\<lparr>sd_tcp := ?s, sd_read := sd_read a @ fst (pop_read m (sd_tcp a))\<rparr>"
      by (simp add: sd_rec sd_recv_def case_prod_beta)
    have "snd_ok x y (sd_written a) ?s" using sa by (rule snd_ok_read)
    moreover have "receiver_ok y b a'"
      using ra rcv_ok_read unfolding receiver_ok_def a' by simp
    moreover have "receiver_ok x a' b" by (rule keep) (auto simp: a' sent_n_def)
    ultimately show ?thesis using sb by (simp add: stream_inv_def sender_ok_def a')
  next
    case sd_clo
    have "snd_ok x y (sd_written a) (tcp_close (sd_tcp a))" using sa by (rule snd_ok_close)
    moreover have "receiver_ok x a' b"
      by (rule keep) (auto simp: sd_clo sd_close_def sent_n_def tcp_close_def)
    moreover have "receiver_ok y b a'"
      by (rule recv_same) (auto simp: sd_clo sd_close_def tcp_close_def)
    ultimately show ?thesis using sb by (simp add: stream_inv_def sender_ok_def sd_clo sd_close_def)
  next
    case sd_tim
    have "snd_ok x y (sd_written a) (retransmit (sd_tcp a))" using sa by (rule snd_ok_retransmit)
    moreover have "receiver_ok x a' b"
      by (rule keep) (auto simp: sd_tim sd_timer_def sent_n_def retransmit_def)
    moreover have "receiver_ok y b a'"
      by (rule recv_same) (auto simp: sd_tim sd_timer_def retransmit_def)
    ultimately show ?thesis using sb by (simp add: stream_inv_def sender_ok_def sd_tim sd_timer_def)
  qed
qed

lemma handshake_tcp_inv:
  "handshake x y A B \<Longrightarrow> ep_mss x \<le> 65536 \<Longrightarrow> ep_mss y \<le> 65536 \<Longrightarrow> tcp_inv A \<and> tcp_inv B"
  by (induction rule: handshake.induct)
    (auto simp: open_simul_def ep_state_def intro: inv_open_active inv_open_listen inv_segment)

lemma hs_seg_data: "hs_seg x y g \<Longrightarrow> data_seg x w n f g"
  by (auto simp: hs_seg_def data_seg_def)

lemma established_snd_ok:
  assumes h: "hs_half x y A" and e: "ts_state A = ESTABLISHED" and i: "tcp_inv A"
  shows "snd_ok x y [] A" "rcv_ok y [] 0 fin [] A"
  using assms hs_seg_data
  by (auto simp: snd_ok_def peer_ok_def hs_half_def sent_of_def fin_n_def rcv_ok_def stream_limit_def)

lemma session_inv: "session x y a b \<Longrightarrow> stream_inv x y a b"
proof (induction rule: session.induct)
  case (opened A B)
  have "hs_half x y A" "hs_half y x B"
    using handshake_inv [OF opened(1)] opened(2,3) by (auto simp: hs_inv_def hs_listening_def)
  moreover have "tcp_inv A" "tcp_inv B" using handshake_tcp_inv opened by blast+
  ultimately show ?case
    using established_snd_ok opened(2,3)
    by (simp add: stream_inv_def sender_ok_def receiver_ok_def sent_n_def)
next
  case (left a b a')
  then show ?case using step_inv by blast
next
  case (right a b b')
  then show ?case using step_inv stream_inv_sym by blast
qed

lemma inv_streams:
  assumes "stream_inv x y a b"
  shows "prefix (sd_read b @ ts_read_buf (sd_tcp b)) (sd_written a)"
    and "ts_fin_received (sd_tcp b) \<Longrightarrow>
           (sd_read b @ ts_read_buf (sd_tcp b)) @ ts_send_buf (sd_tcp a) = sd_written a"
proof -
  let ?got = "sd_read b @ ts_read_buf (sd_tcp b)"
  have r: "receiver_ok x a b" and s: "sender_ok x y a" using assms by (simp_all add: stream_inv_def)
  have t: "?got = take (length ?got) (sd_written a)"
    using r unfolding receiver_ok_def rcv_ok_def Let_def by blast
  then show "prefix ?got (sd_written a)" by (metis take_is_prefix)
  assume "ts_fin_received (sd_tcp b)"
  then have "length ?got = sent_n a"
    using r unfolding receiver_ok_def rcv_ok_def Let_def by blast
  moreover have "ts_send_buf (sd_tcp a) = drop (sent_n a) (sd_written a)"
    using s by (simp add: sender_ok_def snd_ok_def sent_n_of)
  ultimately show "?got @ ts_send_buf (sd_tcp a) = sd_written a"
    using t by (metis append_take_drop_id)
qed

text \<open>C1. Stream integrity. Whatever the network loses, repeats or reorders and whatever both
  sides do after the handshake (writes, reads, retransmissions, closing), the bytes a side has
  received, read or still buffered, are an initial part of the bytes its peer wrote.\<close>

theorem stream_integrity:
  assumes "session x y a b"
  shows "prefix (sd_read b @ ts_read_buf (sd_tcp b)) (sd_written a)
    \<and> prefix (sd_read a @ ts_read_buf (sd_tcp a)) (sd_written b)"
  using inv_streams(1) session_inv [OF assms] stream_inv_sym by blast

text \<open>C8. End of stream, for a connection on which both sides are ESTABLISHED when the session starts. When a side has
  accepted its peer's FIN in the session, it has received every byte the peer wrote except those still in
  the peer's send buffer: nothing that was sent is missing. (After a close those buffered bytes are never sent,
  see \<open>close_strands_buffer\<close>. A FIN that arrives earlier, while the receiver is in SYN-RECEIVED, is outside this: it
  is accepted whatever is missing before it, see \<open>fin_out_of_order_in_handshake\<close>.)\<close>

theorem end_of_stream_complete:
  assumes "session x y a b" and "ts_fin_received (sd_tcp b)"
  shows "(sd_read b @ ts_read_buf (sd_tcp b)) @ ts_send_buf (sd_tcp a) = sd_written a"
  using inv_streams(2) session_inv [OF assms(1)] assms(2) by blast

section \<open>Concrete sessions\<close>

lemma demo_session:
  obtains A B where "handshake demo_x demo_y A B" "ts_state A = ESTABLISHED" "ts_state B = ESTABLISHED"
    "hs_half demo_x demo_y A" "hs_half demo_y demo_x B"
    "session demo_x demo_y \<lparr>sd_tcp = A, sd_written = [], sd_read = []\<rparr>
       \<lparr>sd_tcp = B, sd_written = [], sd_read = []\<rparr>"
proof -
  obtain A0 B0 where h: "handshake demo_x demo_y A0 B0" using demo_start by blast
  from handshake_can_complete [OF h] obtain A B where
    l: "leads demo_x demo_y (A0, B0) (A, B)" and st: "ts_state A = ESTABLISHED" "ts_state B = ESTABLISHED"
    by blast
  have e: "handshake demo_x demo_y A B" using leads_handshake [OF l] h by simp
  have hh: "hs_half demo_x demo_y A" "hs_half demo_y demo_x B"
    using handshake_inv [OF e] st by (auto simp: hs_inv_def hs_listening_def)
  show thesis
    by (rule that [OF e st hh session.opened [OF e st]]) (simp_all add: demo_x_def demo_y_def)
qed

lemma fin_delivered:
  assumes "hs_half x y A" "hs_half y x B" "ts_state A = ESTABLISHED" "ts_state B = ESTABLISHED"
  defines "g \<equiv> emitted (FLAG_FIN OR FLAG_ACK) [] None A"
  shows "g \<in> set (ts_outbox (tcp_close A))" "ts_fin_received (snd (on_segment 0 g (ep_ip x) B))"
proof -
  show "g \<in> set (ts_outbox (tcp_close A))" using assms(3) by (simp add: tcp_close_def g_def)
  have w: "seq_in_window q q (q + 65535)" for q :: "32 word"
    by (simp add: seq_in_window_def)
  have n: "sg_seq g = ts_rcv_nxt B" "sg_payload g = []" "has_flag g FLAG_FIN" "\<not> has_flag g FLAG_RST"
    "sg_src_port g = ts_remote_port B" "ts_remote_ip B = Some (ep_ip x)" "ts_rcv_wnd B = 65535"
    using assms by (auto simp: hs_half_def)
  have "on_segment 0 g (ep_ip x) B = on_segment_established g B"
    using n assms(4) by (simp add: on_segment_def)
  moreover have "ts_fin_received (snd (on_segment_established g B))"
    using n w by (simp add: on_segment_established_def Let_def est_fin_def est_payload_def)
  ultimately show "ts_fin_received (snd (on_segment 0 g (ep_ip x) B))" by simp
qed

theorem stream_integrity_witness:
  "\<exists>a b. session demo_x demo_y a b \<and> sd_written a = [1, 2, 3]
     \<and> prefix (sd_read b @ ts_read_buf (sd_tcp b)) [1, 2, 3]"
proof -
  obtain A B where s: "ts_state A = ESTABLISHED"
    "session demo_x demo_y \<lparr>sd_tcp = A, sd_written = [], sd_read = []\<rparr>
       \<lparr>sd_tcp = B, sd_written = [], sd_read = []\<rparr>"
    by (rule demo_session)
  let ?a = "sd_write [1, 2, 3] \<lparr>sd_tcp = A, sd_written = [], sd_read = []\<rparr>"
  have v: "session demo_x demo_y ?a \<lparr>sd_tcp = B, sd_written = [], sd_read = []\<rparr>"
    by (rule session.left [OF s(2)], rule sd_step.sd_wri) (simp add: stream_limit_def)
  have "sd_written ?a = [1, 2, 3]" using s(1) by (simp add: sd_write_def tcp_write_def)
  with v stream_integrity [OF v] show ?thesis by fastforce
qed

theorem end_of_stream_complete_witness:
  "\<exists>a b. session demo_x demo_y a b \<and> ts_fin_received (sd_tcp b)
     \<and> (sd_read b @ ts_read_buf (sd_tcp b)) @ ts_send_buf (sd_tcp a) = sd_written a"
proof -
  obtain A B where s: "ts_state A = ESTABLISHED" "ts_state B = ESTABLISHED"
    "hs_half demo_x demo_y A" "hs_half demo_y demo_x B"
    "session demo_x demo_y \<lparr>sd_tcp = A, sd_written = [], sd_read = []\<rparr>
       \<lparr>sd_tcp = B, sd_written = [], sd_read = []\<rparr>"
    by (rule demo_session)
  let ?a = "sd_close \<lparr>sd_tcp = A, sd_written = [], sd_read = []\<rparr>"
  let ?b = "sd_deliver (ep_ip demo_x) (emitted (FLAG_FIN OR FLAG_ACK) [] None A)
     \<lparr>sd_tcp = B, sd_written = [], sd_read = []\<rparr>"
  note f = fin_delivered [OF s(3,4,1,2)]
  have "session demo_x demo_y ?a \<lparr>sd_tcp = B, sd_written = [], sd_read = []\<rparr>"
    by (rule session.left [OF s(5)], rule sd_step.sd_clo)
  then have v: "session demo_x demo_y ?a ?b"
    by (rule session.right) (rule sd_step.sd_del, use f(1) in \<open>simp add: sd_close_def\<close>)
  have "ts_fin_received (sd_tcp ?b)" using f(2) by (simp add: sd_deliver_def)
  with v end_of_stream_complete [OF v this] show ?thesis by blast
qed

end
