(* ===== verification/TcpGraph.thy ===== *)
theory TcpGraph
  imports TcpInv
begin

unbundle bit_operations_syntax

text \<open>
  The state machine of \<open>net/pcap/tcp/state.py\<close> against the state diagram of RFC 9293: which events
  a segment carries is read off its numbers and flags, and the next state is the diagram's.
\<close>

section \<open>The state diagram\<close>















end
