(* ===== verification/TcpIssues.thy ===== *)
theory TcpIssues
  imports TcpInv
begin

unbundle bit_operations_syntax

text \<open>
  Behaviour of \<open>net/pcap/tcp/state.py\<close> that departs from its comments or from RFC 9293: data
  stranded by \<open>close\<close>, a FIN ignored at the wrap-around of the sequence space, a FIN accepted out
  of order while the handshake finishes, a listener killed by a reset, and a block that stays
  outstanding after it was acknowledged.
\<close>

section \<open>Closing strands the send buffer\<close>

definition closing_state :: "tcp_fsm \<Rightarrow> bool" where
  "closing_state st \<longleftrightarrow> st \<in> {CLOSED, FIN_WAIT_1, FIN_WAIT_2, CLOSING, LAST_ACK, TIME_WAIT}"

lemma closing_step:
  assumes "closing_state (ts_state s)"
  shows "closing_state (ts_state (tcp_step c s))
    \<and> prefix (ts_send_buf s) (ts_send_buf (tcp_step c s))"
proof (cases c)
  case (Segment iss g ip)
  have e: "seg_edge (has_flag g FLAG_RST) (ts_state s) (ts_state (snd (on_segment iss g ip s)))"
    using on_segment_listen_edge [of s iss g ip] on_segment_syn_sent_edge [of s g]
      on_segment_syn_received_edge [of s g] on_segment_established_edge [of s g] handle_rst_edge [of s g]
    by (cases "ts_state s"; cases "has_flag g FLAG_RST"; simp add: on_segment_def)
  have st: "closing_state (ts_state (snd (on_segment iss g ip s)))"
    using assms e by (auto simp: closing_state_def)
  have ne: "ts_state (est_close (est_fin g (est_payload g (est_ack g s)))) \<noteq> ESTABLISHED"
    if "ts_state s \<in> {FIN_WAIT_1, FIN_WAIT_2, CLOSING, LAST_ACK}"
    using est_stages_edge [of s g] that by auto
  have "ts_send_buf (snd (on_segment iss g ip s)) = ts_send_buf s"
    using assms ne
    by (cases "ts_state s")
      (auto simp: closing_state_def on_segment_def handle_rst_def on_segment_established_def Let_def est_fin_def)
  with st show ?thesis by (simp add: Segment)
next
  case (Write d)
  then show ?thesis
    using assms by (auto simp: closing_state_def tcp_write_def or_same_def)
next
  case Close
  then show ?thesis using assms by (auto simp: closing_state_def tcp_close_def)
next
  case (Read n)
  then show ?thesis
    using assms by (auto simp: pop_read_def split: option.splits)
next
  case Timer
  then show ?thesis using assms by (simp add: retransmit_def)
qed (use assms in simp)

text \<open>After \<open>close\<close> in ESTABLISHED, whatever is then received, written, read or timed out,
  every byte that was still in the send buffer stays there: it is never put into a segment.\<close>

theorem close_strands_buffer:
  assumes "ts_state s = ESTABLISHED"
  shows "prefix (ts_send_buf s) (ts_send_buf (foldl (\<lambda>s c. tcp_step c s) (tcp_close s) cs))"
proof -
  have "closing_state (ts_state (foldl (\<lambda>s c. tcp_step c s) (tcp_close s) cs)) \<and>
      prefix (ts_send_buf s) (ts_send_buf (foldl (\<lambda>s c. tcp_step c s) (tcp_close s) cs))"
  proof (induction cs rule: rev_induct)
    case Nil
    then show ?case using assms by (simp add: tcp_close_def closing_state_def)
  next
    case (snoc c cs)
    then show ?case using closing_step by (auto intro: prefix_order.trans)
  qed
  then show ?thesis ..
qed

theorem close_strands_buffer_witness:
  "\<exists>s :: TcpState. ts_state s = ESTABLISHED \<and> ts_send_buf s = [1, 2]
     \<and> prefix [1, 2] (ts_send_buf (foldl (\<lambda>s c. tcp_step c s) (tcp_close s) [Timer, Close]))"
proof -
  let ?s = "tcp_init ''10.0.0.1'' 1 1460\<lparr>ts_state := ESTABLISHED, ts_send_buf := [1, 2]\<rparr>"
  have "ts_state ?s = ESTABLISHED" by simp
  from close_strands_buffer [OF this, of "[Timer, Close]"] show ?thesis
    by (intro exI [of _ ?s]) simp
qed

section \<open>FIN handling\<close>

text \<open>An in-order FIN that follows payload reaching or crossing sequence number \<open>2^32\<close> is not
  recognised, because the test adds the payload length to the sequence number without the 32-bit
  mask: the payload is delivered and acknowledged, but the peer's FIN is not.\<close>

theorem fin_ignored_at_wrap:
  assumes "ts_state s = ESTABLISHED" and "\<not> ts_fin_received s"
    and "has_flag g FLAG_FIN" and "sg_seq g = ts_rcv_nxt s"
    and "2 ^ 32 \<le> uint (sg_seq g) + int (length (sg_payload g))"
  shows "\<not> ts_fin_received (snd (on_segment_established g s))"
proof -
  have "uint (sg_seq g) + int (length (sg_payload g)) \<noteq> uint (ts_rcv_nxt t)" for t :: TcpState
    using assms(5) uint32_bounds(2) [of "ts_rcv_nxt t"] by simp
  then have "est_fin g t = t" for t
    by (simp add: est_fin_def)
  then show ?thesis
    using assms(2) by (simp add: on_segment_established_def Let_def)
qed

theorem fin_ignored_at_wrap_witness:
  "\<exists>s g. ts_state s = ESTABLISHED \<and> sg_seq g = ts_rcv_nxt s \<and> sg_payload g = [7]
     \<and> has_flag g FLAG_FIN \<and> \<not> ts_fin_received (snd (on_segment_established g s))"
proof -
  let ?s = "tcp_init ''10.0.0.1'' 1 1460\<lparr>ts_state := ESTABLISHED, ts_rcv_nxt := 0xffffffff\<rparr>"
  let ?g = "tcp_segment 2 1 0xffffffff 0 (FLAG_FIN OR FLAG_ACK) 100 [] [7] 0"
  have "\<not> ts_fin_received (snd (on_segment_established ?g ?s))"
    by (rule fin_ignored_at_wrap) (simp_all add: tcp_init_def tcp_segment_def has_flag_def)
  then show ?thesis
    by (intro exI [of _ ?s] exI [of _ ?g]) (simp add: tcp_segment_def has_flag_def)
qed

text \<open>In SYN_RECEIVED a FIN that rides on any segment acknowledging our SYN is accepted
  whatever its sequence number: the connection goes to CLOSE_WAIT although data before the FIN may be
  missing, and the next expected sequence number is then one past the FIN's own payload.\<close>

theorem fin_out_of_order_in_handshake:
  assumes "ts_state s = SYN_RECEIVED" and "\<not> ts_fin_received s"
    and "sg_flags g = (FLAG_FIN OR FLAG_ACK)" and "sg_ack g = ts_iss s + 1" and "sg_payload g = []"
  shows "ts_fin_received (snd (on_segment_syn_received g s))
    \<and> ts_state (snd (on_segment_syn_received g s)) = CLOSE_WAIT
    \<and> ts_rcv_nxt (snd (on_segment_syn_received g s)) = ts_rcv_nxt s + 1
    \<and> ts_read_buf (snd (on_segment_syn_received g s)) = ts_read_buf s"
  using assms
  by (simp add: on_segment_syn_received_def Let_def has_flag_def handle_peer_fin_state
      handle_peer_fin_def)

theorem fin_out_of_order_in_handshake_witness:
  "\<exists>s g. sg_seq g = ts_rcv_nxt s + 500 \<and> ts_state (snd (on_segment_syn_received g s)) = CLOSE_WAIT
     \<and> ts_fin_received (snd (on_segment_syn_received g s))"
proof -
  let ?s = "tcp_init ''10.0.0.1'' 1 1460\<lparr>ts_state := SYN_RECEIVED, ts_rcv_nxt := 100, ts_iss := 7\<rparr>"
  let ?g = "tcp_segment 2 1 600 8 (FLAG_FIN OR FLAG_ACK) 100 [] [] 0"
  have "ts_fin_received (snd (on_segment_syn_received ?g ?s))
    \<and> ts_state (snd (on_segment_syn_received ?g ?s)) = CLOSE_WAIT
    \<and> ts_rcv_nxt (snd (on_segment_syn_received ?g ?s)) = ts_rcv_nxt ?s + 1
    \<and> ts_read_buf (snd (on_segment_syn_received ?g ?s)) = ts_read_buf ?s"
    by (rule fin_out_of_order_in_handshake) (simp_all add: tcp_init_def tcp_segment_def)
  then show ?thesis
    by (intro exI [of _ ?s] exI [of _ ?g]) (simp add: tcp_segment_def)
qed

section \<open>Resets and outstanding data\<close>

text \<open>Resets. In SYN_SENT a reset counts only if it acknowledges exactly our SYN, and leaves the
  machine untouched otherwise; in every other state, including LISTEN, any reset from the
  accepted source closes and aborts the machine, without a look at its sequence number.\<close>

theorem reset_handling:
  assumes "has_flag g FLAG_RST"
    and "ts_state s \<in> {CLOSED, LISTEN} \<or> sg_src_port g = ts_remote_port s \<and> ts_remote_ip s = Some ip"
  shows "on_segment iss g ip s =
    (if ts_state s = SYN_SENT \<and> (\<not> has_flag g FLAG_ACK \<or> sg_ack g \<noteq> ts_iss s + 1) then (False, s)
     else (True, s\<lparr>ts_aborted := True, ts_abort_reason := Some (ts_state s), ts_state := CLOSED\<rparr>))"
  using assms by (auto simp: on_segment_def handle_rst_def)

theorem reset_handling_witness:
  "\<exists>s :: TcpState. ts_state s = LISTEN
     \<and> fst (on_segment 5 (tcp_segment 9 80 1 0 FLAG_RST 0 [] [] 0) ''6.6.6.6'' s)
     \<and> ts_state (snd (on_segment 5 (tcp_segment 9 80 1 0 FLAG_RST 0 [] [] 0) ''6.6.6.6'' s)) = CLOSED"
proof -
  let ?s = "tcp_init ''10.0.0.1'' 80 1460\<lparr>ts_state := LISTEN\<rparr>"
  let ?g = "tcp_segment 9 80 1 0 FLAG_RST 0 [] [] 0"
  have "on_segment 5 ?g ''6.6.6.6'' ?s =
    (if ts_state ?s = SYN_SENT \<and> (\<not> has_flag ?g FLAG_ACK \<or> sg_ack ?g \<noteq> ts_iss ?s + 1) then (False, ?s)
     else (True, ?s\<lparr>ts_aborted := True, ts_abort_reason := Some (ts_state ?s), ts_state := CLOSED\<rparr>))"
    by (rule reset_handling) (simp_all add: tcp_segment_def has_flag_def)
  then show ?thesis by (intro exI [of _ ?s]) simp
qed

text \<open>A segment from another source never changes a connection bound to a peer.\<close>

lemma off_path_ignored:
  "ts_state s \<notin> {CLOSED, LISTEN} \<Longrightarrow> sg_src_port g \<noteq> ts_remote_port s \<or> ts_remote_ip s \<noteq> Some ip \<Longrightarrow>
     on_segment iss g ip s = (False, s)"
  by (auto simp: on_segment_def)

text \<open>One acknowledgement for the last block and the FIN behind it leaves the block marked as
  outstanding, so it is retransmitted although it was acknowledged.\<close>

lemma acked_block_retransmitted:
  assumes "ts_have_unacked s" "ts_unacked_data s \<noteq> []"
    and "ts_unacked_seq s + of_nat (length (ts_unacked_data s)) + 1 = ts_snd_nxt s"
    and "has_flag g FLAG_ACK" "sg_ack g = ts_snd_nxt s" "ts_snd_una s \<noteq> ts_snd_nxt s"
  shows "ts_snd_una (est_ack g s) = ts_snd_nxt s" "ts_have_unacked (est_ack g s)"
    "length (ts_outbox (retransmit (est_ack g s))) = Suc (length (ts_outbox s))"
proof -
  let ?d = "ts_snd_nxt s - ts_snd_una s"
  have "?d \<noteq> 0" using assms(6) by simp
  then have "?d - 1 < ?d" by (simp add: word_less_nat_alt unat_minus_one unat_gt_0)
  then have w: "seq_in_window (sg_ack g) (ts_snd_una s + 1) (ts_snd_nxt s + 1)"
    by (simp add: seq_in_window_def Let_def assms(5) algebra_simps)
  have ne: "ts_unacked_seq s + of_nat (length (ts_unacked_data s)) \<noteq> ts_snd_nxt s"
    using assms(3) by (metis add_cancel_right_right zero_neq_one)
  have e: "est_ack g s = s\<lparr>ts_snd_una := ts_snd_nxt s, ts_snd_wnd := sg_window g\<rparr>"
    using w ne assms by (simp add: est_ack_def Let_def window_one)
  show "ts_snd_una (est_ack g s) = ts_snd_nxt s" "ts_have_unacked (est_ack g s)"
    "length (ts_outbox (retransmit (est_ack g s))) = Suc (length (ts_outbox s))"
    using assms(1,2) by (simp_all add: e retransmit_def)
qed

end
