(* ===== verification/Eth.thy ===== *)
theory Eth
  imports Ipv4 Complex_Main
begin

unbundle bit_operations_syntax

text \<open>
  \<open>net/pcap/ip/eth.py\<close>: MAC addresses, Ethernet II frames, the link layer of the three
  datalink types, ARP packets and the ARP cache. Monotonic clock readings are rationals passed
  in as arguments.
\<close>

section \<open>MAC addresses\<close>

definition ETH_HDR_LEN :: nat where "ETH_HDR_LEN = 14"
definition ETH_TYPE_IPV4 :: int where "ETH_TYPE_IPV4 = 0x0800"
definition ETH_TYPE_ARP :: int where "ETH_TYPE_ARP = 0x0806"
definition ETH_TYPE_IPV6 :: int where "ETH_TYPE_IPV6 = 0x86DD"
definition ARP_HW_ETHER :: int where "ARP_HW_ETHER = 1"
definition ARP_PROTO_IPV4 :: int where "ARP_PROTO_IPV4 = 0x0800"
definition ARP_OP_REQUEST :: int where "ARP_OP_REQUEST = 1"
definition ARP_OP_REPLY :: int where "ARP_OP_REPLY = 2"

definition MAC_BROADCAST :: bytes where "MAC_BROADCAST = [0xff, 0xff, 0xff, 0xff, 0xff, 0xff]"
definition MAC_ZERO :: bytes where "MAC_ZERO = [0, 0, 0, 0, 0, 0]"

lemmas eth_consts = ETH_HDR_LEN_def ETH_TYPE_IPV4_def ETH_TYPE_ARP_def ETH_TYPE_IPV6_def
  ARP_HW_ETHER_def ARP_PROTO_IPV4_def ARP_OP_REQUEST_def ARP_OP_REPLY_def

lemma length_mac_consts [simp]: "length MAC_BROADCAST = 6" "length MAC_ZERO = 6"
  by (simp_all add: MAC_BROADCAST_def MAC_ZERO_def)

text \<open>\<open>bytearray(int(p, 16) for p in parts)\<close>: a part that is not hexadecimal or not a byte
  raises \<open>ValueError\<close>.\<close>

definition hex_byte :: "string \<Rightarrow> byte result" where
  "hex_byte p = bindr (py_int 16 p) (\<lambda>n.
     if 0 \<le> n \<and> n < 256 then Inr (word_of_int n) else Inl ValueError)"

definition parse_mac :: "addr_arg \<Rightarrow> bytes result" where
  "parse_mac t = (case t of
       ABytes b \<Rightarrow> if length b = 6 then Inr b else Inl ValueError
     | AStr s \<Rightarrow>
         (let parts = py_split (CHR '':'') s
          in if length parts \<noteq> 6 then Inl ValueError else mapr hex_byte parts))"

definition hex2 :: "byte \<Rightarrow> string" where
  "hex2 b = [digit_c (unat b div 16), digit_c (unat b mod 16)]"

definition format_mac :: "bytes \<Rightarrow> string result" where
  "format_mac raw =
     (if length raw \<noteq> 6 then Inl ValueError else Inr (py_join (CHR '':'') (map hex2 raw)))"

section \<open>Ethernet frames\<close>

text \<open>A MAC argument that is a string is parsed, bytes are taken as they are.\<close>

definition mac_arg :: "addr_arg \<Rightarrow> bytes result" where
  "mac_arg m = (case m of AStr s \<Rightarrow> parse_mac (AStr s) | ABytes b \<Rightarrow> Inr b)"

definition build_eth_frame :: "addr_arg \<Rightarrow> addr_arg \<Rightarrow> int \<Rightarrow> bytes \<Rightarrow> bytes result" where
  "build_eth_frame dst_mac src_mac ethertype payload =
     bindr (mac_arg dst_mac) (\<lambda>dst.
     bindr (mac_arg src_mac) (\<lambda>src.
       if length dst \<noteq> 6 \<or> length src \<noteq> 6 then Inl ValueError
       else bindr (struct_pack [FB 6 dst, FB 6 src, FU 2 ethertype]) (\<lambda>head.
         let frame = head @ payload
         in Inr (if length frame < 60 then frame @ replicate (60 - length frame) 0 else frame))))"

definition parse_eth_frame :: "bytes \<Rightarrow> (bytes \<times> bytes \<times> int \<times> bytes) result" where
  "parse_eth_frame frame =
     (if length frame < ETH_HDR_LEN then Inl ValueError
      else Inr (pyslice 0 6 frame, pyslice 6 12 frame, rd 12 2 frame, drop ETH_HDR_LEN frame))"

definition DLT_NULL :: int where "DLT_NULL = 0"
definition DLT_EN10MB :: int where "DLT_EN10MB = 1"
definition DLT_LOOP :: int where "DLT_LOOP = 108"

lemmas dlt_consts = DLT_NULL_def DLT_EN10MB_def DLT_LOOP_def

definition is_link_layer_ethernet :: "int \<Rightarrow> bool" where
  "is_link_layer_ethernet dlt \<longleftrightarrow> dlt = DLT_EN10MB"

definition rd_le :: "nat \<Rightarrow> bytes \<Rightarrow> int" where
  "rd_le k bs = be_val (rev (take k bs))"

definition strip_link_layer :: "int \<Rightarrow> bytes \<Rightarrow> (int \<times> bytes) result" where
  "strip_link_layer dlt frame =
     (if dlt = DLT_EN10MB then
        bindr (parse_eth_frame frame) (\<lambda>(_, _, et, payload). Inr (et, payload))
      else if dlt = DLT_NULL then
        (if length frame < 4 then Inl ValueError
         else
           let af_le = rd_le 4 frame; af_be = rd 0 4 frame
           in if af_le = 2 then Inr (ETH_TYPE_IPV4, drop 4 frame)
              else if af_be = 2 then Inr (ETH_TYPE_IPV4, drop 4 frame)
              else if af_le \<in> {24, 28, 30} then Inr (ETH_TYPE_IPV6, drop 4 frame)
              else if af_be \<in> {24, 28, 30} then Inr (ETH_TYPE_IPV6, drop 4 frame)
              else Inl ValueError)
      else if dlt = DLT_LOOP then
        (if length frame < 4 then Inl ValueError
         else
           let af = rd 0 4 frame
           in if af = 2 then Inr (ETH_TYPE_IPV4, drop 4 frame)
              else if af \<in> {24, 28, 30} then Inr (ETH_TYPE_IPV6, drop 4 frame)
              else Inl ValueError)
      else Inl ValueError)"

definition wrap_link_layer :: "int \<Rightarrow> int \<Rightarrow> addr_arg \<Rightarrow> addr_arg \<Rightarrow> bytes \<Rightarrow> bytes result" where
  "wrap_link_layer dlt ethertype dst_mac src_mac payload =
     (if dlt = DLT_EN10MB then build_eth_frame dst_mac src_mac ethertype payload
      else if dlt = DLT_NULL then
        (if ethertype = ETH_TYPE_IPV4 then Inr (rev (be_bytes 4 2) @ payload)
         else if ethertype = ETH_TYPE_IPV6 then Inr (rev (be_bytes 4 30) @ payload)
         else Inl ValueError)
      else if dlt = DLT_LOOP then
        (if ethertype = ETH_TYPE_IPV4 then Inr (be_bytes 4 2 @ payload)
         else if ethertype = ETH_TYPE_IPV6 then Inr (be_bytes 4 24 @ payload)
         else Inl ValueError)
      else Inl ValueError)"

section \<open>ARP\<close>

definition ip_to_bytes4 :: "addr_arg \<Rightarrow> bytes result" where
  "ip_to_bytes4 a = (case a of
       ABytes b \<Rightarrow> if length b = 4 then Inr b else Inl ValueError
     | AStr s \<Rightarrow> inet_aton s)"

definition bytes4_to_ip :: "bytes \<Rightarrow> string result" where
  "bytes4_to_ip raw = (if length raw \<noteq> 4 then Inl ValueError else inet_ntoa raw)"

definition arp_pack :: "int \<Rightarrow> bytes \<Rightarrow> bytes \<Rightarrow> bytes \<Rightarrow> bytes \<Rightarrow> bytes result" where
  "arp_pack op smac sip tmac tip = struct_pack
     [FU 2 ARP_HW_ETHER, FU 2 ARP_PROTO_IPV4, FU 1 6, FU 1 4, FU 2 op, FB 6 smac, FB 4 sip, FB 6 tmac, FB 4 tip]"

definition build_arp_request :: "addr_arg \<Rightarrow> addr_arg \<Rightarrow> addr_arg \<Rightarrow> bytes result" where
  "build_arp_request sender_mac sender_ip target_ip =
     bindr (mac_arg sender_mac) (\<lambda>smac.
     bindr (ip_to_bytes4 sender_ip) (\<lambda>sip.
     bindr (ip_to_bytes4 target_ip) (\<lambda>tip.
     bindr (arp_pack ARP_OP_REQUEST smac sip MAC_ZERO tip) (\<lambda>arp.
     build_eth_frame (ABytes MAC_BROADCAST) (ABytes smac) ETH_TYPE_ARP arp))))"

definition build_arp_reply :: "addr_arg \<Rightarrow> addr_arg \<Rightarrow> addr_arg \<Rightarrow> addr_arg \<Rightarrow> bytes result" where
  "build_arp_reply sender_mac sender_ip target_mac target_ip =
     bindr (mac_arg sender_mac) (\<lambda>smac.
     bindr (mac_arg target_mac) (\<lambda>tmac.
     bindr (ip_to_bytes4 sender_ip) (\<lambda>sip.
     bindr (ip_to_bytes4 target_ip) (\<lambda>tip.
     bindr (arp_pack ARP_OP_REPLY smac sip tmac tip) (\<lambda>arp.
     build_eth_frame (ABytes tmac) (ABytes smac) ETH_TYPE_ARP arp)))))"

text \<open>The parsed packet: (op, sender MAC, sender IP, target MAC, target IP).\<close>

type_synonym arp = "int \<times> bytes \<times> bytes \<times> bytes \<times> bytes"

definition parse_arp :: "bytes \<Rightarrow> arp option" where
  "parse_arp payload =
     (if length payload < 28 then None
      else if rd 0 2 payload \<noteq> ARP_HW_ETHER \<or> rd 2 2 payload \<noteq> ARP_PROTO_IPV4 then None
      else if rd 4 1 payload \<noteq> 6 \<or> rd 5 1 payload \<noteq> 4 then None
      else Some (rd 6 2 payload, pyslice 8 14 payload, pyslice 14 18 payload,
                 pyslice 18 24 payload, pyslice 24 28 payload))"

section \<open>The ARP cache\<close>

record ArpCache =
  ac_ttl :: rat
  ac_table :: "addr_arg \<rightharpoonup> bytes \<times> rat"

definition arp_init :: "rat \<Rightarrow> ArpCache" where
  "arp_init ttl_seconds = \<lparr>ac_ttl = ttl_seconds, ac_table = (\<lambda>_. None)\<rparr>"

text \<open>The dictionary key: a 4-byte address becomes its dotted quad, anything else stays.\<close>

definition arp_key :: "addr_arg \<Rightarrow> addr_arg result" where
  "arp_key ip = (case ip of
       ABytes b \<Rightarrow> if length b = 4 then bindr (bytes4_to_ip b) (\<lambda>s. Inr (AStr s)) else Inr ip
     | AStr s \<Rightarrow> Inr ip)"

definition arp_put :: "rat \<Rightarrow> addr_arg \<Rightarrow> addr_arg \<Rightarrow> ArpCache \<Rightarrow> ArpCache result" where
  "arp_put now ip mac c =
     bindr (mac_arg mac) (\<lambda>m.
     bindr (arp_key ip) (\<lambda>k.
       Inr (c\<lparr>ac_table := (ac_table c)(k \<mapsto> (m, now + ac_ttl c))\<rparr>)))"

definition arp_get :: "rat \<Rightarrow> addr_arg \<Rightarrow> ArpCache \<Rightarrow> (bytes option \<times> ArpCache) result" where
  "arp_get now ip c =
     bindr (arp_key ip) (\<lambda>k.
       case ac_table c k of
         None \<Rightarrow> Inr (None, c)
       | Some (mac, expiry) \<Rightarrow>
           if expiry < now then Inr (None, c\<lparr>ac_table := (ac_table c)(k := None)\<rparr>)
           else Inr (Some mac, c))"

text \<open>\<open>feed_arp\<close>: the boolean result and the cache.\<close>

definition feed_arp :: "rat \<Rightarrow> bytes \<Rightarrow> ArpCache \<Rightarrow> (bool \<times> ArpCache) result" where
  "feed_arp now payload c =
     (case parse_arp payload of
        None \<Rightarrow> Inr (False, c)
      | Some (op, smac, sip, tmac, tip) \<Rightarrow>
          bindr (if smac \<noteq> MAC_ZERO \<and> smac \<noteq> MAC_BROADCAST
                 then bindr (bytes4_to_ip sip) (\<lambda>s. arp_put now (AStr s) (ABytes smac) c)
                 else Inr c) (\<lambda>c1.
          bindr (if op = ARP_OP_REPLY \<and> tmac \<noteq> MAC_ZERO \<and> tmac \<noteq> MAC_BROADCAST
                 then bindr (bytes4_to_ip tip) (\<lambda>s. arp_put now (AStr s) (ABytes tmac) c1)
                 else Inr c1) (\<lambda>c2.
          Inr (True, c2))))"

section \<open>MAC lemmas\<close>

lemma parse_mac_length: "parse_mac t = Inr b \<Longrightarrow> length b = 6"
  by (auto simp: parse_mac_def Let_def split: addr_arg.splits if_splits dest: mapr_length)

lemma hex2_notin: "CHR '':'' \<notin> set (hex2 b)"
proof -
  have "unat b < 256" by (rule unat_byte_less)
  then have h: "unat b div 16 < 36" "unat b mod 16 < 36" by simp_all
  have c: "ord_c (CHR '':'') = 58" by (simp add: ord_c_def)
  have "digit_c (unat b div 16) \<noteq> CHR '':''" "digit_c (unat b mod 16) \<noteq> CHR '':''"
    by (rule digit_c_neq [OF h(1)], simp_all add: c) (rule digit_c_neq [OF h(2)], simp_all add: c)
  then show ?thesis by (auto simp: hex2_def)
qed

lemma digit_c_not_sign:
  assumes "d < 36"
  shows "digit_c d \<noteq> CHR ''-''" "digit_c d \<noteq> CHR ''+''" "digit_c d \<noteq> CHR ''_''"
  by (rule digit_c_neq [OF assms]; simp add: ord_c_def)+

lemma digit_c_not_x:
  assumes "d < 16"
  shows "lower_c (digit_c d) \<noteq> CHR ''x''"
proof -
  have "lower_c (digit_c d) = digit_c d"
    using assms by (simp add: lower_c_def ord_digit_c Let_def)
  moreover have "ord_c (digit_c d) \<noteq> ord_c (CHR ''x'')"
    using assms by (simp add: ord_digit_c) (simp add: ord_c_def)
  ultimately show ?thesis by auto
qed

lemma hex_byte_hex2: "hex_byte (hex2 b) = Inr b"
proof -
  let ?h = "unat b div 16" and ?l = "unat b mod 16"
  have b: "unat b < 256" by (rule unat_byte_less)
  then have h: "?h < 16" "?l < 16" by simp_all
  have n: "?h * 16 + ?l = unat b" by simp
  have w: "is_ws (digit_c ?h) = False" "is_ws (digit_c ?l) = False"
    using h by simp_all
  have v: "py_int 16 (hex2 b) = Inr (int (?h * 16 + ?l))"
    using h w digit_c_not_sign [of ?h] digit_c_not_sign [of ?l] digit_c_not_x [of ?l]
    by (simp add: py_int_def hex2_def py_strip_def base_prefix_def parse_nat_def Let_def)
  show ?thesis unfolding hex_byte_def v n
    using uint_byte_bounds(2) [of b] by simp
qed

lemma wrap_mac: "length mac = 6 \<Longrightarrow> mac_arg (ABytes mac) = Inr mac"
  by (simp add: mac_arg_def)

text \<open>\<open>format_mac\<close> and \<open>parse_mac\<close> are inverse on every six-byte address: the text form of
  an address parses back to the same bytes.\<close>

theorem parse_format_mac:
  assumes "length raw = 6"
  shows "\<exists>s. format_mac raw = Inr s \<and> length s = 17 \<and> parse_mac (AStr s) = Inr raw"
proof -
  let ?s = "py_join (CHR '':'') (map hex2 raw)"
  obtain a b c d e f where raw: "raw = [a, b, c, d, e, f]"
    using assms by (auto simp: numeral_eq_Suc length_Suc_conv)
  have "py_split (CHR '':'') ?s = map hex2 raw"
    by (rule py_split_join) (auto simp: raw hex2_notin)
  moreover have "mapr hex_byte (map hex2 raw) = Inr raw"
    by (simp add: raw hex_byte_hex2)
  moreover have "length ?s = 17" by (simp add: raw hex2_def)
  ultimately show ?thesis using assms by (simp add: format_mac_def parse_mac_def)
qed

theorem parse_format_mac_witness:
  "\<exists>s. format_mac [0, 27, 33, 200, 255, 16] = Inr s \<and> parse_mac (AStr s) = Inr [0, 27, 33, 200, 255, 16]"
  using parse_format_mac [of "[0, 27, 33, 200, 255, 16]"] by auto

section \<open>Frame lemmas\<close>

lemma build_eth_frame_Inr:
  "build_eth_frame dm sm et payload = Inr fr \<longleftrightarrow>
    (\<exists>dst src. mac_arg dm = Inr dst \<and> mac_arg sm = Inr src \<and> length dst = 6 \<and> length src = 6
      \<and> 0 \<le> et \<and> et < 65536
      \<and> fr = dst @ src @ be_bytes 2 et @ payload @ replicate (46 - length payload) 0)"
  by (auto simp: build_eth_frame_def bindr_eq_Inr pack_uint_Inr Let_def split: if_splits)

lemma parse_eth_frame_wire:
  assumes "length dst = 6" "length src = 6" "0 \<le> et" "et < 65536"
  shows "parse_eth_frame (dst @ src @ be_bytes 2 et @ rest) = Inr (dst, src, et, rest)"
  using assms by (simp add: parse_eth_frame_def ETH_HDR_LEN_def byte_simps pyslice_here)

text \<open>Parsing a frame built by \<open>build_eth_frame\<close> returns its two addresses, its type and
  its payload, followed by exactly the zero bytes that fill the frame to the 60-byte minimum.\<close>

theorem parse_build_eth_frame:
  assumes "build_eth_frame dst_mac src_mac et payload = Inr fr"
  shows "60 \<le> length fr \<and>
    (\<exists>dst src. mac_arg dst_mac = Inr dst \<and> mac_arg src_mac = Inr src \<and>
      parse_eth_frame fr = Inr (dst, src, et, payload @ replicate (46 - length payload) 0))"
proof -
  from assms obtain dst src where
    m: "mac_arg dst_mac = Inr dst" "mac_arg src_mac = Inr src"
    and l: "length dst = 6" "length src = 6" "0 \<le> et" "et < 65536"
    and fr: "fr = dst @ src @ be_bytes 2 et @ payload @ replicate (46 - length payload) 0"
    unfolding build_eth_frame_Inr by blast
  show ?thesis
    using m l parse_eth_frame_wire [OF l] by (auto simp: fr)
qed

theorem parse_build_eth_frame_witness:
  "\<exists>fr. 60 \<le> length fr \<and> parse_eth_frame fr
     = Inr (MAC_BROADCAST, [2, 0, 0, 0, 0, 1], 0x0800, [9, 9] @ replicate 44 0)"
proof -
  have "\<exists>fr. build_eth_frame (ABytes MAC_BROADCAST) (ABytes [2, 0, 0, 0, 0, 1]) 0x0800 [9, 9] = Inr fr"
    unfolding build_eth_frame_Inr by (auto simp: mac_arg_def)
  then obtain fr where
    "build_eth_frame (ABytes MAC_BROADCAST) (ABytes [2, 0, 0, 0, 0, 1]) 0x0800 [9, 9] = Inr fr" ..
  from parse_build_eth_frame [OF this] show ?thesis by (auto simp: mac_arg_def)
qed

lemma strip_wrap:
  assumes "wrap_link_layer dlt et dst_mac src_mac payload = Inr fr"
  shows "strip_link_layer dlt fr =
    Inr (et, payload @ (if dlt = DLT_EN10MB then replicate (46 - length payload) 0 else []))"
proof -
  consider (eth) "dlt = DLT_EN10MB" | (null) "dlt = DLT_NULL" | (loop) "dlt = DLT_LOOP"
    using assms by (auto simp: wrap_link_layer_def split: if_splits)
  then show ?thesis
  proof cases
    case eth
    then have "build_eth_frame dst_mac src_mac et payload = Inr fr"
      using assms by (simp add: wrap_link_layer_def)
    then show ?thesis
      using eth parse_eth_frame_wire
      by (auto simp: strip_link_layer_def build_eth_frame_Inr)
  next
    case null
    then have "(et = ETH_TYPE_IPV4 \<and> fr = rev (be_bytes 4 2) @ payload)
        \<or> (et = ETH_TYPE_IPV6 \<and> fr = rev (be_bytes 4 30) @ payload)"
      using assms by (auto simp: wrap_link_layer_def dlt_consts split: if_splits)
    moreover have "be_bytes 4 2 = [0, 0, 0, 2]" "be_bytes 4 30 = [0, 0, 0, 30]"
      by (simp_all add: be_bytes.simps numeral_eq_Suc)
    ultimately show ?thesis using null
      by (auto simp: strip_link_layer_def dlt_consts rd_le_def rd_def pyslice_def be_val_def)
  next
    case loop
    then have "(et = ETH_TYPE_IPV4 \<and> fr = be_bytes 4 2 @ payload)
        \<or> (et = ETH_TYPE_IPV6 \<and> fr = be_bytes 4 24 @ payload)"
      using assms by (auto simp: wrap_link_layer_def dlt_consts split: if_splits)
    then show ?thesis using loop
      by (auto simp: strip_link_layer_def dlt_consts byte_simps)
  qed
qed

text \<open>\<open>strip_link_layer\<close> undoes \<open>wrap_link_layer\<close> on all three datalink types: an IPv4 or
  IPv6 packet comes back with its type, on Ethernet followed only by the zero padding.\<close>

theorem strip_wrap_link_layer:
  assumes "wrap_link_layer dlt et dst_mac src_mac payload = Inr fr"
  shows "strip_link_layer dlt fr =
    Inr (et, payload @ (if dlt = DLT_EN10MB then replicate (46 - length payload) 0 else []))"
  using assms by (rule strip_wrap)

theorem strip_wrap_link_layer_witness:
  "\<exists>fr. strip_link_layer DLT_NULL fr = Inr (ETH_TYPE_IPV6, [1, 2, 3])"
proof -
  have "wrap_link_layer DLT_NULL ETH_TYPE_IPV6 (ABytes []) (ABytes []) [1, 2, 3]
      = Inr (rev (be_bytes 4 30) @ [1, 2, 3])"
    by (simp add: wrap_link_layer_def dlt_consts eth_consts)
  from strip_wrap_link_layer [OF this] show ?thesis by (auto simp: dlt_consts)
qed

section \<open>ARP lemmas\<close>

lemma arp_pack_Inr:
  "arp_pack op smac sip tmac tip = Inr a \<longleftrightarrow> 0 \<le> op \<and> op < 65536 \<and>
     a = be_bytes 2 1 @ be_bytes 2 0x800 @ be_bytes 1 6 @ be_bytes 1 4 @ be_bytes 2 op @
         pad_bytes 6 smac @ pad_bytes 4 sip @ pad_bytes 6 tmac @ pad_bytes 4 tip"
  by (auto simp: arp_pack_def bindr_eq_Inr pack_uint_Inr eth_consts)

lemma parse_arp_pack:
  assumes "arp_pack op smac sip tmac tip = Inr a"
    and "length smac = 6" "length sip = 4" "length tmac = 6" "length tip = 4"
  shows "parse_arp (a @ pad) = Some (op, smac, sip, tmac, tip)"
  using assms by (auto simp: arp_pack_Inr parse_arp_def eth_consts byte_simps pyslice_here)

lemma length_arp_pack: "arp_pack op smac sip tmac tip = Inr a \<Longrightarrow> length a = 28"
  by (auto simp: arp_pack_Inr)

lemma length_ip_to_bytes4: "ip_to_bytes4 a = Inr b \<Longrightarrow> length b = 4"
  by (auto simp: ip_to_bytes4_def length_inet_aton split: addr_arg.splits if_splits)

text \<open>The ARP packets built by \<open>build_arp_request\<close> and \<open>build_arp_reply\<close> parse back, after
  the Ethernet header is stripped, to the operation and the addresses they were built from.\<close>

theorem parse_build_arp:
  assumes "mac_arg smac = Inr sm" "mac_arg tmac = Inr tm" "length sm = 6" "length tm = 6"
    and "ip_to_bytes4 sip = Inr si" "ip_to_bytes4 tip = Inr ti"
  shows "(\<exists>fr p. build_arp_reply smac sip tmac tip = Inr fr
      \<and> strip_link_layer DLT_EN10MB fr = Inr (ETH_TYPE_ARP, p)
      \<and> parse_arp p = Some (ARP_OP_REPLY, sm, si, tm, ti))
    \<and> (\<exists>fr p. build_arp_request smac sip tip = Inr fr
      \<and> strip_link_layer DLT_EN10MB fr = Inr (ETH_TYPE_ARP, p)
      \<and> parse_arp p = Some (ARP_OP_REQUEST, sm, si, MAC_ZERO, ti))"
proof -
  have l: "length si = 4" "length ti = 4" using assms by (auto dest: length_ip_to_bytes4)
  have strip: "strip_link_layer DLT_EN10MB (d @ s @ be_bytes 2 ETH_TYPE_ARP @ q)
      = Inr (ETH_TYPE_ARP, q)" if "length d = 6" "length s = 6" for d s q
    using that by (simp add: strip_link_layer_def parse_eth_frame_wire eth_consts)
  have frame: "\<exists>fr. build_eth_frame (ABytes d) (ABytes s) ETH_TYPE_ARP q = Inr fr \<and>
      strip_link_layer DLT_EN10MB fr = Inr (ETH_TYPE_ARP, q @ replicate (46 - length q) 0)"
    if "length d = 6" "length s = 6" for d s q
    using that strip by (simp add: build_eth_frame_Inr mac_arg_def eth_consts)
  obtain a where a: "arp_pack ARP_OP_REPLY sm si tm ti = Inr a"
    by (simp add: arp_pack_Inr eth_consts)
  have 1: "\<exists>fr p. build_arp_reply smac sip tmac tip = Inr fr
      \<and> strip_link_layer DLT_EN10MB fr = Inr (ETH_TYPE_ARP, p)
      \<and> parse_arp p = Some (ARP_OP_REPLY, sm, si, tm, ti)"
    using assms a frame [of tm sm a] parse_arp_pack [OF a] l
    by (fastforce simp: build_arp_reply_def)
  obtain r where r: "arp_pack ARP_OP_REQUEST sm si MAC_ZERO ti = Inr r"
    by (simp add: arp_pack_Inr eth_consts)
  have 2: "\<exists>fr p. build_arp_request smac sip tip = Inr fr
      \<and> strip_link_layer DLT_EN10MB fr = Inr (ETH_TYPE_ARP, p)
      \<and> parse_arp p = Some (ARP_OP_REQUEST, sm, si, MAC_ZERO, ti)"
    using assms r frame [of MAC_BROADCAST sm r] parse_arp_pack [OF r] l
    by (fastforce simp: build_arp_request_def)
  show ?thesis using 1 2 by blast
qed

theorem parse_build_arp_witness:
  "\<exists>fr p. build_arp_reply (ABytes [2, 0, 0, 0, 0, 1]) (ABytes [10, 0, 0, 1])
      (ABytes [2, 0, 0, 0, 0, 2]) (ABytes [10, 0, 0, 2]) = Inr fr
    \<and> parse_arp p = Some (ARP_OP_REPLY, [2, 0, 0, 0, 0, 1], [10, 0, 0, 1], [2, 0, 0, 0, 0, 2], [10, 0, 0, 2])"
  using parse_build_arp [of "ABytes [2, 0, 0, 0, 0, 1]" "[2, 0, 0, 0, 0, 1]"
      "ABytes [2, 0, 0, 0, 0, 2]" "[2, 0, 0, 0, 0, 2]"
      "ABytes [10, 0, 0, 1]" "[10, 0, 0, 1]" "ABytes [10, 0, 0, 2]" "[10, 0, 0, 2]"]
  by (auto simp: mac_arg_def ip_to_bytes4_def)

section \<open>The cache as an interface\<close>

text \<open>A cache with a time to live: what the TCP connection relies on when it looks up an address.\<close>

locale ttl_cache =
  fixes cput :: "rat \<Rightarrow> 'k \<Rightarrow> 'v \<Rightarrow> 's \<Rightarrow> 's"
    and cget :: "rat \<Rightarrow> 'k \<Rightarrow> 's \<Rightarrow> 'v option"
    and ttl :: "'s \<Rightarrow> rat"
  assumes get_put: "cget t k (cput now k v s) = (if t \<le> now + ttl s then Some v else None)"
    and get_put_other: "k \<noteq> k' \<Longrightarrow> cget t k' (cput now k v s) = cget t k' s"
    and ttl_put: "ttl (cput now k v s) = ttl s"
begin

definition puts :: "(rat \<times> 'k \<times> 'v) list \<Rightarrow> 's \<Rightarrow> 's" where
  "puts ps s = foldl (\<lambda>s (now, k, v). cput now k v s) s ps"

lemma puts_snoc: "puts (ps @ [(now, k, v)]) s = cput now k v (puts ps s)"
  by (simp add: puts_def)

lemma ttl_puts: "ttl (puts ps s) = ttl s"
  by (induction ps rule: rev_induct) (auto simp: puts_def ttl_put)

lemma get_puts:
  "cget t k (puts ps s) =
    (case find (\<lambda>(now, k', v). k' = k) (rev ps) of
       None \<Rightarrow> cget t k s
     | Some (now, _, v) \<Rightarrow> if t \<le> now + ttl s then Some v else None)"
proof (induction ps rule: rev_induct)
  case Nil
  then show ?case by (simp add: puts_def)
next
  case (snoc p ps)
  obtain now k' v where p: "p = (now, k', v)" by (cases p)
  show ?case
  proof (cases "k' = k")
    case True
    then show ?thesis by (simp add: p puts_snoc get_put ttl_puts)
  next
    case False
    then show ?thesis using snoc by (simp add: p puts_snoc get_put_other)
  qed
qed

end

definition arp_store :: "rat \<Rightarrow> string \<Rightarrow> bytes \<Rightarrow> ArpCache \<Rightarrow> ArpCache" where
  "arp_store now k v c = (case arp_put now (AStr k) (ABytes v) c of Inr c' \<Rightarrow> c' | Inl _ \<Rightarrow> c)"

definition arp_lookup :: "rat \<Rightarrow> string \<Rightarrow> ArpCache \<Rightarrow> bytes option" where
  "arp_lookup now k c = (case arp_get now (AStr k) c of Inr (r, _) \<Rightarrow> r | Inl _ \<Rightarrow> None)"

lemma arp_put_str: "arp_put now (AStr k) (ABytes v) c = Inr (arp_store now k v c)"
  by (simp add: arp_store_def arp_put_def mac_arg_def arp_key_def)

lemma arp_lookup_table:
  "arp_lookup now k c = (case ac_table c (AStr k) of None \<Rightarrow> None
     | Some (mac, expiry) \<Rightarrow> if expiry < now then None else Some mac)"
  by (auto simp: arp_lookup_def arp_get_def arp_key_def split: option.splits)

interpretation arp: ttl_cache arp_store arp_lookup ac_ttl
  by unfold_locales
    (auto simp: arp_lookup_table arp_store_def arp_put_def mac_arg_def arp_key_def)

text \<open>Looking up also drops an expired entry; this is not visible to later lookups.\<close>

lemma arp_get_stable:
  assumes "arp_get now (AStr k) c = Inr (r, c')" and "now \<le> t"
  shows "arp_lookup t k' c' = arp_lookup t k' c" and "ac_ttl c' = ac_ttl c"
  using assms by (auto simp: arp_get_def arp_key_def arp_lookup_table split: option.splits if_splits)

lemma bytes4_Inr: "length b = 4 \<Longrightarrow> \<exists>s. bytes4_to_ip b = Inr s"
  by (simp add: bytes4_to_ip_def inet_ntoa_def)

lemma feed_arp_some:
  assumes "parse_arp p = Some (op, smac, sip, tmac, tip)"
    and "bytes4_to_ip sip = Inr si" and "bytes4_to_ip tip = Inr ti"
  shows "feed_arp now p c = Inr (True,
    (let c1 = (if smac \<noteq> MAC_ZERO \<and> smac \<noteq> MAC_BROADCAST then arp_store now si smac c else c)
     in if op = ARP_OP_REPLY \<and> tmac \<noteq> MAC_ZERO \<and> tmac \<noteq> MAC_BROADCAST
        then arp_store now ti tmac c1 else c1))"
  using assms by (simp add: feed_arp_def arp_put_str Let_def)

lemma parse_arp_lengths:
  "parse_arp p = Some (op, smac, sip, tmac, tip) \<Longrightarrow>
     length smac = 6 \<and> length sip = 4 \<and> length tmac = 6 \<and> length tip = 4"
  by (auto simp: parse_arp_def length_pyslice split: if_splits)

text \<open>C38. A history of cache insertions followed by a lookup: the answer is the value of the last
  insertion for that address if it is at most the time to live old, none if it is older, and the
  old answer when the address was not inserted.\<close>

theorem arp_cache_history:
  "arp_lookup t k (foldl (\<lambda>c (now, k, v). arp_store now k v c) c ps) =
    (case find (\<lambda>(now, k', v). k' = k) (rev ps) of
       None \<Rightarrow> arp_lookup t k c
     | Some (now, _, v) \<Rightarrow> if t \<le> now + ac_ttl c then Some v else None)"
  using arp.get_puts [of t k ps c] by (simp only: arp.puts_def)

text \<open>\<open>feed_arp\<close> never fails, and after a well-formed packet whose sender is a real unicast
  address the cache answers the sender's MAC for its IP for the time to live (unless the same
  reply also maps that IP as its target).\<close>

theorem feed_arp_learns:
  assumes "parse_arp p = Some (op, smac, sip, tmac, tip)"
    and "smac \<noteq> MAC_ZERO" "smac \<noteq> MAC_BROADCAST" "sip \<noteq> tip"
    and "t \<le> now + ac_ttl c"
  shows "\<exists>s c'. bytes4_to_ip sip = Inr s \<and> feed_arp now p c = Inr (True, c')
    \<and> arp_lookup t s c' = Some smac"
proof -
  have l: "length sip = 4" "length tip = 4" using parse_arp_lengths [OF assms(1)] by auto
  obtain si ti where s: "bytes4_to_ip sip = Inr si" "bytes4_to_ip tip = Inr ti"
    using bytes4_Inr l by metis
  have n: "inet_ntoa sip = Inr si" "inet_ntoa tip = Inr ti"
    using s l by (simp_all add: bytes4_to_ip_def)
  have "si \<noteq> ti"
    using inet_aton_ntoa [OF l(1) n(1)] inet_aton_ntoa [OF l(2) n(2)] assms(4) by auto
  then show ?thesis
    using assms s feed_arp_some [OF assms(1) s, of now c]
    by (auto simp: Let_def arp.get_put arp.get_put_other)
qed

theorem feed_arp_learns_witness:
  "\<exists>p s c'. bytes4_to_ip [10, 0, 0, 1] = Inr s \<and> feed_arp 5 p (arp_init 300) = Inr (True, c')
    \<and> arp_lookup 200 s c' = Some [2, 0, 0, 0, 0, 1]"
proof -
  let ?p = "be_bytes 2 1 @ be_bytes 2 0x800 @ be_bytes 1 6 @ be_bytes 1 4 @ be_bytes 2 2 @
    [2, 0, 0, 0, 0, 1] @ [10, 0, 0, 1] @ [2, 0, 0, 0, 0, 2] @ [10, 0, 0, 2 :: byte]"
  have "arp_pack 2 [2, 0, 0, 0, 0, 1] [10, 0, 0, 1] [2, 0, 0, 0, 0, 2] [10, 0, 0, 2] = Inr ?p"
    by (simp add: arp_pack_Inr)
  from parse_arp_pack [OF this, of "[]"]
  have "parse_arp ?p = Some (2, [2, 0, 0, 0, 0, 1], [10, 0, 0, 1], [2, 0, 0, 0, 0, 2], [10, 0, 0, 2])"
    by simp
  from feed_arp_learns [OF this, of 200 5 "arp_init 300"] show ?thesis
    by (auto simp: MAC_ZERO_def MAC_BROADCAST_def arp_init_def)
qed

end
