(* ===== verification/NextHop.thy ===== *)
theory NextHop
  imports Eth
begin

unbundle bit_operations_syntax

text \<open>
  \<open>net/pcap/ip/next_hop.py\<close>: the parsers of the operating system's ARP and route tables and the
  choice of the next-hop MAC. What the operating system answers (the platform name, the lines of
  the two proc files, the directory of network interfaces, and the output of a command, \<open>None\<close>
  when it fails) is the record \<open>os_env\<close>.
\<close>

section \<open>The operating system\<close>

record os_env =
  os_platform :: string
  os_proc_arp :: "string list option"
  os_proc_route :: "string list option"
  os_sys_net :: "(string \<times> string option) list"
  os_run :: "string list \<Rightarrow> string option"

text \<open>\<open>run_text\<close> and \<open>if not text\<close>: no output counts as failure.\<close>

definition run_text :: "os_env \<Rightarrow> string list \<Rightarrow> string option" where
  "run_text e cmd = (case os_run e cmd of Some [] \<Rightarrow> None | t \<Rightarrow> t)"

definition is_windows :: "os_env \<Rightarrow> bool" where
  "is_windows e = py_startswith ''win'' (os_platform e)"

definition is_linux :: "os_env \<Rightarrow> bool" where
  "is_linux e = py_startswith ''linux'' (os_platform e)"

definition is_darwin :: "os_env \<Rightarrow> bool" where
  "is_darwin e = py_startswith ''darwin'' (os_platform e)"

definition is_bsd :: "os_env \<Rightarrow> bool" where
  "is_bsd e = (let p = os_platform e in
     py_startswith ''freebsd'' p \<or> py_startswith ''openbsd'' p \<or> py_startswith ''netbsd'' p
     \<or> py_startswith ''dragonfly'' p \<or> py_contains ''bsd'' p)"

section \<open>Addresses\<close>

definition octet_value :: "string \<Rightarrow> int option" where
  "octet_value p = (case py_int 10 p of Inl _ \<Rightarrow> None | Inr n \<Rightarrow> Some n)"

definition ip_to_int :: "addr_arg \<Rightarrow> int option" where
  "ip_to_int a = (case a of
       ABytes b \<Rightarrow> if length b = 4 then Some (be_val b) else None
     | AStr s \<Rightarrow>
         (let parts = py_split (CHR ''.'') s
          in if length parts \<noteq> 4 then None
             else (case those (map octet_value parts) of
                     None \<Rightarrow> None
                   | Some os \<Rightarrow>
                       if list_ex (\<lambda>n. n < 0 \<or> 255 < n) os then None
                       else Some (push_bit 24 (os ! 0) OR push_bit 16 (os ! 1)
                                  OR push_bit 8 (os ! 2) OR os ! 3))))"

definition same_subnet :: "addr_arg \<Rightarrow> addr_arg \<Rightarrow> addr_arg \<Rightarrow> bool" where
  "same_subnet ip_a ip_b mask_ip =
     (case (ip_to_int ip_a, ip_to_int ip_b, ip_to_int mask_ip) of
        (Some a, Some b, Some m) \<Rightarrow> a AND m = b AND m
      | _ \<Rightarrow> False)"

definition hex_bytes :: "string list \<Rightarrow> bytes option" where
  "hex_bytes parts = (case mapr hex_byte parts of Inl _ \<Rightarrow> None | Inr b \<Rightarrow> Some b)"

definition parse_mac_loose :: "string \<Rightarrow> bytes option" where
  "parse_mac_loose text =
     (let t = py_lower (py_strip text)
      in if t = [] then None
         else
           let use = (\<lambda>sep. let parts = py_split sep t
                             in if length parts \<noteq> 6 then None else hex_bytes parts)
           in if CHR '':'' \<in> set t then use (CHR '':'')
              else if CHR ''-'' \<in> set t then use (CHR ''-'')
              else None)"

section \<open>Linux\<close>

type_synonym arp_table = "string \<rightharpoonup> bytes"

definition linux_arp_line :: "string \<Rightarrow> arp_table \<Rightarrow> arp_table" where
  "linux_arp_line line tab =
     (let cols = py_fields line
      in if length cols < 4 then tab
         else (case parse_mac_loose (cols ! 3) of
                 None \<Rightarrow> tab
               | Some mac \<Rightarrow> if mac = MAC_ZERO then tab else tab(cols ! 0 \<mapsto> mac)))"

definition linux_arp_table :: "os_env \<Rightarrow> arp_table" where
  "linux_arp_table e = (case os_proc_arp e of
       None \<Rightarrow> Map.empty
     | Some ls \<Rightarrow> fold linux_arp_line (drop 1 ls) Map.empty)"

text \<open>One line of \<open>/proc/net/route\<close>: the metric and the gateway of a default route.\<close>

definition dotted :: "int \<Rightarrow> int \<Rightarrow> int \<Rightarrow> int \<Rightarrow> string" where
  "dotted a b c d = py_join (CHR ''.'') (map (\<lambda>n. show_nat (nat n)) [a, b, c, d])"

definition linux_route_line :: "string \<Rightarrow> (int \<times> string) option" where
  "linux_route_line line =
     (let cols = py_fields line
      in if length cols < 8 then None
         else (case py_int 10 (cols ! 6) of
                 Inl _ \<Rightarrow> None
               | Inr metric \<Rightarrow>
                   if cols ! 1 \<noteq> ''00000000'' then None
                   else (case py_int 16 (cols ! 2) of
                           Inl _ \<Rightarrow> None
                         | Inr gw \<Rightarrow>
                             Some (metric, dotted (gw AND 0xFF) (drop_bit 8 gw AND 0xFF)
                                             (drop_bit 16 gw AND 0xFF) (drop_bit 24 gw AND 0xFF)))))"

text \<open>The running best (gateway, metric) of the two default-gateway loops.\<close>

definition better_route :: "(int \<times> string) \<Rightarrow> (int \<times> string) option \<Rightarrow> (int \<times> string) option" where
  "better_route r best = (case best of
       None \<Rightarrow> Some r
     | Some b \<Rightarrow> if fst r < fst b then Some r else best)"

definition linux_default_gateway :: "os_env \<Rightarrow> string option" where
  "linux_default_gateway e = (case os_proc_route e of
       None \<Rightarrow> None
     | Some ls \<Rightarrow>
         map_option snd (fold (\<lambda>line best. case linux_route_line line of
                                    None \<Rightarrow> best | Some r \<Rightarrow> better_route r best) (drop 1 ls) None))"

section \<open>Windows\<close>

definition windows_arp_line :: "string \<Rightarrow> arp_table \<Rightarrow> arp_table" where
  "windows_arp_line raw tab =
     (let parts = py_fields (py_strip raw)
      in if length parts < 2 then tab
         else if ip_to_int (AStr (parts ! 0)) = None then tab
         else (case parse_mac_loose (parts ! 1) of
                 None \<Rightarrow> tab
               | Some mac \<Rightarrow> if mac = MAC_ZERO then tab else tab(parts ! 0 \<mapsto> mac)))"

definition windows_arp_table :: "os_env \<Rightarrow> arp_table" where
  "windows_arp_table e = (case run_text e [''arp'', ''-a''] of
       None \<Rightarrow> Map.empty
     | Some text \<Rightarrow> fold windows_arp_line (py_splitlines text) Map.empty)"

text \<open>The loop state of \<open>windows_default_gateway\<close>: inside the active routes or not, best gateway,
  best metric.\<close>

definition windows_route_line ::
  "string \<Rightarrow> bool \<times> string option \<times> int option \<Rightarrow> bool \<times> string option \<times> int option" where
  "windows_route_line raw st = (case st of (in_active, best_gw, best_metric) \<Rightarrow>
     let line = py_strip raw
     in if line = [] then st
        else if py_contains ''Active Routes'' line then (True, best_gw, best_metric)
        else if py_contains ''Persistent Routes'' line \<or> py_contains ''IPv6 Route Table'' line
          then (False, best_gw, best_metric)
        else if \<not> in_active then st
        else
          let parts = py_fields line
          in if length parts < 4 then st
             else if parts ! 0 \<noteq> ''0.0.0.0'' then st
             else if parts ! 1 \<noteq> ''0.0.0.0'' then st
             else
               let gw = parts ! 2
               in if ip_to_int (AStr gw) = None then st
                  else (case py_int 10 (last parts) of
                          Inl _ \<Rightarrow> if best_gw = None then (in_active, Some gw, best_metric) else st
                        | Inr metric \<Rightarrow>
                            (case best_metric of
                               None \<Rightarrow> (in_active, Some gw, Some metric)
                             | Some m \<Rightarrow>
                                 if metric < m then (in_active, Some gw, Some metric) else st)))"

definition windows_default_gateway :: "os_env \<Rightarrow> string option" where
  "windows_default_gateway e =
     (case (case run_text e [''route'', ''print'', ''-4''] of
              None \<Rightarrow> run_text e [''route'', ''print''] | t \<Rightarrow> t) of
        None \<Rightarrow> None
      | Some text \<Rightarrow>
          (case fold windows_route_line (py_splitlines text) (False, None, None) of
             (_, best_gw, _) \<Rightarrow> best_gw))"

section \<open>macOS and BSD\<close>

text \<open>\<open>s.split(sep, 1)[1]\<close> when \<open>sep\<close> occurs.\<close>

fun after_sub :: "string \<Rightarrow> string \<Rightarrow> string option" where
  "after_sub sep [] = None"
| "after_sub sep (x # xs) =
     (if py_startswith sep (x # xs) then Some (drop (length sep) (x # xs)) else after_sub sep xs)"

fun index_of :: "'a \<Rightarrow> 'a list \<Rightarrow> nat" where
  "index_of c [] = 0"
| "index_of c (x # xs) = (if x = c then 0 else Suc (index_of c xs))"

definition unix_arp_line :: "string \<Rightarrow> arp_table \<Rightarrow> arp_table" where
  "unix_arp_line raw tab =
     (let line = py_strip raw
      in if CHR ''('' \<notin> set line \<or> CHR '')'' \<notin> set line then tab
         else (case after_sub '' at '' line of
                 None \<Rightarrow> tab
               | Some tail \<Rightarrow>
                   let ip_str = pyslice (index_of (CHR ''('') line + 1) (index_of (CHR '')'') line) line
                   in if ip_to_int (AStr ip_str) = None then tab
                      else (case py_fields tail of
                              [] \<Rightarrow> tab
                            | (mac_field # _) \<Rightarrow>
                                (case parse_mac_loose mac_field of
                                   None \<Rightarrow> tab
                                 | Some mac \<Rightarrow>
                                     if mac = MAC_ZERO then tab else tab(ip_str \<mapsto> mac)))))"

definition unix_arp_table :: "os_env \<Rightarrow> arp_table" where
  "unix_arp_table e = (case run_text e [''arp'', ''-an''] of
       None \<Rightarrow> Map.empty
     | Some text \<Rightarrow> fold unix_arp_line (py_splitlines text) Map.empty)"

definition unix_route_line :: "string \<Rightarrow> string option" where
  "unix_route_line raw =
     (let parts = py_fields (py_strip raw)
      in if length parts < 2 then None
         else if parts ! 0 \<notin> {''default'', ''0.0.0.0''} then None
         else if ip_to_int (AStr (parts ! 1)) = None then None
         else Some (parts ! 1))"

fun first_some :: "('a \<Rightarrow> 'b option) \<Rightarrow> 'a list \<Rightarrow> 'b option" where
  "first_some f [] = None"
| "first_some f (x # xs) = (case f x of None \<Rightarrow> first_some f xs | r \<Rightarrow> r)"

definition unix_default_gateway :: "os_env \<Rightarrow> string option" where
  "unix_default_gateway e =
     (case (case run_text e [''netstat'', ''-rn'', ''-f'', ''inet''] of
              None \<Rightarrow> run_text e [''netstat'', ''-rn''] | t \<Rightarrow> t) of
        None \<Rightarrow> None
      | Some text \<Rightarrow> first_some unix_route_line (py_splitlines text))"

section \<open>Next hop\<close>

definition os_arp_table :: "os_env \<Rightarrow> arp_table" where
  "os_arp_table e =
     (if is_linux e then linux_arp_table e
      else if is_windows e then windows_arp_table e
      else if is_darwin e \<or> is_bsd e then unix_arp_table e
      else Map.empty)"

definition os_default_gateway :: "os_env \<Rightarrow> string option" where
  "os_default_gateway e =
     (if is_linux e then linux_default_gateway e
      else if is_windows e then windows_default_gateway e
      else if is_darwin e \<or> is_bsd e then unix_default_gateway e
      else None)"

text \<open>The ARP cache is an optional argument; when given, it is read and updated.\<close>

definition cache_lookup :: "rat \<Rightarrow> string \<Rightarrow> ArpCache option \<Rightarrow> (bytes option \<times> ArpCache option) result" where
  "cache_lookup now ip c = (case c of
       None \<Rightarrow> Inr (None, None)
     | Some c \<Rightarrow> bindr (arp_get now (AStr ip) c) (\<lambda>(m, c). Inr (m, Some c)))"

definition cache_store :: "rat \<Rightarrow> string \<Rightarrow> bytes \<Rightarrow> ArpCache option \<Rightarrow> ArpCache option result" where
  "cache_store now ip mac c = (case c of
       None \<Rightarrow> Inr None
     | Some c \<Rightarrow> bindr (arp_put now (AStr ip) (ABytes mac) c) (\<lambda>c. Inr (Some c)))"

definition resolve_next_hop_mac ::
  "os_env \<Rightarrow> rat \<Rightarrow> string \<Rightarrow> string option \<Rightarrow> string option \<Rightarrow> ArpCache option
     \<Rightarrow> (bytes option \<times> ArpCache option) result" where
  "resolve_next_hop_mac e now dst_ip local_ip local_subnet arp_cache =
     bindr (cache_lookup now dst_ip arp_cache) (\<lambda>(cached, c).
       if cached \<noteq> None \<and> cached \<noteq> Some MAC_BROADCAST \<and> cached \<noteq> Some MAC_ZERO then Inr (cached, c)
       else
         let via_gateway =
               (case os_default_gateway e of
                  None \<Rightarrow> Inr (None, c)
                | Some gw \<Rightarrow>
                    (case os_arp_table e gw of
                       None \<Rightarrow> Inr (None, c)
                     | Some mac \<Rightarrow> bindr (cache_store now gw mac c) (\<lambda>c. Inr (Some mac, c))))
         in (case (local_ip, local_subnet) of
               (Some lip, Some sn) \<Rightarrow>
                 if same_subnet (AStr dst_ip) (AStr lip) (AStr sn) then
                   (case os_arp_table e dst_ip of
                      Some mac \<Rightarrow> bindr (cache_store now dst_ip mac c) (\<lambda>c. Inr (Some mac, c))
                    | None \<Rightarrow> Inr (None, c))
                 else via_gateway
             | _ \<Rightarrow> via_gateway))"

section \<open>The local interface's MAC\<close>

definition linux_local_mac :: "os_env \<Rightarrow> string \<Rightarrow> bytes option" where
  "linux_local_mac e local_ip =
     first_some (\<lambda>(iface, address).
       case address of
         None \<Rightarrow> None
       | Some mac_text \<Rightarrow>
           (case (case run_text e [''ip'', ''-o'', ''-4'', ''addr'', ''show'', ''dev'', iface] of
                    None \<Rightarrow> run_text e [''ifconfig'', iface] | t \<Rightarrow> t) of
              None \<Rightarrow> None
            | Some text \<Rightarrow>
                if \<not> py_contains local_ip text then None
                else (case parse_mac_loose (py_strip mac_text) of
                        None \<Rightarrow> None
                      | Some mac \<Rightarrow> if mac \<noteq> MAC_ZERO then Some mac else None)))
       (os_sys_net e)"

definition py_strip_chars :: "string \<Rightarrow> string \<Rightarrow> string" where
  "py_strip_chars cs s = rev (dropWhile (\<lambda>c. c \<in> set cs) (rev (dropWhile (\<lambda>c. c \<in> set cs) s)))"

definition py_endswith :: "string \<Rightarrow> string \<Rightarrow> bool" where
  "py_endswith suf s = py_startswith (rev suf) (rev s)"

text \<open>Both \<open>ipconfig\<close> and \<open>ifconfig\<close> output is cut into sections, each with a MAC and the IPs
  listed in it: the finished sections, the current one, and whether one has begun.\<close>

record sections =
  sc_done :: "(bytes option \<times> string list) list"
  sc_mac :: "bytes option"
  sc_ips :: "string list"
  sc_open :: bool

definition sc_init :: sections where
  "sc_init = \<lparr>sc_done = [], sc_mac = None, sc_ips = [], sc_open = False\<rparr>"

definition sc_flush :: "sections \<Rightarrow> (bytes option \<times> string list) list" where
  "sc_flush t = (if sc_open t then sc_done t @ [(sc_mac t, sc_ips t)] else sc_done t)"

definition sc_new :: "sections \<Rightarrow> sections" where
  "sc_new t = \<lparr>sc_done = sc_flush t, sc_mac = None, sc_ips = [], sc_open = True\<rparr>"

definition section_mac :: "string \<Rightarrow> (bytes option \<times> string list) list \<Rightarrow> bytes option" where
  "section_mac local_ip secs =
     first_some (\<lambda>(mac, ips). if mac \<noteq> None \<and> local_ip \<in> set ips then mac else None) secs"

definition after_colon :: "string \<Rightarrow> string option" where
  "after_colon s = after_sub '':'' s"

definition windows_section_line :: "string \<Rightarrow> sections \<Rightarrow> sections" where
  "windows_section_line raw t =
     (let line = py_rstrip raw
      in if line \<noteq> [] \<and> \<not> py_startswith '' '' line \<and> \<not> py_startswith [CHR 0x09] line
            \<and> py_endswith '':'' line
         then sc_new t
         else
           let stripped = py_strip line
           in if stripped = [] then t
              else if py_contains ''Physical Address'' stripped then
                (case after_colon stripped of
                   None \<Rightarrow> t
                 | Some v \<Rightarrow>
                     (case parse_mac_loose (py_strip (py_strip_chars ''.'' (py_strip v))) of
                        None \<Rightarrow> t | Some mac \<Rightarrow> t\<lparr>sc_mac := Some mac\<rparr>))
              else if py_contains ''IP Address'' stripped \<or> py_contains ''IPv4 Address'' stripped then
                (case after_colon stripped of
                   None \<Rightarrow> t
                 | Some v \<Rightarrow>
                     let token = py_strip_chars ''().,''
                                   (case py_fields (py_strip v) of [] \<Rightarrow> [] | (w # _) \<Rightarrow> w)
                     in if ip_to_int (AStr token) \<noteq> None then t\<lparr>sc_ips := sc_ips t @ [token]\<rparr> else t)
              else t)"

definition windows_local_mac :: "os_env \<Rightarrow> string \<Rightarrow> bytes option" where
  "windows_local_mac e local_ip = (case run_text e [''ipconfig'', ''/all''] of
       None \<Rightarrow> None
     | Some text \<Rightarrow>
         section_mac local_ip (sc_flush (fold windows_section_line (py_splitlines text) sc_init)))"

definition unix_section_line :: "string \<Rightarrow> sections \<Rightarrow> sections" where
  "unix_section_line raw t =
     (if raw = [] then t
      else if \<not> py_startswith '' '' raw \<and> \<not> py_startswith [CHR 0x09] raw then sc_new t
      else
        let stripped = py_strip raw; parts = py_fields stripped
        in if py_startswith ''ether '' stripped \<or> py_startswith ''lladdr '' stripped then
             (if 2 \<le> length parts
              then (case parse_mac_loose (parts ! 1) of
                      None \<Rightarrow> t | Some mac \<Rightarrow> t\<lparr>sc_mac := Some mac\<rparr>)
              else t)
           else if py_startswith ''inet '' stripped then
             (if 2 \<le> length parts \<and> ip_to_int (AStr (parts ! 1)) \<noteq> None
              then t\<lparr>sc_ips := sc_ips t @ [parts ! 1]\<rparr> else t)
           else t)"

definition unix_local_mac :: "os_env \<Rightarrow> string \<Rightarrow> bytes option" where
  "unix_local_mac e local_ip = (case run_text e [''ifconfig''] of
       None \<Rightarrow> None
     | Some text \<Rightarrow>
         section_mac local_ip (sc_flush (fold unix_section_line (py_splitlines text) sc_init)))"

definition resolve_local_mac :: "os_env \<Rightarrow> string option \<Rightarrow> bytes option" where
  "resolve_local_mac e local_ip = (case local_ip of
       None \<Rightarrow> None
     | Some ip \<Rightarrow>
         if is_linux e then linux_local_mac e ip
         else if is_windows e then windows_local_mac e ip
         else if is_darwin e \<or> is_bsd e then unix_local_mac e ip
         else None)"

section \<open>Lemmas\<close>

lemma mac_length_loose: "parse_mac_loose t = Some mac \<Longrightarrow> length mac = 6"
  by (auto simp: parse_mac_loose_def hex_bytes_def Let_def split: if_splits sum.splits dest: mapr_length)

lemma mac_hyphen_notin: "CHR ''-'' \<notin> set (hex2 b)"
proof -
  have "unat b < 256" by (rule unat_byte_less)
  then have "unat b div 16 < 36" "unat b mod 16 < 36" by simp_all
  then show "CHR ''-'' \<notin> set (hex2 b)"
    using digit_c_not_sign(1) [of "unat b div 16"] digit_c_not_sign(1) [of "unat b mod 16"]
    by (auto simp: hex2_def simp del: less_numeral_extra)
qed

text \<open>The OS tables only hold real MAC addresses: six bytes, never the zero address.\<close>

definition good_table :: "arp_table \<Rightarrow> bool" where
  "good_table t \<longleftrightarrow> (\<forall>mac\<in>ran t. length mac = 6 \<and> mac \<noteq> MAC_ZERO)"

lemma good_table_upd: "good_table t \<Longrightarrow> length mac = 6 \<Longrightarrow> mac \<noteq> MAC_ZERO \<Longrightarrow> good_table (t(k \<mapsto> mac))"
  by (auto simp: good_table_def ran_def)

lemma fold_good_table:
  assumes "\<And>l t. good_table t \<Longrightarrow> good_table (f l t)" "good_table t"
  shows "good_table (fold f ls t)"
  using assms by (induction ls arbitrary: t) auto

lemma os_arp_table_good: "good_table (os_arp_table e)"
proof -
  have l: "good_table (linux_arp_line l t)" if "good_table t" for l t
    using that by (auto simp: linux_arp_line_def Let_def split: option.splits
        intro: good_table_upd dest: mac_length_loose)
  have w: "good_table (windows_arp_line l t)" if "good_table t" for l t
    using that by (auto simp: windows_arp_line_def Let_def split: option.splits
        intro: good_table_upd dest: mac_length_loose)
  have u: "good_table (unix_arp_line l t)" if "good_table t" for l t
    using that by (auto simp: unix_arp_line_def Let_def split: option.splits list.splits
        intro: good_table_upd dest: mac_length_loose)
  have n: "good_table Map.empty" by (simp add: good_table_def)
  show ?thesis
    using n l w u
    by (auto simp: os_arp_table_def linux_arp_table_def windows_arp_table_def unix_arp_table_def
        split: option.splits intro: fold_good_table)
qed

text \<open>The gateway loop keeps the first route with the least metric.\<close>

lemma best_route:
  assumes "rs \<noteq> []"
  shows "\<exists>i<length rs. fold better_route rs None = Some (rs ! i)
    \<and> (\<forall>j<length rs. fst (rs ! i) \<le> fst (rs ! j)) \<and> (\<forall>j<i. fst (rs ! i) < fst (rs ! j))"
  using assms
proof (induction rs rule: rev_induct)
  case (snoc r rs)
  show ?case
  proof (cases "rs = []")
    case True
    then show ?thesis by (simp add: better_route_def)
  next
    case False
    with snoc obtain i where i: "i < length rs" "fold better_route rs None = Some (rs ! i)"
      "\<forall>j<length rs. fst (rs ! i) \<le> fst (rs ! j)" "\<forall>j<i. fst (rs ! i) < fst (rs ! j)"
      by blast
    show ?thesis
    proof (cases "fst r < fst (rs ! i)")
      case True
      then have "fold better_route (rs @ [r]) None = Some r"
        by (simp add: i(2) better_route_def)
      moreover have "\<forall>j<length rs. fst r < fst (rs ! j)" using True i(3) by fastforce
      ultimately show ?thesis
        by (intro exI [of _ "length rs"]) (auto simp: nth_append less_Suc_eq intro: less_imp_le)
    next
      case False
      then have "fold better_route (rs @ [r]) None = Some (rs ! i)"
        by (simp add: i(2) better_route_def)
      then show ?thesis
        using i False by (intro exI [of _ i]) (auto simp: nth_append less_Suc_eq)
    qed
  qed
qed simp

lemma fold_map_filter:
  "fold (\<lambda>l b. case f l of None \<Rightarrow> b | Some r \<Rightarrow> g r b) ls b = fold g (List.map_filter f ls) b"
  by (induction ls arbitrary: b) (auto simp: List.map_filter_simps split: option.splits)

text \<open>The Linux gateway is the one of the default route with the least metric, the first of
  them in the file when several have it; there is none exactly when no line is a default route.\<close>

theorem linux_gateway_least_metric:
  assumes "os_proc_route e = Some ls" and "List.map_filter linux_route_line (drop 1 ls) = rs"
  shows "if rs = [] then linux_default_gateway e = None
    else \<exists>i<length rs. linux_default_gateway e = Some (snd (rs ! i))
      \<and> (\<forall>j<length rs. fst (rs ! i) \<le> fst (rs ! j)) \<and> (\<forall>j<i. fst (rs ! i) < fst (rs ! j))"
proof -
  have "linux_default_gateway e = map_option snd (fold better_route rs None)"
    using assms by (simp add: linux_default_gateway_def fold_map_filter)
  moreover have "rs \<noteq> [] \<Longrightarrow> \<exists>i<length rs. map_option snd (fold better_route rs None) = Some (snd (rs ! i))
      \<and> (\<forall>j<length rs. fst (rs ! i) \<le> fst (rs ! j)) \<and> (\<forall>j<i. fst (rs ! i) < fst (rs ! j))"
    using best_route [of rs] by fastforce
  ultimately show ?thesis by simp
qed

theorem linux_gateway_least_metric_witness:
  "\<exists>(e :: os_env) i (rs :: (int \<times> string) list). rs \<noteq> [] \<and> i < length rs \<and> linux_default_gateway e = Some (snd (rs ! i))"
proof -
  let ?l = "''eth0 00000000 0100000A 0003 0 0 100 00000000 0 0 0''"
  let ?e = "\<lparr>os_platform = ''linux'', os_proc_arp = None, os_proc_route = Some [''h'', ?l],
     os_sys_net = [], os_run = (\<lambda>_. None)\<rparr>"
  have "linux_route_line ?l \<noteq> None"
    by (simp add: linux_route_line_def py_fields_def is_ws_def ord_c_def py_int_def py_strip_def
        base_prefix_def parse_nat_def digit_val_def lower_c_def Let_def)
  then obtain r where r: "linux_route_line ?l = Some r" by blast
  have f: "List.map_filter linux_route_line (drop 1 [''h'', ?l]) = [r]"
    by (simp add: List.map_filter_simps r)
  have "if [r] = [] then linux_default_gateway ?e = None
    else \<exists>i<length [r]. linux_default_gateway ?e = Some (snd ([r] ! i))
      \<and> (\<forall>j<length [r]. fst ([r] ! i) \<le> fst ([r] ! j)) \<and> (\<forall>j<i. fst ([r] ! i) < fst ([r] ! j))"
    by (rule linux_gateway_least_metric [OF _ f]) simp
  then show ?thesis by - (rule exI [of _ ?e], rule exI [of _ 0], rule exI [of _ "[r]"], simp)
qed

text \<open>The next hop. Without a usable cache entry, an on-link destination is only ever resolved
  to its own entry of the OS table, never to the gateway, and any other destination only to the
  gateway's entry; an address that comes from the OS tables is six bytes long and not the zero
  address. No input makes the resolution fail.\<close>

theorem next_hop_choice:
  assumes "arp_lookup now dst c \<in> {None, Some MAC_BROADCAST, Some MAC_ZERO}"
  shows "good_table (os_arp_table e) \<and>
    (\<exists>c'. resolve_next_hop_mac e now dst (Some lip) (Some sn) (Some c) =
      Inr ((if same_subnet (AStr dst) (AStr lip) (AStr sn) then os_arp_table e dst
            else Option.bind (os_default_gateway e) (os_arp_table e)), c'))"
proof -
  have "\<exists>c'. arp_get now (AStr dst) c = Inr (arp_lookup now dst c, c')"
    by (auto simp: arp_get_def arp_lookup_def arp_key_def split: option.splits prod.splits)
  then obtain c1 where g: "arp_get now (AStr dst) c = Inr (arp_lookup now dst c, c1)" by blast
  have s: "cache_store now k mac (Some c1) = Inr (Some (arp_store now k mac c1))" for k mac
    by (simp add: cache_store_def arp_put_str)
  have "\<exists>c'. resolve_next_hop_mac e now dst (Some lip) (Some sn) (Some c) =
      Inr ((if same_subnet (AStr dst) (AStr lip) (AStr sn) then os_arp_table e dst
            else Option.bind (os_default_gateway e) (os_arp_table e)), c')"
    using assms s
    by (auto simp: resolve_next_hop_mac_def cache_lookup_def g Let_def split: option.splits)
  then show ?thesis using os_arp_table_good by blast
qed

theorem next_hop_choice_witness:
  "\<exists>(e :: os_env) c'. resolve_next_hop_mac e 0 ''10.0.0.9'' (Some ''10.0.0.1'') (Some ''255.255.255.0'') (Some (arp_init 300))
     = Inr ((if same_subnet (AStr ''10.0.0.9'') (AStr ''10.0.0.1'') (AStr ''255.255.255.0'')
             then os_arp_table e ''10.0.0.9''
             else Option.bind (os_default_gateway e) (os_arp_table e)), c')"
  using next_hop_choice [of 0 "''10.0.0.9''" "arp_init 300"]
  by (auto simp: arp_lookup_table arp_init_def)

text \<open>\<open>linux_local_mac\<close> looks for the address as a substring of the command output, so an interface
  whose address merely begins with the wanted one is accepted as its owner.\<close>

lemma local_mac_substring:
  "linux_local_mac
     \<lparr>os_platform = ''linux'', os_proc_arp = None, os_proc_route = None,
      os_sys_net = [(''eth1'', Some ''02:00:00:00:00:07'')],
      os_run = (\<lambda>cmd. Some ''inet 10.0.0.12/24'')\<rparr> ''10.0.0.1'' = Some [2, 0, 0, 0, 0, 7]"
  by (simp add: linux_local_mac_def run_text_def parse_mac_loose_def py_strip_def py_lower_def
      is_ws_def ord_c_def lower_c_def hex_bytes_def hex_byte_def py_int_def base_prefix_def
      parse_nat_def digit_val_def MAC_ZERO_def Let_def)

end
