(* ===== verification/TcpConn.thy ===== *)
theory TcpConn
  imports TcpInv NextHop
begin

unbundle bit_operations_syntax

text \<open>
  \<open>net/pcap/tcp/conn.py\<close> and \<open>simul_open.py\<close>: the connection that drives the state machine from
  captured frames and injects its segments. The frames handed to \<open>backend.send\<close> are collected in
  \<open>cn_wire\<close>; the clock, the operating system and the random initial sequence number are arguments.
  An operation that may raise returns the exception, if any, with the connection as it then is.
\<close>

section \<open>Four-tuples\<close>

record FourTuple =
  ft_local_ip :: string
  ft_local_port :: int
  ft_remote_ip :: string
  ft_remote_port :: int

definition four_tuple :: "string \<Rightarrow> int \<Rightarrow> string \<Rightarrow> int \<Rightarrow> FourTuple" where
  "four_tuple lip lport rip rport =
     \<lparr>ft_local_ip = lip, ft_local_port = lport, ft_remote_ip = rip, ft_remote_port = rport\<rparr>"

definition match_inbound :: "TcpSegment \<Rightarrow> string \<Rightarrow> string \<Rightarrow> FourTuple \<Rightarrow> bool" where
  "match_inbound seg src_ip dst_ip ft =
     (if dst_ip \<noteq> ft_local_ip ft then False
      else if src_ip \<noteq> ft_remote_ip ft then False
      else if sg_dst_port seg \<noteq> ft_local_port ft then False
      else if sg_src_port seg \<noteq> ft_remote_port ft then False
      else True)"

definition is_bare_syn :: "TcpSegment \<Rightarrow> bool" where
  "is_bare_syn seg \<longleftrightarrow> has_flag seg FLAG_SYN \<and> \<not> has_flag seg FLAG_ACK"

section \<open>Connections\<close>

record Connection =
  cn_local_ip :: string
  cn_local_mac :: "bytes option"
  cn_local_subnet :: "string option"
  cn_state :: "TcpState option"
  cn_ft :: "FourTuple option"
  cn_peer_mac :: "bytes option"
  cn_arp_cache :: ArpCache
  cn_datalink :: int
  cn_next_hop :: "bytes option"
  cn_established :: bool
  cn_closed :: bool
  cn_wire :: "bytes list"

definition conn_init ::
  "os_env \<Rightarrow> int \<Rightarrow> string \<Rightarrow> addr_arg option \<Rightarrow> string option \<Rightarrow> Connection result" where
  "conn_init e datalink local_ip local_mac local_subnet =
     bindr (case local_mac of None \<Rightarrow> Inr None | Some m \<Rightarrow> bindr (mac_arg m) (\<lambda>b. Inr (Some b))) (\<lambda>mac.
     Inr \<lparr>cn_local_ip = local_ip,
          cn_local_mac = (if mac = None then resolve_local_mac e (Some local_ip) else mac),
          cn_local_subnet = local_subnet, cn_state = None, cn_ft = None, cn_peer_mac = None,
          cn_arp_cache = arp_init 300, cn_datalink = datalink, cn_next_hop = None,
          cn_established = False, cn_closed = False, cn_wire = []\<rparr>)"

section \<open>Outbound\<close>

definition resolve_dst_mac :: "os_env \<Rightarrow> rat \<Rightarrow> string \<Rightarrow> Connection \<Rightarrow> bytes \<times> Connection" where
  "resolve_dst_mac e now dst_ip c =
     (case cn_peer_mac c of
        Some m \<Rightarrow> (m, c)
      | None \<Rightarrow>
          (case arp_get now (AStr dst_ip) (cn_arp_cache c) of
             Inl _ \<Rightarrow> (MAC_BROADCAST, c)
           | Inr (learned, cache) \<Rightarrow>
               let c = c\<lparr>cn_arp_cache := cache\<rparr>
               in if learned \<noteq> None \<and> learned \<noteq> Some MAC_ZERO \<and> learned \<noteq> Some MAC_BROADCAST
                  then (the learned, c)
                  else
                    let c = (if cn_next_hop c = None then
                               (case resolve_next_hop_mac e now dst_ip (Some (cn_local_ip c))
                                       (cn_local_subnet c) (Some (cn_arp_cache c)) of
                                  Inl _ \<Rightarrow> c\<lparr>cn_next_hop := Some []\<rparr>
                                | Inr (resolved, cache') \<Rightarrow>
                                    c\<lparr>cn_next_hop := Some (case resolved of None \<Rightarrow> [] | Some m \<Rightarrow> m),
                                      cn_arp_cache := (case cache' of None \<Rightarrow> cn_arp_cache c | Some x \<Rightarrow> x)\<rparr>)
                             else c)
                    in (case cn_next_hop c of
                          Some m \<Rightarrow> if m \<noteq> [] then (m, c) else (MAC_BROADCAST, c)
                        | None \<Rightarrow> (MAC_BROADCAST, c))))"

text \<open>The frame of one queued segment, and the loop over the outbox: the segment is popped before it
  is packed, so a segment that cannot be packed is lost and the exception ends the loop.\<close>

definition build_frame ::
  "os_env \<Rightarrow> rat \<Rightarrow> TcpSegment \<Rightarrow> string \<Rightarrow> Connection \<Rightarrow> bytes result \<times> Connection" where
  "build_frame e now seg dst_ip c =
     (case pack_tcp_segment seg (AStr (cn_local_ip c)) (AStr dst_ip) False of
        Inl x \<Rightarrow> (Inl x, c)
      | Inr (tcp_bytes, _) \<Rightarrow>
          (case pack_ipv4 (AStr (cn_local_ip c)) (AStr dst_ip) 6 tcp_bytes 0 64 0 0x4000 0 of
             Inl x \<Rightarrow> (Inl x, c)
           | Inr ip_bytes \<Rightarrow>
               if cn_datalink c = 1 then
                 (case resolve_dst_mac e now dst_ip c of
                    (dst_mac, c) \<Rightarrow>
                      let src_mac = (case cn_local_mac c of None \<Rightarrow> MAC_ZERO
                                     | Some m \<Rightarrow> if m = [] then MAC_ZERO else m)
                      in (wrap_link_layer (cn_datalink c) ETH_TYPE_IPV4 (ABytes dst_mac) (ABytes src_mac) ip_bytes, c))
               else (wrap_link_layer (cn_datalink c) ETH_TYPE_IPV4 (ABytes []) (ABytes []) ip_bytes, c)))"

definition set_outbox :: "TcpSegment list \<Rightarrow> Connection \<Rightarrow> Connection" where
  "set_outbox os c = c\<lparr>cn_state := map_option (\<lambda>s. s\<lparr>ts_outbox := os\<rparr>) (cn_state c)\<rparr>"

fun flush_loop :: "os_env \<Rightarrow> rat \<Rightarrow> string option \<Rightarrow> TcpSegment list \<Rightarrow> Connection \<Rightarrow> py_exn option \<times> Connection" where
  "flush_loop e now remote [] c = (None, c)"
| "flush_loop e now remote (seg # rest) c =
     (let c = set_outbox rest c
      in case remote of
           None \<Rightarrow> flush_loop e now remote rest c
         | Some dst_ip \<Rightarrow>
             (case build_frame e now seg dst_ip c of
                (Inl x, c) \<Rightarrow> (Some x, c)
              | (Inr frame, c) \<Rightarrow> flush_loop e now remote rest (c\<lparr>cn_wire := cn_wire c @ [frame]\<rparr>)))"

definition flush_outbox :: "os_env \<Rightarrow> rat \<Rightarrow> Connection \<Rightarrow> py_exn option \<times> Connection" where
  "flush_outbox e now c = (case cn_state c of
       None \<Rightarrow> (None, c)
     | Some s \<Rightarrow> flush_loop e now (ts_remote_ip s) (ts_outbox s) c)"

section \<open>Inbound\<close>

text \<open>The link layer of a captured frame: type, payload, and on Ethernet the source address.\<close>

definition split_frame :: "int \<Rightarrow> bytes \<Rightarrow> (int \<times> bytes \<times> bytes option) result" where
  "split_frame datalink frame =
     (if datalink = 1
      then bindr (parse_eth_frame frame) (\<lambda>(_, src, et, payload). Inr (et, payload, Some src))
      else bindr (strip_link_layer datalink frame) (\<lambda>(et, payload). Inr (et, payload, None)))"

definition learn_mac :: "rat \<Rightarrow> string \<Rightarrow> bytes option \<Rightarrow> Connection \<Rightarrow> Connection" where
  "learn_mac now src_ip src_mac c = (case src_mac of
       None \<Rightarrow> c
     | Some m \<Rightarrow>
         if m = MAC_ZERO \<or> m = MAC_BROADCAST then c
         else (case arp_put now (AStr src_ip) (ABytes m) (cn_arp_cache c) of
                 Inl _ \<Rightarrow> c | Inr cache \<Rightarrow> c\<lparr>cn_arp_cache := cache\<rparr>))"

definition wanted :: "TcpSegment \<Rightarrow> string \<Rightarrow> string \<Rightarrow> TcpState \<Rightarrow> FourTuple option \<Rightarrow> bool" where
  "wanted seg src_ip dst_ip s ft =
     (if ts_state s \<in> {LISTEN, CLOSED} \<and> ft = None then sg_dst_port seg = ts_local_port s
      else (case ft of None \<Rightarrow> False | Some t \<Rightarrow> match_inbound seg src_ip dst_ip t))"

definition process_segment ::
  "rat \<Rightarrow> 32 word \<Rightarrow> TcpSegment \<Rightarrow> string \<Rightarrow> string \<Rightarrow> bytes option \<Rightarrow> Connection \<Rightarrow> Connection" where
  "process_segment now iss seg src_ip dst_ip src_mac c =
     (if dst_ip \<noteq> cn_local_ip c then c
      else
        let c = learn_mac now src_ip src_mac c
        in case cn_state c of
             None \<Rightarrow> c
           | Some s \<Rightarrow>
               if \<not> wanted seg src_ip dst_ip s (cn_ft c) then c
               else (case on_segment iss seg src_ip s of
                       (accepted, s') \<Rightarrow>
                         let c = c\<lparr>cn_state := Some s'\<rparr>
                         in if accepted \<and> cn_ft c = None
                            then c\<lparr>cn_ft := Some (four_tuple (cn_local_ip c) (ts_local_port s')
                                                    src_ip (sg_src_port seg))\<rparr>
                            else c))"

definition process_frame :: "rat \<Rightarrow> 32 word \<Rightarrow> bytes \<Rightarrow> Connection \<Rightarrow> Connection" where
  "process_frame now iss frame c =
     (case split_frame (cn_datalink c) frame of
        Inl _ \<Rightarrow> c
      | Inr (et, ip_payload, src_mac) \<Rightarrow>
          if et = ETH_TYPE_ARP then
            (case feed_arp now ip_payload (cn_arp_cache c) of
               Inl _ \<Rightarrow> c | Inr (_, cache) \<Rightarrow> c\<lparr>cn_arp_cache := cache\<rparr>)
          else if et \<noteq> ETH_TYPE_IPV4 then c
          else (case parse_ipv4 ip_payload of
                  Inl _ \<Rightarrow> c
                | Inr (iphdr, l4) \<Rightarrow>
                    if ih_proto iphdr \<noteq> 6 then c
                    else (case parse_tcp_segment l4 of
                            Inl _ \<Rightarrow> c
                          | Inr seg \<Rightarrow>
                              (case (src_str iphdr, dst_str iphdr) of
                                 (Inr src_ip, Inr dst_ip) \<Rightarrow>
                                   process_segment now iss seg src_ip dst_ip src_mac c
                               | _ \<Rightarrow> c))))"

text \<open>One turn of \<open>driver_loop\<close> with a captured frame.\<close>

definition driver_step :: "os_env \<Rightarrow> rat \<Rightarrow> 32 word \<Rightarrow> bytes \<Rightarrow> Connection \<Rightarrow> py_exn option \<times> Connection" where
  "driver_step e now iss frame c =
     (case flush_outbox e now (process_frame now iss frame c) of
        (Some x, c) \<Rightarrow> (Some x, c\<lparr>cn_closed := True\<rparr>)
      | (None, c) \<Rightarrow>
          (None, if (case cn_state c of None \<Rightarrow> False | Some s \<Rightarrow> is_established s)
                 then c\<lparr>cn_established := True\<rparr> else c))"

section \<open>The caller's interface\<close>

definition start_active ::
  "os_env \<Rightarrow> rat \<Rightarrow> 32 word \<Rightarrow> string \<Rightarrow> int \<Rightarrow> int \<Rightarrow> addr_arg option \<Rightarrow> bool \<Rightarrow> nat \<Rightarrow> Connection
     \<Rightarrow> py_exn option \<times> Connection" where
  "start_active e now iss remote_ip remote_port local_port remote_mac simul mss c =
     (let s = tcp_init (cn_local_ip c) local_port mss;
          c = c\<lparr>cn_state := Some s,
                cn_ft := Some (four_tuple (cn_local_ip c) local_port remote_ip remote_port)\<rparr>
      in case (case remote_mac of None \<Rightarrow> Inr (cn_peer_mac c)
               | Some m \<Rightarrow> bindr (mac_arg m) (\<lambda>b. Inr (Some b))) of
           Inl x \<Rightarrow> (Some x, c)
         | Inr pm \<Rightarrow>
             let c = c\<lparr>cn_peer_mac := pm\<rparr>
             in case (if simul then open_simul iss remote_ip remote_port s
                      else open_active iss remote_ip remote_port s) of
                  Inl x \<Rightarrow> (Some x, c)
                | Inr s \<Rightarrow> flush_outbox e now (c\<lparr>cn_state := Some s\<rparr>))"

definition start_listen ::
  "int \<Rightarrow> string option \<Rightarrow> int option \<Rightarrow> nat \<Rightarrow> Connection \<Rightarrow> Connection result" where
  "start_listen local_port remote_ip remote_port mss c =
     bindr (open_listen (tcp_init (cn_local_ip c) local_port mss)) (\<lambda>s.
     Inr (c\<lparr>cn_state := Some s,
            cn_ft := (case (remote_ip, remote_port) of
                        (Some ip, Some p) \<Rightarrow> Some (four_tuple (cn_local_ip c) local_port ip p)
                      | _ \<Rightarrow> None)\<rparr>))"

definition retx_round :: "os_env \<Rightarrow> rat \<Rightarrow> Connection \<Rightarrow> py_exn option \<times> Connection" where
  "retx_round e now c = (case cn_state c of
       None \<Rightarrow> (None, c)
     | Some s \<Rightarrow>
         if is_closed s then (None, c)
         else if ts_have_unacked s \<and> ts_unacked_data s \<noteq> []
           then flush_outbox e now (c\<lparr>cn_state := Some (retransmit s)\<rparr>)
         else (None, c))"

definition conn_is_open :: "Connection \<Rightarrow> bool" where
  "conn_is_open c = (case cn_state c of None \<Rightarrow> False | Some s \<Rightarrow> is_established s)"

text \<open>\<open>wait_established\<close> once the event is set or the timeout has fired.\<close>

definition wait_established :: "Connection \<Rightarrow> unit result" where
  "wait_established c =
     (if \<not> cn_established c then Inl ConnectionError2
      else (case cn_state c of
              Some s \<Rightarrow> if ts_aborted s then Inl ConnectionError2 else Inr ()
            | None \<Rightarrow> Inl TypeError))"

definition conn_send :: "os_env \<Rightarrow> rat \<Rightarrow> bytes \<Rightarrow> Connection \<Rightarrow> nat result \<times> Connection" where
  "conn_send e now d c = (case cn_state c of
       None \<Rightarrow> (Inl ConnectionError2, c)
     | Some s \<Rightarrow>
         if ts_aborted s then (Inl ConnectionError2, c)
         else (case tcp_write d s of
                 Inl x \<Rightarrow> (Inl x, c)
               | Inr s' \<Rightarrow>
                   (case flush_outbox e now (c\<lparr>cn_state := Some s'\<rparr>) of
                      (Some x, c) \<Rightarrow> (Inl x, c)
                    | (None, c) \<Rightarrow> (Inr (length d), c))))"

text \<open>One pass of the loop in \<open>recv\<close>: bytes, end of stream, an error, or waiting for more.\<close>

datatype recv_outcome = Got bytes | Failed py_exn | Waiting

definition conn_recv :: "nat \<Rightarrow> Connection \<Rightarrow> recv_outcome \<times> Connection" where
  "conn_recv n c = (case cn_state c of
       None \<Rightarrow> (Failed ConnectionError2, c)
     | Some s \<Rightarrow>
         if ts_read_buf s \<noteq> [] then
           (case pop_read (Some n) s of (out, s') \<Rightarrow> (Got out, c\<lparr>cn_state := Some s'\<rparr>))
         else if is_closed s \<or> ts_fin_received s then (Got [], c)
         else if ts_aborted s then (Failed ConnectionError2, c)
         else (Waiting, c))"

definition conn_close :: "os_env \<Rightarrow> rat \<Rightarrow> Connection \<Rightarrow> py_exn option \<times> Connection" where
  "conn_close e now c = (case cn_state c of
       None \<Rightarrow> (None, c)
     | Some s \<Rightarrow> flush_outbox e now (c\<lparr>cn_state := Some (tcp_close s)\<rparr>))"

section \<open>From outbox to state machine\<close>

text \<open>The state machine does not look at the two header fields that packing fills in.\<close>

lemma has_flag_hdr [simp]: "has_flag (g\<lparr>sg_data_offset := a, sg_checksum := b\<rparr>) m = has_flag g m"
  by (simp add: has_flag_def)

lemma segment_length_hdr [simp]: "segment_length (g\<lparr>sg_data_offset := a, sg_checksum := b\<rparr>) = segment_length g"
  by (simp add: segment_length_def)

lemma on_segment_hdr:
  "on_segment iss (g\<lparr>sg_data_offset := a, sg_checksum := b\<rparr>) ip s = on_segment iss g ip s"
proof -
  let ?g = "g\<lparr>sg_data_offset := a, sg_checksum := b\<rparr>"
  have r: "read_peer_mss ?g t = read_peer_mss g t" for t by (simp add: read_peer_mss_def)
  have "on_segment_listen iss ?g ip s = on_segment_listen iss g ip s"
    by (simp add: on_segment_listen_def r Let_def)
  moreover have "on_segment_syn_sent ?g s = on_segment_syn_sent g s"
    by (simp add: on_segment_syn_sent_def r Let_def)
  moreover have "on_segment_syn_received ?g s = on_segment_syn_received g s"
    by (simp add: on_segment_syn_received_def Let_def)
  moreover have "est_ack ?g t = est_ack g t" "est_payload ?g t = est_payload g t"
    "est_fin ?g t = est_fin g t" for t
    by (simp_all add: est_ack_def est_payload_def est_fin_def Let_def)
  then have "on_segment_established ?g s = on_segment_established g s"
    by (simp add: on_segment_established_def Let_def)
  moreover have "handle_rst ?g s = handle_rst g s" by (simp add: handle_rst_def)
  ultimately show ?thesis by (cases "ts_state s") (simp_all add: on_segment_def)
qed

lemma match_hdr: "match_inbound (g\<lparr>sg_data_offset := a, sg_checksum := b\<rparr>) = match_inbound g"
  by (intro ext) (simp add: match_inbound_def)

lemma wanted_hdr: "wanted (g\<lparr>sg_data_offset := a, sg_checksum := b\<rparr>) = wanted g"
  by (intro ext) (simp add: wanted_def match_hdr split: option.split)

lemma process_segment_hdr:
  "process_segment now iss (g\<lparr>sg_data_offset := a, sg_checksum := b\<rparr>) = process_segment now iss g"
  by (intro ext) (simp add: process_segment_def wanted_hdr on_segment_hdr Let_def split: option.split prod.split)

lemma resolve_keeps_datalink: "cn_datalink (snd (resolve_dst_mac e now dst c)) = cn_datalink c"
  by (auto simp: resolve_dst_mac_def Let_def split: option.split sum.split prod.split)

text \<open>What \<open>build_frame\<close> produced, layer by layer.\<close>

lemma build_frame_Inr:
  assumes "build_frame e now seg dst c = (Inr frame, c')"
  obtains tcp seg' ip dm sm where
    "pack_tcp_segment seg (AStr (cn_local_ip c)) (AStr dst) False = Inr (tcp, seg')"
    "pack_ipv4 (AStr (cn_local_ip c)) (AStr dst) 6 tcp 0 64 0 0x4000 0 = Inr ip"
    "wrap_link_layer (cn_datalink c) ETH_TYPE_IPV4 (ABytes dm) (ABytes sm) ip = Inr frame"
proof -
  let ?t = "pack_tcp_segment seg (AStr (cn_local_ip c)) (AStr dst) False"
  obtain tcp seg' where t: "?t = Inr (tcp, seg')"
  proof (cases ?t)
    case (Inl x)
    then show thesis using assms by (simp add: build_frame_def)
  next
    case (Inr p)
    then show thesis using that by (cases p) simp
  qed
  let ?i = "pack_ipv4 (AStr (cn_local_ip c)) (AStr dst) 6 tcp 0 64 0 0x4000 0"
  obtain ip where i: "?i = Inr ip"
  proof (cases ?i)
    case (Inl x)
    then show thesis using assms t by (simp add: build_frame_def)
  qed (rule that)
  have "\<exists>dm sm. wrap_link_layer (cn_datalink c) ETH_TYPE_IPV4 (ABytes dm) (ABytes sm) ip = Inr frame"
  proof (cases "cn_datalink c = 1")
    case True
    obtain dm c'' where m: "resolve_dst_mac e now dst c = (dm, c'')"
      by (cases "resolve_dst_mac e now dst c")
    have "cn_datalink c'' = 1" using resolve_keeps_datalink [of e now dst c] m True by simp
    then have "\<exists>sm. wrap_link_layer 1 ETH_TYPE_IPV4 (ABytes dm) (ABytes sm) ip = Inr frame"
      using assms t i m True by (auto simp: build_frame_def Let_def)
    then show ?thesis using True by auto
  next
    case False
    then show ?thesis using assms t i by (auto simp: build_frame_def)
  qed
  then show thesis using that t i by blast
qed

lemma split_wrapped:
  assumes "wrap_link_layer dl ETH_TYPE_IPV4 (ABytes dm) (ABytes sm) ip = Inr frame"
  shows "\<exists>pad src. split_frame dl frame = Inr (ETH_TYPE_IPV4, ip @ pad, src)"
proof (cases "dl = 1")
  case True
  then have "build_eth_frame (ABytes dm) (ABytes sm) ETH_TYPE_IPV4 ip = Inr frame"
    using assms by (simp add: wrap_link_layer_def dlt_consts)
  then show ?thesis
    using True parse_eth_frame_wire by (auto simp: build_eth_frame_Inr split_frame_def)
next
  case False
  then show ?thesis using strip_wrap [OF assms] by (simp add: split_frame_def)
qed

lemma split_not_arp: "ETH_TYPE_IPV4 \<noteq> ETH_TYPE_ARP"
  by (simp add: eth_consts)

lemma learn_mac_fields [simp]:
  "cn_state (learn_mac n i m x) = cn_state x" "cn_ft (learn_mac n i m x) = cn_ft x"
  "cn_local_ip (learn_mac n i m x) = cn_local_ip x"
  by (auto simp: learn_mac_def split: option.split sum.split)

lemma process_segment_state:
  "cn_state (process_segment now iss seg sip dip src c) =
    (if dip = cn_local_ip c
     then (case cn_state c of
             None \<Rightarrow> None
           | Some s \<Rightarrow> Some (if wanted seg sip dip s (cn_ft c) then snd (on_segment iss seg sip s) else s))
     else cn_state c)"
  by (auto simp: process_segment_def Let_def split: option.split prod.split)

lemma wire_roundtrip:
  assumes f: "build_frame e now seg dip c = (Inr frame, c')"
    and lip: "inet_ntoa lb = Inr (cn_local_ip c)" and dip: "inet_ntoa db = Inr dip"
    and al: "length (sg_options seg) mod 4 = 0" and dl: "cn_datalink d = cn_datalink c"
  shows "\<exists>src. process_frame now' iss frame d = process_segment now' iss seg (cn_local_ip c) dip src d"
proof -
  from f obtain tcp seg' ip dm sm where
    t: "pack_tcp_segment seg (AStr (cn_local_ip c)) (AStr dip) False = Inr (tcp, seg')"
    and i: "pack_ipv4 (AStr (cn_local_ip c)) (AStr dip) 6 tcp 0 64 0 0x4000 0 = Inr ip"
    and w: "wrap_link_layer (cn_datalink c) ETH_TYPE_IPV4 (ABytes dm) (ABytes sm) ip = Inr frame"
    by (rule build_frame_Inr)
  obtain pad src where s: "split_frame (cn_datalink d) frame = Inr (ETH_TYPE_IPV4, ip @ pad, src)"
    using split_wrapped [OF w] dl by auto
  have len: "length lb = 4" "length db = 4"
    using lip dip by (auto simp: inet_ntoa_def split: if_splits)
  obtain hdr where h: "parse_ipv4 (ip @ pad) = Inr (hdr, tcp)"
    "Inr (ih_src hdr) = addr_bytes (AStr (cn_local_ip c))" "Inr (ih_dst hdr) = addr_bytes (AStr dip)"
    "ih_proto hdr = 6"
    using ipv4_roundtrip [OF i, of pad] by blast
  have "ih_src hdr = lb" "ih_dst hdr = db"
    using h(2,3) inet_aton_ntoa [OF len(1) lip] inet_aton_ntoa [OF len(2) dip]
    by (simp_all add: addr_bytes_def)
  then have a: "src_str hdr = Inr (cn_local_ip c)" "dst_str hdr = Inr dip"
    using lip dip by (simp_all add: src_str_def dst_str_def)
  have o: "pad_options (sg_options seg) = sg_options seg" using al by (rule pad_options_aligned)
  have "parse_tcp_segment tcp = Inr (seg'\<lparr>sg_options := sg_options seg\<rparr>)"
    using tcp_roundtrip [OF t] o by simp
  moreover have "\<exists>a b. seg' = seg\<lparr>sg_data_offset := a, sg_checksum := b\<rparr>"
    using t by (rule pack_tcp_Inr) blast
  ultimately obtain a b where "parse_tcp_segment tcp = Inr (seg\<lparr>sg_data_offset := a, sg_checksum := b\<rparr>)"
    by auto
  then have "process_frame now' iss frame d =
      process_segment now' iss (seg\<lparr>sg_data_offset := a, sg_checksum := b\<rparr>) (cn_local_ip c) dip src d"
    using s h a split_not_arp by (simp add: process_frame_def)
  then show ?thesis by (auto simp only: process_segment_hdr)
qed

text \<open>C4. The wire is transparent. A segment that one connection frames (TCP checksum, IPv4 header,
  and Ethernet, BSD or OpenBSD loopback link layer) has, when the frame is captured by the
  connection that owns the destination address, exactly the effect of handing the segment itself to
  that connection's state machine, with the sender's address as source.\<close>

theorem frame_reaches_state_machine:
  assumes "build_frame e now seg dip c = (Inr frame, c')"
    and "inet_ntoa lb = Inr (cn_local_ip c)" and "inet_ntoa db = Inr dip"
    and "length (sg_options seg) mod 4 = 0"
    and "cn_datalink d = cn_datalink c" and "cn_local_ip d = dip" and "cn_state d = Some s"
  shows "cn_state (process_frame now' iss frame d) =
    Some (if wanted seg (cn_local_ip c) dip s (cn_ft d) then snd (on_segment iss seg (cn_local_ip c) s) else s)"
proof -
  obtain src where p: "process_frame now' iss frame d = process_segment now' iss seg (cn_local_ip c) dip src d"
    using wire_roundtrip [OF assms(1-5)] by blast
  show ?thesis
    using assms(6,7) unfolding p process_segment_state by simp
qed

text \<open>C19. A captured frame can only change the state machine if it is an IPv4 packet addressed to the
  connection's own address, with a TCP segment that fits the connection's four-tuple or, when no
  peer is known yet, the listening port.\<close>

theorem foreign_frames_ignored:
  assumes "cn_state (process_frame now iss frame c) \<noteq> cn_state c"
  shows "\<exists>s et p src hdr l4 seg sip.
    cn_state c = Some s \<and> split_frame (cn_datalink c) frame = Inr (ETH_TYPE_IPV4, p, src)
    \<and> parse_ipv4 p = Inr (hdr, l4) \<and> ih_proto hdr = 6 \<and> parse_tcp_segment l4 = Inr seg
    \<and> src_str hdr = Inr sip \<and> dst_str hdr = Inr (cn_local_ip c)
    \<and> wanted seg sip (cn_local_ip c) s (cn_ft c)
    \<and> cn_state (process_frame now iss frame c) = Some (snd (on_segment iss seg sip s))"
proof -
  from assms obtain et p src where s: "split_frame (cn_datalink c) frame = Inr (et, p, src)"
    by (auto simp: process_frame_def split: sum.splits)
  have et: "et = ETH_TYPE_IPV4"
    using assms s by (auto simp: process_frame_def split: sum.splits if_splits)
  from assms s et split_not_arp obtain hdr l4 where h: "parse_ipv4 p = Inr (hdr, l4)" "ih_proto hdr = 6"
    by (auto simp: process_frame_def split: sum.splits if_splits)
  from assms s et h split_not_arp obtain seg sip dip where
    g: "parse_tcp_segment l4 = Inr seg" "src_str hdr = Inr sip" "dst_str hdr = Inr dip"
    by (auto simp: process_frame_def split: sum.splits)
  have p: "process_frame now iss frame c = process_segment now iss seg sip dip src c"
    using s et h g split_not_arp by (simp add: process_frame_def)
  have d: "dip = cn_local_ip c"
    using assms unfolding p process_segment_state by (auto split: if_splits)
  obtain st where st: "cn_state c = Some st"
    using assms unfolding p process_segment_state by (cases "cn_state c") (auto split: if_splits)
  have w: "wanted seg sip dip st (cn_ft c)"
    using assms st d unfolding p process_segment_state by (auto split: if_splits)
  have "cn_state (process_frame now iss frame c) = Some (snd (on_segment iss seg sip st))"
    using w st d unfolding p process_segment_state by simp
  with s et h g d st w show ?thesis by blast
qed

section \<open>Reading after a reset\<close>

text \<open>After a reset a read never reports it: on every reachable machine that was aborted,
  \<open>recv\<close> returns the remaining bytes and then end of stream, because an aborted machine is always
  CLOSED and the test for CLOSED comes first; the \<open>ConnectionError2\<close> behind it is never raised.\<close>

theorem recv_never_reports_reset:
  assumes "tcp_reach s" and "cn_state c = Some s" and "ts_aborted s"
  shows "fst (conn_recv n c) = Got (take n (ts_read_buf s))"
proof -
  have "is_closed s"
    using tcp_reach_inv [OF assms(1)] assms(3) by (simp add: tcp_inv_def is_closed_def)
  then show ?thesis using assms(2) by (auto simp: conn_recv_def pop_read_def)
qed

section \<open>Witnesses\<close>

lemma demo_addr:
  "inet_ntoa [10, 0, 0, 1] = Inr ''10.0.0.1''" "inet_ntoa [10, 0, 0, 2] = Inr ''10.0.0.2''"
  by (simp_all add: inet_ntoa_def show_nat.simps digit_c_lits)

lemma demo_addr_bytes:
  "addr_bytes (AStr ''10.0.0.1'') = Inr [10, 0, 0, 1]" "addr_bytes (AStr ''10.0.0.2'') = Inr [10, 0, 0, 2]"
  using inet_aton_ntoa [OF _ demo_addr(1)] inet_aton_ntoa [OF _ demo_addr(2)]
  by (simp_all add: addr_bytes_def)

definition demo_env :: os_env where
  "demo_env = \<lparr>os_platform = ''linux'', os_proc_arp = None, os_proc_route = None, os_sys_net = [],
     os_run = (\<lambda>_. None)\<rparr>"

definition demo_conn :: "string \<Rightarrow> TcpState option \<Rightarrow> Connection" where
  "demo_conn ip s = \<lparr>cn_local_ip = ip, cn_local_mac = None, cn_local_subnet = None, cn_state = s,
     cn_ft = None, cn_peer_mac = None, cn_arp_cache = arp_init 300, cn_datalink = 0, cn_next_hop = None,
     cn_established = False, cn_closed = False, cn_wire = []\<rparr>"

definition demo_rst :: TcpSegment where
  "demo_rst = tcp_segment 4000 80 7 0 FLAG_RST 0 [] [] 0"

lemma demo_frame: "\<exists>frame. build_frame demo_env 0 demo_rst ''10.0.0.2'' (demo_conn ''10.0.0.1'' None)
    = (Inr frame, demo_conn ''10.0.0.1'' None)"
proof -
  have "\<exists>t g. pack_tcp_segment demo_rst (AStr ''10.0.0.1'') (AStr ''10.0.0.2'') False = Inr (t, g) \<and> length t = 20"
    using off_flags [of 5 FLAG_RST]
    by (simp add: pack_tcp_segment_def TCP_HDR_MIN_def Let_def tcp_fields_def demo_rst_def tcp_segment_def
        tcp_pseudo_header_def pseudo_header_ipv4_def demo_addr_bytes checksum16_bounds pad_options_def)
  then obtain t g where t: "pack_tcp_segment demo_rst (AStr ''10.0.0.1'') (AStr ''10.0.0.2'') False = Inr (t, g)"
    "length t = 20" by blast
  have "\<exists>i. pack_ipv4 (AStr ''10.0.0.1'') (AStr ''10.0.0.2'') 6 t 0 64 0 0x4000 0 = Inr i"
    by (simp add: pack_ipv4_def demo_addr_bytes ipv4_fields_def IPV4_HDR_LEN_def checksum16_bounds t(2))
  then show ?thesis
    using t(1) by (auto simp: build_frame_def demo_conn_def wrap_link_layer_def dlt_consts)
qed

definition demo_listener :: TcpState where
  "demo_listener = tcp_init ''10.0.0.2'' 80 1460\<lparr>ts_state := LISTEN\<rparr>"

lemma demo_rst_kills: "on_segment i demo_rst ip demo_listener = (True, demo_listener\<lparr>ts_aborted := True,
    ts_abort_reason := Some LISTEN, ts_state := CLOSED\<rparr>)"
  by (simp add: on_segment_def demo_rst_def demo_listener_def tcp_segment_def has_flag_def handle_rst_def)

lemma demo_wanted: "wanted demo_rst ip dip demo_listener None"
  by (simp add: wanted_def demo_rst_def demo_listener_def tcp_segment_def tcp_init_def)

lemma demo_received:
  "\<exists>frame. cn_state (process_frame 1 0 frame (demo_conn ''10.0.0.2'' (Some demo_listener)))
     = Some (demo_listener\<lparr>ts_aborted := True, ts_abort_reason := Some LISTEN, ts_state := CLOSED\<rparr>)"
proof -
  obtain frame where f: "build_frame demo_env 0 demo_rst ''10.0.0.2'' (demo_conn ''10.0.0.1'' None)
    = (Inr frame, demo_conn ''10.0.0.1'' None)"
    using demo_frame by blast
  have "\<exists>src. process_frame 1 0 frame (demo_conn ''10.0.0.2'' (Some demo_listener)) =
      process_segment 1 0 demo_rst ''10.0.0.1'' ''10.0.0.2'' src (demo_conn ''10.0.0.2'' (Some demo_listener))"
    using wire_roundtrip [OF f, of "[10, 0, 0, 1]" "[10, 0, 0, 2]"
        "demo_conn ''10.0.0.2'' (Some demo_listener)" 1 0] demo_addr
    by (simp add: demo_conn_def demo_rst_def tcp_segment_def)
  then obtain src where "process_frame 1 0 frame (demo_conn ''10.0.0.2'' (Some demo_listener)) =
      process_segment 1 0 demo_rst ''10.0.0.1'' ''10.0.0.2'' src (demo_conn ''10.0.0.2'' (Some demo_listener))" ..
  then have "cn_state (process_frame 1 0 frame (demo_conn ''10.0.0.2'' (Some demo_listener)))
     = Some (demo_listener\<lparr>ts_aborted := True, ts_abort_reason := Some LISTEN, ts_state := CLOSED\<rparr>)"
    by (simp add: process_segment_state demo_conn_def demo_wanted demo_rst_kills)
  then show ?thesis by (rule exI [of _ frame])
qed

theorem frame_reaches_state_machine_witness:
  "\<exists>frame. cn_state (process_frame 1 0 frame (demo_conn ''10.0.0.2'' (Some demo_listener)))
     = Some (snd (on_segment 0 demo_rst ''10.0.0.1'' demo_listener))"
proof -
  obtain frame where f: "build_frame demo_env 0 demo_rst ''10.0.0.2'' (demo_conn ''10.0.0.1'' None)
    = (Inr frame, demo_conn ''10.0.0.1'' None)"
    using demo_frame by blast
  have "cn_state (process_frame 1 0 frame (demo_conn ''10.0.0.2'' (Some demo_listener))) =
    Some (if wanted demo_rst (cn_local_ip (demo_conn ''10.0.0.1'' None)) ''10.0.0.2'' demo_listener
            (cn_ft (demo_conn ''10.0.0.2'' (Some demo_listener)))
          then snd (on_segment 0 demo_rst (cn_local_ip (demo_conn ''10.0.0.1'' None)) demo_listener)
          else demo_listener)"
    by (rule frame_reaches_state_machine [OF f, where lb = "[10, 0, 0, 1]" and db = "[10, 0, 0, 2]"])
      (simp_all add: demo_conn_def demo_addr demo_rst_def tcp_segment_def)
  then show ?thesis by (intro exI [of _ frame]) (simp add: demo_conn_def demo_wanted)
qed

theorem foreign_frames_ignored_witness:
  "\<exists>frame s p src seg sip. split_frame 0 frame = Inr (ETH_TYPE_IPV4, p, src)
     \<and> wanted seg sip ''10.0.0.2'' s None"
proof -
  obtain frame where f: "cn_state (process_frame 1 0 frame (demo_conn ''10.0.0.2'' (Some demo_listener)))
     = Some (demo_listener\<lparr>ts_aborted := True, ts_abort_reason := Some LISTEN, ts_state := CLOSED\<rparr>)"
    using demo_received by blast
  have "demo_listener\<lparr>ts_aborted := True, ts_abort_reason := Some LISTEN, ts_state := CLOSED\<rparr> \<noteq> demo_listener"
  proof
    assume "demo_listener\<lparr>ts_aborted := True, ts_abort_reason := Some LISTEN, ts_state := CLOSED\<rparr> = demo_listener"
    then have "ts_state (demo_listener\<lparr>ts_aborted := True, ts_abort_reason := Some LISTEN, ts_state := CLOSED\<rparr>)
        = ts_state demo_listener" by simp
    then show False by (simp add: demo_listener_def)
  qed
  then have "cn_state (process_frame 1 0 frame (demo_conn ''10.0.0.2'' (Some demo_listener)))
      \<noteq> cn_state (demo_conn ''10.0.0.2'' (Some demo_listener))"
    unfolding f by (simp add: demo_conn_def)
  from foreign_frames_ignored [OF this] show ?thesis
    by (auto simp: demo_conn_def)
qed

theorem recv_never_reports_reset_witness:
  "\<exists>s c. tcp_reach s \<and> ts_aborted s \<and> cn_state c = Some s \<and> fst (conn_recv 5 c) = Got (take 5 (ts_read_buf s))"
proof -
  obtain s0 where o: "open_listen (tcp_init ''10.0.0.2'' 80 1460) = Inr s0"
    by (simp add: open_listen_def tcp_init_def)
  have r0: "tcp_reach s0" by (rule tcp_reach.listener [OF _ o]) simp
  have s0: "s0 = demo_listener" using o by (auto simp: open_listen_def tcp_init_def demo_listener_def)
  let ?s = "tcp_step (Segment 0 demo_rst ''10.0.0.9'') s0"
  have r: "tcp_reach ?s" using r0 by (rule tcp_reach.call)
  have a: "ts_aborted ?s" by (simp add: s0 demo_rst_kills)
  have c: "cn_state (demo_conn ''10.0.0.2'' (Some ?s)) = Some ?s" by (simp add: demo_conn_def)
  from recv_never_reports_reset [OF r c a, of 5] r a c show ?thesis by blast
qed

end
