(* ===== verification/History.thy ===== *)
theory History
  imports Prelude
begin

text \<open>
  The interface of a component that is driven by a sequence of operations: a \<open>step\<close> function on
  its state and an invariant \<open>inv\<close> that every operation keeps. A client may then rely on the
  invariant after any history.
\<close>

locale history =
  fixes step :: "'s \<Rightarrow> 'o \<Rightarrow> 's"
    and inv :: "'s \<Rightarrow> bool"
  assumes step_inv: "inv s \<Longrightarrow> inv (step s a)"
begin

definition after :: "'s \<Rightarrow> 'o list \<Rightarrow> 's" where
  "after s as = foldl step s as"

lemma after_simps [simp]:
  "after s [] = s"
  "after s (a # as) = after (step s a) as"
  "after s (as @ bs) = after (after s as) bs"
  by (simp_all add: after_def)

lemma after_inv: "inv s \<Longrightarrow> inv (after s as)"
  by (induction as arbitrary: s) (auto intro: step_inv)

lemma after_prefix_inv: "inv s \<Longrightarrow> as = bs @ cs \<Longrightarrow> inv (after s bs)"
  by (rule after_inv)

end

end
