(* ===== verification/TcpTimers.thy ===== *)
theory TcpTimers
  imports History Complex_Main
begin

text \<open>
  The timers and the congestion controller of the user-space TCP: \<open>RetransmitTimer\<close> and
  \<open>TimeWaitTimer\<close> of \<open>net/pcap/tcp/timers.py\<close> and \<open>Congestion\<close> of
  \<open>net/pcap/tcp/congestion.py\<close>. Seconds are rationals; the clock is an argument, as in the code.
  Both estimators are histories of operations whose bounds are invariants.
\<close>

section \<open>Retransmission timer\<close>

definition INITIAL_RTO :: rat where "INITIAL_RTO = 1"
definition MIN_RTO :: rat where "MIN_RTO = 5 / 100"
definition MAX_RTO :: rat where "MAX_RTO = 30"
definition RTO_BACKOFF :: rat where "RTO_BACKOFF = 2"
definition MAX_RETRANSMITS :: nat where "MAX_RETRANSMITS = 6"
definition DEFAULT_2MSL :: rat where "DEFAULT_2MSL = 60"

lemmas rto_consts = INITIAL_RTO_def MIN_RTO_def MAX_RTO_def RTO_BACKOFF_def MAX_RETRANSMITS_def

text \<open>\<open>srtt\<close> and \<open>rttvar\<close> are set together by the first sample, so they are one optional pair.\<close>

record RetransmitTimer =
  rt_est :: "(rat \<times> rat) option"
  rt_rto :: rat
  rt_retransmits :: nat

definition rt_init :: "rat \<Rightarrow> RetransmitTimer" where
  "rt_init initial = \<lparr>rt_est = None, rt_rto = initial, rt_retransmits = 0\<rparr>"

definition update_rtt :: "rat \<Rightarrow> RetransmitTimer \<Rightarrow> RetransmitTimer" where
  "update_rtt sample t =
     (if sample < 0 then t
      else (let (srtt, rttvar) =
              (case rt_est t of
                 None \<Rightarrow> (sample, sample / 2)
               | Some (s, v) \<Rightarrow>
                   ((1 - 1 / 8) * s + 1 / 8 * sample, (1 - 1 / 4) * v + 1 / 4 * \<bar>s - sample\<bar>));
                rto = srtt + max (1 / 1000) (4 * rttvar)
            in t\<lparr>rt_est := Some (srtt, rttvar),
                 rt_rto := max MIN_RTO (min MAX_RTO rto),
                 rt_retransmits := 0\<rparr>))"

definition rt_on_retransmit :: "RetransmitTimer \<Rightarrow> nat \<times> RetransmitTimer" where
  "rt_on_retransmit t =
     (let n = rt_retransmits t + 1
      in (n, t\<lparr>rt_retransmits := n, rt_rto := min MAX_RTO (rt_rto t * RTO_BACKOFF)\<rparr>))"

definition exhausted :: "RetransmitTimer \<Rightarrow> bool" where
  "exhausted t \<longleftrightarrow> MAX_RETRANSMITS \<le> rt_retransmits t"

definition rt_reset :: "RetransmitTimer \<Rightarrow> RetransmitTimer" where
  "rt_reset t = t\<lparr>rt_retransmits := 0\<rparr>"

datatype rt_op = RSample rat | RTimeout | RReset

fun rt_step :: "RetransmitTimer \<Rightarrow> rt_op \<Rightarrow> RetransmitTimer" where
  "rt_step t (RSample s) = update_rtt s t"
| "rt_step t RTimeout = snd (rt_on_retransmit t)"
| "rt_step t RReset = rt_reset t"

text \<open>The samples that count are the non-negative ones. The estimate stays between the bounds
  \<open>lo\<close> and \<open>hi\<close> of the samples, the deviation within their distance or the first sample.\<close>

definition rt_inv :: "RetransmitTimer \<Rightarrow> bool" where
  "rt_inv t \<longleftrightarrow>
     MIN_RTO \<le> rt_rto t \<and> rt_rto t \<le> MAX_RTO \<and>
     (case rt_est t of None \<Rightarrow> True | Some (s, v) \<Rightarrow> 0 \<le> s \<and> 0 \<le> v)"

lemma rto_clamp: "MIN_RTO \<le> max MIN_RTO (min MAX_RTO x)" "max MIN_RTO (min MAX_RTO x) \<le> MAX_RTO"
  by (simp_all add: MIN_RTO_def MAX_RTO_def)

lemma rt_step_inv: "rt_inv t \<Longrightarrow> rt_inv (rt_step t a)"
proof (cases a)
  case (RSample s)
  assume "rt_inv t"
  with RSample show ?thesis
    using rto_clamp by (auto simp: rt_inv_def update_rtt_def Let_def split: option.splits prod.splits)
qed (auto simp: rt_inv_def rt_on_retransmit_def rt_reset_def Let_def rto_consts split: option.splits)

interpretation rtx: history rt_step rt_inv
  by unfold_locales (rule rt_step_inv)

lemma rt_init_inv: "MIN_RTO \<le> r \<Longrightarrow> r \<le> MAX_RTO \<Longrightarrow> rt_inv (rt_init r)"
  by (simp add: rt_inv_def rt_init_def)

text \<open>Timeouts in a row: the interval doubles up to the maximum.\<close>

lemma min_double: "(r :: rat) \<le> m \<Longrightarrow> 0 \<le> m \<Longrightarrow> min m (min m (r * 2 ^ n) * 2) = min m (r * 2 ^ Suc n)"
  by (auto simp: min_def)

lemma timeouts_from:
  assumes "rt_rto t \<le> MAX_RTO"
  shows "foldl rt_step t (replicate n RTimeout) =
    t\<lparr>rt_retransmits := rt_retransmits t + n, rt_rto := min MAX_RTO (rt_rto t * 2 ^ n)\<rparr>"
proof (induction n)
  case 0
  with assms show ?case by (simp add: min_def)
next
  case (Suc n)
  have "foldl rt_step t (replicate (Suc n) RTimeout) =
      rt_step (foldl rt_step t (replicate n RTimeout)) RTimeout"
    unfolding replicate_Suc replicate_append_same [symmetric] by simp
  then show ?case
    using Suc min_double [OF assms, of n]
    by (simp add: rt_on_retransmit_def Let_def RTO_BACKOFF_def MAX_RTO_def)
qed

text \<open>From any initial timeout between the minimum and the maximum, the retransmission timeout
  stays between \<open>MIN_RTO\<close> and \<open>MAX_RTO\<close> and the smoothed estimates stay non-negative,
  whatever samples, timeouts and resets follow in any order.\<close>

theorem rto_bounded:
  assumes "MIN_RTO \<le> r" "r \<le> MAX_RTO"
  shows "rt_inv (foldl rt_step (rt_init r) ops)"
  using rtx.after_inv [OF rt_init_inv [OF assms], of ops] by (simp add: rtx.after_def)

theorem rto_bounded_witness:
  "rt_inv (foldl rt_step (rt_init 1) [RSample 3, RTimeout, RTimeout, RSample (- 1), RReset])"
  by (rule rto_bounded) (simp_all add: rto_consts)

text \<open>From a fresh estimate the timer fires with intervals that double up to the maximum, and it
  is exhausted exactly from the sixth timeout in a row on; a new sample makes it usable again.\<close>

theorem backoff_exhausts:
  assumes "rt_inv t"
  shows "(let u = foldl rt_step (rt_reset t) (replicate n RTimeout) in
          rt_rto u = min MAX_RTO (rt_rto t * 2 ^ n) \<and> (exhausted u \<longleftrightarrow> 6 \<le> n) \<and>
          \<not> exhausted (rt_step u (RSample \<bar>s\<bar>)))"
proof -
  have "rt_rto (rt_reset t) \<le> MAX_RTO" using assms by (simp add: rt_reset_def rt_inv_def)
  note u = timeouts_from [OF this, of n]
  then show ?thesis
    by (simp add: u rt_reset_def exhausted_def MAX_RETRANSMITS_def update_rtt_def Let_def split: prod.split)
qed

theorem backoff_exhausts_witness:
  "(let u = foldl rt_step (rt_reset (rt_init 1)) (replicate 6 RTimeout) in
     rt_rto u = 30 \<and> exhausted u \<and> \<not> exhausted (rt_step u (RSample 2)))"
  using backoff_exhausts [of "rt_init 1" 6 2, OF rt_init_inv]
  by (simp add: rto_consts Let_def rt_init_def)

section \<open>TIME-WAIT timer\<close>

record TimeWaitTimer =
  tw_expire_at :: "rat option"
  tw_msl :: rat

definition tw_init :: "rat \<Rightarrow> TimeWaitTimer" where
  "tw_init m = \<lparr>tw_expire_at = None, tw_msl = m\<rparr>"

definition tw_arm :: "rat \<Rightarrow> TimeWaitTimer \<Rightarrow> TimeWaitTimer" where
  "tw_arm now t = t\<lparr>tw_expire_at := Some (now + tw_msl t)\<rparr>"

definition tw_expired :: "rat \<Rightarrow> TimeWaitTimer \<Rightarrow> bool" where
  "tw_expired now t = (case tw_expire_at t of None \<Rightarrow> False | Some e \<Rightarrow> e \<le> now)"

definition tw_disarm :: "TimeWaitTimer \<Rightarrow> TimeWaitTimer" where
  "tw_disarm t = t\<lparr>tw_expire_at := None\<rparr>"

datatype tw_op = TArm rat | TDisarm

fun tw_step :: "TimeWaitTimer \<Rightarrow> tw_op \<Rightarrow> TimeWaitTimer" where
  "tw_step t (TArm now) = tw_arm now t"
| "tw_step t TDisarm = tw_disarm t"

lemma tw_msl_step [simp]: "tw_msl (tw_step t a) = tw_msl t"
  by (cases a) (simp_all add: tw_arm_def tw_disarm_def)

interpretation twt: history tw_step "\<lambda>t. tw_msl t = m" for m
  by unfold_locales simp

text \<open>The TIME-WAIT timer is expired at a moment exactly when the last operation armed it and
  twice the segment lifetime has passed since.\<close>

theorem time_wait_expiry:
  "tw_expired t (foldl tw_step (tw_init m) ops) \<longleftrightarrow>
     (ops \<noteq> [] \<and> (case last ops of TArm now \<Rightarrow> now + m \<le> t | TDisarm \<Rightarrow> False))"
proof (cases ops rule: rev_cases)
  case Nil
  then show ?thesis by (simp add: tw_expired_def tw_init_def)
next
  case (snoc ps a)
  have "tw_msl (foldl tw_step (tw_init m) ps) = m"
    using twt.after_inv [of "tw_init m" m ps] by (simp add: twt.after_def tw_init_def)
  with snoc show ?thesis
    by (cases a) (simp_all add: tw_expired_def tw_arm_def tw_disarm_def)
qed

section \<open>Congestion window\<close>

record Congestion =
  cg_mss :: int
  cg_cwnd :: int
  cg_cap :: int

definition cg_init :: "int \<Rightarrow> int \<Rightarrow> int \<Rightarrow> Congestion" where
  "cg_init mss initial cap = \<lparr>cg_mss = mss, cg_cwnd = initial, cg_cap = cap\<rparr>"

definition cwnd_bytes :: "Congestion \<Rightarrow> int" where
  "cwnd_bytes c = cg_cwnd c * cg_mss c"

definition cg_on_ack :: "Congestion \<Rightarrow> Congestion" where
  "cg_on_ack c = (if cg_cwnd c < cg_cap c then c\<lparr>cg_cwnd := cg_cwnd c + 1\<rparr> else c)"

definition cg_on_retransmit :: "Congestion \<Rightarrow> Congestion" where
  "cg_on_retransmit c = c\<lparr>cg_cwnd := max 1 (cg_cwnd c div 2)\<rparr>"

datatype cg_op = CAck | CRetransmit

fun cg_step :: "Congestion \<Rightarrow> cg_op \<Rightarrow> Congestion" where
  "cg_step c CAck = cg_on_ack c"
| "cg_step c CRetransmit = cg_on_retransmit c"

definition cg_inv :: "int \<Rightarrow> int \<Rightarrow> Congestion \<Rightarrow> bool" where
  "cg_inv mss cap c \<longleftrightarrow> cg_mss c = mss \<and> cg_cap c = cap \<and> 1 \<le> cg_cwnd c \<and> cg_cwnd c \<le> cap"

interpretation cwnd: history cg_step "cg_inv mss cap" for mss cap
proof
  fix c a
  assume "cg_inv mss cap c"
  then show "cg_inv mss cap (cg_step c a)"
    by (cases a) (auto simp: cg_inv_def cg_on_ack_def cg_on_retransmit_def)
qed

text \<open>With a positive segment size and an initial window between one segment and the cap, the
  congestion window always allows at least one segment and never more than the cap, and enough
  acknowledgements in a row open it to the cap.\<close>

theorem cwnd_bounded:
  assumes "0 < mss" "1 \<le> i" "i \<le> cap"
  shows "mss \<le> cwnd_bytes (foldl cg_step (cg_init mss i cap) ops) \<and>
         cwnd_bytes (foldl cg_step (cg_init mss i cap) ops) \<le> cap * mss \<and>
         cwnd_bytes (foldl cg_step (cg_init mss i cap) (ops @ replicate (nat cap) CAck)) = cap * mss"
proof -
  let ?c = "foldl cg_step (cg_init mss i cap) ops"
  have inv: "cg_inv mss cap ?c"
    using assms cwnd.after_inv [of mss cap "cg_init mss i cap" ops]
    by (simp add: cwnd.after_def cg_inv_def cg_init_def)
  have acks: "cg_inv mss cap c \<Longrightarrow> foldl cg_step c (replicate n CAck) = c\<lparr>cg_cwnd := min cap (cg_cwnd c + int n)\<rparr>"
    for n c
    by (induction n arbitrary: c) (auto simp: cg_inv_def cg_on_ack_def min_def)
  have "foldl cg_step (cg_init mss i cap) (ops @ replicate (nat cap) CAck) = ?c\<lparr>cg_cwnd := cap\<rparr>"
    using inv assms acks [OF inv, of "nat cap"] by (simp add: cg_inv_def min_def)
  with inv assms show ?thesis
    by (auto simp: cwnd_bytes_def cg_inv_def mult_right_mono)
qed

theorem cwnd_bounded_witness:
  "1460 \<le> cwnd_bytes (foldl cg_step (cg_init 1460 4 64) [CRetransmit, CRetransmit, CRetransmit])"
  using cwnd_bounded [of 1460 4 64 "[CRetransmit, CRetransmit, CRetransmit]"] by simp

end
