(* ===== verification/NumUtils.thy ===== *)
theory NumUtils
  imports Prelude "HOL-Library.Option_ord" "HOL-Library.Product_Lexorder"
begin

text \<open>
  The numeric, range, list and byte-string helpers of \<open>utility/utils.py\<close> that the address,
  NAT and STUN code is built on: port arithmetic, distances on a circular field, interval
  intersection, population count, byte-string logic, the linear dictionary searches and the
  hand-written binary search. A Python \<open>int\<close> is an \<open>int\<close>; a range \<open>[lo, hi]\<close> is a pair.
\<close>

type_synonym rng = "int \<times> int"

section \<open>Ports and ranges\<close>

definition MAX_PORT :: int where "MAX_PORT = 65535"

definition valid_port :: "int \<Rightarrow> bool" where
  "valid_port p \<longleftrightarrow> 1 \<le> p \<and> p \<le> MAX_PORT"

definition port_wrap :: "int \<Rightarrow> int" where
  "port_wrap p = (let r = p mod MAX_PORT in if r = 0 then 1 else r)"

definition in_range :: "int \<Rightarrow> rng \<Rightarrow> bool" where
  "in_range x r \<longleftrightarrow> fst r \<le> x \<and> x \<le> snd r"

definition len_range :: "rng \<Rightarrow> int" where
  "len_range r = snd r - fst r"

definition neg_flip :: "int \<Rightarrow> int \<Rightarrow> int \<Rightarrow> int" where
  "neg_flip res x y = (if x > y then - res else res)"

definition numeric_distance :: "int \<Rightarrow> int \<Rightarrow> int" where
  "numeric_distance x y = neg_flip (max x y - min x y) x y"

lemma numeric_distance_eq: "numeric_distance x y = y - x"
  by (simp add: numeric_distance_def neg_flip_def)

lemma port_wrap_valid: "valid_port (port_wrap p)"
  using pos_mod_bound [of MAX_PORT p] pos_mod_sign [of MAX_PORT p]
  by (auto simp: port_wrap_def valid_port_def Let_def MAX_PORT_def)

lemma port_wrap_id: "1 \<le> p \<Longrightarrow> p < MAX_PORT \<Longrightarrow> port_wrap p = p"
  by (simp add: port_wrap_def Let_def)

text \<open>\<open>sorted([a, b])\<close> on two pairs is stable, so \<open>b\<close> comes first only when it is smaller.\<close>

definition range_intersects :: "rng \<Rightarrow> rng \<Rightarrow> bool" where
  "range_intersects a b =
     (if a = b then True
      else (let (x, y) = (if b < a then (b, a) else (a, b)) in fst y \<le> snd x))"

definition intersect_range :: "rng \<Rightarrow> rng \<Rightarrow> rng" where
  "intersect_range a b = (let s = sort [fst a, snd a, fst b, snd b] in (s ! 1, s ! 2))"

definition field_wrap :: "int \<Rightarrow> rng \<Rightarrow> int result" where
  "field_wrap n f =
     (let w = snd f - fst f + 1 in if w = 0 then Inl ZeroDivisionError else Inr (fst f + n mod w))"

definition field_dist :: "int \<Rightarrow> int \<Rightarrow> int \<Rightarrow> int" where
  "field_dist x y f =
     (let hi = max x y; lo = min x y; d = hi - lo
      in if d = 0 then 0
         else (let w = lo + (f - hi); r = min d w in if x = lo then - r else r))"

lemma range_intersects_overlap:
  "fst a \<le> snd a \<Longrightarrow> fst b \<le> snd b \<Longrightarrow> range_intersects a b \<longleftrightarrow> fst a \<le> snd b \<and> fst b \<le> snd a"
  by (cases a; cases b) (auto simp: range_intersects_def)

lemma range_intersects_sym: "range_intersects a b = range_intersects b a"
  by (cases a; cases b) (auto simp: range_intersects_def)

lemma range_intersects_refl [simp]: "range_intersects a a"
  by (simp add: range_intersects_def)

lemma intersect_range_eq:
  "fst a \<le> snd a \<Longrightarrow> fst b \<le> snd b \<Longrightarrow> fst a \<le> snd b \<Longrightarrow> fst b \<le> snd a \<Longrightarrow>
   intersect_range a b = (max (fst a) (fst b), min (snd a) (snd b))"
  by (cases a; cases b) (auto simp: intersect_range_def Let_def max_def min_def)

lemma field_wrap_in_range:
  "fst f \<le> snd f \<Longrightarrow> field_wrap n f = Inr r \<Longrightarrow> in_range r f"
  using pos_mod_bound [of "snd f - fst f + 1" n] pos_mod_sign [of "snd f - fst f + 1" n]
  by (auto simp: field_wrap_def in_range_def Let_def split: if_splits)

text \<open>The circular distance: the shorter of the two ways round.\<close>

lemma field_dist_abs:
  assumes "0 \<le> x" "x < f" "0 \<le> y" "y < f"
  shows "\<bar>field_dist x y f\<bar> = min ((x - y) mod f) ((y - x) mod f)"
proof -
  have pos: "(b - a) mod f = b - a" "(a - b) mod f = f - (b - a)"
    if "0 \<le> a" "a < b" "b < f" for a b
  proof -
    show "(b - a) mod f = b - a" using that by simp
    have "(a - b) mod f = (a - b + f) mod f" by simp
    also have "\<dots> = f - (b - a)" using that by (subst mod_pos_pos_trivial) auto
    finally show "(a - b) mod f = f - (b - a)" .
  qed
  consider "x = y" | "x < y" | "y < x" by linarith
  then show ?thesis
  proof cases
    case 1
    then show ?thesis by (simp add: field_dist_def)
  next
    case 2
    with pos [of x y] assms show ?thesis by (auto simp: field_dist_def Let_def min_def max_def)
  next
    case 3
    with pos [of y x] assms show ?thesis by (auto simp: field_dist_def Let_def min_def max_def)
  qed
qed

lemma field_dist_neg: "field_dist y x f = - field_dist x y f"
  by (auto simp: field_dist_def Let_def min_def max_def)

lemma field_dist_cases:
  "field_dist x y f =
     (if x = y then 0
      else if x < y then - min (y - x) (f - (y - x)) else min (x - y) (f - (x - y)))"
  by (auto simp: field_dist_def Let_def min_def max_def)

lemma mod_shift: "0 \<le> x \<Longrightarrow> x < f \<Longrightarrow> (x + f) mod f = x" "0 \<le> x \<Longrightarrow> x < f \<Longrightarrow> (x - f) mod f = (x :: int)"
  by simp_all

lemma mod_double_neq:
  assumes "0 \<le> x" "x < f" "f < 2 * d" "d < (f :: int)"
  shows "(x + (2 * d - f)) mod f \<noteq> x" "(x - (2 * d - f)) mod f \<noteq> x"
proof -
  let ?e = "2 * d - f"
  have "(x + ?e) mod f = x \<Longrightarrow> f dvd ?e" "(x - ?e) mod f = x \<Longrightarrow> f dvd ?e"
    using mod_eq_dvd_iff [of "x + ?e" f x] mod_eq_dvd_iff [of x f "x - ?e"] assms by auto
  moreover have "\<not> f dvd ?e" using assms by (intro zdvd_not_zless) auto
  ultimately show "(x + ?e) mod f \<noteq> x" "(x - ?e) mod f \<noteq> x" by auto
qed

lemma field_dist_step:
  assumes "0 \<le> x" "x < f" "0 \<le> y" "y < f"
  shows "(y + field_dist x y f) mod f = x \<longleftrightarrow> 2 * \<bar>x - y\<bar> \<le> f"
    and "2 * \<bar>x - y\<bar> > f \<longrightarrow> (y - field_dist x y f) mod f = x"
proof -
  have up: "y + - (f - (y - x)) = x + (2 * (y - x) - f)" and dn: "y + (f - (x - y)) = x - (2 * (x - y) - f)"
    by simp_all
  consider "x = y" | "x < y" | "y < x" by linarith
  then show "(y + field_dist x y f) mod f = x \<longleftrightarrow> 2 * \<bar>x - y\<bar> \<le> f"
  proof cases
    case 2
    with mod_double_neq(1) [of x f "y - x"] up assms show ?thesis
      by (auto simp: field_dist_cases min_def)
  next
    case 3
    with mod_double_neq(2) [of x f "x - y"] dn assms show ?thesis
      by (auto simp: field_dist_cases min_def)
  qed (use assms in \<open>simp add: field_dist_cases\<close>)
  show "2 * \<bar>x - y\<bar> > f \<longrightarrow> (y - field_dist x y f) mod f = x"
    using mod_shift [of x f] assms by (auto simp: field_dist_cases min_def algebra_simps)
qed

section \<open>Bits\<close>

definition get_bits :: "int \<Rightarrow> nat \<Rightarrow> nat \<Rightarrow> int" where
  "get_bits n len p = and (push_bit len 1 - 1) (drop_bit p n)"

lemma get_bits_mod: "get_bits n len p = n div 2 ^ p mod 2 ^ len"
  by (simp add: get_bits_def push_bit_eq_mult drop_bit_eq_div and.commute [of "mask len"]
      flip: take_bit_eq_mask mask_eq_exp_minus_1 take_bit_eq_mod)

text \<open>Kernighan's loop, on the non-negative integers its callers pass; \<open>n & (n - 1)\<close> is
  smaller than \<open>n\<close>.\<close>

lemma and_pred_less: "0 < (n :: nat) \<Longrightarrow> and n (n - 1) < n"
proof -
  assume n: "0 < n"
  have "int (and n (n - 1)) \<le> int (n - 1)"
    by (simp only: of_nat_and_eq) (rule AND_upper2, simp)
  with n show ?thesis by simp
qed

function hamming_loop :: "nat \<Rightarrow> nat \<Rightarrow> nat" where
  "hamming_loop count n = (if n = 0 then count else hamming_loop (count + 1) (and n (n - 1)))"
  by pat_completeness auto
termination by (relation "measure snd") (use and_pred_less in auto)

declare hamming_loop.simps [simp del]

definition hamming_weight :: "nat \<Rightarrow> nat" where
  "hamming_weight n = hamming_loop 0 n"

fun popcount :: "nat \<Rightarrow> nat" where
  "popcount n = (if n = 0 then 0 else n mod 2 + popcount (n div 2))"

declare popcount.simps [simp del]

lemma popcount_0 [simp]: "popcount 0 = 0"
  by (simp add: popcount.simps)

lemma popcount_step: "popcount n = n mod 2 + popcount (n div 2)"
  by (cases "n = 0") (simp_all add: popcount.simps [of n])

lemma popcount_clear_lowest: "0 < n \<Longrightarrow> popcount n = Suc (popcount (and n (n - 1)))"
proof (induction n rule: popcount.induct)
  case (1 n)
  have half: "(and n (n - 1)) div 2 = and (n div 2) ((n - 1) div 2)"
    using drop_bit_and [of 1 n "n - 1"] by (simp add: drop_bit_eq_div)
  have low: "(and n (n - 1)) mod 2 = 0"
    using 1(2) by (cases "even n") (auto simp: even_and_iff simp flip: even_iff_mod_2_eq_zero)
  show ?case
  proof (cases "even n")
    case True
    with 1(2) have "(n - 1) div 2 = n div 2 - 1" "0 < n div 2" by (auto elim!: evenE)
    have "popcount n = popcount (n div 2)"
      using True by (subst popcount_step) simp
    also have "\<dots> = Suc (popcount (and (n div 2) (n div 2 - 1)))"
      using 1 \<open>0 < n div 2\<close> by simp
    also have "popcount (and (n div 2) (n div 2 - 1)) = popcount (and n (n - 1))"
      using low half \<open>(n - 1) div 2 = n div 2 - 1\<close> by (subst (2) popcount_step) simp
    finally show ?thesis .
  next
    case False
    then have "(n - 1) div 2 = n div 2" by (auto elim!: oddE)
    have "popcount n = Suc (popcount (n div 2))"
      using False by (subst popcount_step) (simp add: odd_iff_mod_2_eq_one)
    also have "popcount (n div 2) = popcount (and n (n - 1))"
      using low half \<open>(n - 1) div 2 = n div 2\<close> by (subst (2) popcount_step) simp
    finally show ?thesis .
  qed
qed

lemma hamming_loop_popcount: "hamming_loop c n = c + popcount n"
proof (induction c n rule: hamming_loop.induct)
  case (1 c n)
  then show ?case
    by (cases "n = 0") (simp_all add: hamming_loop.simps [of c n] hamming_loop.simps [of c 0] popcount_clear_lowest [of n])
qed

lemma hamming_weight_popcount: "hamming_weight n = popcount n"
  by (simp add: hamming_weight_def hamming_loop_popcount)

lemma popcount_double: "popcount (2 * n) = popcount n"
  by (simp add: popcount_step [of "2 * n"])

lemma popcount_shift: "popcount (n * 2 ^ k) = popcount n"
  by (induction k) (simp_all add: popcount_double mult.left_commute [of n 2])

lemma popcount_ones: "popcount (2 ^ k - 1) = k"
proof (induction k)
  case (Suc k)
  obtain m where m: "2 ^ k = Suc m" by (metis not0_implies_Suc power_not_zero zero_neq_numeral)
  then have "2 ^ Suc k - 1 = Suc (2 * m)" by simp
  then have "(2 ^ Suc k - 1) mod 2 = (1 :: nat)" "(2 ^ Suc k - 1) div 2 = (2 ^ k - 1 :: nat)"
    using m by simp_all
  with Suc show ?case by (subst popcount_step) simp
qed simp

section \<open>Lists, dictionaries and byte strings\<close>

text \<open>\<open>to_unique\<close> keeps the elements that do not occur before them.\<close>

definition to_unique :: "'a list \<Rightarrow> 'a list" where
  "to_unique x = map fst (filter (\<lambda>(i, n). i \<notin> set (take n x)) (zip x [0..<length x]))"

definition strip_none :: "'a option list \<Rightarrow> 'a list" where
  "strip_none x = List.map_filter id x"

definition list_join :: "'a list list \<Rightarrow> 'a list" where
  "list_join ls = concat ls"

definition dict_plus :: "('k \<rightharpoonup> int) \<Rightarrow> 'k \<Rightarrow> int" where
  "dict_plus d k = (case d k of Some v \<Rightarrow> v | None \<Rightarrow> 0)"

fun list_exclude_dict :: "'k \<Rightarrow> 'v \<Rightarrow> ('k \<rightharpoonup> 'v) list \<Rightarrow> ('k \<rightharpoonup> 'v) list" where
  "list_exclude_dict k x [] = []"
| "list_exclude_dict k x (e # es) =
     (case e k of
        None \<Rightarrow> e # list_exclude_dict k x es
      | Some v \<Rightarrow> if v \<noteq> x then e # list_exclude_dict k x es else list_exclude_dict k x es)"

fun list_get_dict :: "'k \<Rightarrow> 'v \<Rightarrow> ('k \<rightharpoonup> 'v) list \<Rightarrow> ('k \<rightharpoonup> 'v) option" where
  "list_get_dict k x [] = None"
| "list_get_dict k x (e # es) = (if e k = Some x then Some e else list_get_dict k x es)"

definition dict_child :: "('k \<rightharpoonup> 'v) \<Rightarrow> ('k \<rightharpoonup> 'v) \<Rightarrow> ('k \<rightharpoonup> 'v)" where
  "dict_child x y = y ++ x"

definition dict_merge :: "('k \<rightharpoonup> 'v) \<Rightarrow> ('k \<rightharpoonup> 'v) \<Rightarrow> ('k \<rightharpoonup> 'v)" where
  "dict_merge x y = x ++ y"

fun find_intersect :: "'a list \<Rightarrow> 'a list \<Rightarrow> 'a list" where
  "find_intersect [] bs = []"
| "find_intersect (a # xs) bs = filter ((=) a) bs @ find_intersect xs bs"

definition b_and :: "bytes \<Rightarrow> bytes \<Rightarrow> bytes" where
  "b_and a b = map2 and a b"

definition b_or :: "bytes \<Rightarrow> bytes \<Rightarrow> bytes" where
  "b_or a b = map2 or a b"

text \<open>\<open>xor_bufs\<close>: the loop runs to the longer length with both indices reduced modulo their
  buffer's length, so one empty buffer divides by zero.\<close>

definition xor_bufs :: "bytes \<Rightarrow> bytes \<Rightarrow> bytes result" where
  "xor_bufs a b =
     (let m = max (length a) (length b) in
      if 0 < m \<and> (a = [] \<or> b = []) then Inl ZeroDivisionError
      else Inr (take (min (length a) (length b))
                 (map (\<lambda>i. xor (a ! (i mod length a)) (b ! (i mod length b))) [0..<m])))"

lemma to_unique_snoc: "to_unique (xs @ [x]) = (if x \<in> set xs then to_unique xs else to_unique xs @ [x])"
proof -
  have "filter (\<lambda>(i, n). i \<notin> set (take n (xs @ [x]))) (zip xs [0..<length xs]) =
      filter (\<lambda>(i, n). i \<notin> set (take n xs)) (zip xs [0..<length xs])"
    by (rule filter_cong) (auto simp: set_zip)
  then show ?thesis by (simp add: to_unique_def)
qed

lemma set_to_unique: "set (to_unique xs) = set xs"
  by (induction xs rule: rev_induct) (simp_all add: to_unique_snoc insert_absorb, simp add: to_unique_def)

lemma distinct_to_unique: "distinct (to_unique xs)"
  by (induction xs rule: rev_induct) (simp_all add: to_unique_snoc set_to_unique, simp add: to_unique_def)

lemma list_exclude_dict_filter: "list_exclude_dict k x es = filter (\<lambda>e. e k \<noteq> Some x) es"
  by (induction es) (auto split: option.splits)

lemma list_get_dict_find: "list_get_dict k x es = find (\<lambda>e. e k = Some x) es"
  by (induction es) auto

lemma set_find_intersect: "set (find_intersect as bs) = set as \<inter> set bs"
  by (induction as) auto

lemma xor_bufs_map2:
  assumes "a \<noteq> []" "b \<noteq> []"
  shows "xor_bufs a b = Inr (map2 xor a b)"
proof -
  have "take (min (length a) (length b))
      (map (\<lambda>i. xor (a ! (i mod length a)) (b ! (i mod length b))) [0..<max (length a) (length b)]) = map2 xor a b"
    by (rule nth_equalityI) auto
  with assms show ?thesis by (simp add: xor_bufs_def Let_def)
qed

lemma xor_bufs_involutive:
  "length a = length b \<Longrightarrow> xor_bufs a b = Inr c \<Longrightarrow> xor_bufs c b = Inr a"
proof (cases "a = []")
  case True
  then show "length a = length b \<Longrightarrow> xor_bufs a b = Inr c \<Longrightarrow> xor_bufs c b = Inr a"
    by (simp add: xor_bufs_def)
next
  case False
  assume len: "length a = length b" and c: "xor_bufs a b = Inr c"
  with False have b: "b \<noteq> []" by auto
  then have cc: "c = map2 xor a b" using c False by (simp add: xor_bufs_map2)
  then have "c \<noteq> []" using len False b by (cases a; cases b) auto
  moreover have "map2 xor c b = a"
    unfolding cc using len by (intro nth_equalityI) (auto simp: xor.assoc)
  ultimately show "xor_bufs c b = Inr a" using b by (simp add: xor_bufs_map2)
qed

section \<open>The binary search\<close>

text \<open>\<open>sorted_search\<close>: \<open>search_loop k i\<close> is the loop with \<open>k\<close> rounds left at index
  \<open>i\<close>; the list is searched for the first element that is not below the target. The step is
  half of the index, not half of the interval.\<close>

fun search_loop :: "nat \<Rightarrow> int list \<Rightarrow> int \<Rightarrow> nat \<Rightarrow> nat result" where
  "search_loop 0 xs t i = Inl ValueError"
| "search_loop (Suc k) xs t i =
     (if i = 0 then Inr 0
      else if xs ! i \<ge> t \<and> xs ! (i - 1) < t then Inr i
      else (let s = (if i div 2 = 0 then 1 else i div 2);
                j = (if xs ! i \<ge> t then i - s else i + s)
            in if j \<ge> length xs - 1 then Inr (length xs - 1) else search_loop k xs t j))"

definition sorted_search :: "int list \<Rightarrow> int \<Rightarrow> nat option \<Rightarrow> nat option result" where
  "sorted_search xs t start =
     (if xs = [] then Inr None
      else (let i = (case start of None \<Rightarrow> length xs div 2 | Some s \<Rightarrow> s mod length xs)
            in bindr (search_loop (length xs) xs t i) (\<lambda>r. Inr (Some r))))"

text \<open>An answer inside the list is right.\<close>

lemma search_loop_inside:
  "search_loop k xs t i = Inr r \<Longrightarrow> sorted xs \<Longrightarrow> i < length xs \<Longrightarrow> 0 < r \<Longrightarrow> r < length xs - 1 \<Longrightarrow>
   t \<le> xs ! r \<and> (\<forall>j<r. xs ! j < t)"
proof (induction k xs t i rule: search_loop.induct)
  case (2 k xs t i)
  show ?case
  proof (cases "i \<noteq> 0 \<and> xs ! i \<ge> t \<and> xs ! (i - 1) < t")
    case True
    with 2 have r: "r = i" by simp
    have "xs ! j \<le> xs ! (i - 1)" if "j < i" for j
      using 2(3) that 2(4) by (intro sorted_nth_mono) auto
    then have "xs ! j < t" if "j < i" for j
      using that True by (meson order.strict_trans1)
    with True show ?thesis by (simp add: r)
  next
    case False
    let ?s = "if i div 2 = 0 then 1 else i div 2"
    let ?j = "if xs ! i \<ge> t then i - ?s else i + ?s"
    have i: "i \<noteq> 0" using 2(2) 2(5) by (cases "i = 0") simp_all
    have "search_loop (Suc k) xs t i =
        (if ?j \<ge> length xs - 1 then Inr (length xs - 1) else search_loop k xs t ?j)"
      unfolding search_loop.simps(2) Let_def using False i by (simp only: if_False) auto
    with 2(2) 2(6) have nj: "\<not> ?j \<ge> length xs - 1" and run: "search_loop k xs t ?j = Inr r"
      by (auto split: if_splits)
    from nj have "?j < length xs" by linarith
    then show ?thesis
      by (intro 2(1) [OF i _ refl refl nj run 2(3) _ 2(5) 2(6)]) (use False i in simp_all)
  qed
qed simp

section \<open>Properties\<close>

text \<open>On two proper ranges, \<open>range_intersects\<close> answers whether some number lies in both, and
  when it does \<open>intersect_range\<close> is the set of all of them.\<close>

theorem range_intersection:
  assumes "fst a \<le> snd a" "fst b \<le> snd b"
  shows "range_intersects a b \<longleftrightarrow> (\<exists>x. in_range x a \<and> in_range x b)"
    and "range_intersects a b \<Longrightarrow> in_range x (intersect_range a b) \<longleftrightarrow> in_range x a \<and> in_range x b"
proof -
  show "range_intersects a b \<longleftrightarrow> (\<exists>x. in_range x a \<and> in_range x b)"
  proof
    assume "range_intersects a b"
    then have "in_range (max (fst a) (fst b)) a \<and> in_range (max (fst a) (fst b)) b"
      using assms by (auto simp: range_intersects_overlap in_range_def)
    then show "\<exists>x. in_range x a \<and> in_range x b" ..
  next
    assume "\<exists>x. in_range x a \<and> in_range x b"
    then show "range_intersects a b" using assms by (auto simp: range_intersects_overlap in_range_def)
  qed
next
  assume "range_intersects a b"
  then show "in_range x (intersect_range a b) \<longleftrightarrow> in_range x a \<and> in_range x b"
    using assms by (auto simp: range_intersects_overlap intersect_range_eq in_range_def)
qed

theorem range_intersection_witness:
  "range_intersects (1, 10) (5, 20) \<and> (in_range 7 (intersect_range (1, 10) (5, 20)) \<longleftrightarrow> True)"
proof -
  have "in_range 7 (1, 10) \<and> in_range 7 (5, 20)" by (simp add: in_range_def)
  then show ?thesis
    using range_intersection(1) [of "(1, 10)" "(5, 20)"] range_intersection(2) [of "(1, 10)" "(5, 20)" 7] by auto
qed

text \<open>On the field \<open>0 .. f - 1\<close>, \<open>field_dist\<close> is the circular distance up to its sign:
  the length of the shorter way round, antisymmetric in its arguments, and stepping by it from
  \<open>y\<close> reaches \<open>x\<close> exactly when the direct way is the shorter one or both have the same
  length; when the way through the end of the field is shorter, the sign is the opposite of the
  direction.\<close>

theorem field_dist_circular:
  assumes "0 \<le> x" "x < f" "0 \<le> y" "y < f"
  shows "\<bar>field_dist x y f\<bar> = min ((x - y) mod f) ((y - x) mod f) \<and>
         field_dist y x f = - field_dist x y f \<and>
         ((y + field_dist x y f) mod f = x \<longleftrightarrow> 2 * \<bar>x - y\<bar> \<le> f) \<and>
         (2 * \<bar>x - y\<bar> > f \<longrightarrow> (y - field_dist x y f) mod f = x)"
  using assms by (intro conjI field_dist_abs field_dist_neg field_dist_step)

theorem field_dist_circular_witness:
  "field_dist 1 65535 65536 = - 2 \<and> (65535 - field_dist 1 65535 65536) mod 65536 = 1"
  using field_dist_circular [of 1 65536 65535] by (simp add: field_dist_def Let_def)

text \<open>The binary search of \<open>sorted_search\<close> steps by half of the current index and stops
  as soon as the index reaches the last element, so on a sorted list it can answer the last index for an
  element further left, and it can cycle until it reports that the list may not be sorted.\<close>

theorem sorted_search_wrong:
  "sorted [1, 2, 3, 4, 5, 6, 7, 8, 9, 10, 11 :: int]"
  "sorted_search [1, 2, 3, 4, 5, 6, 7, 8, 9, 10, 11] 9 None = Inr (Some 10)"
  "[1, 2, 3, 4, 5, 6, 7, 8, 9, 10, 11] ! 8 = (9 :: int)"
  "sorted_search [1, 2, 3, 4, 5, 6, 7, 8] 6 None = Inl ValueError"
  by code_simp+

text \<open>An index strictly between zero and the last that \<open>sorted_search\<close> returns on a
  sorted list is the position of the first element that is not below the target.\<close>

theorem sorted_search_inside:
  "sorted xs \<Longrightarrow> sorted_search xs t s = Inr (Some r) \<Longrightarrow> 0 < r \<Longrightarrow> r < length xs - 1 \<Longrightarrow>
   t \<le> xs ! r \<and> (\<forall>j<r. xs ! j < t)"
  unfolding sorted_search_def
  by (rule search_loop_inside [of "length xs" xs t "case s of None \<Rightarrow> length xs div 2 | Some s \<Rightarrow> s mod length xs"])
     (auto simp: bindr_eq_Inr Let_def split: if_splits option.splits)

theorem sorted_search_inside_witness:
  "4 \<le> [1, 2, 3, 4, 5 :: int] ! 3 \<and> (\<forall>j<3. [1, 2, 3, 4, 5 :: int] ! j < 4)"
  by (rule sorted_search_inside [where s = None]) code_simp+

end
