(* ===== verification/IpAddr.thy ===== *)
theory IpAddr
  imports Ipv6 NumUtils
begin

text \<open>
  \<open>net/net_utils.py\<close>: address families, the address text the code normalises everything to, and
  netmask arithmetic. The standard library's \<open>ipaddress.ip_address\<close> is modelled on text without
  a scope identifier (\<open>ip_norm\<close> strips it first), on integers, on packed bytes and on its own
  address objects; an address object is a family with its integer value.
\<close>

section \<open>Families\<close>

datatype af = IP4 | IP6

instantiation af :: enum
begin

definition enum_af :: "af list" where
  "enum_af = [IP4, IP6]"

definition enum_all_af :: "(af \<Rightarrow> bool) \<Rightarrow> bool" where
  "enum_all_af P = (P IP4 \<and> P IP6)"

definition enum_ex_af :: "(af \<Rightarrow> bool) \<Rightarrow> bool" where
  "enum_ex_af P = (P IP4 \<or> P IP6)"

instance
proof
  have u: "(UNIV :: af set) = {IP4, IP6}" by (auto intro: af.exhaust)
  show "(UNIV :: af set) = set enum_class.enum" by (simp add: u enum_af_def)
  show "distinct (enum_class.enum :: af list)" by (simp add: enum_af_def)
  show "enum_class.enum_all P \<longleftrightarrow> Ball UNIV P" for P :: "af \<Rightarrow> bool" by (simp add: u enum_all_af_def)
  show "enum_class.enum_ex P \<longleftrightarrow> Bex UNIV P" for P :: "af \<Rightarrow> bool" by (simp add: u enum_ex_af_def)
qed

end

definition af_to_v :: "af \<Rightarrow> int" where
  "af_to_v a = (if a = IP4 then 4 else 6)"

definition v_to_af :: "int \<Rightarrow> af" where
  "v_to_af v = (if v = 4 then IP4 else IP6)"

definition i_to_af :: "int \<Rightarrow> af" where
  "i_to_af x = (if x = 2 then IP4 else IP6)"

definition af_bitlen :: "af \<Rightarrow> nat" where
  "af_bitlen a = (if a = IP4 then 32 else 128)"

definition af_bytes :: "af \<Rightarrow> nat" where
  "af_bytes a = (if a = IP4 then 4 else 16)"

lemma v_to_af_inverse [simp]: "v_to_af (af_to_v a) = a"
  by (cases a) (simp_all add: v_to_af_def af_to_v_def)

lemma af_bytes_bitlen: "(256 :: int) ^ af_bytes a = 2 ^ af_bitlen a"
  by (cases a) (simp_all add: af_bytes_def af_bitlen_def)

section \<open>Address objects\<close>

type_synonym ipa = "af \<times> int"

datatype ip_arg = IpStr string | IpInt int | IpBytes bytes | IpObj ipa

definition ipa_ok :: "ipa \<Rightarrow> bool" where
  "ipa_ok a \<longleftrightarrow> 0 \<le> snd a \<and> snd a < 2 ^ af_bitlen (fst a)"

text \<open>\<open>IPv4Address(n)\<close> and \<open>IPv6Address(n)\<close> on an integer.\<close>

definition ipa_of :: "af \<Rightarrow> int \<Rightarrow> ipa result" where
  "ipa_of a n = (if 0 \<le> n \<and> n < 2 ^ af_bitlen a then Inr (a, n) else Inl ValueError)"

definition ipa_of_str :: "string \<Rightarrow> ipa result" where
  "ipa_of_str s =
     (case v4_strict s of
        Some b \<Rightarrow> Inr (IP4, be_val b)
      | None \<Rightarrow> (case inet_pton6 s of Inr b \<Rightarrow> Inr (IP6, be_val b) | Inl _ \<Rightarrow> Inl ValueError))"

text \<open>\<open>ipaddress.ip_address\<close>: an integer below \<open>2 ^ 32\<close> is an IPv4 address.\<close>

fun ip_address :: "ip_arg \<Rightarrow> ipa result" where
  "ip_address (IpStr s) = ipa_of_str s"
| "ip_address (IpInt n) =
     (if 0 \<le> n \<and> n < 2 ^ 32 then Inr (IP4, n)
      else if 0 \<le> n \<and> n < 2 ^ 128 then Inr (IP6, n) else Inl ValueError)"
| "ip_address (IpBytes b) =
     (if length b = 4 then Inr (IP4, be_val b)
      else if length b = 16 then Inr (IP6, be_val b) else Inl ValueError)"
| "ip_address (IpObj a) = Inr a"

section \<open>Address text\<close>

definition hex4 :: "nat \<Rightarrow> string" where
  "hex4 n = map (\<lambda>k. digit_c (n div 16 ^ k mod 16)) [3, 2, 1, 0]"

fun v6_words :: "bytes \<Rightarrow> nat list" where
  "v6_words (a # b # bs) = (unat a * 256 + unat b) # v6_words bs"
| "v6_words _ = []"

text \<open>\<open>str(IPv4Address)\<close> and \<open>IPv6Address.exploded\<close>.\<close>

definition ipa_text :: "ipa \<Rightarrow> string" where
  "ipa_text a =
     (case a of
        (IP4, n) \<Rightarrow> py_join (CHR ''.'') (map (\<lambda>b. show_nat (unat b)) (be_bytes 4 n))
      | (IP6, n) \<Rightarrow> py_join (CHR '':'') (map hex4 (v6_words (be_bytes 16 n))))"

definition ip_strip_if :: "string \<Rightarrow> string" where
  "ip_strip_if ip = (if CHR ''%'' \<in> set ip then hd (py_split (CHR ''%'') ip) else ip)"

definition ip_strip_cidr :: "string \<Rightarrow> string" where
  "ip_strip_cidr ip = (if CHR ''/'' \<in> set ip then hd (py_split (CHR ''/'') ip) else ip)"

definition ipv6_norm :: "string \<Rightarrow> string result" where
  "ipv6_norm s = bindr (ipa_of_str s) (\<lambda>a. Inr (ipa_text a))"

definition ip_norm :: "string \<Rightarrow> string result" where
  "ip_norm ip = ipv6_norm (ip_strip_cidr (ip_strip_if ip))"

definition client_tup_norm :: "(string \<times> int) option \<Rightarrow> (string \<times> int) option result" where
  "client_tup_norm t =
     (case t of
        None \<Rightarrow> Inr None
      | Some (ip, port) \<Rightarrow> bindr (ip_norm ip) (\<lambda>i. Inr (Some (i, port))))"

definition af_from_ip_s :: "string \<Rightarrow> af result" where
  "af_from_ip_s s = bindr (ipa_of_str s) (\<lambda>a. Inr (v_to_af (af_to_v (fst a))))"

subsection \<open>Reading the text back\<close>

lemma v4_strict_part_show: "n < 256 \<Longrightarrow> v4_strict_part (show_nat n) = Some (of_nat n)"
proof -
  assume n: "n < 256"
  have one: "1 < length (show_nat n) \<Longrightarrow> hd (show_nat n) \<noteq> CHR ''0''"
    using hd_show_nat [of n] by (cases "n = 0") (simp_all add: show_nat.simps digit_c_lits)
  have "length (show_nat n) \<le> 3"
    using n by (simp add: show_nat.simps [of n] show_nat.simps [of "n div 10"] show_nat.simps [of "n div 10 div 10"])
  with n one show ?thesis by (simp add: v4_strict_part_def)
qed

lemma v4_strict_text:
  assumes "length bs = 4"
  shows "v4_strict (py_join (CHR ''.'') (map (\<lambda>b. show_nat (unat b)) bs)) = Some bs"
proof -
  have nd: "CHR ''.'' \<notin> set (show_nat n)" for n by (rule show_nat_notin) code_simp
  have "unat x < 256" for x :: byte using unsigned_less [of x, where 'a = nat] by simp
  moreover obtain a b c d where bs: "bs = [a, b, c, d]"
    using assms by (auto simp: numeral_eq_Suc length_Suc_conv)
  have sp: "py_split (CHR ''.'') (py_join (CHR ''.'') (map (\<lambda>b. show_nat (unat b)) bs)) =
      map (\<lambda>b. show_nat (unat b)) bs"
    by (rule py_split_join) (auto simp: bs nd)
  ultimately show ?thesis
    unfolding v4_strict_def sp Let_def by (simp add: bs v4_strict_part_show)
qed

lemma hex4_digits: "set (hex4 n) \<subseteq> digit_c ` {..<16}" "length (hex4 n) = 4"
  by (auto simp: hex4_def)

lemma hex4_notin:
  assumes "\<not> (48 \<le> ord_c c \<and> ord_c c \<le> 57)" "\<not> (97 \<le> ord_c c \<and> ord_c c \<le> 122)"
  shows "c \<notin> set (hex4 n)"
proof
  assume "c \<in> set (hex4 n)"
  then obtain d where "d < 16" "c = digit_c d" using hex4_digits(1) [of n] by auto
  with digit_c_neq [OF _ assms, of d] show False by simp
qed

lemma parse_four:
  "a < 16 \<Longrightarrow> b < 16 \<Longrightarrow> c < 16 \<Longrightarrow> d < 16 \<Longrightarrow>
   parse_nat 16 (map digit_c [a, b, c, d]) = Some (((a * 16 + b) * 16 + c) * 16 + d)"
  by (simp add: parse_nat_def)

lemma parse_hex4: "n < 65536 \<Longrightarrow> parse_nat 16 (hex4 n) = Some n"
proof -
  assume n: "n < 65536"
  let ?a = "n div 16" let ?b = "?a div 16" let ?c = "?b div 16"
  have "?c mod 16 = ?c" using n by simp
  moreover have "(?c * 16 + ?b mod 16) * 16 + ?a mod 16 = ?a" by (simp only: div_mult_mod_eq)
  then have "((?c * 16 + ?b mod 16) * 16 + ?a mod 16) * 16 + n mod 16 = n" by (simp only: div_mult_mod_eq)
  ultimately have "((?c mod 16 * 16 + ?b mod 16) * 16 + ?a mod 16) * 16 + n mod 16 = n" by simp
  moreover have "hex4 n = map digit_c [?c mod 16, ?b mod 16, ?a mod 16, n mod 16]"
    by (simp add: hex4_def power_numeral_odd power_numeral_even flip: div_mult2_eq)
  ultimately show ?thesis using parse_four [of "?c mod 16" "?b mod 16" "?a mod 16" "n mod 16"] by simp
qed

lemma v6_words_less: "w \<in> set (v6_words bs) \<Longrightarrow> w < 65536"
proof (induction bs rule: v6_words.induct)
  case (1 a b bs)
  have "unat x < 256" for x :: byte using unsigned_less [of x, where 'a = nat] by simp
  from this [of a] this [of b] 1 show ?case by auto
qed auto

lemma v6_group_hex4:
  "n < 65536 \<Longrightarrow> v6_group (hex4 n) = Some (be_bytes 2 (int n))"
  using hex4_digits(2) [of n] by (auto simp: v6_group_def parse_hex4)

lemma be_bytes_pair: "be_bytes 2 (int (unat a * 256 + unat b)) = [a, b]"
proof -
  have "be_val [a, b] = int (unat a * 256 + unat b)"
    by (simp add: be_val_def)
  then show ?thesis using be_bytes_be_val [of "[a, b]"] by (simp add: numeral_2_eq_2)
qed

lemma v6_groups_words:
  "even (length bs) \<Longrightarrow> v6_groups v (map hex4 (v6_words bs)) = Some bs"
proof (induction bs rule: v6_words.induct)
  case (1 a b bs)
  have dot: "CHR ''.'' \<notin> set (hex4 n)" for n by (rule hex4_notin) code_simp+
  have "unat a * 256 + unat b < 65536" by (rule v6_words_less [of _ "a # b # bs"]) simp
  then have "v6_group (hex4 (unat a * 256 + unat b)) = Some [a, b]"
    by (simp only: v6_group_hex4 be_bytes_pair)
  with 1 show ?case by (simp add: dot)
qed auto

lemma split_dcolon_join:
  assumes "\<And>p. p \<in> set ps \<Longrightarrow> p \<noteq> [] \<and> CHR '':'' \<notin> set p"
  shows "split_dcolon (py_join (CHR '':'') ps) = None"
proof -
  have none: "split_dcolon s = None" if "CHR '':'' \<notin> set s" for s
    using that by (induction s rule: split_dcolon.induct) auto
  have pre: "split_dcolon (p @ CHR '':'' # q) = None"
    if "CHR '':'' \<notin> set p" "q \<noteq> []" "hd q \<noteq> CHR '':''" "split_dcolon q = None" for p q
    using that
  proof (induction p)
    case Nil
    then show ?case by (cases q) auto
  next
    case (Cons x p)
    then show ?case by (cases p) auto
  qed
  from assms show ?thesis
  proof (induction ps)
    case (Cons p ps)
    show ?case
    proof (cases ps)
      case Nil
      with Cons show ?thesis by (simp add: none)
    next
      case (Cons q qs)
      have q: "q \<noteq> []" "CHR '':'' \<notin> set q" using Cons.prems Cons by auto
      then have hd: "py_join (CHR '':'') ps \<noteq> []" "hd (py_join (CHR '':'') ps) \<noteq> CHR '':''"
        using Cons by (cases qs; cases q; auto)+
      have "split_dcolon (py_join (CHR '':'') ps) = None" using Cons.IH Cons.prems by simp
      with hd Cons Cons.prems show ?thesis by (simp add: pre)
    qed
  qed simp
qed

lemma inet_pton6_text:
  assumes "length bs = 16"
  shows "inet_pton6 (py_join (CHR '':'') (map hex4 (v6_words bs))) = Inr bs"
proof -
  have col: "CHR '':'' \<notin> set (hex4 n)" for n by (rule hex4_notin) code_simp+
  have ne: "hex4 n \<noteq> []" for n using hex4_digits(2) [of n] by auto
  have words: "v6_words bs \<noteq> []" using assms by (cases bs rule: v6_words.cases) auto
  let ?t = "py_join (CHR '':'') (map hex4 (v6_words bs))"
  have t: "?t \<noteq> []" using words ne by (cases "v6_words bs"; cases "tl (v6_words bs)") auto
  have "split_dcolon ?t = None" by (rule split_dcolon_join) (auto simp: col ne)
  moreover have "v6_side True ?t = Some bs"
    using words t assms by (simp add: v6_side_def py_split_join col v6_groups_words)
  ultimately show ?thesis using assms by (simp add: inet_pton6_def)
qed

lemma set_py_join: "x \<in> set (py_join c ps) \<Longrightarrow> x = c \<or> (\<exists>p\<in>set ps. x \<in> set p)"
  by (induction c ps rule: py_join.induct) auto

lemma digits_val_chars: "digits_val b a s = Some n \<Longrightarrow> c \<in> set s \<Longrightarrow> digit_val c \<noteq> None"
  by (induction s arbitrary: a) (auto split: option.splits if_splits)

lemma those_all: "those xs = Some ys \<Longrightarrow> x \<in> set xs \<Longrightarrow> x \<noteq> None"
  by (induction xs arbitrary: ys) (auto split: option.splits)

lemma those_length: "those xs = Some ys \<Longrightarrow> length ys = length xs"
  by (induction xs arbitrary: ys) (auto split: option.splits)

lemma v4_strict_colon: "CHR '':'' \<in> set s \<Longrightarrow> v4_strict s = None"
proof (rule ccontr)
  assume col: "CHR '':'' \<in> set s" and "v4_strict s \<noteq> None"
  then obtain bs where bs: "those (map v4_strict_part (py_split (CHR ''.'') s)) = Some bs"
    by (auto simp: v4_strict_def Let_def split: if_splits)
  obtain p where p: "p \<in> set (py_split (CHR ''.'') s)" "CHR '':'' \<in> set p"
    using set_py_join [of "CHR '':''" "CHR ''.''" "py_split (CHR ''.'') s"] col by (auto simp: py_join_split)
  then have "v4_strict_part p \<noteq> None" using those_all [OF bs] by auto
  then obtain n where "parse_nat 10 p = Some n"
    by (auto simp: v4_strict_part_def split: if_splits option.splits)
  then have "digits_val 10 0 p = Some n" by (auto simp: parse_nat_def split: if_splits)
  moreover have "digit_val (CHR '':'') = None" by code_simp
  ultimately show False using digits_val_chars [of 10 0 p n] p by auto
qed

text \<open>The printed form of an address reads back as the address.\<close>

lemma ipa_of_str_text: "ipa_ok a \<Longrightarrow> ipa_of_str (ipa_text a) = Inr a"
proof -
  assume ok: "ipa_ok a"
  obtain f n where a: "a = (f, n)" by (cases a)
  show ?thesis
  proof (cases f)
    case IP4
    with ok a show ?thesis
      by (simp add: ipa_of_str_def ipa_text_def v4_strict_text ipa_ok_def af_bitlen_def be_val_be_bytes_id)
  next
    case IP6
    let ?ws = "map hex4 (v6_words (be_bytes 16 n))"
    obtain x y z where "v6_words (be_bytes 16 n) = x # y # z"
      using length_be_bytes [of 16 n]
      by (cases "be_bytes 16 n" rule: v6_words.cases; cases "tl (tl (be_bytes 16 n))" rule: v6_words.cases) auto
    then have "CHR '':'' \<in> set (py_join (CHR '':'') ?ws)" by simp
    then have "v4_strict (py_join (CHR '':'') ?ws) = None" by (rule v4_strict_colon)
    with ok a IP6 show ?thesis
      by (simp add: ipa_of_str_def ipa_text_def inet_pton6_text ipa_ok_def af_bitlen_def be_val_be_bytes_id)
  qed
qed

lemma ipa_of_str_ok: "ipa_of_str s = Inr a \<Longrightarrow> ipa_ok a"
proof -
  assume "ipa_of_str s = Inr a"
  then consider b where "v4_strict s = Some b" "a = (IP4, be_val b)"
    | b where "inet_pton6 s = Inr b" "a = (IP6, be_val b)"
    by (auto simp: ipa_of_str_def split: option.splits sum.splits)
  then show ?thesis
  proof cases
    case 1
    then have "length b = 4"
      by (auto simp: v4_strict_def Let_def dest!: those_length split: if_splits)
    with 1 be_val_bounds [of b] show ?thesis by (simp add: ipa_ok_def af_bitlen_def)
  next
    case 2
    with length_inet_pton6 be_val_bounds [of b] show ?thesis by (fastforce simp: ipa_ok_def af_bitlen_def)
  qed
qed

section \<open>Netmasks\<close>

text \<open>\<open>bin(n)[2:]\<close>: the binary digits without leading zeros.\<close>

fun bin_digits :: "nat \<Rightarrow> string" where
  "bin_digits n = (if n < 2 then [digit_c n] else bin_digits (n div 2) @ [digit_c (n mod 2)])"

declare bin_digits.simps [simp del]

text \<open>\<open>int(s, 2)\<close> on the digit strings the code builds.\<close>

definition bin_int :: "string \<Rightarrow> int result" where
  "bin_int s = (case parse_nat 2 s of None \<Rightarrow> Inl ValueError | Some n \<Rightarrow> Inr (int n))"

definition ip_str_to_int :: "string \<Rightarrow> int result" where
  "ip_str_to_int s =
     bindr (ipa_of_str s) (\<lambda>a.
       if fst a = IP4 then bindr (inet_aton s) (\<lambda>b. Inr (be_val b))
       else bindr (inet_pton6 (ipa_text a)) (\<lambda>b. Inr (be_val b)))"

definition netmask_to_cidr :: "string \<Rightarrow> int result" where
  "netmask_to_cidr m =
     (if CHR ''/'' \<in> set m then py_int 10 (filter (\<lambda>c. c \<noteq> CHR ''/'') m)
      else bindr (ip_str_to_int m) (\<lambda>n. Inr (int (length (filter ((=) (CHR ''1'')) (bin_digits (nat n)))))))"

definition cidr_to_netmask :: "int \<Rightarrow> af \<Rightarrow> string result" where
  "cidr_to_netmask host_limit a =
     (let top = int (af_bitlen a);
          h = nat (if host_limit < 0 then 0 else if host_limit > top then top else host_limit);
          buf = replicate h (CHR ''1'') @ replicate (af_bitlen a - h) (CHR ''0'')
      in bindr (bin_int buf) (\<lambda>n. bindr (ipa_of a n) (\<lambda>x. Inr (ipa_text x))))"

text \<open>\<open>s[:k]\<close> with a possibly negative bound.\<close>

definition py_take :: "int \<Rightarrow> 'a list \<Rightarrow> 'a list" where
  "py_take k xs = take (nat (if k < 0 then int (length xs) + k else k)) xs"

definition toggle_host_bits :: "string \<Rightarrow> string \<Rightarrow> bool \<Rightarrow> string result" where
  "toggle_host_bits netmask ip toggle =
     bindr (ipa_of_str ip) (\<lambda>a.
     bindr (if CHR ''/'' \<in> set netmask then py_int 10 (last (py_split (CHR ''/'') netmask))
            else netmask_to_cidr netmask) (\<lambda>h.
     bindr (ip_str_to_int ip) (\<lambda>n.
       let b = bin_digits (nat n);
           net = py_take h b;
           host = replicate (length b - length net) (if toggle then CHR ''1'' else CHR ''0'')
       in bindr (bin_int (net @ host)) (\<lambda>r. bindr (ipa_of (fst a) r) (\<lambda>x. Inr (ipa_text x))))))"

definition get_broadcast_ip :: "string \<Rightarrow> string \<Rightarrow> string result" where
  "get_broadcast_ip netmask gw = toggle_host_bits netmask gw True"

fun split_any :: "'a set \<Rightarrow> 'a list \<Rightarrow> 'a list list" where
  "split_any cs [] = [[]]"
| "split_any cs (x # xs) =
     (if x \<in> cs then [] # split_any cs xs
      else (case split_any cs xs of [] \<Rightarrow> [[x]] | (y # ys) \<Rightarrow> (x # y) # ys))"

definition zfill2 :: "string \<Rightarrow> string" where
  "zfill2 s = (case s of
      [] \<Rightarrow> [CHR ''0'', CHR ''0'']
    | [c] \<Rightarrow> if c = CHR ''+'' \<or> c = CHR ''-'' then [c, CHR ''0''] else [CHR ''0'', c]
    | _ \<Rightarrow> s)"

definition mac_norm :: "string \<Rightarrow> string" where
  "mac_norm mac =
     concat (map (\<lambda>p. py_lower (zfill2 p)) (split_any {CHR '':'', CHR ''.'', CHR ''-''} mac))"

subsection \<open>Values of digit strings\<close>

lemma digits_val_zeros: "digits_val 2 a (replicate m (CHR ''0'')) = Some (a * 2 ^ m)"
  using digit_val_digit_c [of 0] by (induction m arbitrary: a) (simp_all add: digit_c_lits)

lemma digits_val_ones: "digits_val 2 a (replicate m (CHR ''1'')) = Some (a * 2 ^ m + 2 ^ m - 1)"
  using digit_val_digit_c [of 1] by (induction m arbitrary: a) (simp_all add: digit_c_lits algebra_simps)

lemma bin_digits_prefix: "bin_digits n = xs @ ys \<Longrightarrow> digits_val 2 0 xs = Some (n div 2 ^ length ys)"
proof (induction n arbitrary: xs ys rule: bin_digits.induct)
  case (1 n)
  show ?case
  proof (cases ys rule: rev_cases)
    case Nil
    show ?thesis
    proof (cases "n < 2")
      case True
      with 1(2) Nil show ?thesis by (auto simp: bin_digits.simps [of n])
    next
      case False
      with 1(1) [of "bin_digits (n div 2)" "[]"]
      have "digits_val 2 0 (bin_digits n) = Some n"
        by (simp add: bin_digits.simps [of n] digits_val_append)
      with 1(2) Nil show ?thesis by simp
    qed
  next
    case (snoc zs d)
    show ?thesis
    proof (cases "n < 2")
      case True
      with 1(2) snoc show ?thesis by (simp add: bin_digits.simps [of n])
    next
      case False
      with 1(2) snoc have "bin_digits (n div 2) = xs @ zs" by (simp add: bin_digits.simps [of n])
      with 1(1) False snoc show ?thesis by (simp add: div_mult2_eq)
    qed
  qed
qed

lemma length_bin_digits: "2 ^ k \<le> n \<Longrightarrow> n < 2 ^ Suc k \<Longrightarrow> length (bin_digits n) = Suc k"
proof (induction k arbitrary: n)
  case 0
  then show ?case by (simp add: bin_digits.simps [of n])
next
  case (Suc k)
  have "(2 :: nat) \<le> 2 ^ Suc k" by simp
  then have "2 \<le> n" using Suc.prems(1) by (rule order_trans)
  with Suc have "2 ^ k \<le> n div 2" "n div 2 < 2 ^ Suc k" "\<not> n < 2" by auto
  with Suc.IH [of "n div 2"] show ?case by (simp add: bin_digits.simps [of n])
qed

lemma bin_int_ones: "0 < h + z \<Longrightarrow>
    bin_int (replicate h (CHR ''1'') @ replicate z (CHR ''0'')) = Inr ((2 ^ h - 1) * 2 ^ z)"
proof -
  assume "0 < h + z"
  then have "parse_nat 2 (replicate h (CHR ''1'') @ replicate z (CHR ''0'')) = Some ((2 ^ h - 1) * 2 ^ z)"
    by (auto simp: parse_nat_def digits_val_append digits_val_ones digits_val_zeros)
  then show ?thesis by (simp add: bin_int_def of_nat_diff)
qed

text \<open>The netmask text of a prefix length is the mask with that many leading ones, and reading it
  back counts them.\<close>

definition mask_int :: "nat \<Rightarrow> nat \<Rightarrow> int" where
  "mask_int bits h = (2 ^ h - 1) * 2 ^ (bits - h)"

lemma mask_int_bounds: "h \<le> bits \<Longrightarrow> 0 \<le> mask_int bits h \<and> mask_int bits h < 2 ^ bits"
proof -
  assume h: "h \<le> bits"
  have "mask_int bits h = 2 ^ bits - 2 ^ (bits - h)"
    using h by (simp add: mask_int_def left_diff_distrib flip: power_add)
  then show ?thesis using h by simp
qed

lemma cidr_to_netmask_text:
  assumes "0 \<le> h" "h \<le> int (af_bitlen a)"
  shows "cidr_to_netmask h a = Inr (ipa_text (a, mask_int (af_bitlen a) (nat h)))"
proof -
  have "0 < af_bitlen a" "nat h \<le> af_bitlen a" using assms by (simp_all add: af_bitlen_def)
  then show ?thesis
    using assms mask_int_bounds [of "nat h" "af_bitlen a"]
    by (simp add: cidr_to_netmask_def Let_def bin_int_ones ipa_of_def flip: mask_int_def)
qed

lemma popcount_mask_int: "h \<le> bits \<Longrightarrow> popcount (nat (mask_int bits h)) = h"
proof -
  assume "h \<le> bits"
  have "mask_int bits h = int ((2 ^ h - 1) * 2 ^ (bits - h))" by (simp add: mask_int_def of_nat_diff)
  then have "nat (mask_int bits h) = (2 ^ h - 1) * 2 ^ (bits - h)" by (simp only: nat_int)
  then show ?thesis by (simp only: popcount_shift popcount_ones)
qed

lemma digits_val_digit: "digits_val b 0 [c] = Some n \<Longrightarrow> digit_val c = Some n"
  by (auto split: option.splits if_splits)

lemma v4_part_aton: "v4_strict_part p = Some x \<Longrightarrow> aton_part p = Some (unat x)"
proof -
  assume "v4_strict_part p = Some x"
  then obtain n where n: "parse_nat 10 p = Some n" "n < 256" "x = of_nat n"
    and p: "p \<noteq> []" "1 < length p \<longrightarrow> hd p \<noteq> CHR ''0''"
    by (auto simp: v4_strict_part_def split: if_splits option.splits)
  have "unat x = n" using n by (simp add: unat_of_nat)
  moreover have "aton_part p = parse_nat 10 p"
    using p by (auto simp: aton_part_def neq_Nil_conv split: list.splits)
  ultimately show ?thesis using n by simp
qed

lemma v4_part_chars: "v4_strict_part p = Some x \<Longrightarrow> c \<in> set p \<Longrightarrow> \<not> c_space c"
proof -
  assume "v4_strict_part p = Some x" "c \<in> set p"
  then obtain n where "digits_val 10 0 p = Some n"
    by (auto simp: v4_strict_part_def parse_nat_def split: if_splits option.splits)
  then have "digit_val c \<noteq> None" using \<open>c \<in> set p\<close> by (rule digits_val_chars)
  then show ?thesis by (auto simp: digit_val_def c_space_def Let_def split: if_splits)
qed

lemma those_map_Some: "those (map f xs) = Some ys \<Longrightarrow> x \<in> set xs \<Longrightarrow> \<exists>y. f x = Some y"
  using those_all by fastforce

lemma those_map_cong:
  "those (map f xs) = Some ys \<Longrightarrow> (\<And>x y. f x = Some y \<Longrightarrow> g x = Some (h y)) \<Longrightarrow> those (map g xs) = Some (map h ys)"
  by (induction xs arbitrary: ys) (auto split: option.splits)

lemma inet_aton_strict: "v4_strict s = Some b \<Longrightarrow> inet_aton s = Inr b"
proof -
  assume s: "v4_strict s = Some b"
  let ?ps = "py_split (CHR ''.'') s"
  have ps: "those (map v4_strict_part ?ps) = Some b" "length b = 4"
    using s by (auto simp: v4_strict_def Let_def dest: those_length split: if_splits)
  have dot: "\<not> c_space (CHR ''.'')" by code_simp
  have "\<not> c_space c" if "c \<in> set s" for c
    using set_py_join [of c "CHR ''.''" ?ps] that dot those_map_Some [OF ps(1)] v4_part_chars
    by (auto simp: py_join_split)
  then have tw: "takeWhile (\<lambda>c. \<not> c_space c) s = s" by (rule takeWhile_all)
  have "those (map aton_part ?ps) = Some (map unat b)"
    using ps(1) by (rule those_map_cong) (rule v4_part_aton)
  moreover obtain w x y z where "b = [w, x, y, z]"
    using ps(2) by (auto simp: numeral_eq_Suc length_Suc_conv)
  moreover have "unat v < 256" for v :: byte using unsigned_less [of v, where 'a = nat] by simp
  ultimately show ?thesis unfolding inet_aton_def tw by simp
qed

lemma ip_str_to_int_value: "ipa_of_str s = Inr a \<Longrightarrow> ip_str_to_int s = Inr (snd a)"
proof -
  assume a: "ipa_of_str s = Inr a"
  show ?thesis
  proof (cases "v4_strict s")
    case None
    with a obtain b where b: "inet_pton6 s = Inr b" "a = (IP6, be_val b)"
      by (auto simp: ipa_of_str_def split: sum.splits)
    have "be_bytes 16 (be_val b) = b" using length_inet_pton6 [OF b(1)] be_bytes_be_val [of b] by simp
    with a b show ?thesis
      using length_inet_pton6 [OF b(1)] by (simp add: ip_str_to_int_def ipa_text_def inet_pton6_text)
  next
    case (Some b)
    with a have "a = (IP4, be_val b)" by (simp add: ipa_of_str_def)
    with a Some show ?thesis by (simp add: ip_str_to_int_def inet_aton_strict)
  qed
qed

lemma bin_digits_one: "length (filter ((=) (CHR ''1'')) (bin_digits n)) = popcount n"
proof (induction n rule: bin_digits.induct)
  case (1 n)
  show ?case
  proof (cases "n < 2")
    case True
    then have "n = 0 \<or> n = 1" by auto
    moreover have "popcount 1 = 1" by (subst popcount_step) simp
    moreover have "bin_digits 0 = ''0''" "bin_digits 1 = ''1''"
      by (subst bin_digits.simps, simp add: digit_c_lits)+
    ultimately show ?thesis
    proof (elim disjE, goal_cases)
      case 1
      then show ?case by (simp only:) simp
    next
      case 2
      then show ?case by (simp only:) simp
    qed
  next
    case False
    have "length (filter ((=) (CHR ''1'')) [digit_c (n mod 2)]) = n mod 2"
      by (cases "even n") (simp_all only: even_iff_mod_2_eq_zero odd_iff_mod_2_eq_one digit_c_lits, simp_all add: digit_c_lits)
    moreover have "bin_digits n = bin_digits (n div 2) @ [digit_c (n mod 2)]"
      using False by (subst bin_digits.simps) simp
    moreover have "popcount n = n mod 2 + popcount (n div 2)" by (rule popcount_step)
    ultimately show ?thesis using 1 [OF False] by (simp only: filter_append length_append)
  qed
qed

lemma ipa_text_notin:
  assumes "\<not> (48 \<le> ord_c c \<and> ord_c c \<le> 57)" "\<not> (97 \<le> ord_c c \<and> ord_c c \<le> 122)"
    "c \<noteq> CHR ''.''" "c \<noteq> CHR '':''"
  shows "c \<notin> set (ipa_text y)"
proof -
  have dig: "c \<notin> set (show_nat n)" "c \<notin> set (hex4 n)" for n
    using assms(1,2) by (simp_all only: show_nat_notin hex4_notin not_False_eq_True)
  show ?thesis
    using set_py_join dig assms(3,4) by (auto simp: ipa_text_def split: prod.split af.split) fastforce+
qed

lemma ipa_text_plain: "CHR ''/'' \<notin> set (ipa_text y)" "CHR ''%'' \<notin> set (ipa_text y)"
  by (rule ipa_text_notin; code_simp)+

lemma netmask_to_cidr_mask:
  "h \<le> af_bitlen a \<Longrightarrow> netmask_to_cidr (ipa_text (a, mask_int (af_bitlen a) h)) = Inr (int h)"
proof -
  assume h: "h \<le> af_bitlen a"
  let ?x = "(a, mask_int (af_bitlen a) h)"
  have x: "ipa_ok ?x" using mask_int_bounds [OF h] by (simp add: ipa_ok_def)
  show ?thesis
    using ip_str_to_int_value [OF ipa_of_str_text [OF x]] popcount_mask_int [OF h]
    by (simp add: netmask_to_cidr_def bin_digits_one ipa_text_plain)
qed

lemma length_bin_digits_le: "n < 2 ^ Suc m \<Longrightarrow> length (bin_digits n) \<le> Suc m"
proof (induction m arbitrary: n)
  case 0
  then show ?case by (simp add: bin_digits.simps [of n])
next
  case (Suc m)
  then have "n div 2 < 2 ^ Suc m" by auto
  with Suc.IH [of "n div 2"] show ?case by (simp add: bin_digits.simps [of n])
qed

lemma set_low_bits:
  fixes n :: nat
  assumes "n < 2 ^ m" "k \<le> m"
  shows "n div 2 ^ k * 2 ^ k + (2 ^ k - 1) < 2 ^ m"
proof -
  have m: "(2 :: nat) ^ m = 2 ^ (m - k) * 2 ^ k" using assms(2) by (simp flip: power_add)
  then have "n div 2 ^ k < 2 ^ (m - k)" using assms(1) by (simp add: less_mult_imp_div_less)
  then have "(n div 2 ^ k + 1) * 2 ^ k \<le> 2 ^ (m - k) * 2 ^ k" by (intro mult_right_mono) auto
  moreover have "n div 2 ^ k * 2 ^ k + (2 ^ k - 1) < (n div 2 ^ k + 1) * 2 ^ k" by (simp add: algebra_simps)
  ultimately show ?thesis unfolding m by linarith
qed

lemma toggle_value:
  assumes ip: "ipa_of_str ip = Inr (f, int n)" and h: "netmask_to_cidr m = Inr h" "0 \<le> h"
    and plain: "CHR ''/'' \<notin> set m"
  defines "k \<equiv> length (bin_digits n) - nat h"
  shows "toggle_host_bits m ip t =
    Inr (ipa_text (f, int (n div 2 ^ k * 2 ^ k + (if t then 2 ^ k - 1 else 0))))"
proof -
  let ?b = "bin_digits n"
  let ?r = "n div 2 ^ k * 2 ^ k + (if t then 2 ^ k - 1 else 0)"
  let ?host = "replicate k (if t then CHR ''1'' else CHR ''0'')"
  have b: "?b = take (nat h) ?b @ drop (nat h) ?b" by simp
  have "digits_val 2 0 (take (nat h) ?b) = Some (n div 2 ^ k)"
    using bin_digits_prefix [OF b] by (simp add: k_def)
  then have "digits_val 2 0 (take (nat h) ?b @ ?host) = Some ?r"
    by (auto simp: digits_val_append digits_val_ones digits_val_zeros)
  moreover have "take (nat h) ?b @ ?host \<noteq> []"
    by (subst bin_digits.simps) (auto simp: k_def bin_digits.simps [of n])
  ultimately have val: "bin_int (take (nat h) ?b @ ?host) = Inr (int ?r)"
    by (simp add: bin_int_def parse_nat_def)
  have ok: "0 \<le> int n" "int n < 2 ^ af_bitlen f" using ipa_of_str_ok [OF ip] by (auto simp: ipa_ok_def)
  have "?r < 2 ^ af_bitlen f"
  proof -
    obtain m where m: "af_bitlen f = Suc m" by (cases f) (auto simp: af_bitlen_def)
    have n: "n < 2 ^ af_bitlen f" using ok by simp
    then have "k \<le> af_bitlen f" using length_bin_digits_le [of n m] m by (auto simp: k_def)
    from set_low_bits [OF n this] n show ?thesis
      by (cases t) (auto intro: le_less_trans [OF div_times_less_eq_dividend])
  qed
  then have "int ?r < int (2 ^ af_bitlen f)" by (rule of_nat_less_iff [THEN iffD2])
  then have "int ?r < 2 ^ af_bitlen f" by (simp only: of_nat_power of_nat_numeral)
  moreover have "0 \<le> int ?r" by (rule of_nat_0_le_iff)
  ultimately have ipa: "ipa_of f (int ?r) = Inr (f, int ?r)" by (simp only: ipa_of_def simp_thms if_True)
  have net: "py_take h ?b = take (nat h) ?b" using h(2) by (simp add: py_take_def)
  have len: "length ?b - length (take (nat h) ?b) = k" by (simp add: k_def)
  show ?thesis
    unfolding toggle_host_bits_def ip ip_str_to_int_value [OF ip] bindr_simps if_not_P [OF plain] h(1)
      Let_def snd_conv fst_conv nat_int net len val ipa by (rule refl)
qed

lemma ip_norm_plain: "ipa_ok a \<Longrightarrow> ip_norm (ipa_text a) = Inr (ipa_text a)"
  using ipa_text_plain [of a]
  by (simp add: ip_norm_def ipv6_norm_def ip_strip_cidr_def ip_strip_if_def ipa_of_str_text)

lemma ip_norm_Inr:
  assumes "ip_norm s = Inr t"
  obtains a where "ipa_of_str (ip_strip_cidr (ip_strip_if s)) = Inr a" "t = ipa_text a" "ipa_ok a"
    "ipa_of_str t = Inr a" "ip_norm t = Inr t"
proof -
  obtain a where a: "ipa_of_str (ip_strip_cidr (ip_strip_if s)) = Inr a" "t = ipa_text a"
    using assms by (auto simp: ip_norm_def ipv6_norm_def bindr_eq_Inr)
  then have "ipa_ok a" using ipa_of_str_ok by blast
  with a that show thesis by (simp add: ipa_of_str_text ip_norm_plain)
qed

section \<open>Properties\<close>

text \<open>Normalising an address text is idempotent, and it neither changes which address the text
  without its scope and prefix names nor depends on how that address was written.\<close>

theorem ip_norm_canonical:
  assumes "ip_norm s = Inr t"
  shows "ip_norm t = Inr t \<and> ipa_of_str t = ipa_of_str (ip_strip_cidr (ip_strip_if s)) \<and>
    (ip_norm s' = Inr t \<longleftrightarrow> ipa_of_str (ip_strip_cidr (ip_strip_if s')) = ipa_of_str t)"
proof -
  obtain a where a: "ipa_of_str (ip_strip_cidr (ip_strip_if s)) = Inr a" "t = ipa_text a"
    and t: "ipa_of_str t = Inr a" "ip_norm t = Inr t"
    using assms by (rule ip_norm_Inr)
  have "ipa_text b = ipa_text a \<Longrightarrow> ipa_ok b \<Longrightarrow> b = a" for b
    using ipa_of_str_text [of b] t a by simp
  then show ?thesis
    using a t ipa_of_str_ok by (cases a) (auto simp: ip_norm_def ipv6_norm_def bindr_eq_Inr)
qed

text \<open>Dotted quads as address objects, for evaluation.\<close>

lemma quad_text: "ipa_text (IP4, be_val [a, b, c, d]) = py_join (CHR ''.'') (map (\<lambda>x. show_nat (unat x)) [a, b, c, d])"
  using be_bytes_be_val [of "[a, b, c, d]"] by (simp add: ipa_text_def numeral_eq_Suc)

lemma quad_ok: "ipa_ok (IP4, be_val [a, b, c, d])"
  using be_val_bounds [of "[a, b, c, d]"] by (simp add: ipa_ok_def af_bitlen_def)

lemma quad_of_str: "s = py_join (CHR ''.'') (map (\<lambda>x. show_nat (unat x)) [a, b, c, d]) \<Longrightarrow>
    ipa_of_str s = Inr (IP4, be_val [a, b, c, d])"
  using ipa_of_str_text [OF quad_ok, of a b c d] by (simp only: quad_text)

lemma ip_norm_example: "ip_norm ''10.0.0.5/24'' = Inr ''10.0.0.5''"
proof -
  have "ipa_of_str ''10.0.0.5'' = Inr (IP4, be_val [10, 0, 0, 5])"
    by (rule quad_of_str) (simp add: show_nat.simps digit_c_lits)
  then show ?thesis
    by (simp add: ip_norm_def ipv6_norm_def ip_strip_cidr_def ip_strip_if_def quad_text show_nat.simps digit_c_lits)
qed

theorem ip_norm_canonical_witness:
  "ip_norm ''10.0.0.5/24'' = Inr ''10.0.0.5'' \<and> ip_norm ''10.0.0.5'' = Inr ''10.0.0.5''"
  using ip_norm_canonical [OF ip_norm_example] ip_norm_example by simp

text \<open>A prefix length outside the family's width is clamped to it, the netmask text is always a
  valid address whose set bits are the leading ones of that length, and reading the netmask back gives the
  clamped length.\<close>

theorem netmask_cidr_roundtrip:
  "\<exists>t. cidr_to_netmask h a = Inr t \<and>
       netmask_to_cidr t = Inr (max 0 (min (int (af_bitlen a)) h)) \<and>
       ip_str_to_int t = Inr (2 ^ af_bitlen a - 2 ^ (af_bitlen a - nat h))"
proof -
  let ?b = "af_bitlen a"
  obtain k where k: "k = nat (max 0 (min (int ?b) h))" by blast
  then have kb: "k \<le> ?b" and kh: "int k = max 0 (min (int ?b) h)" and kn: "?b - k = ?b - nat h"
    by (auto simp: max_def min_def)
  have "cidr_to_netmask h a = cidr_to_netmask (int k) a"
    unfolding kh by (simp add: cidr_to_netmask_def Let_def)
  then have t: "cidr_to_netmask h a = Inr (ipa_text (a, mask_int ?b k))"
    using cidr_to_netmask_text [of "int k" a] kb by simp
  have "ipa_ok (a, mask_int ?b k)" using mask_int_bounds [OF kb] by (simp add: ipa_ok_def)
  then have "ip_str_to_int (ipa_text (a, mask_int ?b k)) = Inr (mask_int ?b k)"
    using ip_str_to_int_value [OF ipa_of_str_text] by simp
  moreover have "mask_int ?b k = 2 ^ ?b - 2 ^ (?b - nat h)"
    using kb by (simp add: mask_int_def left_diff_distrib kn [symmetric] flip: power_add)
  ultimately show ?thesis using t netmask_to_cidr_mask [OF kb] kh by simp
qed

text \<open>\<open>toggle_host_bits\<close> counts the prefix from the highest set bit of the address, not from
  the top of the address: with \<open>L\<close> binary digits it clears or sets the lowest \<open>L - h\<close> bits. It
  is the network or broadcast address of the prefix exactly as intended when the top bit of the address is set
  (\<open>L\<close> is the full width); the witness shows the broadcast address of 10.0.0.5/24 as 10.0.0.15.\<close>

theorem toggle_host_bits_value:
  assumes "ipa_of_str ip = Inr (f, int n)" "netmask_to_cidr m = Inr h" "0 \<le> h" "CHR ''/'' \<notin> set m"
  shows "toggle_host_bits m ip False =
      Inr (ipa_text (f, int (n - n mod 2 ^ (length (bin_digits n) - nat h)))) \<and>
    get_broadcast_ip m ip =
      Inr (ipa_text (f, int (n - n mod 2 ^ (length (bin_digits n) - nat h)) +
        (2 ^ (length (bin_digits n) - nat h) - 1))) \<and>
    (2 ^ (af_bitlen f - 1) \<le> n \<longrightarrow> length (bin_digits n) = af_bitlen f)"
proof -
  have "n < 2 ^ af_bitlen f" using ipa_of_str_ok [OF assms(1)] by (simp add: ipa_ok_def)
  moreover obtain k where "af_bitlen f = Suc k" by (cases f) (auto simp: af_bitlen_def)
  ultimately have "2 ^ (af_bitlen f - 1) \<le> n \<longrightarrow> length (bin_digits n) = af_bitlen f"
    using length_bin_digits [of k n] by simp
  then show ?thesis
    using toggle_value [OF assms(1-4)] by (simp add: get_broadcast_ip_def minus_mod_eq_div_mult)
qed

theorem toggle_host_bits_value_witness:
  "get_broadcast_ip ''255.255.255.0'' ''10.0.0.5'' = Inr ''10.0.0.15''"
proof -
  have ip: "ipa_of_str ''10.0.0.5'' = Inr (IP4, int 167772165)"
    using quad_of_str [of "''10.0.0.5''" 10 0 0 5] by (simp add: show_nat.simps digit_c_lits be_val_def)
  have m: "be_val [255, 255, 255, 0] = mask_int (af_bitlen IP4) 24" by (simp add: be_val_def mask_int_def af_bitlen_def)
  have "ipa_text (IP4, be_val [255, 255, 255, 0]) = ''255.255.255.0''"
    by (simp add: quad_text show_nat.simps digit_c_lits)
  then have h: "netmask_to_cidr ''255.255.255.0'' = Inr 24"
    using netmask_to_cidr_mask [of 24 IP4] by (simp add: m af_bitlen_def)
  have L: "length (bin_digits 167772165) = 28" using length_bin_digits [of 27 167772165] by simp
  have "get_broadcast_ip ''255.255.255.0'' ''10.0.0.5'' = Inr (ipa_text (IP4, be_val [10, 0, 0, 15]))"
    using toggle_host_bits_value [OF ip h] by (simp add: L be_val_def)
  then show ?thesis by (simp add: quad_text show_nat.simps digit_c_lits)
qed

end
