(* ===== verification/NatUtils.thy ===== *)
theory NatUtils
  imports IpAddr
begin

text \<open>
  NAT classification: the NAT and delta types of \<open>nic/nat/nat_defs.py\<close>, and from
  \<open>nic/nat/nat_utils.py\<close> the NAT descriptor, the inference of the port delta from STUN mappings, the
  port range two NATs agree on and the prediction check. A STUN probe's result is None or the local port with
  the mapped port, if any; a counter dictionary is an association list in insertion order; a dictionary that
  the code mutates is returned updated.
\<close>

section \<open>Types of NAT and delta\<close>

definition STUN_PORT :: int where "STUN_PORT = 3478"
definition MAX_MAP_NO :: nat where "MAX_MAP_NO = 100"

definition OPEN_INTERNET :: int where "OPEN_INTERNET = 1"
definition SYMMETRIC_UDP_FIREWALL :: int where "SYMMETRIC_UDP_FIREWALL = 2"
definition FULL_CONE :: int where "FULL_CONE = 3"
definition RESTRICT_NAT :: int where "RESTRICT_NAT = 4"
definition RESTRICT_PORT_NAT :: int where "RESTRICT_PORT_NAT = 5"
definition SYMMETRIC_NAT :: int where "SYMMETRIC_NAT = 6"
definition BLOCKED_NAT :: int where "BLOCKED_NAT = 7"

definition NA_DELTA :: int where "NA_DELTA = 1"
definition EQUAL_DELTA :: int where "EQUAL_DELTA = 2"
definition PRESERV_DELTA :: int where "PRESERV_DELTA = 3"
definition INDEPENDENT_DELTA :: int where "INDEPENDENT_DELTA = 4"
definition DEPENDENT_DELTA :: int where "DEPENDENT_DELTA = 5"
definition RANDOM_DELTA :: int where "RANDOM_DELTA = 6"

definition EASY_NATS :: "int list" where "EASY_NATS = [OPEN_INTERNET, FULL_CONE]"
definition PREDICTABLE_NATS :: "int list" where
  "PREDICTABLE_NATS = [FULL_CONE, RESTRICT_NAT, RESTRICT_PORT_NAT, OPEN_INTERNET]"

lemmas nat_types = OPEN_INTERNET_def SYMMETRIC_UDP_FIREWALL_def FULL_CONE_def RESTRICT_NAT_def
  RESTRICT_PORT_NAT_def SYMMETRIC_NAT_def BLOCKED_NAT_def
lemmas delta_types = NA_DELTA_def EQUAL_DELTA_def PRESERV_DELTA_def INDEPENDENT_DELTA_def
  DEPENDENT_DELTA_def RANDOM_DELTA_def

record delta =
  dl_type :: int
  dl_value :: int

record nat_desc =
  nt_type :: int
  nt_delta :: delta
  nt_range :: rng
  nt_is_open :: bool
  nt_can_predict :: bool
  nt_is_hard :: bool
  nt_is_concurrent :: bool

definition delta_info :: "int \<Rightarrow> int \<Rightarrow> delta" where
  "delta_info t v = \<lparr>dl_type = t, dl_value = v\<rparr>"

definition f_is_open :: "int \<Rightarrow> delta \<Rightarrow> bool" where
  "f_is_open n d \<longleftrightarrow> n \<in> set [OPEN_INTERNET, SYMMETRIC_UDP_FIREWALL]"

definition f_can_predict :: "int \<Rightarrow> delta \<Rightarrow> bool" where
  "f_can_predict n d \<longleftrightarrow> n \<in> set PREDICTABLE_NATS"

definition f_is_hard :: "int \<Rightarrow> delta \<Rightarrow> bool" where
  "f_is_hard n d \<longleftrightarrow> n \<notin> set EASY_NATS \<and> dl_type d \<notin> set [PRESERV_DELTA, EQUAL_DELTA]"

text \<open>\<open>nat_info\<close> with its defaults; a NAT type of zero counts as missing.\<close>

definition nat_info :: "int option \<Rightarrow> delta option \<Rightarrow> rng option \<Rightarrow> nat_desc" where
  "nat_info nat_type delta map_range =
     (let d = (case delta of None \<Rightarrow> delta_info EQUAL_DELTA 0 | Some d \<Rightarrow> d);
          r = (case map_range of None \<Rightarrow> (1, MAX_PORT) | Some r \<Rightarrow> r);
          t = (case nat_type of None \<Rightarrow> RESTRICT_PORT_NAT | Some t \<Rightarrow> if t = 0 then RESTRICT_PORT_NAT else t);
          bad_delta = (dl_type d \<in> set [INDEPENDENT_DELTA, DEPENDENT_DELTA])
      in \<lparr>nt_type = t, nt_delta = d, nt_range = r, nt_is_open = f_is_open t d,
          nt_can_predict = f_can_predict t d, nt_is_hard = f_is_hard t d,
          nt_is_concurrent = (t \<in> set EASY_NATS \<or> \<not> bad_delta)\<rparr>)"

definition valid_mappings_len :: "'a list \<Rightarrow> bool" where
  "valid_mappings_len m \<longleftrightarrow> (if length m = 0 then False else if length m > MAX_MAP_NO then False else True)"

section \<open>Inferring the delta\<close>

type_synonym mapping_result = "(int \<times> int option) option"
type_synonym counter = "(int \<times> nat) list"

text \<open>\<open>d[k] = d.get(k, 0) + 1\<close> and \<open>d[k] = 1\<close>: a new key goes to the end.\<close>

fun bump :: "int \<Rightarrow> counter \<Rightarrow> counter" where
  "bump k [] = [(k, 1)]"
| "bump k ((j, n) # c) = (if j = k then (j, n + 1) # c else (j, n) # bump k c)"

fun put_one :: "int \<Rightarrow> counter \<Rightarrow> counter" where
  "put_one k [] = [(k, 1)]"
| "put_one k ((j, n) # c) = (if j = k then (j, 1) # c else (j, n) # put_one k c)"

record delta_counts =
  dc_delta :: counter
  dc_dist :: counter
  dc_local :: counter
  dc_preserv :: counter

definition no_counts :: delta_counts where
  "no_counts = \<lparr>dc_delta = [], dc_dist = [], dc_local = [], dc_preserv = []\<rparr>"

text \<open>One result against the one before it in the list.\<close>

definition delta_step :: "mapping_result \<Rightarrow> mapping_result \<Rightarrow> delta_counts \<Rightarrow> delta_counts" where
  "delta_step prev cur c =
     (case cur of
        Some (local, Some mapped) \<Rightarrow>
          (let c1 = (if local = mapped then c\<lparr>dc_delta := bump EQUAL_DELTA (dc_delta c)\<rparr> else c) in
           (case prev of
              Some (prev_local, Some prev_mapped) \<Rightarrow>
                if prev_local = 0 \<or> prev_mapped = 0 then c1
                else
                  (let ldist = \<bar>field_dist local prev_local MAX_PORT\<bar>;
                       mdist = \<bar>field_dist mapped prev_mapped MAX_PORT\<bar>
                   in if mdist = ldist then
                        (if mapped \<noteq> local
                         then c1\<lparr>dc_preserv := put_one mdist (dc_preserv c1),
                                 dc_delta := bump PRESERV_DELTA (dc_delta c1)\<rparr>
                         else c1)
                      else if ldist \<noteq> 1 then c1\<lparr>dc_dist := bump mdist (dc_dist c1)\<rparr>
                      else c1\<lparr>dc_local := bump mdist (dc_local c1)\<rparr>)
            | _ \<Rightarrow> c1))
      | _ \<Rightarrow> c)"

fun delta_loop :: "mapping_result \<Rightarrow> mapping_result list \<Rightarrow> delta_counts \<Rightarrow> delta_counts" where
  "delta_loop prev [] c = c"
| "delta_loop prev (x # xs) c = delta_loop x xs (delta_step prev x c)"

definition get_delta_value :: "mapping_result list \<Rightarrow> delta_counts" where
  "get_delta_value results = delta_loop None results no_counts"

text \<open>The first key, in insertion order, whose count reaches the threshold.\<close>

definition first_key :: "nat \<Rightarrow> counter \<Rightarrow> int option" where
  "first_key threshold c = map_option fst (find (\<lambda>(k, n). threshold \<le> n) c)"

definition round_one :: "nat \<Rightarrow> delta_counts \<Rightarrow> delta option" where
  "round_one threshold c =
     (let names = (if length (dc_preserv c) \<le> 1 then [EQUAL_DELTA] else [EQUAL_DELTA, PRESERV_DELTA]) in
      case find (\<lambda>t. case map_of (dc_delta c) t of None \<Rightarrow> False | Some n \<Rightarrow> threshold \<le> n) names of
        Some t \<Rightarrow> Some (delta_info t 0)
      | None \<Rightarrow> map_option (delta_info INDEPENDENT_DELTA) (first_key threshold (dc_dist c)))"

definition round_two :: "nat \<Rightarrow> delta_counts \<Rightarrow> delta" where
  "round_two threshold c =
     (case first_key threshold (dc_local c) of
        Some d \<Rightarrow> delta_info DEPENDENT_DELTA d
      | None \<Rightarrow> delta_info RANDOM_DELTA 0)"

text \<open>\<open>delta_test\<close>: the results of the two rounds of probes are arguments. Without concurrency the
  first round drops the failed probes, the second does not.\<close>

definition delta_test ::
  "nat \<Rightarrow> nat \<Rightarrow> nat \<Rightarrow> bool \<Rightarrow> mapping_result list \<Rightarrow> mapping_result list \<Rightarrow> delta result" where
  "delta_test clients test_no threshold concurrency results1 results2 =
     (if clients < test_no then Inl AssertionError
      else
        (let r1 = (if concurrency then results1 else filter (\<lambda>r. r \<noteq> None) results1) in
         case round_one threshold (get_delta_value r1) of
           Some d \<Rightarrow> Inr d
         | None \<Rightarrow> Inr (round_two threshold (get_delta_value results2))))"

text \<open>\<open>get_start_port\<close>: the random draws, each from 4000 up to below \<open>MAX_PORT - test_no * dist\<close>,
  are a list; None when they run out before one avoids every range.\<close>

fun get_start_port :: "nat \<Rightarrow> (int \<times> int) list \<Rightarrow> int list \<Rightarrow> int option" where
  "get_start_port test_no infos [] = None"
| "get_start_port test_no infos (p # ps) =
     (if infos = [] then Some p
      else if list_ex (\<lambda>(dist, start). start \<le> p \<and> p \<le> start + int test_no * dist) infos
      then get_start_port test_no infos ps else Some p)"

definition src_ports :: "int \<Rightarrow> int \<Rightarrow> int list \<Rightarrow> int list" where
  "src_ports start dist draws =
     map (\<lambda>i. if start \<noteq> 0 then start + int i * dist else draws ! i) [0..<length draws]"

section \<open>Two NATs\<close>

text \<open>\<open>nats_intersect\<close>: unless the intersection is used, \<open>use_range\<close> is our NAT's own list, and
  raising its low end changes our NAT.\<close>

definition nats_intersect :: "nat_desc \<Rightarrow> nat_desc \<Rightarrow> int \<Rightarrow> rng result \<times> nat_desc" where
  "nats_intersect our their test_no =
     (let i = range_intersects (nt_range our) (nt_range their);
          r = intersect_range (nt_range our) (nt_range their);
          own = (\<not> (i \<and> test_no \<le> snd r - fst r));
          use = (if own then nt_range our else r)
      in if fst use \<le> 1024 then
           (let use' = (2000, snd use);
                our' = (if own then our\<lparr>nt_range := use'\<rparr> else our)
            in (if fst use' \<ge> snd use' then Inl ValueError else Inr use', our'))
         else (Inr use, our))"

definition predict_pair :: "nat_desc \<Rightarrow> nat_desc \<Rightarrow> int \<Rightarrow> int result" where
  "predict_pair a b use_stun_port =
     (let (strict, unrestrict) = (if nt_type b = RESTRICT_PORT_NAT then (b, a) else (a, b));
          rand = (dl_type (nt_delta strict) = RANDOM_DELTA)
      in if rand \<and> nt_is_hard unrestrict then Inl ValueError
         else if rand \<and> \<not> in_range STUN_PORT (nt_range unrestrict) then Inl ValueError
         else Inr (if rand then 1 else use_stun_port))"

definition nats_can_predict :: "nat_desc \<Rightarrow> nat_desc \<Rightarrow> int result" where
  "nats_can_predict our their =
     (let ours = (nt_type our = RESTRICT_PORT_NAT); other = (nt_type their = RESTRICT_PORT_NAT) in
      if ours \<and> other \<and>
         (dl_type (nt_delta our) = RANDOM_DELTA \<or> dl_type (nt_delta their) = RANDOM_DELTA)
      then Inl ValueError
      else if ours \<or> other
      then bindr (predict_pair our their 0) (\<lambda>u. predict_pair their our u)
      else Inr 0)"

section \<open>What the counters count\<close>

definition pairs :: "mapping_result list \<Rightarrow> (mapping_result \<times> mapping_result) list" where
  "pairs rs = zip (None # rs) rs"

definition is_equal :: "mapping_result \<times> mapping_result \<Rightarrow> bool" where
  "is_equal p = (case snd p of Some (l, Some m) \<Rightarrow> l = m | _ \<Rightarrow> False)"

text \<open>The local and the mapped distance of two successive results that can be compared.\<close>

definition dists :: "mapping_result \<times> mapping_result \<Rightarrow> (int \<times> int) option" where
  "dists p = (case p of
      (Some (pl, Some pm), Some (l, Some m)) \<Rightarrow>
        if pl = 0 \<or> pm = 0 then None
        else Some (\<bar>field_dist l pl MAX_PORT\<bar>, \<bar>field_dist m pm MAX_PORT\<bar>)
    | _ \<Rightarrow> None)"

definition is_preserv :: "mapping_result \<times> mapping_result \<Rightarrow> bool" where
  "is_preserv p = (\<not> is_equal p \<and> (case dists p of Some (l, m) \<Rightarrow> l = m | None \<Rightarrow> False))"

definition is_indep :: "int \<Rightarrow> mapping_result \<times> mapping_result \<Rightarrow> bool" where
  "is_indep d p = (case dists p of Some (l, m) \<Rightarrow> m = d \<and> l \<noteq> m \<and> l \<noteq> 1 | None \<Rightarrow> False)"

definition is_dep :: "int \<Rightarrow> mapping_result \<times> mapping_result \<Rightarrow> bool" where
  "is_dep d p = (case dists p of Some (l, m) \<Rightarrow> m = d \<and> l \<noteq> m \<and> l = 1 | None \<Rightarrow> False)"

abbreviation count :: "('a \<Rightarrow> bool) \<Rightarrow> 'a list \<Rightarrow> nat" where
  "count P xs \<equiv> length (filter P xs)"

definition get0 :: "counter \<Rightarrow> int \<Rightarrow> nat" where
  "get0 c k = (case map_of c k of None \<Rightarrow> 0 | Some n \<Rightarrow> n)"

lemma get0_bump: "get0 (bump k c) j = get0 c j + (if j = k then 1 else 0)"
  by (induction k c rule: bump.induct) (auto simp: get0_def)

lemma bump_pos: "(\<forall>(k, n) \<in> set c. 0 < n) \<Longrightarrow> (\<forall>(k, n) \<in> set (bump j c). 0 < n)"
  by (induction j c rule: bump.induct) auto

lemma keys_bump: "fst ` set (bump k c) = insert k (fst ` set c)"
  by (induction k c rule: bump.induct) auto

lemma distinct_bump: "distinct (map fst c) \<Longrightarrow> distinct (map fst (bump k c))"
  by (induction k c rule: bump.induct) (auto simp: keys_bump)

lemma put_one_keys: "fst ` set (put_one k c) = insert k (fst ` set c)"
  by (induction k c rule: put_one.induct) auto

definition counts_ok :: "delta_counts \<Rightarrow> (mapping_result \<times> mapping_result) list \<Rightarrow> bool" where
  "counts_ok c ps \<longleftrightarrow>
     get0 (dc_delta c) EQUAL_DELTA = count is_equal ps \<and>
     get0 (dc_delta c) PRESERV_DELTA = count is_preserv ps \<and>
     (\<forall>d. get0 (dc_dist c) d = count (is_indep d) ps) \<and>
     (\<forall>d. get0 (dc_local c) d = count (is_dep d) ps) \<and>
     distinct (map fst (dc_dist c)) \<and> distinct (map fst (dc_local c))"

lemma delta_step_eq:
  "delta_step prev cur c =
     (let p = (prev, cur) in
      c\<lparr>dc_delta := (if is_preserv p then bump PRESERV_DELTA else id)
                      ((if is_equal p then bump EQUAL_DELTA else id) (dc_delta c)),
        dc_dist := (case dists p of Some (l, m) \<Rightarrow> if is_indep m p then bump m (dc_dist c) else dc_dist c | None \<Rightarrow> dc_dist c),
        dc_local := (case dists p of Some (l, m) \<Rightarrow> if is_dep m p then bump m (dc_local c) else dc_local c | None \<Rightarrow> dc_local c),
        dc_preserv := (case dists p of Some (l, m) \<Rightarrow> if is_preserv p then put_one m (dc_preserv c) else dc_preserv c | None \<Rightarrow> dc_preserv c)\<rparr>)"
proof (cases "\<exists>l m. cur = Some (l, Some m)")
  case False
  then show ?thesis
    by (auto simp: delta_step_def is_equal_def is_preserv_def dists_def split: option.split prod.split)
next
  case True
  then obtain l m where cur: "cur = Some (l, Some m)" by blast
  show ?thesis
  proof (cases "\<exists>pl pm. prev = Some (pl, Some pm)")
    case False
    then show ?thesis
      by (auto simp: cur delta_step_def is_equal_def is_preserv_def dists_def split: option.split prod.split)
  next
    case True
    then obtain pl pm where prev: "prev = Some (pl, Some pm)" by blast
    show ?thesis
      by (simp add: cur prev delta_step_def is_equal_def is_preserv_def is_indep_def is_dep_def dists_def Let_def)
  qed
qed

lemma delta_step_counts:
  assumes "counts_ok c ps"
  shows "counts_ok (delta_step prev cur c) (ps @ [(prev, cur)])"
proof -
  let ?p = "(prev, cur)"
  have neq: "EQUAL_DELTA \<noteq> PRESERV_DELTA" by (simp add: delta_types)
  have dist: "get0 (case dists ?p of Some (l, m) \<Rightarrow> if P m ?p then bump m k else k | None \<Rightarrow> k) d =
      get0 k d + (if P d ?p then 1 else 0)"
    if "\<And>d. P d ?p \<Longrightarrow> \<exists>l. dists ?p = Some (l, d)" for P d k
    using that by (auto simp: get0_bump split: option.split)
  have di: "is_indep d ?p \<Longrightarrow> \<exists>l. dists ?p = Some (l, d)" "is_dep d ?p \<Longrightarrow> \<exists>l. dists ?p = Some (l, d)" for d
    by (auto simp: is_indep_def is_dep_def split: option.splits)
  have sel: "dc_delta (delta_step prev cur c) = (if is_preserv ?p then bump PRESERV_DELTA else id)
                      ((if is_equal ?p then bump EQUAL_DELTA else id) (dc_delta c))"
    "dc_dist (delta_step prev cur c) = (case dists ?p of Some (l, m) \<Rightarrow> if is_indep m ?p then bump m (dc_dist c) else dc_dist c | None \<Rightarrow> dc_dist c)"
    "dc_local (delta_step prev cur c) = (case dists ?p of Some (l, m) \<Rightarrow> if is_dep m ?p then bump m (dc_local c) else dc_local c | None \<Rightarrow> dc_local c)"
    by (simp_all add: delta_step_eq Let_def)
  note ok = assms [unfolded counts_ok_def]
  have "distinct (map fst (dc_dist (delta_step prev cur c)))" "distinct (map fst (dc_local (delta_step prev cur c)))"
    unfolding sel using ok by (auto simp: distinct_bump split: option.split)
  moreover have "get0 (dc_dist (delta_step prev cur c)) d = count (is_indep d) (ps @ [?p])" for d
    unfolding sel using dist [of is_indep "dc_dist c" d, OF di(1)] ok by simp
  moreover have "get0 (dc_local (delta_step prev cur c)) d = count (is_dep d) (ps @ [?p])" for d
    unfolding sel using dist [of is_dep "dc_local c" d, OF di(2)] ok by simp
  moreover have "get0 (dc_delta (delta_step prev cur c)) EQUAL_DELTA = count is_equal (ps @ [?p])"
      "get0 (dc_delta (delta_step prev cur c)) PRESERV_DELTA = count is_preserv (ps @ [?p])"
    unfolding sel using ok neq by (simp_all add: get0_bump)
  ultimately show ?thesis by (simp add: counts_ok_def)
qed

lemma delta_loop_counts:
  "counts_ok c ps \<Longrightarrow> counts_ok (delta_loop prev rs c) (ps @ zip (prev # rs) rs)"
proof (induction prev rs c arbitrary: ps rule: delta_loop.induct)
  case (2 prev x xs c)
  from 2(1) [OF delta_step_counts [OF 2(2), of prev x]] show ?case by simp
qed simp

lemma get_delta_value_counts: "counts_ok (get_delta_value rs) (pairs rs)"
  unfolding get_delta_value_def pairs_def
  by (rule delta_loop_counts [of no_counts "[]", simplified]) (simp add: counts_ok_def no_counts_def get0_def)

lemma find_SomeD: "find P xs = Some x \<Longrightarrow> P x \<and> x \<in> set xs"
  by (induction xs) (auto split: if_splits)

lemma first_key_Some:
  assumes "distinct (map fst c)" "first_key t c = Some k"
  shows "t \<le> get0 c k"
proof -
  obtain n where "find (\<lambda>(k, n). t \<le> n) c = Some (k, n)" using assms(2) by (auto simp: first_key_def)
  then have "t \<le> n" "(k, n) \<in> set c" by (auto dest: find_SomeD)
  then show ?thesis using assms(1) by (simp add: get0_def)
qed

lemma first_key_None: "0 < t \<Longrightarrow> first_key t c = None \<Longrightarrow> get0 c k < t"
  by (fastforce simp: first_key_def find_None_iff get0_def not_le split: option.split dest!: map_of_SomeD)

lemma get0_le: "(case map_of c k of None \<Rightarrow> False | Some n \<Rightarrow> t \<le> n) \<Longrightarrow> t \<le> get0 c k"
  by (auto simp: get0_def split: option.splits)

lemma round_one_Some:
  assumes "counts_ok c ps" "round_one t c = Some d"
  shows "dl_type d = EQUAL_DELTA \<and> t \<le> count is_equal ps \<or>
    dl_type d = PRESERV_DELTA \<and> t \<le> count is_preserv ps \<or>
    dl_type d = INDEPENDENT_DELTA \<and> t \<le> count (is_indep (dl_value d)) ps"
proof -
  define names where "names = (if length (dc_preserv c) \<le> 1 then [EQUAL_DELTA] else [EQUAL_DELTA, PRESERV_DELTA])"
  let ?P = "\<lambda>k. case map_of (dc_delta c) k of None \<Rightarrow> False | Some n \<Rightarrow> t \<le> n"
  show ?thesis
  proof (cases "find ?P names")
    case None
    with assms(2) obtain k where "d = delta_info INDEPENDENT_DELTA k" "first_key t (dc_dist c) = Some k"
      by (auto simp: round_one_def Let_def names_def)
    with assms(1) first_key_Some [of "dc_dist c" t k] show ?thesis by (simp add: delta_info_def counts_ok_def)
  next
    case (Some k)
    then have "k \<in> set names" "t \<le> get0 (dc_delta c) k" by (auto dest: find_SomeD intro: get0_le)
    moreover have "d = delta_info k 0" using assms(2) Some by (simp add: round_one_def Let_def names_def)
    ultimately show ?thesis using assms(1)
      by (auto simp: names_def delta_info_def counts_ok_def split: if_splits)
  qed
qed

section \<open>Properties\<close>

text \<open>The delta that \<open>delta_test\<close> reports is backed by at least \<open>threshold\<close> observations of its
  round: equal ports; successive results whose mapped distance is the local one; mapped distances of the
  reported size at a local distance other than it and other than one; or, in the second round, at local distance one. It is
  random only when no mapped distance reached the threshold at local distance one.\<close>

theorem delta_test_evidence:
  assumes "delta_test clients test_no threshold concurrency r1 r2 = Inr d" "0 < threshold"
  defines "s1 \<equiv> (if concurrency then r1 else filter (\<lambda>r. r \<noteq> None) r1)"
  shows "dl_type d = EQUAL_DELTA \<and> threshold \<le> count is_equal (pairs s1) \<or>
    dl_type d = PRESERV_DELTA \<and> threshold \<le> count is_preserv (pairs s1) \<or>
    dl_type d = INDEPENDENT_DELTA \<and> threshold \<le> count (is_indep (dl_value d)) (pairs s1) \<or>
    dl_type d = DEPENDENT_DELTA \<and> threshold \<le> count (is_dep (dl_value d)) (pairs r2) \<or>
    dl_type d = RANDOM_DELTA \<and> (\<forall>k. count (is_dep k) (pairs r2) < threshold)"
proof -
  have run: "(case round_one threshold (get_delta_value s1) of
      Some d \<Rightarrow> d | None \<Rightarrow> round_two threshold (get_delta_value r2)) = d"
    using assms(1) by (auto simp: delta_test_def s1_def Let_def split: if_splits option.splits)
  show ?thesis
  proof (cases "round_one threshold (get_delta_value s1)")
    case (Some x)
    with run round_one_Some [OF get_delta_value_counts Some] show ?thesis by auto
  next
    case None
    note ok = get_delta_value_counts [of r2, unfolded counts_ok_def]
    have "get0 (dc_local (get_delta_value r2)) k = count (is_dep k) (pairs r2)" for k using ok by blast
    with None run ok first_key_Some [of "dc_local (get_delta_value r2)" threshold]
      first_key_None [OF assms(2), of "dc_local (get_delta_value r2)"]
    show ?thesis by (auto simp: round_two_def delta_info_def split: option.splits)
  qed
qed

theorem delta_test_evidence_witness:
  "delta_test 4 4 2 True [Some (5000, Some 100), Some (7000, Some 102), Some (9000, Some 104), None] [] =
     Inr (delta_info INDEPENDENT_DELTA 2) \<and>
   2 \<le> count (is_indep 2) (pairs [Some (5000, Some 100), Some (7000, Some 102), Some (9000, Some 104), None])"
proof -
  have "delta_test 4 4 2 True [Some (5000, Some 100), Some (7000, Some 102), Some (9000, Some 104), None] [] =
     Inr (delta_info INDEPENDENT_DELTA 2)" by code_simp
  with delta_test_evidence [OF this] show ?thesis by (simp add: delta_info_def delta_types)
qed

text \<open>\<open>nats_intersect\<close> returns part of our own port range with every port above 1024, and part of
  the common range whenever that is wide enough; the descriptor of our NAT is changed exactly when its
  own range was chosen and started at 1024 or below.\<close>

theorem nats_intersect_result:
  assumes "fst (nt_range our) \<le> snd (nt_range our)" "fst (nt_range their) \<le> snd (nt_range their)"
    and "nats_intersect our their test_no = (Inr r, our')"
  shows "1024 < fst r \<and> fst r \<le> snd r \<and> fst (nt_range our) \<le> fst r \<and> snd r \<le> snd (nt_range our) \<and>
    (if range_intersects (nt_range our) (nt_range their) \<and>
        test_no \<le> len_range (intersect_range (nt_range our) (nt_range their))
     then fst (nt_range their) \<le> fst r \<and> snd r \<le> snd (nt_range their) \<and> our' = our
     else our' = (if fst (nt_range our) \<le> 1024 then our\<lparr>nt_range := (2000, snd (nt_range our))\<rparr> else our))"
  using assms
  by (cases "range_intersects (nt_range our) (nt_range their)")
     (auto simp: nats_intersect_def Let_def len_range_def intersect_range_eq range_intersects_overlap split: if_splits)

theorem nats_intersect_result_witness:
  "snd (nats_intersect (nat_info None None None) (nat_info None None (Some (35000, 35001))) 10)
     \<noteq> nat_info None None None"
proof -
  have run: "nats_intersect (nat_info None None None) (nat_info None None (Some (35000, 35001))) 10 =
      (Inr (2000, 65535), (nat_info None None None)\<lparr>nt_range := (2000, 65535)\<rparr>)"
    by code_simp
  have "nt_range (nat_info None None None) = (1, 65535)" by (simp add: nat_info_def MAX_PORT_def Let_def)
  moreover have "nt_range (snd (nats_intersect (nat_info None None None) (nat_info None None (Some (35000, 35001))) 10)) = (2000, 65535)"
    using nats_intersect_result [OF _ _ run] by (simp add: run)
  ultimately show ?thesis by (intro notI) simp
qed

text \<open>\<open>nats_can_predict\<close> does not depend on the order of the two NATs, never fails without a
  port-restricted one, and answers the STUN port exactly when one side is port restricted with a random delta
  and the other side is neither hard nor limited to ports without 3478.\<close>

definition strict_random :: "nat_desc \<Rightarrow> bool" where
  "strict_random n \<longleftrightarrow> nt_type n = RESTRICT_PORT_NAT \<and> dl_type (nt_delta n) = RANDOM_DELTA"

definition can_reply :: "nat_desc \<Rightarrow> bool" where
  "can_reply n \<longleftrightarrow> nt_type n \<noteq> RESTRICT_PORT_NAT \<and> \<not> nt_is_hard n \<and> in_range STUN_PORT (nt_range n)"

theorem nats_can_predict_spec:
  "nats_can_predict a b = nats_can_predict b a \<and>
   nats_can_predict a b =
     (if strict_random a then (if can_reply b then Inr 1 else Inl ValueError)
      else if strict_random b then (if can_reply a then Inr 1 else Inl ValueError) else Inr 0)"
  by (auto simp: nats_can_predict_def predict_pair_def strict_random_def can_reply_def Let_def)

end
