(* ===== verification/IpRange.thy ===== *)
theory IpRange
  imports IpAddr
begin

text \<open>
  \<open>net/ip_range.py\<close>: \<open>IPRange\<close>, a block of addresses given by a base address and a number of
  host bits. The constructor's normalisation, its derived fields and its errors, the circular indexing,
  slices and iteration, the comparisons and the dictionary form. \<open>ipaddress\<close>'s table of private
  networks differs between Python versions and is the argument \<open>priv\<close>.
\<close>

section \<open>Construction\<close>

record IPRange =
  ir_ip :: ip_arg
  ir_netmask :: ip_arg
  ir_af :: af
  ir_bitlen :: nat
  ir_nw :: int
  ir_host :: int
  ir_host_no :: int
  ir_private :: bool
  ir_public :: bool
  ir_r :: rng
  ir_subnet :: "int option"

definition BLACK_HOLE_IPS :: "string list" where
  "BLACK_HOLE_IPS = [''192.0.2.1'', ''0100:0000:0000:0000:0000:0000:0000:0001'']"

definition norm_arg :: "ip_arg \<Rightarrow> ip_arg result" where
  "norm_arg a = (case a of IpStr s \<Rightarrow> bindr (ip_norm s) (\<lambda>t. Inr (IpStr t)) | _ \<Rightarrow> Inr a)"

text \<open>The family and value of the address argument: a small integer takes the family of the netmask,
  everything else its own.\<close>

definition base_addr :: "ip_arg \<Rightarrow> ip_arg option \<Rightarrow> (ip_arg \<times> ipa) result" where
  "base_addr ip netmask =
     bindr (case ip of
        IpInt n \<Rightarrow>
          if n < 2 ^ 31 then
            (case netmask of
               None \<Rightarrow> Inl ValueError
             | Some m \<Rightarrow> bindr (ip_address m) (\<lambda>x. Inr (Some (v_to_af (af_to_v (fst x))))))
          else Inr None
      | _ \<Rightarrow> Inr None) (\<lambda>forced.
     bindr (norm_arg ip) (\<lambda>ip1.
     bindr (case (forced, ip1) of
              (Some f, IpInt n) \<Rightarrow> ipa_of f n
            | _ \<Rightarrow> ip_address ip1) (\<lambda>x. Inr (ip1, x))))"

text \<open>The derived fields from the base address, the netmask and the number of host bits; \<open>get_bits\<close>
  with a negative length raises.\<close>

definition derive ::
  "(af \<Rightarrow> int \<Rightarrow> bool) \<Rightarrow> ip_arg \<Rightarrow> ipa \<Rightarrow> ip_arg \<Rightarrow> int \<Rightarrow> IPRange result" where
  "derive priv ip x nmask bl =
     (let f = fst x; n = snd x; top = af_bitlen f in
      if bl > int top then Inl ValueError
      else if bl < 0 then Inl ValueError
      else
        (let b = nat bl;
             host = (if b \<noteq> 0 then get_bits n b 0 else 0);
             nw = n - host;
             host_no = (if b \<noteq> 0 \<and> b \<noteq> top then 2 ^ b - 1 else 1);
             private = priv f n;
             hole = (case ip of IpStr s \<Rightarrow> s \<in> set BLACK_HOLE_IPS | _ \<Rightarrow> False);
             private' = (if nw = 0 \<or> hole then False else private)
         in if host_no = 0 then Inl ValueError
            else Inr \<lparr>ir_ip = ip, ir_netmask = nmask, ir_af = f, ir_bitlen = b, ir_nw = nw, ir_host = host,
                   ir_host_no = host_no, ir_private = private', ir_public = \<not> private',
                   ir_r = (if b = 0 then (nw, nw) else (nw, nw + host_no)), ir_subnet = None\<rparr>))"

text \<open>\<open>IPRange.__init__\<close>; without a netmask the number of host bits defaults to zero (the \<open>af\<close>
  argument has no other effect), with one it is ignored.\<close>

definition ip_range ::
  "(af \<Rightarrow> int \<Rightarrow> bool) \<Rightarrow> ip_arg \<Rightarrow> ip_arg option \<Rightarrow> int option \<Rightarrow> IPRange result" where
  "ip_range priv ip netmask bitlen =
     (if netmask = Some ip then Inl ValueError
      else bindr (case netmask of None \<Rightarrow> Inr None | Some m \<Rightarrow> bindr (norm_arg m) (\<lambda>t. Inr (Some t))) (\<lambda>nmask.
        bindr (base_addr ip netmask) (\<lambda>(ip1, x).
          let top = int (af_bitlen (fst x)) in
          case nmask of
            None \<Rightarrow>
              (let bl = (case bitlen of None \<Rightarrow> 0 | Some b \<Rightarrow> b)
               in bindr (cidr_to_netmask (top - bl) (fst x)) (\<lambda>m. derive priv ip1 x (IpStr m) bl))
          | Some m \<Rightarrow>
              bindr (ip_address m) (\<lambda>mx.
                derive priv ip1 x m (top - int (hamming_weight (nat (snd mx))))))))"

section \<open>Indexing and iteration\<close>

definition ir_int :: "IPRange \<Rightarrow> int" where
  "ir_int r = ir_nw r + ir_host r"

definition ir_to_bytes :: "IPRange \<Rightarrow> bytes" where
  "ir_to_bytes r = be_bytes (af_bytes (ir_af r)) (ir_int r)"

definition get_value :: "IPRange \<Rightarrow> int \<Rightarrow> ipa result" where
  "get_value r i =
     (if ir_bitlen r = 0 then ipa_of (ir_af r) (ir_nw r)
      else (let j = (if i < 0 then i else i + 1);
                h = j mod (ir_host_no r + 1);
                h' = (if h = 0 then 1 else h)
            in ipa_of (ir_af r) (ir_nw r + h')))"

text \<open>\<open>slice.indices(n)\<close> and the index list \<open>range(start, stop, step)\<close>.\<close>

definition slice_bound :: "int \<Rightarrow> int \<Rightarrow> int \<Rightarrow> int \<Rightarrow> int option \<Rightarrow> int" where
  "slice_bound n lo hi dflt b =
     (case b of None \<Rightarrow> dflt
      | Some v \<Rightarrow> if v < 0 then max lo (v + n) else min hi v)"

definition slice_indices :: "int option \<Rightarrow> int option \<Rightarrow> int option \<Rightarrow> int \<Rightarrow> (int \<times> int \<times> int) result" where
  "slice_indices start stop step n =
     (let st = (case step of None \<Rightarrow> 1 | Some s \<Rightarrow> s) in
      if st = 0 then Inl ValueError
      else if st > 0 then Inr (slice_bound n 0 n 0 start, slice_bound n 0 n n stop, st)
      else Inr (slice_bound n (- 1) (n - 1) (n - 1) start, slice_bound n (- 1) (n - 1) (- 1) stop, st))"

definition py_range :: "int \<Rightarrow> int \<Rightarrow> int \<Rightarrow> int list" where
  "py_range a b s =
     (let k = (if s > 0 then (b - a + s - 1) div s else (a - b - s - 1) div (- s))
      in map (\<lambda>i. a + int i * s) [0..<nat k])"

datatype ir_key = KInt int | KTuple "int list" | KSlice "int option" "int option" "int option"

definition getitem :: "IPRange \<Rightarrow> ir_key \<Rightarrow> ipa list result" where
  "getitem r k = (case k of
      KInt i \<Rightarrow> bindr (get_value r i) (\<lambda>x. Inr [x])
    | KTuple is \<Rightarrow> mapr (get_value r) is
    | KSlice a b s \<Rightarrow>
        bindr (slice_indices a b s (ir_host_no r)) (\<lambda>(a', b', s'). mapr (get_value r) (py_range a' b' s')))"

text \<open>\<open>__add__\<close> and \<open>__sub__\<close>, with a range or an integer.\<close>

definition ir_add :: "IPRange \<Rightarrow> IPRange + int \<Rightarrow> ipa result" where
  "ir_add r n = (case n of Inl o' \<Rightarrow> get_value r (ir_host o') | Inr k \<Rightarrow> get_value r k)"

definition ir_sub :: "IPRange \<Rightarrow> IPRange + int \<Rightarrow> ipa result" where
  "ir_sub r n = (case n of Inl o' \<Rightarrow> get_value r (- ir_host o') | Inr k \<Rightarrow> get_value r (- k))"

record IPRangeIter =
  it_ipr :: IPRange
  it_reverse :: bool
  it_host_p :: int

definition ir_iter :: "IPRange \<Rightarrow> bool \<Rightarrow> IPRangeIter" where
  "ir_iter r rv = \<lparr>it_ipr = r, it_reverse = rv, it_host_p = 0\<rparr>"

text \<open>\<open>__next__\<close>: None is \<open>StopIteration\<close>.\<close>

definition it_next :: "IPRangeIter \<Rightarrow> (ipa \<times> IPRangeIter) option result" where
  "it_next it =
     (let r = it_ipr it; p = it_host_p it in
      if ir_host_no r \<le> p then Inr None
      else bindr (get_value r (if it_reverse it then (ir_host_no r - 1) - p else p))
             (\<lambda>x. Inr (Some (x, it\<lparr>it_host_p := p + 1\<rparr>))))"

text \<open>A \<open>for\<close> loop over the iterator, with at most \<open>k\<close> rounds.\<close>

fun it_list :: "nat \<Rightarrow> IPRangeIter \<Rightarrow> ipa list result" where
  "it_list 0 it = Inr []"
| "it_list (Suc k) it =
     bindr (it_next it) (\<lambda>o'. case o' of
         None \<Rightarrow> Inr []
       | Some (x, it') \<Rightarrow> bindr (it_list k it') (\<lambda>xs. Inr (x # xs)))"

section \<open>Comparison and dictionary form\<close>

datatype other = ORange IPRange | OArg ip_arg

definition convert_other :: "(af \<Rightarrow> int \<Rightarrow> bool) \<Rightarrow> other \<Rightarrow> IPRange result" where
  "convert_other priv x = (case x of
      ORange r \<Rightarrow> Inr r
    | OArg a \<Rightarrow> bindr (ip_address a) (\<lambda>ipa. ip_range priv (IpObj ipa) None None))"

definition ir_eq :: "IPRange \<Rightarrow> IPRange \<Rightarrow> bool" where
  "ir_eq r s = range_intersects (ir_r r) (ir_r s)"

definition ir_lt :: "IPRange \<Rightarrow> IPRange \<Rightarrow> bool" where
  "ir_lt r s \<longleftrightarrow> snd (ir_r r) < snd (ir_r s)"

definition ir_contains :: "(af \<Rightarrow> int \<Rightarrow> bool) \<Rightarrow> IPRange \<Rightarrow> other \<Rightarrow> bool result" where
  "ir_contains priv r x = bindr (convert_other priv x) (\<lambda>s. Inr (ir_eq r s))"

definition ipr_norm :: "IPRange \<Rightarrow> string result" where
  "ipr_norm r = bindr (get_value r 0) (\<lambda>x. ip_norm (ipa_text x))"

record ir_dict =
  id_ip :: ip_arg
  id_host_limit :: int
  id_af :: af
  id_subnet :: "int option"

definition to_dict :: "IPRange \<Rightarrow> ir_dict" where
  "to_dict r = \<lparr>id_ip = ir_ip r, id_host_limit = ir_host_no r, id_af = ir_af r, id_subnet = ir_subnet r\<rparr>"

text \<open>\<open>math.ceil(math.log2(n))\<close> for a positive integer; exact on the powers of two it is applied to.\<close>

fun ceil_log2 :: "nat \<Rightarrow> nat" where
  "ceil_log2 n = (if n \<le> 1 then 0 else Suc (ceil_log2 ((n + 1) div 2)))"

declare ceil_log2.simps [simp del]

definition from_dict :: "(af \<Rightarrow> int \<Rightarrow> bool) \<Rightarrow> ir_dict \<Rightarrow> IPRange result" where
  "from_dict priv d =
     (let bl = (if id_host_limit d \<le> 1 then 0 else int (ceil_log2 (nat (id_host_limit d + 1))))
      in bindr (ip_range priv (id_ip d) None (Some bl)) (\<lambda>r. Inr (r\<lparr>ir_subnet := id_subnet d\<rparr>)))"

definition deepcopy :: "(af \<Rightarrow> int \<Rightarrow> bool) \<Rightarrow> IPRange \<Rightarrow> IPRange result" where
  "deepcopy priv r =
     bindr (ip_range priv (ir_ip r) (Some (ir_netmask r)) (Some (int (ir_bitlen r))))
       (\<lambda>s. Inr (s\<lparr>ir_subnet := ir_subnet r\<rparr>))"

definition IPR :: "(af \<Rightarrow> int \<Rightarrow> bool) \<Rightarrow> string \<Rightarrow> int \<Rightarrow> IPRange result" where
  "IPR priv ip bitlen = ip_range priv (IpStr ip) None (Some bitlen)"

definition ensure_ip_is_public :: "(af \<Rightarrow> int \<Rightarrow> bool) \<Rightarrow> string \<Rightarrow> string result" where
  "ensure_ip_is_public priv ip =
     bindr (ip_norm ip) (\<lambda>t. bindr (ip_range priv (IpStr t) None None) (\<lambda>r.
       if ir_private r then Inl ValueError else Inr t))"

section \<open>The well-formed ranges\<close>

text \<open>The network part is a multiple of the block, the host part is below it, the block lies inside the
  family, and the derived fields are functions of these.\<close>

definition ir_wf :: "IPRange \<Rightarrow> bool" where
  "ir_wf r \<longleftrightarrow>
     ir_bitlen r \<le> af_bitlen (ir_af r) \<and>
     2 ^ ir_bitlen r dvd ir_nw r \<and> 0 \<le> ir_nw r \<and> ir_nw r + 2 ^ ir_bitlen r \<le> 2 ^ af_bitlen (ir_af r) \<and>
     0 \<le> ir_host r \<and> ir_host r < 2 ^ ir_bitlen r \<and>
     ir_host_no r = (if ir_bitlen r = 0 \<or> ir_bitlen r = af_bitlen (ir_af r) then 1 else 2 ^ ir_bitlen r - 1) \<and>
     ir_r r = (ir_nw r, ir_nw r + (if ir_bitlen r = 0 then 0 else ir_host_no r)) \<and>
     ir_public r = (\<not> ir_private r)"

lemma get_bits_0: "get_bits n b 0 = n mod 2 ^ b"
  by (simp add: get_bits_mod)

lemma block_inside:
  fixes n :: int
  assumes "0 \<le> n" "n < 2 ^ w" "b \<le> w"
  shows "0 \<le> n - n mod 2 ^ b" "n - n mod 2 ^ b + 2 ^ b \<le> 2 ^ w"
proof -
  have w: "(2 :: int) ^ w = 2 ^ (w - b) * 2 ^ b" using assms(3) by (simp flip: power_add)
  show "0 \<le> n - n mod 2 ^ b" using assms(1) by (simp add: zmod_le_nonneg_dividend)
  have "0 \<le> n mod 2 ^ b" by simp
  then have "n div 2 ^ b * 2 ^ b \<le> n" by (simp flip: minus_mod_eq_div_mult)
  then have "n div 2 ^ b * 2 ^ b < 2 ^ (w - b) * 2 ^ b" using assms(2) unfolding w by linarith
  then have "n div 2 ^ b < 2 ^ (w - b)" by (rule mult_right_less_imp_less) simp
  then have "(n div 2 ^ b + 1) * 2 ^ b \<le> 2 ^ (w - b) * 2 ^ b" by (intro mult_right_mono) auto
  then show "n - n mod 2 ^ b + 2 ^ b \<le> 2 ^ w"
    unfolding w by (simp add: minus_mod_eq_div_mult algebra_simps)
qed

lemma ones_pos: "0 < b \<Longrightarrow> (2 :: int) ^ b - 1 \<noteq> 0"
  using power_increasing [of 1 b "2 :: int"] by auto

definition built :: "bool \<Rightarrow> ip_arg \<Rightarrow> ipa \<Rightarrow> ip_arg \<Rightarrow> nat \<Rightarrow> IPRange" where
  "built private ip x m b =
     (let nw = snd x - snd x mod 2 ^ b;
          k = (if b = 0 \<or> b = af_bitlen (fst x) then 1 else 2 ^ b - 1)
      in \<lparr>ir_ip = ip, ir_netmask = m, ir_af = fst x, ir_bitlen = b, ir_nw = nw, ir_host = snd x mod 2 ^ b,
          ir_host_no = k, ir_private = private, ir_public = \<not> private,
          ir_r = (nw, nw + (if b = 0 then 0 else k)), ir_subnet = None\<rparr>)"

lemma derive_built:
  "b \<le> af_bitlen (fst x) \<Longrightarrow> \<exists>private. derive priv ip x m (int b) = Inr (built private ip x m b)"
  using ones_pos [of b] by (cases "b = 0") (simp_all add: derive_def built_def Let_def get_bits_0)

lemma built_wf: "ipa_ok x \<Longrightarrow> b \<le> af_bitlen (fst x) \<Longrightarrow> ir_wf (built p ip x m b)"
  using block_inside [of "snd x" "af_bitlen (fst x)" b]
  by (simp add: ir_wf_def built_def Let_def ipa_ok_def)

lemma derive_Inr:
  assumes "derive priv ip x m bl = Inr r"
  obtains p b where "bl = int b" "b \<le> af_bitlen (fst x)" "r = built p ip x m b"
proof -
  have "0 \<le> bl" "bl \<le> int (af_bitlen (fst x))"
    using assms by (auto simp: derive_def Let_def split: if_splits)
  then obtain b where b: "bl = int b" "b \<le> af_bitlen (fst x)" by (metis nonneg_int_cases of_nat_le_iff)
  with derive_built [OF b(2), of priv ip m] assms that show thesis by auto
qed

lemma derive_netmask:
  "derive priv ip x m' bl = map_sum id (\<lambda>r. r\<lparr>ir_netmask := m'\<rparr>) (derive priv ip x m bl)"
  unfolding derive_def Let_def if_distrib [of "map_sum id (\<lambda>r. r\<lparr>ir_netmask := m'\<rparr>)"] map_sum.simps id_apply
  by (intro if_cong refl) simp_all

definition arg_ok :: "ip_arg \<Rightarrow> bool" where
  "arg_ok a = (case a of IpObj x \<Rightarrow> ipa_ok x | _ \<Rightarrow> True)"

lemma ip_address_ok: "arg_ok a \<Longrightarrow> ip_address a = Inr x \<Longrightarrow> ipa_ok x"
proof (cases a)
  case (IpBytes b)
  then show "ip_address a = Inr x \<Longrightarrow> ipa_ok x"
    using be_val_bounds [of b] by (auto simp: ipa_ok_def af_bitlen_def split: if_splits)
qed (auto simp: arg_ok_def ipa_ok_def af_bitlen_def ipa_of_str_ok dest: ipa_of_str_ok split: if_splits)

lemma base_addr_Inr:
  assumes "base_addr ip m = Inr (ip1, x)"
  shows "norm_arg ip = Inr ip1 \<and> (ip_address ip1 = Inr x \<or> (\<exists>f n. ipa_of f n = Inr x))"
proof -
  obtain forced where "norm_arg ip = Inr ip1"
    and x: "(case (forced, ip1) of (Some f, IpInt n) \<Rightarrow> ipa_of f n | _ \<Rightarrow> ip_address ip1) = Inr x"
    using assms unfolding base_addr_def bindr_eq_Inr by blast
  moreover have "ip_address ip1 = Inr x \<or> (\<exists>f n. ipa_of f n = Inr x)"
    using x by (cases forced; cases ip1) auto
  ultimately show ?thesis by blast
qed

lemma norm_arg_ok: "norm_arg ip = Inr ip1 \<Longrightarrow> arg_ok ip \<Longrightarrow> arg_ok ip1"
  by (auto simp: norm_arg_def arg_ok_def bindr_eq_Inr split: ip_arg.splits)

lemma ipa_of_ok: "ipa_of f n = Inr x \<Longrightarrow> ipa_ok x"
  by (auto simp: ipa_of_def ipa_ok_def split: if_splits)

lemma base_addr_ok: "arg_ok ip \<Longrightarrow> base_addr ip m = Inr (ip1, x) \<Longrightarrow> ipa_ok x"
  using base_addr_Inr norm_arg_ok ip_address_ok ipa_of_ok by metis

lemma ip_range_derive:
  assumes "ip_range priv ip m b = Inr r"
  obtains ip1 x nm bl where "base_addr ip m = Inr (ip1, x)" "derive priv ip1 x nm bl = Inr r"
  using assms
  by (auto simp: ip_range_def Let_def bindr_eq_Inr split: if_splits option.splits)

section \<open>Indexing\<close>

lemma get_value_inside:
  assumes "ir_wf r"
  shows "\<exists>h. get_value r i = Inr (ir_af r, ir_nw r + h) \<and>
    (if ir_bitlen r = 0 then h = 0 else 1 \<le> h \<and> h \<le> ir_host_no r)"
proof (cases "ir_bitlen r = 0")
  case True
  with assms show ?thesis by (simp add: get_value_def ipa_of_def ir_wf_def)
next
  case False
  have "(2 :: int) ^ 1 \<le> 2 ^ ir_bitlen r" using False by (intro power_increasing) auto
  then have pos: "1 \<le> ir_host_no r" and le: "ir_host_no r \<le> 2 ^ ir_bitlen r - 1"
    using assms by (auto simp: ir_wf_def)
  define j where "j = (if i < 0 then i else i + 1) mod (ir_host_no r + 1)"
  have "0 \<le> j" "j < ir_host_no r + 1"
    unfolding j_def using pos by (intro pos_mod_sign pos_mod_bound, simp)+
  then have "1 \<le> (if j = 0 then 1 else j) \<and> (if j = 0 then 1 else j) \<le> ir_host_no r" using pos by auto
  moreover from this have "ipa_of (ir_af r) (ir_nw r + (if j = 0 then 1 else j)) = Inr (ir_af r, ir_nw r + (if j = 0 then 1 else j))"
    using assms le by (auto simp: ipa_of_def ir_wf_def)
  ultimately show ?thesis using False by (auto simp: get_value_def Let_def j_def)
qed

lemma get_value_pos:
  assumes "ir_wf r" "ir_bitlen r \<noteq> 0" "0 \<le> i" "i < ir_host_no r"
  shows "get_value r i = Inr (ir_af r, ir_nw r + (i + 1))"
    and "get_value r (i - ir_host_no r) = get_value r i"
proof -
  have le: "ir_host_no r \<le> 2 ^ ir_bitlen r - 1"
    using assms by (auto simp: ir_wf_def)
  have m: "(i + 1) mod (ir_host_no r + 1) = i + 1" using assms by simp
  then show "get_value r i = Inr (ir_af r, ir_nw r + (i + 1))"
    using assms le by (auto simp: get_value_def ipa_of_def ir_wf_def Let_def)
  have "(i - ir_host_no r) mod (ir_host_no r + 1) = (i - ir_host_no r + (ir_host_no r + 1)) mod (ir_host_no r + 1)"
    by (simp only: mod_add_self2)
  also have "\<dots> = i + 1" using m by simp
  finally show "get_value r (i - ir_host_no r) = get_value r i"
    using assms m by (simp add: get_value_def Let_def)
qed

lemma get_value_single: "ir_wf r \<Longrightarrow> ir_bitlen r = 0 \<Longrightarrow> get_value r i = Inr (ir_af r, ir_nw r)"
  using get_value_inside [of r i] by auto

text \<open>A loop over the iterator, from any position.\<close>

lemma it_list_from:
  assumes "\<And>i. 0 \<le> i \<Longrightarrow> i < ir_host_no r \<Longrightarrow> get_value r i = Inr (f i)" "0 \<le> p"
  shows "it_list n \<lparr>it_ipr = r, it_reverse = rv, it_host_p = p\<rparr> =
    Inr (map (\<lambda>i. f (if rv then ir_host_no r - 1 - i else i))
          (map (\<lambda>k. p + int k) [0..<min n (nat (ir_host_no r - p))]))"
  using assms(2)
proof (induction n arbitrary: p)
  case (Suc n)
  show ?case
  proof (cases "ir_host_no r \<le> p")
    case True
    then show ?thesis by (simp add: it_next_def)
  next
    case False
    then have "min (Suc n) (nat (ir_host_no r - p)) = Suc (min n (nat (ir_host_no r - (p + 1))))" by auto
    then have "map (\<lambda>k. p + int k) [0..<min (Suc n) (nat (ir_host_no r - p))] =
        p # map (\<lambda>k. (p + 1) + int k) [0..<min n (nat (ir_host_no r - (p + 1)))]"
      by (simp add: map_upt_Suc del: upt_Suc)
    moreover have "get_value r (if rv then ir_host_no r - 1 - p else p) = Inr (f (if rv then ir_host_no r - 1 - p else p))"
      using False Suc.prems by (intro assms(1)) auto
    ultimately show ?thesis
      using False Suc.IH [of "p + 1"] Suc.prems by (simp add: it_next_def Let_def del: upt_Suc)
  qed
qed simp

section \<open>Properties\<close>

lemma built_fields [simp]:
  "ir_int (built p ip x m b) = snd x" "ir_af (built p ip x m b) = fst x" "ir_ip (built p ip x m b) = ip"
  "ir_bitlen (built p ip x m b) = b" "ir_subnet (built p ip x m b) = None" "ir_netmask (built p ip x m b) = m"
  by (simp_all add: built_def Let_def ir_int_def)

lemma ip_range_built:
  assumes "ip_range priv ip m bl = Inr r"
  obtains ip1 x nm p b where "base_addr ip m = Inr (ip1, x)" "b \<le> af_bitlen (fst x)"
    "derive priv ip1 x nm (int b) = Inr r" "r = built p ip1 x nm b"
  using ip_range_derive [OF assms] derive_Inr by metis

text \<open>Every \<open>IPRange\<close> the constructor returns is well formed: its network part is a multiple of
  the block size, its block lies inside the address family, the host part is below the block size, the
  derived fields agree with these, and its integer and packed forms are those of the address it was made from.\<close>

theorem ip_range_wf:
  assumes "ip_range priv ip m bl = Inr r" "arg_ok ip"
  shows "ir_wf r \<and> ipa_ok (ir_af r, ir_int r) \<and>
    ip_address (IpBytes (ir_to_bytes r)) = Inr (ir_af r, ir_int r)"
proof -
  obtain ip1 x nm p b where x: "base_addr ip m = Inr (ip1, x)" "b \<le> af_bitlen (fst x)"
    and r: "r = built p ip1 x nm b"
    using assms(1) by (rule ip_range_built)
  have ok: "ipa_ok x" using base_addr_ok assms(2) x(1) by blast
  then have "be_val (be_bytes (af_bytes (fst x)) (snd x)) = snd x"
    by (intro be_val_be_bytes_id) (simp_all add: ipa_ok_def af_bytes_bitlen)
  then have "ip_address (IpBytes (ir_to_bytes r)) = Inr x"
    by (cases x; cases "fst x") (simp_all add: r ir_to_bytes_def af_bytes_def)
  with built_wf [OF ok x(2)] ok r show ?thesis by simp
qed

lemma ip_range_int:
  "2 ^ 31 \<le> n \<Longrightarrow> n < 2 ^ 32 \<Longrightarrow> b \<le> 32 \<Longrightarrow>
   \<exists>p m. ip_range priv (IpInt n) None (Some (int b)) = Inr (built p (IpInt n) (IP4, n) m b)"
  using derive_built [of b "(IP4, n)" priv "IpInt n" "IpStr (ipa_text (IP4, mask_int 32 (nat (32 - int b))))"]
    cidr_to_netmask_text [of "32 - int b" IP4]
  by (simp add: ip_range_def base_addr_def norm_arg_def af_bitlen_def Let_def) blast

theorem ip_range_wf_witness:
  "\<exists>r :: IPRange. ip_range (\<lambda>_ _. True) (IpInt 3232235776) None (Some 8) = Inr r \<and> ir_wf r \<and> ir_host_no r = 255"
proof -
  obtain p m where r: "ip_range (\<lambda>_ _. True) (IpInt 3232235776) None (Some (int 8)) =
      Inr (built p (IpInt 3232235776) (IP4, 3232235776) m 8)"
    using ip_range_int [of 3232235776 8 "\<lambda>_ _. True"] by auto
  moreover have "ir_host_no (built p (IpInt 3232235776) (IP4, 3232235776) m 8) = 255"
    by (simp add: built_def Let_def af_bitlen_def)
  ultimately show ?thesis using ip_range_wf [OF r] by (auto simp: arg_ok_def)
qed

text \<open>The file's own test says that an address whose host part is not blank is a single host (\<open>192.168.1.179\<close> with a
  netmask of 24 bits has \<open>host_no\<close> 1); the constructor makes it a range like any other.\<close>

theorem nonblank_host_is_range:
  "\<exists>r :: IPRange. ip_range priv (IpInt 3232235955) None (Some 8) = Inr r \<and> ir_host r = 179 \<and> ir_host_no r = 255"
proof -
  obtain p m where r: "ip_range priv (IpInt 3232235955) None (Some (int 8)) =
      Inr (built p (IpInt 3232235955) (IP4, 3232235955) m 8)"
    using ip_range_int [of 3232235955 8 priv] by auto
  moreover have "ir_host_no (built p (IpInt 3232235955) (IP4, 3232235955) m 8) = 255"
    "ir_host (built p (IpInt 3232235955) (IP4, 3232235955) m 8) = 179"
    by (simp_all add: built_def Let_def af_bitlen_def)
  ultimately show ?thesis by auto
qed

text \<open>Indexing a well-formed range never fails and stays inside the block. With host bits, the
  indices behave as on a Python list of its \<open>host_no\<close> addresses, negative ones included, and
  iterating forward or in reverse visits exactly that list; a single host answers itself for every index.\<close>

theorem ip_range_as_list:
  assumes "ir_wf r"
  defines "hosts \<equiv> map (\<lambda>i. (ir_af r, ir_nw r + (if ir_bitlen r = 0 then 0 else 1 + int i))) [0..<nat (ir_host_no r)]"
  shows "(\<exists>x. get_value r i = Inr x \<and> x \<in> set hosts) \<and>
    (\<forall>k < length hosts. get_value r (int k) = Inr (hosts ! k) \<and>
       get_value r (int k - int (length hosts)) = Inr (hosts ! k)) \<and>
    it_list (length hosts + n) (ir_iter r False) = Inr hosts \<and>
    it_list (length hosts + n) (ir_iter r True) = Inr (rev hosts)"
proof -
  have pos: "1 \<le> ir_host_no r"
    using assms(1) power_increasing [of 1 "ir_bitlen r" "2 :: int"] by (auto simp: ir_wf_def)
  then have len: "int (length hosts) = ir_host_no r" by (simp add: hosts_def)
  have nlen: "nat (ir_host_no r) = length hosts" by (simp add: hosts_def)
  obtain h where h: "get_value r i = Inr (ir_af r, ir_nw r + h)"
    "if ir_bitlen r = 0 then h = 0 else 1 \<le> h \<and> h \<le> ir_host_no r"
    using get_value_inside [OF assms(1)] by blast
  have "(ir_af r, ir_nw r + h) \<in> set hosts"
    using h(2) pos unfolding hosts_def set_map
    by (intro image_eqI [of _ _ "nat (h - 1)"]) (auto split: if_splits)
  moreover have val: "get_value r (int k) = Inr (hosts ! k) \<and> get_value r (int k - int (length hosts)) = Inr (hosts ! k)"
    if "k < length hosts" for k
  proof (cases "ir_bitlen r = 0")
    case True
    with that show ?thesis using get_value_single [OF assms(1)] by (simp add: hosts_def)
  next
    case False
    have "int k < ir_host_no r" using that len by linarith
    with False get_value_pos [OF assms(1) False, of "int k"] that len show ?thesis
      by (auto simp: hosts_def)
  qed
  have idx: "nat (ir_host_no r - 1 - int i) = length hosts - Suc i" for i using len by linarith
  have hv: "get_value r i = Inr (hosts ! nat i)" if "0 \<le> i" "i < ir_host_no r" for i
    using val [of "nat i"] that len by auto
  have run: "it_list (length hosts + n) (ir_iter r rv) =
      Inr (map (\<lambda>i. hosts ! nat (if rv then ir_host_no r - 1 - i else i)) (map int [0..<length hosts]))" for rv
    using it_list_from [OF hv, of 0 "length hosts + n" rv] by (simp add: ir_iter_def nlen)
  have "it_list (length hosts + n) (ir_iter r False) = Inr hosts"
    unfolding run by (auto intro!: nth_equalityI)
  moreover have "it_list (length hosts + n) (ir_iter r True) = Inr (rev hosts)"
    unfolding run using idx by (auto intro!: nth_equalityI simp: rev_nth)
  ultimately show ?thesis using h(1) val by blast
qed

theorem ip_range_as_list_witness:
  "it_list 5 (ir_iter (built False (IpInt 4) (IP4, 4) (IpInt 0) 2) True) = Inr [(IP4, 7), (IP4, 6), (IP4, 5)]"
proof -
  have "ir_wf (built False (IpInt 4) (IP4, 4) (IpInt 0) 2)"
    by (rule built_wf) (simp_all add: ipa_ok_def af_bitlen_def)
  from ip_range_as_list [OF this, of 0 2] show ?thesis
    by (simp add: built_def Let_def af_bitlen_def upt_rec numeral_eq_Suc)
qed

text \<open>Comparison uses only the numeric ranges: equality is reflexive and symmetric and holds exactly
  when the blocks overlap, whatever their families, so an IPv4 and an IPv6 host can be equal, equality is not
  transitive, and equal ranges can have different strings, which are what they are hashed by.\<close>

theorem ip_range_equality:
  assumes "ir_wf r" "ir_wf s"
  shows "ir_eq r r \<and> ir_eq r s = ir_eq s r \<and>
    (ir_eq r s \<longleftrightarrow> (\<exists>n. in_range n (ir_r r) \<and> in_range n (ir_r s))) \<and>
    (ir_bitlen r = 0 \<longrightarrow> ir_bitlen s = 0 \<longrightarrow> ir_eq r s = (ir_int r = ir_int s))"
proof -
  have ord: "ir_wf q \<Longrightarrow> fst (ir_r q) \<le> snd (ir_r q)" for q
    using power_increasing [of 0 "ir_bitlen q" "2 :: int"] by (auto simp: ir_wf_def)
  have "ir_eq r s \<longleftrightarrow> (\<exists>n. in_range n (ir_r r) \<and> in_range n (ir_r s))"
    using ord [OF assms(1)] ord [OF assms(2)] unfolding ir_eq_def
    by (auto simp: range_intersects_overlap in_range_def intro: exI [of _ "max (fst (ir_r r)) (fst (ir_r s))"])
  moreover have "ir_bitlen q = 0 \<Longrightarrow> ir_wf q \<Longrightarrow> ir_r q = (ir_int q, ir_int q)" for q
    by (simp add: ir_wf_def ir_int_def)
  then have "ir_bitlen r = 0 \<longrightarrow> ir_bitlen s = 0 \<longrightarrow> ir_eq r s = (ir_int r = ir_int s)"
    using assms by (auto simp: ir_eq_def range_intersects_def)
  ultimately show ?thesis using range_intersects_sym by (simp add: ir_eq_def)
qed

theorem ip_range_equality_witness:
  "\<exists>(r :: IPRange) (s :: IPRange) (t :: IPRange) (u :: IPRange).
     ir_eq r s \<and> ir_af r \<noteq> ir_af s \<and> ir_eq t u \<and> ir_eq u r \<and> \<not> ir_eq t r \<and> get_value t 0 \<noteq> get_value u 0"
proof -
  define r where "r = built False (IpInt 5) (IP4, 5) (IpInt 0) 0"
  define s where "s = built False (IpInt 5) (IP6, 5) (IpInt 0) 0"
  define t where "t = built False (IpInt 4) (IP4, 4) (IpInt 0) 0"
  define u where "u = built False (IpInt 4) (IP4, 4) (IpInt 0) 2"
  note defs = r_def s_def t_def u_def
  have wf: "ir_wf r" "ir_wf s" "ir_wf t" "ir_wf u"
    unfolding defs by (rule built_wf; simp add: ipa_ok_def af_bitlen_def)+
  have "ir_bitlen r = 0" "ir_bitlen s = 0" "ir_int r = ir_int s" by (simp_all add: defs)
  then have "ir_eq r s" using ip_range_equality [OF wf(1,2)] by blast
  moreover have "ir_eq t u \<and> ir_eq u r \<and> \<not> ir_eq t r"
    by (simp add: ir_eq_def defs built_def Let_def range_intersects_def af_bitlen_def)
  moreover have "get_value t 0 \<noteq> get_value u 0" "ir_af r \<noteq> ir_af s"
    by (simp_all add: defs built_def Let_def get_value_def ipa_of_def af_bitlen_def)
  ultimately show ?thesis by blast
qed

lemma ceil_log2_pow: "ceil_log2 (2 ^ b) = b"
proof (induction b)
  case (Suc b)
  have "(1 :: nat) \<le> 2 ^ b" by simp
  then have "\<not> (2 :: nat) ^ Suc b \<le> 1" unfolding power_Suc by linarith
  moreover have "((2 :: nat) ^ Suc b + 1) div 2 = 2 ^ b" by simp
  ultimately show ?case using Suc by (subst ceil_log2.simps) (simp only: if_False)
qed (simp add: ceil_log2.simps)

text \<open>The range of a printed address.\<close>

lemma ip_range_of_text:
  assumes "ipa_ok a"
  shows "\<exists>p m. ip_range priv (IpStr (ipa_text a)) None None = Inr (built p (IpStr (ipa_text a)) a m 0)"
proof -
  have "base_addr (IpStr (ipa_text a)) None = Inr (IpStr (ipa_text a), a)"
    using assms by (simp add: base_addr_def norm_arg_def ip_norm_plain ipa_of_str_text)
  then show ?thesis
    using derive_built [of 0 a priv "IpStr (ipa_text a)"] cidr_to_netmask_text [of "int (af_bitlen (fst a))" "fst a"]
    by (simp add: ip_range_def Let_def) blast
qed

text \<open>A range made from text survives its dictionary form, except for the netmask text it was
  given, as long as its number of host bits is neither one nor the full width; a range with one host bit comes
  back as a single host, because both store the same \<open>host_limit\<close>.\<close>

theorem ip_range_dict_roundtrip:
  assumes r: "ip_range priv (IpStr s) m bl = Inr r"
  shows "\<exists>nm. from_dict priv (to_dict (r\<lparr>ir_subnet := sn\<rparr>)) =
      (if ir_bitlen r = 1 \<or> ir_bitlen r = af_bitlen (ir_af r)
       then bindr (ip_range priv (ir_ip r) None None) (\<lambda>q. Inr (q\<lparr>ir_subnet := sn\<rparr>))
       else Inr (r\<lparr>ir_netmask := nm, ir_subnet := sn\<rparr>))"
proof -
  obtain ip1 x nm p b where x: "base_addr (IpStr s) m = Inr (ip1, x)" "b \<le> af_bitlen (fst x)"
    and d: "derive priv ip1 x nm (int b) = Inr r" "r = built p ip1 x nm b"
    using r by (rule ip_range_built)
  obtain t where t: "ip_norm s = Inr t" "ip1 = IpStr t" "ipa_of_str t = Inr x"
    using x(1) by (cases "ip_norm s") (auto simp: base_addr_def norm_arg_def bindr_eq_Inr)
  have "ip_norm t = Inr t" using ip_norm_Inr [OF t(1)] by blast
  then have again: "base_addr (IpStr t) None = Inr (IpStr t, x)"
    by (simp add: base_addr_def norm_arg_def t(3))
  let ?m = "IpStr (ipa_text (fst x, mask_int (af_bitlen (fst x)) (nat (int (af_bitlen (fst x)) - int b))))"
  have reb: "ip_range priv (IpStr t) None (Some (int b)) = Inr (r\<lparr>ir_netmask := ?m\<rparr>)"
    using again x(2) d(1) derive_netmask [of priv ip1 x ?m "int b" nm]
      cidr_to_netmask_text [of "int (af_bitlen (fst x)) - int b" "fst x"]
    by (simp add: ip_range_def Let_def t(2))
  have ni: "ip_range priv (IpStr t) None None = ip_range priv (IpStr t) None (Some 0)"
    by (simp add: ip_range_def Let_def)
  have dict: "to_dict (r\<lparr>ir_subnet := sn\<rparr>) =
      \<lparr>id_ip = IpStr t, id_host_limit = ir_host_no r, id_af = fst x, id_subnet = sn\<rparr>"
    by (simp add: to_dict_def d(2) t(2) built_def Let_def)
  have rb: "ir_bitlen r = b" "ir_af r = fst x" "ir_ip r = IpStr t" by (simp_all add: d(2) t(2))
  consider "b = 1 \<or> b = af_bitlen (fst x)" | "b = 0" | "b \<noteq> af_bitlen (fst x)" "2 \<le> b" by linarith
  then show ?thesis
  proof cases
    case 1
    then have "ir_host_no r = 1" by (auto simp: d(2) built_def Let_def)
    with 1 show ?thesis by (simp add: dict from_dict_def rb ni)
  next
    case 2
    then have "ir_host_no r = 1" by (simp add: d(2) built_def Let_def)
    moreover have "0 < af_bitlen (fst x)" by (simp add: af_bitlen_def)
    ultimately show ?thesis using 2 reb
      by (intro exI [of _ ?m]) (simp add: dict from_dict_def rb)
  next
    case 3
    then have no: "ir_host_no r = 2 ^ b - 1" by (auto simp: d(2) built_def Let_def)
    have "(2 :: int) ^ 2 \<le> 2 ^ b" using 3 by (intro power_increasing) auto
    then have "from_dict priv (to_dict (r\<lparr>ir_subnet := sn\<rparr>)) = Inr (r\<lparr>ir_netmask := ?m, ir_subnet := sn\<rparr>)"
      using reb by (simp add: dict from_dict_def no nat_power_eq ceil_log2_pow)
    with 3 show ?thesis by (intro exI [of _ ?m]) (simp add: rb)
  qed
qed

theorem ip_range_dict_roundtrip_witness:
  "\<exists>(r :: IPRange) nm. ir_bitlen r = 8 \<and>
     from_dict (\<lambda>_ _. True) (to_dict (r\<lparr>ir_subnet := Some 24\<rparr>)) = Inr (r\<lparr>ir_netmask := nm, ir_subnet := Some 24\<rparr>)"
proof -
  have "ipa_of_str ''10.0.0.5'' = Inr (IP4, be_val [10, 0, 0, 5])"
    by (rule quad_of_str) (simp add: show_nat.simps digit_c_lits)
  then have "base_addr (IpStr ''10.0.0.5'') None = Inr (IpStr ''10.0.0.5'', (IP4, be_val [10, 0, 0, 5]))"
    by (simp add: base_addr_def norm_arg_def ip_norm_def ipv6_norm_def ip_strip_cidr_def ip_strip_if_def quad_text
        show_nat.simps digit_c_lits)
  moreover obtain p m where "derive (\<lambda>_ _. True) (IpStr ''10.0.0.5'') (IP4, be_val [10, 0, 0, 5]) m (int 8) =
      Inr (built p (IpStr ''10.0.0.5'') (IP4, be_val [10, 0, 0, 5]) m 8)"
    "m = IpStr (ipa_text (IP4, mask_int 32 24))"
    using derive_built [of 8 "(IP4, be_val [10, 0, 0, 5])" "\<lambda>_ _. True" "IpStr ''10.0.0.5''"
      "IpStr (ipa_text (IP4, mask_int 32 24))"] by (auto simp: af_bitlen_def)
  ultimately have r: "ip_range (\<lambda>_ _. True) (IpStr ''10.0.0.5'') None (Some (int 8)) =
      Inr (built p (IpStr ''10.0.0.5'') (IP4, be_val [10, 0, 0, 5]) m 8)"
    using cidr_to_netmask_text [of 24 IP4] by (simp add: ip_range_def Let_def af_bitlen_def)
  let ?r = "built p (IpStr ''10.0.0.5'') (IP4, be_val [10, 0, 0, 5]) m 8"
  obtain nm where "from_dict (\<lambda>_ _. True) (to_dict (?r\<lparr>ir_subnet := Some 24\<rparr>)) =
      Inr (?r\<lparr>ir_netmask := nm, ir_subnet := Some 24\<rparr>)"
    using ip_range_dict_roundtrip [OF r, of "Some 24"] by (auto simp: af_bitlen_def)
  then show ?thesis by (intro exI [of _ ?r] exI [of _ nm] conjI) simp_all
qed

end
