(* ===== verification/Stun.thy ===== *)
theory Stun
  imports IpRange
begin

text \<open>
  The STUN message format of \<open>protocol/stun/stun_defs.py\<close> and the reply parser of
  \<open>protocol/stun/stun_utils.py\<close>: address attributes with and without XOR, building and packing a message,
  reading its attributes back with a cursor, and the loop over all attributes of a received message. The random
  transaction id and the HMAC are arguments. The address a reply carries is kept in its packed form (the
  text \<open>inet_ntop\<close> prints is only parsed again), and the attributes \<open>rtup\<close> and \<open>ctup\<close> that a
  message may or may not have are optional fields.
\<close>

section \<open>Constants\<close>

definition RFC3489 :: int where "RFC3489 = 1"
definition RFC5389 :: int where "RFC5389 = 2"
definition STUN_MAGIC_COOKIE :: bytes where "STUN_MAGIC_COOKIE = [0x21, 0x12, 0xa4, 0x42]"
definition STUN_MAGIC_XOR :: bytes where "STUN_MAGIC_XOR = [0, 0, 0x21, 0x12] @ STUN_MAGIC_COOKIE"

definition MsgBinding :: bytes where "MsgBinding = [0, 1]"
definition CodeRequest :: bytes where "CodeRequest = [0, 0]"

definition MappedAddress :: bytes where "MappedAddress = [0, 1]"
definition ChangeRequest :: bytes where "ChangeRequest = [0, 3]"
definition ChangedAddress :: bytes where "ChangedAddress = [0, 5]"
definition StunUsername :: bytes where "StunUsername = [0, 6]"
definition MessageIntegrity :: bytes where "MessageIntegrity = [0, 8]"
definition XorPeerAddress :: bytes where "XorPeerAddress = [0, 0x12]"
definition StunRealm :: bytes where "StunRealm = [0, 0x14]"
definition StunNonce :: bytes where "StunNonce = [0, 0x15]"
definition XorRelayedAddress :: bytes where "XorRelayedAddress = [0, 0x16]"
definition XorMappedAddress :: bytes where "XorMappedAddress = [0, 0x20]"
definition XorMappedAddressX :: bytes where "XorMappedAddressX = [0x80, 0x20]"
definition TransactionTransmitCounter :: bytes where "TransactionTransmitCounter = [0x80, 0x25]"

lemmas stun_attrs = MappedAddress_def ChangedAddress_def XorPeerAddress_def XorRelayedAddress_def
  XorMappedAddress_def XorMappedAddressX_def TransactionTransmitCounter_def ChangeRequest_def

section \<open>Address attributes\<close>

type_synonym packed_tup = "af \<times> bytes \<times> int"

record STUNAddrTup =
  at_ip :: string
  at_port :: int
  at_af :: af
  at_txid :: bytes
  at_cookie :: bytes
  at_tup :: "packed_tup option"

definition addr_tup :: "string \<Rightarrow> int \<Rightarrow> af \<Rightarrow> bytes \<Rightarrow> bytes \<Rightarrow> STUNAddrTup" where
  "addr_tup ip port a txid cookie =
     \<lparr>at_ip = ip, at_port = port, at_af = a, at_txid = txid, at_cookie = cookie, at_tup = None\<rparr>"

definition get_family_buf :: "STUNAddrTup \<Rightarrow> bytes" where
  "get_family_buf t = (if at_af t = IP4 then [0, 1] else [0, 2])"

definition get_addr_bufs :: "af \<Rightarrow> bytes \<Rightarrow> (bytes \<times> bytes) result" where
  "get_addr_bufs a data =
     (if length data < (if a = IP4 then 8 else 20) then Inl ValueError
      else Inr (pyslice 4 (if a = IP4 then 8 else 20) data, pyslice 2 4 data))"

definition get_attr_family :: "bytes \<Rightarrow> af" where
  "get_attr_family data = (if pyslice 1 2 data = [2] then IP6 else IP4)"

definition addr_bufs_to_tup :: "af \<Rightarrow> bytes \<Rightarrow> bytes \<Rightarrow> packed_tup" where
  "addr_bufs_to_tup a ip_buf port_buf = (a, ip_buf, be_val port_buf)"

definition xor_codes :: "bytes list" where
  "xor_codes = [XorMappedAddress, XorPeerAddress, XorRelayedAddress]"

text \<open>\<open>STUNAddrTup.decode\<close>: the address and port fields, the processed buffer and the updated object.\<close>

definition addr_decode ::
  "bytes \<Rightarrow> bytes \<Rightarrow> STUNAddrTup \<Rightarrow> (bytes \<times> bytes \<times> bytes \<times> STUNAddrTup) result" where
  "addr_decode code data t =
     (let a = get_attr_family data in
      bindr (get_addr_bufs a data) (\<lambda>(ip0, port0).
      bindr (if code = XorMappedAddressX
             then (let m = at_cookie t @ at_txid t in
                   bindr (xor_bufs port0 m) (\<lambda>p. bindr (xor_bufs ip0 m) (\<lambda>i. Inr (i, p))))
             else Inr (ip0, port0)) (\<lambda>(ip1, port1).
      bindr (if code \<in> set xor_codes
             then (let m = [0, 0, 0x21, 0x12] @ at_cookie t @ at_txid t in
                   bindr (if at_txid t \<noteq> [] then xor_bufs data m else Inr data) (\<lambda>d.
                   bindr (get_addr_bufs a d) (\<lambda>(i, p). Inr (i, p, d))))
             else Inr (ip1, port1, data)) (\<lambda>(ip2, port2, data2).
      Inr (ip2, port2, data2, t\<lparr>at_tup := Some (addr_bufs_to_tup a ip2 port2)\<rparr>)))))"

definition inet_pton :: "af \<Rightarrow> string \<Rightarrow> bytes result" where
  "inet_pton a s =
     (case a of
        IP4 \<Rightarrow> (case v4_strict s of None \<Rightarrow> Inl OSError | Some b \<Rightarrow> Inr b)
      | IP6 \<Rightarrow> inet_pton6 s)"

text \<open>\<open>STUNAddrTup.encode\<close>: the plain buffer goes through \<open>decode\<close>, which is its own inverse on the
  buffer.\<close>

definition addr_encode :: "bytes \<Rightarrow> STUNAddrTup \<Rightarrow> bytes result" where
  "addr_encode code t =
     bindr (inet_pton (if get_family_buf t = [0, 1] then IP4 else IP6) (at_ip t)) (\<lambda>ip_b.
     bindr (pack_uint 2 (at_port t)) (\<lambda>p.
       let buf = get_family_buf t @ p @ ip_b in
       bindr (addr_decode code buf t) (\<lambda>(_, _, dec_buf, _). Inr (if dec_buf \<noteq> buf then dec_buf else buf))))"

definition addr_unpack :: "bytes \<Rightarrow> bytes \<Rightarrow> STUNAddrTup \<Rightarrow> STUNAddrTup result" where
  "addr_unpack code data t =
     bindr (addr_decode code data (addr_tup [] 0 (at_af t) (at_txid t) (at_cookie t)))
       (\<lambda>(_, _, _, u). Inr u)"

section \<open>Messages\<close>

record STUNMsg =
  sm_code :: bytes
  sm_type :: bytes
  sm_len :: nat
  sm_txn :: bytes
  sm_msg :: bytes
  sm_cursor :: nat
  sm_mode :: int
  sm_cookie :: bytes
  sm_rtup :: "packed_tup option"
  sm_ctup :: "packed_tup option"

definition new_msg :: "bytes \<Rightarrow> bytes \<Rightarrow> int \<Rightarrow> bytes \<Rightarrow> STUNMsg" where
  "new_msg msg_type msg_code mode txid =
     \<lparr>sm_code = msg_code, sm_type = msg_type, sm_len = 0, sm_txn = txid, sm_msg = [], sm_cursor = 0,
      sm_mode = mode, sm_cookie = (if mode = RFC3489 then [0x31, 0x32, 0x33, 0x34] else STUN_MAGIC_COOKIE),
      sm_rtup = None, sm_ctup = None\<rparr>"

definition reset_attr :: "STUNMsg \<Rightarrow> STUNMsg" where
  "reset_attr m = m\<lparr>sm_len := 0, sm_msg := []\<rparr>"

datatype attr_val = VBytes bytes | VTup STUNAddrTup | VFmt "field list"

definition attr_pad :: "nat \<Rightarrow> nat" where
  "attr_pad n = (if n mod 4 \<noteq> 0 then 4 - n mod 4 else 0)"

definition attr_buf :: "bytes \<Rightarrow> bytes \<Rightarrow> bytes result" where
  "attr_buf attr data =
     bindr (pack_uint 2 (int (length data))) (\<lambda>l. Inr (attr @ l @ data @ replicate (attr_pad (length data)) 0))"

definition write_attr :: "bytes \<Rightarrow> attr_val \<Rightarrow> STUNMsg \<Rightarrow> STUNMsg result" where
  "write_attr attr v m =
     bindr (case v of VBytes b \<Rightarrow> Inr b | VTup t \<Rightarrow> addr_encode XorMappedAddress t | VFmt fs \<Rightarrow> struct_pack fs)
       (\<lambda>data. bindr (attr_buf attr data) (\<lambda>buf.
          Inr (m\<lparr>sm_len := sm_len m + length buf, sm_msg := sm_msg m @ buf\<rparr>)))"

definition write_credential :: "bytes \<Rightarrow> bytes \<Rightarrow> bytes \<Rightarrow> STUNMsg \<Rightarrow> STUNMsg result" where
  "write_credential username realm nonce m =
     bindr (write_attr StunUsername (VBytes username) m) (\<lambda>m1.
     bindr (write_attr StunRealm (VBytes realm) m1) (\<lambda>m2. write_attr StunNonce (VBytes nonce) m2))"

definition msg_pack :: "STUNMsg \<Rightarrow> bytes result" where
  "msg_pack m =
     (let t = (if sm_mode m \<noteq> RFC3489 then b_and (b_or (sm_type m) (sm_code m)) [0x3f, 0xff] else sm_type m)
      in bindr (pack_uint 2 (int (sm_len m))) (\<lambda>l. Inr (t @ l @ sm_cookie m @ sm_txn m @ sm_msg m)))"

definition write_hmac :: "(bytes \<Rightarrow> bytes \<Rightarrow> bytes) \<Rightarrow> bytes \<Rightarrow> STUNMsg \<Rightarrow> STUNMsg result" where
  "write_hmac hmac_sha1 key m =
     bindr (msg_pack (m\<lparr>sm_len := sm_len m + 24\<rparr>)) (\<lambda>packed.
       write_attr MessageIntegrity (VBytes (hmac_sha1 key packed)) m)"

definition write_transaction_counter :: "int \<Rightarrow> STUNMsg \<Rightarrow> STUNMsg result" where
  "write_transaction_counter req_count m =
     write_attr TransactionTransmitCounter (VFmt [FU 1 0, FU 1 (req_count AND 0xff), FU 1 0, FU 1 0]) m"

definition msg_eof :: "STUNMsg \<Rightarrow> bool" where
  "msg_eof m \<longleftrightarrow> int (sm_len m) - 1 \<le> int (sm_cursor m)"

text \<open>\<open>read_attr\<close>: without four bytes left, nothing is read and the cursor stays.\<close>

type_synonym raw_attr = "bytes option \<times> nat option \<times> bytes option"

definition read_attr :: "STUNMsg \<Rightarrow> (raw_attr \<times> STUNMsg) result" where
  "read_attr m =
     (let n = length (sm_msg m); c = sm_cursor m in
      if n \<noteq> 0 \<and> int c + 3 \<le> int n - 1 then
        (let hdr = pyslice c (c + 4) (sm_msg m);
             attr = pyslice 0 2 hdr;
             l = nat (be_val (pyslice 2 4 hdr));
             c1 = c + 4
         in if l \<noteq> 0 then
              (if int c1 + (int l - 1) \<le> int n - 1
               then Inr ((Some attr, Some l, Some (pyslice c1 (c1 + l) (sm_msg m))),
                         m\<lparr>sm_cursor := c1 + l + attr_pad l\<rparr>)
               else Inl GenericException)
            else Inr ((Some attr, Some l, None), m\<lparr>sm_cursor := c1\<rparr>))
      else Inr ((None, None, None), m))"

definition msg_decode :: "bytes \<Rightarrow> STUNMsg \<Rightarrow> (STUNMsg \<times> bytes option) result" where
  "msg_decode msg m0 =
     (let n = length msg; m = m0\<lparr>sm_cursor := 0\<rparr> in
      if 20 \<le> n then
        (let l = nat (be_val (pyslice 2 4 msg));
             m1 = m\<lparr>sm_type := pyslice 0 2 msg, sm_len := l, sm_cookie := pyslice 4 8 msg,
                    sm_txn := pyslice 8 20 msg\<rparr>
         in if l \<noteq> 0 then
              (if 20 + (int l - 1) \<le> int n - 1
               then Inr (m1\<lparr>sm_msg := pyslice 20 (20 + l) msg\<rparr>, Some (drop (20 + l) msg))
               else Inl GenericException)
            else Inr (m1, None))
      else Inr (m, None))"

definition msg_unpack :: "bytes \<Rightarrow> bytes \<Rightarrow> int \<Rightarrow> (STUNMsg \<times> bytes option) result" where
  "msg_unpack txid msg mode = msg_decode msg (new_msg MsgBinding CodeRequest mode txid)"

section \<open>Processing a reply\<close>

text \<open>The address that an attribute's data decodes to; an attribute without data has no bytes to look at.\<close>

definition attr_tup :: "bytes \<Rightarrow> bytes option \<Rightarrow> STUNAddrTup \<Rightarrow> packed_tup option result" where
  "attr_tup code data t =
     (case data of
        None \<Rightarrow> Inl TypeError
      | Some d \<Rightarrow> bindr (addr_unpack code d t) (\<lambda>u. Inr (at_tup u)))"

definition proc_rtup :: "af \<Rightarrow> bytes option \<Rightarrow> bytes option \<Rightarrow> STUNMsg \<Rightarrow> packed_tup option result" where
  "proc_rtup a code data m =
     (if sm_rtup m = None then
        bindr (if code = Some XorMappedAddressX \<or> code = Some XorMappedAddress
               then attr_tup (the code) data (addr_tup [] 0 a (sm_txn m) (sm_cookie m))
               else Inr None) (\<lambda>r.
        if code = Some MappedAddress
        then attr_tup MappedAddress data (addr_tup [] 0 a [] STUN_MAGIC_XOR) else Inr r)
      else Inr (sm_rtup m))"

definition proc_ctup :: "af \<Rightarrow> bytes option \<Rightarrow> bytes option \<Rightarrow> STUNMsg \<Rightarrow> packed_tup option result" where
  "proc_ctup a code data m =
     (if sm_ctup m = None \<and> code = Some ChangedAddress
      then attr_tup ChangedAddress data (addr_tup [] 0 a [] STUN_MAGIC_XOR) else Inr (sm_ctup m))"

definition stun_proc_attrs :: "af \<Rightarrow> bytes option \<Rightarrow> bytes option \<Rightarrow> STUNMsg \<Rightarrow> STUNMsg result" where
  "stun_proc_attrs a code data m =
     bindr (proc_rtup a code data m) (\<lambda>r.
     bindr (proc_ctup a code data m) (\<lambda>c. Inr (m\<lparr>sm_rtup := r, sm_ctup := c\<rparr>)))"

text \<open>The \<open>while not msg.eof()\<close> loop of \<open>stun_proto\<close>: None when it does not return.\<close>

partial_function (option) stun_loop :: "af \<Rightarrow> STUNMsg \<Rightarrow> STUNMsg result option" where
  "stun_loop a m =
     (if msg_eof m then Some (Inr m)
      else (case read_attr m of
              Inl e \<Rightarrow> Some (Inl e)
            | Inr ((code, _, data), m1) \<Rightarrow>
                (case stun_proc_attrs a code data m1 of
                   Inl e \<Rightarrow> Some (Inl e)
                 | Inr m2 \<Rightarrow> stun_loop a m2)))"

definition stun_proto :: "bytes \<Rightarrow> bytes \<Rightarrow> af \<Rightarrow> ((STUNMsg \<times> bytes option) result) option" where
  "stun_proto txid buf a =
     (case msg_unpack txid buf RFC3489 of
        Inl e \<Rightarrow> Some (Inl e)
      | Inr (m, rest) \<Rightarrow> map_option (\<lambda>r. bindr r (\<lambda>m'. Inr (m', rest))) (stun_loop a m))"

text \<open>The request of \<open>get_stun_reply\<close>: the caller's attributes, then the transmission counter.\<close>

fun write_attrs :: "(bytes \<times> bytes) list \<Rightarrow> STUNMsg \<Rightarrow> STUNMsg result" where
  "write_attrs [] m = Inr m"
| "write_attrs ((code, data) # as) m = bindr (write_attr code (VBytes data) m) (write_attrs as)"

definition stun_request :: "int \<Rightarrow> bytes \<Rightarrow> (bytes \<times> bytes) list \<Rightarrow> bytes result" where
  "stun_request mode txid attrs =
     bindr (write_attrs attrs (new_msg MsgBinding CodeRequest mode txid)) (\<lambda>m.
     bindr (write_transaction_counter 1 m) msg_pack)"

section \<open>Address attributes round trip\<close>








section \<open>Attributes of a message\<close>

lemma attr_pad_mod: "(4 + n + attr_pad n) mod 4 = 0"
proof -
  have "n mod 4 < 4" by simp
  then show ?thesis by (auto simp: attr_pad_def mod_add_right_eq [symmetric, of _ "n + (4 - n mod 4)"]) presburger+
qed

definition attr_bytes :: "bytes \<times> bytes \<Rightarrow> bytes" where
  "attr_bytes cd = fst cd @ be_bytes 2 (int (length (snd cd))) @ snd cd @ replicate (attr_pad (length (snd cd))) 0"

definition body :: "(bytes \<times> bytes) list \<Rightarrow> bytes" where
  "body as = concat (map attr_bytes as)"

definition attr_ok :: "bytes \<times> bytes \<Rightarrow> bool" where
  "attr_ok cd \<longleftrightarrow> length (fst cd) = 2 \<and> length (snd cd) < 65536"

lemma length_attr_bytes: "attr_ok cd \<Longrightarrow> length (attr_bytes cd) = 4 + length (snd cd) + attr_pad (length (snd cd))"
  by (simp add: attr_bytes_def attr_ok_def)

lemma read_attr_at:
  assumes "attr_ok cd" "sm_msg m = pre @ attr_bytes cd @ post" "sm_cursor m = length pre"
  shows "read_attr m = Inr ((Some (fst cd), Some (length (snd cd)), if snd cd = [] then None else Some (snd cd)),
    m\<lparr>sm_cursor := length pre + length (attr_bytes cd)\<rparr>)"
proof -
  obtain c d where cd: "cd = (c, d)" by (cases cd)
  have c: "length c = 2" "length d < 65536" using assms(1) cd by (simp_all add: attr_ok_def)
  let ?l = "be_bytes 2 (int (length d))"
  have n: "length (sm_msg m) = length pre + (4 + length d + attr_pad (length d)) + length post"
    using assms(2) length_attr_bytes [OF assms(1)] by (simp add: cd)
  have hdr: "pyslice (length pre) (length pre + 4) (sm_msg m) = c @ ?l"
    using c by (simp add: assms(2) cd attr_bytes_def pyslice_def)
  have dat: "pyslice (length pre + 4) (length pre + 4 + length d) (sm_msg m) = d"
    using c by (simp add: assms(2) cd attr_bytes_def pyslice_def)
  have val: "be_val ?l = int (length d)" using c by (simp add: be_val_be_bytes_id)
  have sl: "pyslice 0 2 (c @ ?l) = c" "pyslice 2 4 (c @ ?l) = ?l" using c by (simp_all add: pyslice_def)
  have "4 \<le> length (sm_msg m) - length pre" "sm_msg m \<noteq> []" using n by auto
  then show ?thesis
    using assms(3) n length_attr_bytes [OF assms(1)]
    by (cases "d = []") (use sl val in \<open>simp_all add: read_attr_def Let_def hdr dat cd attr_pad_def\<close>)
qed

text \<open>Processing an attribute does not depend on the cursor and changes only the two addresses.\<close>

lemma proc_cursor:
  "stun_proc_attrs a c d (m\<lparr>sm_cursor := k\<rparr>) =
    bindr (stun_proc_attrs a c d m) (\<lambda>m'. Inr (m'\<lparr>sm_cursor := k\<rparr>))"
proof -
  have "proc_rtup a c d (m\<lparr>sm_cursor := k\<rparr>) = proc_rtup a c d m"
    "proc_ctup a c d (m\<lparr>sm_cursor := k\<rparr>) = proc_ctup a c d m"
    by (simp_all add: proc_rtup_def proc_ctup_def)
  then show ?thesis
    by (cases "proc_rtup a c d m"; cases "proc_ctup a c d m") (simp_all add: stun_proc_attrs_def)
qed

lemma proc_keeps:
  "stun_proc_attrs a c d m = Inr m' \<Longrightarrow>
    sm_msg m' = sm_msg m \<and> sm_len m' = sm_len m \<and> sm_cursor m' = sm_cursor m"
  by (auto simp: stun_proc_attrs_def bindr_eq_Inr)

fun proc_all :: "af \<Rightarrow> (bytes \<times> bytes) list \<Rightarrow> STUNMsg \<Rightarrow> STUNMsg result" where
  "proc_all a [] m = Inr m"
| "proc_all a ((c, d) # as) m =
     bindr (stun_proc_attrs a (Some c) (if d = [] then None else Some d) m) (proc_all a as)"

lemma proc_all_cursor:
  "proc_all a as (m\<lparr>sm_cursor := k\<rparr>) = bindr (proc_all a as m) (\<lambda>m'. Inr (m'\<lparr>sm_cursor := k\<rparr>))"
proof (induction a as m rule: proc_all.induct)
  case (2 a c d as m)
  then show ?case
    by (cases "stun_proc_attrs a (Some c) (if d = [] then None else Some d) m") (simp_all add: proc_cursor)
qed simp

lemma stun_loop_body:
  assumes "\<forall>cd\<in>set as. attr_ok cd" "sm_msg m = pre @ body as" "sm_cursor m = length pre"
    "sm_len m = length (sm_msg m)"
  shows "stun_loop a m = Some (bindr (proc_all a as m) (\<lambda>m'. Inr (m'\<lparr>sm_cursor := sm_len m\<rparr>)))"
  using assms
proof (induction as arbitrary: m pre)
  case Nil
  then have "msg_eof m" by (simp add: msg_eof_def body_def)
  with Nil show ?case by (simp add: stun_loop.simps [of a m] body_def)
next
  case (Cons cd as)
  obtain c d where cd: "cd = (c, d)" by (cases cd)
  have ok: "attr_ok cd" using Cons.prems by simp
  have msg: "sm_msg m = pre @ attr_bytes cd @ body as" using Cons.prems by (simp add: body_def)
  let ?k = "length pre + length (attr_bytes cd)" and ?d = "if d = [] then None else Some d"
  have "\<not> msg_eof m" using Cons.prems(3,4) msg length_attr_bytes [OF ok] by (simp add: msg_eof_def)
  moreover have "read_attr m = Inr ((Some c, Some (length d), ?d), m\<lparr>sm_cursor := ?k\<rparr>)"
    using read_attr_at [OF ok msg Cons.prems(3)] by (simp add: cd)
  ultimately have step: "stun_loop a m =
      (case stun_proc_attrs a (Some c) ?d (m\<lparr>sm_cursor := ?k\<rparr>) of Inl e \<Rightarrow> Some (Inl e) | Inr m2 \<Rightarrow> stun_loop a m2)"
    by (subst stun_loop.simps) simp
  show ?case
  proof (cases "stun_proc_attrs a (Some c) ?d m")
    case (Inl e)
    then show ?thesis unfolding step by (simp add: proc_cursor cd)
  next
    case (Inr m')
    note keep = proc_keeps [OF Inr]
    let ?m = "m'\<lparr>sm_cursor := ?k\<rparr>"
    have len: "sm_len ?m = sm_len m" using keep by simp
    have "stun_loop a ?m = Some (bindr (proc_all a as ?m) (\<lambda>m'. Inr (m'\<lparr>sm_cursor := sm_len ?m\<rparr>)))"
      by (rule Cons.IH [of ?m "pre @ attr_bytes cd"]) (use Cons.prems keep msg in simp_all)
    then have "stun_loop a ?m = Some (bindr (proc_all a as ?m) (\<lambda>m'. Inr (m'\<lparr>sm_cursor := sm_len m\<rparr>)))"
      by (simp only: len)
    also have "bindr (proc_all a as (m'\<lparr>sm_cursor := ?k\<rparr>)) (\<lambda>m'. Inr (m'\<lparr>sm_cursor := sm_len m\<rparr>)) =
        bindr (proc_all a as m') (\<lambda>m'. Inr (m'\<lparr>sm_cursor := sm_len m\<rparr>))"
      by (cases "proc_all a as m'") (simp_all add: proc_all_cursor)
    finally show ?thesis unfolding step using Inr by (simp add: proc_cursor cd)
  qed
qed

lemma attr_buf_bytes: "length d < 65536 \<Longrightarrow> attr_buf c d = Inr (attr_bytes (c, d))"
  by (simp add: attr_buf_def attr_bytes_def)

lemma write_attrs_body:
  "\<forall>cd\<in>set as. attr_ok cd \<Longrightarrow>
   write_attrs as m = Inr (m\<lparr>sm_len := sm_len m + length (body as), sm_msg := sm_msg m @ body as\<rparr>)"
proof (induction as arbitrary: m)
  case (Cons cd as)
  obtain c d where cd: "cd = (c, d)" by (cases cd)
  with Cons show ?case by (simp add: attr_ok_def write_attr_def attr_buf_bytes body_def)
qed (simp add: body_def)

lemma body_mod: "\<forall>cd\<in>set as. attr_ok cd \<Longrightarrow> length (body as) mod 4 = 0"
proof (induction as)
  case (Cons cd as)
  then have "length (attr_bytes cd) mod 4 = 0" using length_attr_bytes [of cd] attr_pad_mod by simp
  with Cons show ?case by (simp add: body_def) (metis add_0 mod_add_eq mod_0)
qed (simp add: body_def)

definition wire_type :: "STUNMsg \<Rightarrow> bytes" where
  "wire_type m = (if sm_mode m \<noteq> RFC3489 then b_and (b_or (sm_type m) (sm_code m)) [0x3f, 0xff] else sm_type m)"

lemma wire_type_update [simp]:
  "wire_type (m\<lparr>sm_len := l\<rparr>) = wire_type m" "wire_type (m\<lparr>sm_msg := b\<rparr>) = wire_type m"
  by (simp_all add: wire_type_def)

lemma new_msg_fields [simp]:
  "sm_type (new_msg ty code mode txid) = ty" "sm_code (new_msg ty code mode txid) = code"
  "sm_txn (new_msg ty code mode txid) = txid" "sm_len (new_msg ty code mode txid) = 0"
  "sm_msg (new_msg ty code mode txid) = []" "sm_cursor (new_msg ty code mode txid) = 0"
  "sm_mode (new_msg ty code mode txid) = mode" "sm_rtup (new_msg ty code mode txid) = None"
  "sm_ctup (new_msg ty code mode txid) = None" "length (sm_cookie (new_msg ty code mode txid)) = 4"
  "(new_msg ty code mode txid)\<lparr>sm_cursor := 0\<rparr> = new_msg ty code mode txid"
  by (simp_all add: new_msg_def STUN_MAGIC_COOKIE_def)

text \<open>What unpacking a packed message gives.\<close>

lemma msg_unpack_pack:
  assumes "length (sm_type m) = 2" "length (sm_code m) = 2" "length (sm_cookie m) = 4" "length (sm_txn m) = 12"
    and "sm_len m = length (sm_msg m)" "msg_pack m = Inr buf"
  shows "msg_unpack txid (buf @ rest) mode =
    Inr ((new_msg MsgBinding CodeRequest mode txid)
       \<lparr>sm_type := wire_type m, sm_len := length (sm_msg m), sm_txn := sm_txn m, sm_msg := sm_msg m,
        sm_cookie := sm_cookie m\<rparr>, if sm_msg m = [] then None else Some rest)"
proof -
  let ?n = "length (sm_msg m)" and ?l = "be_bytes 2 (int (sm_len m))"
  have buf: "buf = wire_type m @ ?l @ sm_cookie m @ sm_txn m @ sm_msg m" and n: "int ?n < 65536"
    using assms(5,6) by (auto simp: msg_pack_def wire_type_def Let_def bindr_eq_Inr pack_uint_Inr)
  have t: "length (wire_type m) = 2" using assms(1,2) by (simp add: wire_type_def b_and_def b_or_def)
  define whole where "whole = buf @ rest"
  have parts: "pyslice 0 2 whole = wire_type m" "pyslice 2 4 whole = ?l"
    "pyslice 4 8 whole = sm_cookie m" "pyslice 8 20 whole = sm_txn m"
    "pyslice 20 (20 + ?n) whole = sm_msg m" "drop (20 + ?n) whole = rest"
    "length whole = 20 + ?n + length rest"
    using t assms(3,4) by (simp_all add: whole_def buf pyslice_def)
  have val: "be_val ?l = int ?n" using n assms(5) by (simp add: be_val_be_bytes_id)
  show ?thesis
    unfolding whole_def [symmetric]
    by (cases "?n = 0") (simp_all add: msg_unpack_def msg_decode_def Let_def parts val)
qed

lemma stun_parse_packed:
  assumes ok: "\<forall>cd\<in>set as. attr_ok cd" "as \<noteq> []"
    and len: "length ty = 2" "length code = 2" "length txid = 12"
    and pack: "bindr (write_attrs as (new_msg ty code mode txid)) msg_pack = Inr buf"
  shows "stun_proto t' (buf @ rest) a =
    Some (bindr (proc_all a as ((new_msg MsgBinding CodeRequest RFC3489 t')
        \<lparr>sm_type := wire_type (new_msg ty code mode txid), sm_len := length (body as), sm_txn := txid,
         sm_msg := body as, sm_cookie := sm_cookie (new_msg ty code mode txid)\<rparr>))
      (\<lambda>m. Inr (m\<lparr>sm_cursor := length (body as)\<rparr>, Some rest)))"
proof -
  let ?m = "(new_msg ty code mode txid)\<lparr>sm_len := length (body as), sm_msg := body as\<rparr>"
  have w: "write_attrs as (new_msg ty code mode txid) = Inr ?m"
    using write_attrs_body [OF ok(1), of "new_msg ty code mode txid"] by simp
  have pack': "msg_pack ?m = Inr buf" using pack unfolding w by simp
  have ne: "body as \<noteq> []"
    using ok length_attr_bytes by (cases as) (force simp: body_def)+
  let ?r = "(new_msg MsgBinding CodeRequest RFC3489 t')
      \<lparr>sm_type := wire_type (new_msg ty code mode txid), sm_len := length (body as), sm_txn := txid,
       sm_msg := body as, sm_cookie := sm_cookie (new_msg ty code mode txid)\<rparr>"
  have "msg_unpack t' (buf @ rest) RFC3489 = Inr (?r, Some rest)"
    using msg_unpack_pack [OF _ _ _ _ _ pack', of t' rest RFC3489] len ne by simp
  moreover have "stun_loop a ?r = Some (bindr (proc_all a as ?r) (\<lambda>m'. Inr (m'\<lparr>sm_cursor := sm_len ?r\<rparr>)))"
    by (rule stun_loop_body [where pre = "[]"]) (use ok in simp_all)
  ultimately show ?thesis
    by (simp add: stun_proto_def) (cases "proc_all a as ?r", simp_all)
qed

lemma proc_neutral:
  assumes "c \<notin> {XorMappedAddressX, XorMappedAddress, MappedAddress, ChangedAddress}"
  shows "stun_proc_attrs a (Some c) d m = Inr m"
proof -
  have "proc_rtup a (Some c) d m = Inr (sm_rtup m)" "proc_ctup a (Some c) d m = Inr (sm_ctup m)"
    using assms by (simp_all add: proc_rtup_def proc_ctup_def)
  then show ?thesis by (simp add: stun_proc_attrs_def)
qed


lemma proc_none: "stun_proc_attrs a None d m = Inr m"
proof -
  have "proc_rtup a None d m = Inr (sm_rtup m)" "proc_ctup a None d m = Inr (sm_ctup m)"
    by (cases "sm_rtup m"; simp add: proc_rtup_def proc_ctup_def)+
  then show ?thesis by (simp add: stun_proc_attrs_def)
qed


section \<open>The loop\<close>

text \<open>Every four bytes of room let the cursor advance.\<close>

lemma read_attr_advances:
  assumes "sm_cursor m + 4 \<le> length (sm_msg m)" "read_attr m = Inr (x, m')"
  shows "sm_cursor m < sm_cursor m' \<and> sm_cursor m' mod 4 = sm_cursor m mod 4 \<and>
    sm_msg m' = sm_msg m \<and> sm_len m' = sm_len m"
proof -
  have "(k + 4 + l + attr_pad l) mod 4 = k mod 4" for k l
    using attr_pad_mod [of l] by (metis add.assoc add.commute add.left_commute add_0_right mod_add_right_eq)
  then show ?thesis
    using assms by (auto simp: read_attr_def Let_def add.assoc split: if_splits)
qed

lemma stun_loop_returns:
  assumes "sm_len m = length (sm_msg m)" "sm_cursor m mod 4 = 0" "sm_len m mod 4 \<le> 1"
  shows "\<exists>r. stun_loop a m = Some r"
  using assms
proof (induction "sm_len m - sm_cursor m" arbitrary: m rule: less_induct)
  case less
  show ?case
  proof (cases "msg_eof m")
    case True
    then show ?thesis by (subst stun_loop.simps) simp
  next
    case False
    then have lt: "sm_cursor m + 1 < sm_len m" by (simp add: msg_eof_def)
    have room: "sm_cursor m + 4 \<le> length (sm_msg m)"
      using lt less.prems by presburger
    show ?thesis
    proof (cases "read_attr m")
      case (Inl e)
      with False show ?thesis by (subst stun_loop.simps) simp
    next
      case (Inr xm)
      obtain c l d m1 where xm: "xm = ((c, l, d), m1)" by (cases xm) auto
      note adv = read_attr_advances [OF room, of "(c, l, d)" m1] Inr [unfolded xm]
      show ?thesis
      proof (cases "stun_proc_attrs a c d m1")
        case (Inl e)
        with False adv(2) show ?thesis by (subst stun_loop.simps) simp
      next
        case (Inr m2)
        note keep = proc_keeps [OF Inr]
        have "\<exists>r. stun_loop a m2 = Some r"
          by (rule less.hyps) (use keep adv less.prems lt in auto)
        with False adv(2) Inr show ?thesis by (subst stun_loop.simps) simp
      qed
    qed
  qed
qed

definition stuck :: "STUNMsg \<Rightarrow> bool" where
  "stuck m \<longleftrightarrow> sm_len m = length (sm_msg m) \<and> sm_cursor m + 1 < sm_len m \<and> sm_len m < sm_cursor m + 4"

lemma stun_loop_stuck:
  assumes "stun_loop a m = Some r"
  shows "\<not> stuck m"
proof (rule stun_loop.raw_induct [where P = "\<lambda>a m r. \<not> stuck m", OF _ assms])
  fix loop a m r
  assume IH: "\<And>a m r. loop a m = Some r \<Longrightarrow> \<not> stuck m"
    and run: "(if msg_eof m then Some (Inr m)
      else (case read_attr m of
              Inl e \<Rightarrow> Some (Inl e)
            | Inr ((code, _, data), m1) \<Rightarrow>
                (case stun_proc_attrs a code data m1 of
                   Inl e \<Rightarrow> Some (Inl e)
                 | Inr m2 \<Rightarrow> loop a m2))) = Some (r :: STUNMsg result)"
  show "\<not> stuck m"
  proof
    assume stuck: "stuck m"
    then have "read_attr m = Inr ((None, None, None), m)" "\<not> msg_eof m"
      by (auto simp: stuck_def read_attr_def msg_eof_def Let_def)
    then have "loop a m = Some r" using run by (simp add: proc_none)
    with IH stuck show False by blast
  qed
qed

section \<open>Properties\<close>

text \<open>C16. A message with any non-empty list of attributes survives packing and parsing: the reply parser
  returns with the transaction id and cookie of the message and the effect of processing exactly the written
  attributes in order, whatever follows the message in the buffer.\<close>

theorem stun_message_roundtrip:
  assumes "\<forall>cd\<in>set as. attr_ok cd" "as \<noteq> []"
    and "length ty = 2" "length code = 2" "length txid = 12"
    and "bindr (write_attrs as (new_msg ty code mode txid)) msg_pack = Inr buf"
  shows "stun_proto t' (buf @ rest) a =
    Some (bindr (proc_all a as ((new_msg MsgBinding CodeRequest RFC3489 t')
        \<lparr>sm_type := wire_type (new_msg ty code mode txid), sm_len := length (body as), sm_txn := txid,
         sm_msg := body as, sm_cookie := sm_cookie (new_msg ty code mode txid)\<rparr>))
      (\<lambda>m. Inr (m\<lparr>sm_cursor := length (body as)\<rparr>, Some rest)))"
  using assms by (rule stun_parse_packed)

theorem stun_message_roundtrip_witness:
  "\<exists>buf (m :: STUNMsg). stun_proto [] buf IP4 = Some (Inr (m, Some [7])) \<and> sm_txn m = replicate 12 9"
proof -
  let ?as = "[(TransactionTransmitCounter, [0, 1, 0, 0])]"
  have ok: "\<forall>cd\<in>set ?as. attr_ok cd" by (simp add: attr_ok_def stun_attrs)
  have "\<exists>buf. bindr (write_attrs ?as (new_msg MsgBinding CodeRequest RFC5389 (replicate 12 9))) msg_pack = Inr buf"
    using write_attrs_body [OF ok, of "new_msg MsgBinding CodeRequest RFC5389 (replicate 12 9)"] length_attr_bytes [of "hd ?as"] ok
    by (simp add: msg_pack_def body_def attr_pad_def)
  then obtain buf where buf: "bindr (write_attrs ?as (new_msg MsgBinding CodeRequest RFC5389 (replicate 12 9))) msg_pack = Inr buf" ..
  have neutral: "stun_proc_attrs IP4 (Some TransactionTransmitCounter) d m = Inr m" for d m
    by (rule proc_neutral) (simp add: stun_attrs)
  have "\<exists>m :: STUNMsg. stun_proto [] (buf @ [7]) IP4 = Some (Inr (m, Some [7])) \<and> sm_txn m = replicate 12 9"
    using stun_message_roundtrip [OF ok _ _ _ _ buf, of "[]" "[7]" IP4]
    by (simp add: neutral MsgBinding_def CodeRequest_def del: replicate.simps)
  then show ?thesis by blast
qed


text \<open>C23. The parser returns on every received buffer whose length field is a multiple of four, as the
  protocol requires, or one more than that.\<close>

theorem stun_proto_returns:
  assumes "nat (be_val (pyslice 2 4 buf)) mod 4 \<le> 1"
  shows "\<exists>r. stun_proto txid buf a = Some r"
proof (cases "msg_unpack txid buf RFC3489")
  case (Inl e)
  then show ?thesis by (simp add: stun_proto_def)
next
  case (Inr mr)
  obtain m rest where mr: "mr = (m, rest)" by (cases mr)
  have "sm_len m = length (sm_msg m) \<and> sm_cursor m = 0 \<and> sm_len m mod 4 \<le> 1"
    using Inr assms mr
    by (auto simp: msg_unpack_def msg_decode_def Let_def length_pyslice nat_le_iff split: if_splits)
  then have "\<exists>r. stun_loop a m = Some r" by (intro stun_loop_returns) auto
  then show ?thesis using Inr mr by (auto simp: stun_proto_def)
qed

theorem stun_proto_returns_witness: "\<exists>r. stun_proto [] (replicate 24 0) IP4 = Some r"
  by (rule stun_proto_returns) (simp add: pyslice_def be_val_def numeral_2_eq_2)

text \<open>A buffer that announces and carries a body of two or three bytes makes the parser loop for ever,
  because reading an attribute needs four bytes and otherwise leaves the cursor where it is.\<close>

theorem stun_proto_hangs:
  assumes "length ty = 2" "length h = 16" "length b = 2 \<or> length b = 3"
  shows "stun_proto txid (ty @ be_bytes 2 (int (length b)) @ h @ b) a = None"
proof -
  define buf where "buf = ty @ be_bytes 2 (int (length b)) @ h @ b"
  have l: "length buf = 20 + length b" "be_val (pyslice 2 4 buf) = int (length b)" "pyslice 20 (20 + length b) buf = b"
    using assms by (auto simp: buf_def pyslice_def be_val_be_bytes_id)
  have "b \<noteq> []" using assms(3) by auto
  then obtain m r where m: "msg_unpack txid buf RFC3489 = Inr (m, r)" "sm_len m = length b" "sm_msg m = b" "sm_cursor m = 0"
    by (simp add: msg_unpack_def msg_decode_def Let_def l)
  then have "stuck m" using assms(3) by (auto simp: stuck_def)
  then have "stun_loop a m = None" using stun_loop_stuck by (metis not_None_eq)
  with m(1) show ?thesis by (simp add: stun_proto_def flip: buf_def)
qed

theorem stun_proto_hangs_witness: "stun_proto [] ([1, 1] @ be_bytes 2 (int (length [0, 0 :: byte])) @ replicate 16 0 @ [0, 0]) IP4 = None"
  by (rule stun_proto_hangs) simp_all


end
