(* ===== verification/NatTest.thy ===== *)
theory NatTest
  imports NatUtils Stun
begin

text \<open>
  The STUN client and the NAT type test: what \<open>protocol/stun/stun_client.py\<close> asks of a server and makes
  of a reply, the checks of \<open>protocol/stun/stun_utils.py\<close> on a reply, and the RFC 3489 test of
  \<open>nic/nat/nat_test.py\<close>. The network is an argument: the replies of the probes arrive as a list of
  events in completion order, cut at the timeout; an address text that is only parsed again is the address.
\<close>

section \<open>Replies\<close>

type_synonym tup = "ip_arg \<times> int"

definition tup_of :: "packed_tup \<Rightarrow> tup" where
  "tup_of t = (case t of (a, ip, port) \<Rightarrow> (IpObj (a, be_val ip), port))"

text \<open>The attributes a reply may lack are optional; \<open>rp_pipe\<close> holds the socket's own name or the error
  of asking for it.\<close>

record stun_reply =
  rp_rtup :: "tup option"
  rp_ctup :: "tup option"
  rp_stup :: "tup option"
  rp_pipe :: "(string \<times> int) result option"

record ret_dic =
  rd_ctup :: "tup option"
  rd_rtup :: tup
  rd_stup :: tup
  rd_ltup :: "string \<times> int"

definition stun_reply_to_ret_dic :: "stun_reply option \<Rightarrow> ret_dic option" where
  "stun_reply_to_ret_dic reply =
     (case reply of
        None \<Rightarrow> None
      | Some r \<Rightarrow>
          (case rp_rtup r of
             None \<Rightarrow> None
           | Some rt \<Rightarrow>
               (case rp_stup r of
                  None \<Rightarrow> None
                | Some st \<Rightarrow>
                    (case rp_pipe r of
                       Some (Inr lt) \<Rightarrow> Some \<lparr>rd_ctup = rp_ctup r, rd_rtup = rt, rd_stup = st, rd_ltup = lt\<rparr>
                     | _ \<Rightarrow> None))))"

text \<open>\<open>validate_stun_reply\<close>: the required addresses exist, are public and have valid ports.\<close>

fun check_tups :: "(af \<Rightarrow> int \<Rightarrow> bool) \<Rightarrow> tup option list \<Rightarrow> bool result" where
  "check_tups priv [] = Inr True"
| "check_tups priv (None # ts) = Inr False"
| "check_tups priv (Some (ip, port) # ts) =
     bindr (ip_range priv ip None (Some 0)) (\<lambda>r.
       if ir_private r then Inr False else if \<not> valid_port port then Inr False else check_tups priv ts)"

definition validate_stun_reply :: "(af \<Rightarrow> int \<Rightarrow> bool) \<Rightarrow> stun_reply option \<Rightarrow> int \<Rightarrow> stun_reply option result" where
  "validate_stun_reply priv reply mode =
     (case reply of
        None \<Rightarrow> Inr None
      | Some r \<Rightarrow>
          if rp_pipe r = None then Inr None
          else (let attrs = [rp_stup r, rp_rtup r] @ (if mode = RFC3489 then [rp_ctup r] else []) in
                if None \<in> set attrs then Inr None
                else bindr (check_tups priv attrs) (\<lambda>ok. Inr (if ok then Some r else None))))"

section \<open>Client\<close>

text \<open>What \<open>get_stun_reply\<close>, \<open>get_change_port_reply\<close> and \<open>get_change_tup_reply\<close> ask for: the
  attributes of the request and the address the reply must come from.\<close>

definition plain_request :: "tup \<Rightarrow> (bytes \<times> bytes) list \<times> tup" where
  "plain_request dest = ([], dest)"

definition change_port_request :: "int \<Rightarrow> tup \<Rightarrow> tup \<Rightarrow> ((bytes \<times> bytes) list \<times> tup) result" where
  "change_port_request mode dest ctup =
     (if mode \<noteq> RFC3489 then Inl GenericException
      else Inr ([(ChangeRequest, [0, 0, 0, 2])], (fst dest, snd ctup)))"

definition change_tup_request :: "int \<Rightarrow> tup \<Rightarrow> ((bytes \<times> bytes) list \<times> tup) result" where
  "change_tup_request mode ctup =
     (if mode \<noteq> RFC3489 then Inl GenericException else Inr ([(ChangeRequest, [0, 0, 0, 6])], ctup))"

definition get_mapping :: "stun_reply \<Rightarrow> (int \<times> int) option result" where
  "get_mapping r =
     (case rp_pipe r of
        Some (Inr lt) \<Rightarrow> Inr (map_option (\<lambda>rt. (snd lt, snd rt)) (rp_rtup r))
      | Some (Inl e) \<Rightarrow> Inl e
      | None \<Rightarrow> Inl GenericException)"

text \<open>\<open>get_stun_clients\<close>: a server entry without an address or port is skipped, and the length is tested
  only after an addition.\<close>

fun stun_dests :: "nat \<Rightarrow> (string option \<times> int option) list \<Rightarrow> (string \<times> int) list \<Rightarrow> (string \<times> int) list" where
  "stun_dests k [] acc = acc"
| "stun_dests k ((ip, port) # ss) acc =
     (let acc' = (case (ip, port) of (Some i, Some p) \<Rightarrow> acc @ [(i, p)] | _ \<Rightarrow> acc)
      in if length acc' \<ge> k then acc' else stun_dests k ss acc')"

text \<open>\<open>collect\<close> of \<open>get_n_stun_clients\<close> over the probes in completion order.\<close>

fun collect :: "nat \<Rightarrow> 'a option list \<Rightarrow> 'a list \<Rightarrow> 'a list" where
  "collect n [] found = found"
| "collect n (None # rs) found = collect n rs found"
| "collect n (Some r # rs) found =
     (if length (found @ [r]) \<ge> n then found @ [r] else collect n rs (found @ [r]))"

section \<open>NAT type test\<close>

definition STUN_CHANGE_NONE :: int where "STUN_CHANGE_NONE = 1"
definition STUN_CHANGE_PORT :: int where "STUN_CHANGE_PORT = 2"
definition STUN_CHANGE_BOTH :: int where "STUN_CHANGE_BOTH = 3"
definition NAT_TEST_NO :: nat where "NAT_TEST_NO = 5"

text \<open>Payload, then the indices of the server addresses to send to and to expect the reply from.\<close>

definition NAT_TEST_SCHEMA :: "(int \<times> nat \<times> nat \<times> nat \<times> nat) list" where
  "NAT_TEST_SCHEMA =
     [(STUN_CHANGE_NONE, 0, 0, 0, 0), (STUN_CHANGE_BOTH, 0, 0, 3, 3),
      (STUN_CHANGE_NONE, 2, 2, 2, 0), (STUN_CHANGE_PORT, 2, 2, 3, 3)]"

text \<open>The probes of one test, one for each of the first \<open>test_no\<close> servers.\<close>

definition nat_test_workers :: "nat \<Rightarrow> tup list list \<Rightarrow> nat \<Rightarrow> (int \<times> tup \<times> tup) list" where
  "nat_test_workers test_index servers test_no =
     (case NAT_TEST_SCHEMA ! test_index of
        (payload, si, sp, ri, rp) \<Rightarrow>
          map (\<lambda>s. (payload, (fst (s ! si), snd (s ! sp)), (fst (s ! ri), snd (s ! rp))))
            (take (min test_no (length servers)) servers))"

definition nat_test_request :: "int \<Rightarrow> tup \<Rightarrow> tup \<Rightarrow> ((bytes \<times> bytes) list \<times> tup) result" where
  "nat_test_request payload dest reply_addr =
     (if payload = STUN_CHANGE_NONE then Inr (plain_request dest)
      else if payload = STUN_CHANGE_PORT then change_port_request RFC3489 dest reply_addr
      else change_tup_request RFC3489 reply_addr)"

type_synonym nat_reply = "ipa \<times> int"
type_synonym nat_event = "nat \<times> nat_reply"

definition non_symmetric_check :: "nat_reply list list \<Rightarrow> bool" where
  "non_symmetric_check q =
     (let q1 = q ! 0; q3 = q ! 2 in
      if q1 = [] \<or> q3 = [] then False
      else snd (q1 ! 0) = snd (q3 ! 0) \<and> fst (q1 ! 0) = fst (q3 ! 0))"

definition no_stun_resp_check :: "nat_reply list list \<Rightarrow> bool" where
  "no_stun_resp_check q = list_all (\<lambda>i. q ! i = []) [0..<4]"

definition test_one :: "ipa \<Rightarrow> nat_reply \<Rightarrow> int option" where
  "test_one source r = (if fst r = source then Some OPEN_INTERNET else None)"

definition test_two :: "ipa \<Rightarrow> nat_reply \<Rightarrow> int option" where
  "test_two source r = (case test_one source r of Some t \<Rightarrow> Some t | None \<Rightarrow> Some FULL_CONE)"

definition test_three :: "nat_reply list list \<Rightarrow> int \<Rightarrow> int" where
  "test_three q dflt = (if non_symmetric_check q then RESTRICT_PORT_NAT else dflt)"

text \<open>One reply: it is queued for its test, then the test's function runs; the answer counts only when
  the test belongs to the running pair of tests.\<close>

definition nat_event :: "ipa \<Rightarrow> nat \<times> nat_reply \<Rightarrow> nat_reply list list \<times> int \<Rightarrow> int option \<times> nat_reply list list \<times> int" where
  "nat_event source e s =
     (let i = fst e; r = snd e; q = (fst s)[i := (fst s) ! i @ [r]] in
      if i = 0 then (test_one source r, q, snd s)
      else if i = 1 then (test_two source r, q, snd s)
      else if i = 2 then (None, q, test_three q (snd s))
      else (Some RESTRICT_NAT, q, snd s))"

fun sub_test :: "nat list \<Rightarrow> ipa \<Rightarrow> nat_event list \<Rightarrow> nat_reply list list \<times> int \<Rightarrow> int + (nat_reply list list \<times> int)" where
  "sub_test idxs source [] s = Inr s"
| "sub_test idxs source (e # es) s =
     (case nat_event source e s of
        (Some t, s') \<Rightarrow> if fst e \<in> set idxs then Inl t else sub_test idxs source es s'
      | (None, s') \<Rightarrow> sub_test idxs source es s')"

definition fast_nat_test :: "ipa \<Rightarrow> nat_event list \<Rightarrow> nat_event list \<Rightarrow> int" where
  "fast_nat_test source events1 events2 =
     (case sub_test [0, 1] source events1 ([[], [], [], []], SYMMETRIC_NAT) of
        Inl t \<Rightarrow> t
      | Inr s \<Rightarrow>
          (case sub_test [2, 3] source events2 s of
             Inl t \<Rightarrow> t
           | Inr (q, dflt) \<Rightarrow> if no_stun_resp_check q then BLOCKED_NAT else dflt))"

text \<open>\<open>nic_load_nat\<close> from the outcome of the two tests, which run under one timeout each.\<close>

definition nic_load_nat :: "af list \<Rightarrow> int option \<Rightarrow> delta option \<Rightarrow> (int \<times> delta) result" where
  "nic_load_nat supported nat_type delta =
     (if IP4 \<notin> set supported then Inr (OPEN_INTERNET, delta_info NA_DELTA 0)
      else (case nat_type of
              None \<Rightarrow> Inl GenericException
            | Some t \<Rightarrow> Inr (t, case delta of None \<Rightarrow> delta_info RANDOM_DELTA 0 | Some d \<Rightarrow> d)))"

section \<open>What the NAT test decides\<close>

definition replies :: "nat \<Rightarrow> nat_event list \<Rightarrow> nat_reply list" where
  "replies i es = map snd (filter (\<lambda>e. fst e = i) es)"

definition queues :: "nat_event list \<Rightarrow> nat_reply list list" where
  "queues es = map (\<lambda>i. replies i es) [0..<4]"

lemma queues_nth [simp]: "i < 4 \<Longrightarrow> queues es ! i = replies i es"
  by (simp add: queues_def)

lemma replies_snoc: "replies i (es @ [e]) = (if fst e = i then replies i es @ [snd e] else replies i es)"
  by (simp add: replies_def)

lemma queues_snoc: "fst e < 4 \<Longrightarrow> (queues es)[fst e := queues es ! fst e @ [snd e]] = queues (es @ [e])"
  by (rule nth_equalityI) (auto simp: queues_def nth_list_update replies_snoc)

text \<open>Whether a mapping was seen to be reused by the time some reply of the third test arrived.\<close>

definition reused :: "nat_event list \<Rightarrow> bool" where
  "reused es \<longleftrightarrow> replies 0 es \<noteq> [] \<and> replies 2 es \<noteq> [] \<and> hd (replies 0 es) = hd (replies 2 es)"

lemma non_symmetric_queues: "non_symmetric_check (queues es) = reused es"
  by (auto simp: non_symmetric_check_def reused_def Let_def hd_conv_nth prod_eq_iff)

definition decides :: "ipa \<Rightarrow> nat_event \<Rightarrow> int option" where
  "decides source e =
     (if fst e = 0 then test_one source (snd e) else if fst e = 1 then test_two source (snd e) else None)"

fun first_decision :: "ipa \<Rightarrow> nat_event list \<Rightarrow> int option" where
  "first_decision source [] = None"
| "first_decision source (e # es) = (case decides source e of Some t \<Rightarrow> Some t | None \<Rightarrow> first_decision source es)"

lemma sub_test_one:
  "\<forall>e\<in>set es. fst e < 2 \<Longrightarrow>
   sub_test [0, 1] source es (queues past, l) =
     (case first_decision source es of Some t \<Rightarrow> Inl t | None \<Rightarrow> Inr (queues (past @ es), l))"
proof (induction es arbitrary: past)
  case (Cons e es)
  then have e: "fst e = 0 \<or> fst e = 1" by auto
  then have "nat_event source e (queues past, l) = (decides source e, queues (past @ [e]), l)"
    using queues_snoc [of e past] by (auto simp: nat_event_def decides_def Let_def)
  then show ?case using Cons e by (auto split: option.split)
qed simp

text \<open>A reply of the third test at which the reuse is seen.\<close>

definition reuse_seen :: "nat_event list \<Rightarrow> nat_event list \<Rightarrow> bool" where
  "reuse_seen past es \<longleftrightarrow> (\<exists>xs e ys. es = xs @ e # ys \<and> fst e = 2 \<and> reused (past @ xs @ [e]))"

lemma reuse_seen_Cons:
  "reuse_seen past (e # es) \<longleftrightarrow> (fst e = 2 \<and> reused (past @ [e])) \<or> reuse_seen (past @ [e]) es"
proof -
  have "reuse_seen past (e # es)" if later: "reuse_seen (past @ [e]) es"
  proof -
    from later obtain xs d ys where "es = xs @ d # ys" "fst d = 2" "reused ((past @ [e]) @ xs @ [d])"
      unfolding reuse_seen_def by blast
    then have "e # es = (e # xs) @ d # ys \<and> fst d = 2 \<and> reused (past @ (e # xs) @ [d])" by simp
    then show ?thesis unfolding reuse_seen_def by blast
  qed
  moreover have "fst e = 2 \<and> reused (past @ [e]) \<Longrightarrow> reuse_seen past (e # es)"
    unfolding reuse_seen_def by (rule exI [of _ "[]"]) auto
  moreover have "(fst e = 2 \<and> reused (past @ [e])) \<or> reuse_seen (past @ [e]) es" if some: "reuse_seen past (e # es)"
  proof -
    from some obtain xs d ys where d: "e # es = xs @ d # ys" "fst d = 2" "reused (past @ xs @ [d])"
      unfolding reuse_seen_def by blast
    show ?thesis
    proof (cases xs)
      case (Cons x zs)
      then have "es = zs @ d # ys" "reused ((past @ [e]) @ zs @ [d])" using d by simp_all
      then show ?thesis using d(2) unfolding reuse_seen_def by blast
    qed (use d in simp)
  qed
  ultimately show ?thesis by blast
qed

lemma sub_test_two:
  "\<forall>e\<in>set es. fst e < 4 \<Longrightarrow>
   sub_test [2, 3] source es (queues past, l) =
     (if \<exists>e\<in>set es. fst e = 3 then Inl RESTRICT_NAT
      else Inr (queues (past @ es), if reuse_seen past es then RESTRICT_PORT_NAT else l))"
proof (induction es arbitrary: past l)
  case Nil
  then show ?case by (simp add: reuse_seen_def)
next
  case (Cons e es)
  then have e: "fst e < 4" by simp
  have step: "nat_event source e (queues past, l) =
      (if fst e = 2 then None else if fst e = 3 then Some RESTRICT_NAT else decides source e, queues (past @ [e]),
       if fst e = 2 \<and> reused (past @ [e]) then RESTRICT_PORT_NAT else l)"
    using e queues_snoc [of e past]
    by (auto simp: nat_event_def decides_def test_three_def non_symmetric_queues Let_def)
  show ?case
    using Cons by (auto simp: step reuse_seen_Cons split: option.split)
qed

lemma no_resp_queues: "\<forall>e\<in>set es. fst e < 4 \<Longrightarrow> no_stun_resp_check (queues es) \<longleftrightarrow> es = []"
proof -
  assume lt: "\<forall>e\<in>set es. fst e < 4"
  have "es \<noteq> [] \<Longrightarrow> \<not> no_stun_resp_check (queues es)"
    using lt by (cases es) (auto simp: no_stun_resp_check_def list_all_iff replies_def intro!: bexI [of _ "fst (hd es)"])
  then show ?thesis by (auto simp: no_stun_resp_check_def list_all_iff replies_def)
qed

text \<open>C31. The NAT type is that of the first deciding reply of the first two tests; without one it is
  restricted when the changed-port test was answered, blocked when nothing was, port restricted when a reply of
  the third test arrived with the first mapping of the first test already known and equal, and symmetric otherwise.\<close>

theorem nat_type_decision:
  assumes "\<forall>e\<in>set es1. fst e < 2" "\<forall>e\<in>set es2. fst e < 4"
  shows "fast_nat_test source es1 es2 =
    (case first_decision source es1 of
       Some t \<Rightarrow> t
     | None \<Rightarrow>
         if \<exists>e\<in>set es2. fst e = 3 then RESTRICT_NAT
         else if es1 @ es2 = [] then BLOCKED_NAT
         else if reuse_seen es1 es2 then RESTRICT_PORT_NAT else SYMMETRIC_NAT)"
proof -
  have q: "([[], [], [], []] :: nat_reply list list) = queues []"
    by (simp add: queues_def replies_def upt_rec)
  have lt: "\<forall>e\<in>set (es1 @ es2). fst e < 4" using assms by fastforce
  show ?thesis
    unfolding fast_nat_test_def q sub_test_one [OF assms(1)]
    using sub_test_two [OF assms(2)] no_resp_queues [OF lt] by (auto split: option.split)
qed

theorem nat_type_decision_witness:
  "fast_nat_test (IP4, 1) [(0, (IP4, 9), 100)] [(2, (IP4, 9), 100)] = RESTRICT_PORT_NAT"
proof -
  have "reuse_seen [(0, (IP4, 9), 100)] [(2, (IP4, 9), 100)]"
    unfolding reuse_seen_def by (rule exI [of _ "[]"]) (simp add: reused_def replies_def)
  then show ?thesis
    using nat_type_decision [of "[(0, (IP4, 9), 100)]" "[(2, (IP4, 9), 100)]" "(IP4, 1)"]
    by (simp add: decides_def test_one_def)
qed

end
