(* ===== verification/PyDict.thy ===== *)
theory PyDict
  imports Prelude
begin

text \<open>
  Python's \<open>dict\<close> as the list of its items in insertion order: \<open>d[k] = v\<close> overwrites in place or appends,
  \<open>del d[k]\<close> removes the item, and \<open>map_of\<close> is the lookup. Keys are distinct in every dictionary that is
  built with these operations.
\<close>

fun dict_set :: "'k \<Rightarrow> 'v \<Rightarrow> ('k \<times> 'v) list \<Rightarrow> ('k \<times> 'v) list" where
  "dict_set k v [] = [(k, v)]"
| "dict_set k v ((j, w) # d) = (if j = k then (k, v) # d else (j, w) # dict_set k v d)"

definition dict_del :: "'k \<Rightarrow> ('k \<times> 'v) list \<Rightarrow> ('k \<times> 'v) list" where
  "dict_del k d = filter (\<lambda>e. fst e \<noteq> k) d"

definition dict_has :: "'k \<Rightarrow> ('k \<times> 'v) list \<Rightarrow> bool" where
  "dict_has k d \<longleftrightarrow> k \<in> set (map fst d)"

definition dict_ok :: "('k \<times> 'v) list \<Rightarrow> bool" where
  "dict_ok d \<longleftrightarrow> distinct (map fst d)"

lemma dict_ok_Nil [simp]: "dict_ok []"
  by (simp add: dict_ok_def)

lemma map_of_dict_set [simp]: "map_of (dict_set k v d) = (map_of d)(k \<mapsto> v)"
  by (induction d) auto

lemma map_of_dict_del [simp]: "map_of (dict_del k d) = (map_of d)(k := None)"
  by (rule ext, induction d) (auto simp: dict_del_def)

lemma dict_has_map_of: "dict_has k d \<longleftrightarrow> map_of d k \<noteq> None"
  by (simp add: dict_has_def map_of_eq_None_iff)

lemma dict_has_simps [simp]:
  "\<not> dict_has k []"
  "dict_has k (e # d) \<longleftrightarrow> fst e = k \<or> dict_has k d"
  by (auto simp: dict_has_def)

lemma dict_set_keys: "map fst (dict_set k v d) = (if dict_has k d then map fst d else map fst d @ [k])"
  by (induction d) auto

lemma dict_ok_set [simp]: "dict_ok d \<Longrightarrow> dict_ok (dict_set k v d)"
  by (auto simp: dict_ok_def dict_set_keys dict_has_def)

lemma dict_ok_filter [simp]: "dict_ok d \<Longrightarrow> dict_ok (filter P d)"
  by (auto simp: dict_ok_def distinct_map_filter)

lemma dict_ok_del [simp]: "dict_ok d \<Longrightarrow> dict_ok (dict_del k d)"
  by (simp add: dict_del_def)

lemma length_dict_set: "length (dict_set k v d) = (if dict_has k d then length d else Suc (length d))"
  by (induction d) auto

lemma set_dict_set: "set (dict_set k v d) \<subseteq> insert (k, v) (set d)"
  by (induction d) (auto split: if_splits)

lemma dict_set_new: "\<not> dict_has k d \<Longrightarrow> dict_set k v d = d @ [(k, v)]"
  by (induction d) auto

lemma map_of_filter: "dict_ok d \<Longrightarrow> map_of (filter P d) k = (case map_of d k of None \<Rightarrow> None | Some v \<Rightarrow> if P (k, v) then Some v else None)"
proof (induction d)
  case (Cons e d)
  obtain j w where e: "e = (j, w)" by fastforce
  have ih: "map_of (filter P d) k = (case map_of d k of None \<Rightarrow> None | Some v \<Rightarrow> if P (k, v) then Some v else None)"
    using Cons by (simp add: dict_ok_def)
  have "j = k \<Longrightarrow> map_of d k = None"
    using Cons.prems by (auto simp: e dict_ok_def map_of_eq_None_iff)
  with ih show ?case by (auto simp: e)
qed simp

end
