(* ===== verification/NatCache.thy ===== *)
theory NatCache
  imports PyDict NatUtils History "HOL-Library.List_Lexorder" "HOL-Library.Char_ord" "HOL-Library.Multiset"
begin

text \<open>
  The cache of NAT classifications (\<open>nic/nat/nat_cache.py\<close>): the fingerprint of the attached network and the
  bounded file of results. The file is its parsed content, None when missing or corrupt; whether a write
  succeeds, the interfaces' addresses and the hash are arguments. A stored value that is not a dict is None.
\<close>

section \<open>Fingerprint\<close>

text \<open>\<open>gateway_ips\<close>: the families of \<open>netifaces.gateways()\<close> with their entries; an entry is its first
  component, or None when it is empty or no tuple.\<close>

definition gateway_ips :: "(string \<times> string option list) list option \<Rightarrow> string list" where
  "gateway_ips gws =
     (case gws of
        None \<Rightarrow> []
      | Some d \<Rightarrow>
          sort (remdups (concat (map (\<lambda>(k, entries). if k = ''default'' then [] else List.map_filter id entries) d))))"

text \<open>\<open>str(IPv6Address)\<close>: the first longest run of two or more zero groups becomes a double colon.\<close>

fun show_hex :: "nat \<Rightarrow> string" where
  "show_hex n = (if n < 16 then [digit_c n] else show_hex (n div 16) @ [digit_c (n mod 16)])"

declare show_hex.simps [simp del]

definition zero_run :: "nat list \<Rightarrow> nat \<Rightarrow> nat" where
  "zero_run ws i = length (takeWhile ((=) 0) (drop i ws))"

definition best_run :: "nat list \<Rightarrow> nat \<times> nat" where
  "best_run ws = foldl (\<lambda>(bi, bl) i. if zero_run ws i > bl then (i, zero_run ws i) else (bi, bl)) (0, 0) [0..<length ws]"

definition compress6 :: "nat list \<Rightarrow> string" where
  "compress6 ws =
     (case best_run ws of
        (i, l) \<Rightarrow>
          if l > 1
          then py_join (CHR '':'') (map show_hex (take i ws)) @ ''::'' @ py_join (CHR '':'') (map show_hex (drop (i + l) ws))
          else py_join (CHR '':'') (map show_hex ws))"

definition prefix6 :: "string \<Rightarrow> string" where
  "prefix6 addr =
     (if addr = [] then []
      else (case ipa_of_str addr of
              Inr (IP6, n) \<Rightarrow> compress6 (v6_words (be_bytes 16 (n div 2 ^ 64 * 2 ^ 64)))
            | _ \<Rightarrow> []))"

text \<open>An interface as the fingerprint sees it; an address that cannot be asked for is None.\<close>

record nic_view =
  nv_name :: string
  nv_ip4 :: "string option"
  nv_ip6 :: "string option"
  nv_gws :: "(string \<times> string option list) list option"

definition nic_part :: "nic_view \<Rightarrow> string" where
  "nic_part n =
     py_join (CHR ''|'')
       [nv_name n, (case nv_ip4 n of None \<Rightarrow> [] | Some s \<Rightarrow> s),
        (case nv_ip6 n of None \<Rightarrow> [] | Some s \<Rightarrow> prefix6 s), py_join (CHR '','') (gateway_ips (nv_gws n))]"

definition network_fingerprint :: "(string \<Rightarrow> string) \<Rightarrow> nic_view list \<Rightarrow> string" where
  "network_fingerprint sha256_hex ifs =
     take 32 (sha256_hex (py_join (CHR ''\<newline>'') (map nic_part (sort_key nv_name ifs))))"

section \<open>Cache\<close>

definition NAT_CACHE_MAX_NETWORKS :: nat where "NAT_CACHE_MAX_NETWORKS = 16"

type_synonym nat_by_nic = "(string \<times> nat_desc) list"
type_synonym nat_cache = "(string \<times> nat_by_nic option) list"

definition load_nat_cache :: "nat_cache option \<Rightarrow> nat_cache" where
  "load_nat_cache file = (case file of None \<Rightarrow> [] | Some d \<Rightarrow> d)"

definition nat_cache_get :: "string \<Rightarrow> nat_cache option \<Rightarrow> nat_by_nic option" where
  "nat_cache_get fp file =
     (case map_of (load_nat_cache file) fp of
        Some (Some e) \<Rightarrow> if e = [] then None else Some e
      | _ \<Rightarrow> None)"

definition nat_cache_put :: "bool \<Rightarrow> string \<Rightarrow> nat_by_nic \<Rightarrow> nat_cache option \<Rightarrow> nat_cache option" where
  "nat_cache_put write_ok fp nics file =
     (if fp = [] \<or> nics = [] then file
      else (let cache = dict_set fp (Some nics) (load_nat_cache file);
                cache = (if length cache > NAT_CACHE_MAX_NETWORKS
                         then drop (length cache - NAT_CACHE_MAX_NETWORKS) cache else cache)
            in if write_ok then Some cache else file))"

section \<open>Laws of a bounded cache\<close>

text \<open>A store with the operations \<open>put\<close> and \<open>get\<close>: what was put last is found, and a put invents nothing.\<close>

locale hint_store =
  fixes put :: "'k \<Rightarrow> 'v \<Rightarrow> 's \<Rightarrow> 's"
    and get :: "'k \<Rightarrow> 's \<Rightarrow> 'v option"
    and ok :: "'s \<Rightarrow> bool"
    and storable :: "'k \<Rightarrow> 'v \<Rightarrow> bool"
  assumes put_ok: "ok s \<Longrightarrow> ok (put k v s)"
    and get_put: "ok s \<Longrightarrow> storable k v \<Longrightarrow> get k (put k v s) = Some v"
    and get_other: "ok s \<Longrightarrow> j \<noteq> k \<Longrightarrow> get j (put k v s) = Some w \<Longrightarrow> get j s = Some w"
    and put_refused: "ok s \<Longrightarrow> \<not> storable k v \<Longrightarrow> put k v s = s"
begin

definition puts :: "('k \<times> 'v) list \<Rightarrow> 's \<Rightarrow> 's" where
  "puts kvs s = foldl (\<lambda>s (k, v). put k v s) s kvs"

lemma puts_snoc: "puts (kvs @ [(k, v)]) s = put k v (puts kvs s)"
  by (simp add: puts_def)

lemma puts_ok: "ok s \<Longrightarrow> ok (puts kvs s)"
  by (induction kvs rule: rev_induct) (auto simp: puts_def put_ok)

text \<open>Whatever is found is the last value that was put for its key, or was there before.\<close>

lemma get_puts:
  assumes "ok s" "get k (puts kvs s) = Some v"
  shows "(case map_of (rev (filter (\<lambda>(k, v). storable k v) kvs)) k of None \<Rightarrow> get k s | Some w \<Rightarrow> Some w) = Some v"
  using assms(2)
proof (induction kvs rule: rev_induct)
  case (snoc e kvs)
  obtain j w where e: "e = (j, w)" by fastforce
  show ?case
  proof (cases "storable j w \<and> j = k")
    case True
    then have "storable k w" "j = k" by auto
    then show ?thesis using snoc.prems get_put [OF puts_ok [OF assms(1)], of k w kvs] by (simp add: e puts_snoc)
  next
    case False
    then have "get k (puts kvs s) = Some v"
      using snoc.prems get_other [OF puts_ok [OF assms(1)], of k j w kvs v] put_refused [OF puts_ok [OF assms(1)], of j w kvs]
      by (cases "j = k") (auto simp: e puts_snoc)
    with snoc.IH False show ?thesis by (auto simp: e)
  qed
qed (simp add: puts_def)

end

definition cache_ok :: "nat_cache option \<Rightarrow> bool" where
  "cache_ok file \<longleftrightarrow> dict_ok (load_nat_cache file) \<and> length (load_nat_cache file) \<le> NAT_CACHE_MAX_NETWORKS"

definition cache_storable :: "string \<Rightarrow> nat_by_nic \<Rightarrow> bool" where
  "cache_storable fp nics \<longleftrightarrow> fp \<noteq> [] \<and> nics \<noteq> []"

lemma cache_max_pos: "0 < NAT_CACHE_MAX_NETWORKS"
  by (simp add: NAT_CACHE_MAX_NETWORKS_def)

text \<open>A put under the invariant: in place, appended, or appended with the first entry dropped.\<close>

lemma put_cases:
  assumes "cache_ok file" "cache_storable fp nics"
  shows "load_nat_cache (nat_cache_put True fp nics file) =
    (let d = load_nat_cache file in
     if dict_has fp d then dict_set fp (Some nics) d
     else if length d = NAT_CACHE_MAX_NETWORKS then drop 1 d @ [(fp, Some nics)] else d @ [(fp, Some nics)])"
  using assms cache_max_pos
  by (auto simp: nat_cache_put_def cache_storable_def cache_ok_def load_nat_cache_def Let_def dict_set_new
      length_dict_set drop_Suc neq_Nil_conv)

lemma map_of_drop: "map_of (drop n d) k = Some v \<Longrightarrow> dict_ok d \<Longrightarrow> map_of d k = Some v"
proof -
  assume "map_of (drop n d) k = Some v" "dict_ok d"
  then have "(k, v) \<in> set d" "distinct (map fst d)" by (auto dest: map_of_SomeD in_set_dropD simp: dict_ok_def)
  then show "map_of d k = Some v" by simp
qed

lemma map_of_drop_None: "map_of d k = None \<Longrightarrow> map_of (drop n d) k = None"
  by (auto simp: map_of_eq_None_iff dest: in_set_dropD)

lemma put_refused_id: "\<not> cache_storable fp nics \<Longrightarrow> nat_cache_put ok fp nics file = file"
  by (auto simp: nat_cache_put_def cache_storable_def)

lemma put_keeps_ok:
  assumes "cache_ok file"
  shows "cache_ok (nat_cache_put True fp nics file)"
proof (cases "cache_storable fp nics")
  case True
  let ?d = "load_nat_cache file"
  have "dict_ok (drop 1 ?d @ [(fp, Some nics)])" if "\<not> dict_has fp ?d"
  proof -
    have "dict_ok (?d @ [(fp, Some nics)])"
      using assms that dict_ok_set [of ?d fp "Some nics"] by (simp add: cache_ok_def dict_set_new)
    moreover have "?d = [] \<or> ?d = hd ?d # drop 1 ?d" by (cases ?d) auto
    ultimately show ?thesis by (cases ?d) (auto simp: dict_ok_def)
  qed
  with assms True cache_max_pos show ?thesis
    unfolding cache_ok_def put_cases [OF assms True] Let_def
    by (auto simp: length_dict_set dict_set_new [symmetric])
qed (use assms put_refused_id in simp)

lemma get_after_put: "cache_ok file \<Longrightarrow> cache_storable fp nics \<Longrightarrow> nat_cache_get fp (nat_cache_put True fp nics file) = Some nics"
  by (simp add: nat_cache_get_def put_cases Let_def)
    (auto simp: cache_storable_def map_add_def dict_has_map_of map_of_drop_None split: option.split)

lemma get_not_invented:
  assumes "cache_ok file" "j \<noteq> fp" "nat_cache_get j (nat_cache_put True fp nics file) = Some v"
  shows "nat_cache_get j file = Some v"
proof (cases "cache_storable fp nics")
  case True
  have "map_of (load_nat_cache (nat_cache_put True fp nics file)) j = Some (Some v)"
    using assms(3) by (auto simp: nat_cache_get_def split: option.splits if_splits)
  then have "map_of (load_nat_cache file) j = Some (Some v)"
    unfolding put_cases [OF assms(1) True] Let_def
    using assms(1,2) by (auto simp: cache_ok_def map_add_Some_iff dest: map_of_drop split: if_splits)
  moreover have "v \<noteq> []" using assms(3) by (auto simp: nat_cache_get_def split: option.splits if_splits)
  ultimately show ?thesis by (simp add: nat_cache_get_def)
qed (use assms put_refused_id in simp)

interpretation hints: hint_store "nat_cache_put True" nat_cache_get cache_ok cache_storable
  by unfold_locales (erule put_keeps_ok, erule (1) get_after_put, erule (2) get_not_invented, rule put_refused_id)

section \<open>Properties\<close>

text \<open>After any sequence of stores into a missing file the cache holds at most sixteen networks, and what
  it answers for a network is the last result that was stored for it.\<close>

theorem nat_cache_answers_last:
  assumes "nat_cache_get fp (hints.puts kvs None) = Some v"
  shows "length (load_nat_cache (hints.puts kvs None)) \<le> 16 \<and>
    map_of (rev (filter (\<lambda>(k, v). k \<noteq> [] \<and> v \<noteq> []) kvs)) fp = Some v"
proof -
  have none: "cache_ok None" "nat_cache_get fp None = None"
    by (simp_all add: cache_ok_def load_nat_cache_def nat_cache_get_def)
  have eq: "(\<lambda>(k, v). cache_storable k v) = (\<lambda>(k, v). k \<noteq> [] \<and> v \<noteq> [])"
    by (simp add: cache_storable_def fun_eq_iff)
  have "(case map_of (rev (filter (\<lambda>(k, v). k \<noteq> [] \<and> v \<noteq> []) kvs)) fp of None \<Rightarrow> None | Some w \<Rightarrow> Some w) = Some v"
    using hints.get_puts [OF none(1) assms] unfolding eq none(2) .
  then have "map_of (rev (filter (\<lambda>(k, v). k \<noteq> [] \<and> v \<noteq> []) kvs)) fp = Some v"
    by (cases "map_of (rev (filter (\<lambda>(k, v). k \<noteq> [] \<and> v \<noteq> []) kvs)) fp") simp_all
  then show ?thesis
    using hints.puts_ok [OF none(1), of kvs] unfolding cache_ok_def NAT_CACHE_MAX_NETWORKS_def by blast
qed

theorem nat_cache_answers_last_witness:
  "length (load_nat_cache (hints.puts [(''ab'', [(''eth0'', nat_info None None None)])] None)) \<le> 16 \<and>
    map_of (rev (filter (\<lambda>(k, v). k \<noteq> [] \<and> v \<noteq> []) [(''ab'', [(''eth0'', nat_info None None None)])])) ''ab'' =
      Some [(''eth0'', nat_info None None None)]"
  by (rule nat_cache_answers_last)
    (simp add: hints.puts_def nat_cache_put_def load_nat_cache_def nat_cache_get_def NAT_CACHE_MAX_NETWORKS_def Let_def)

text \<open>Storing a known network again does not renew its place: in a full cache the network that was
  revalidated last is dropped by the next new one when it was the first to be stored.\<close>

theorem refreshed_network_dropped:
  assumes "cache_ok (Some ((fp, v) # d))" "length d = 15" "fp \<noteq> []" "nics \<noteq> []" "new \<noteq> []"
    "new \<noteq> fp" "new \<notin> fst ` set d"
  shows "nat_cache_get fp (nat_cache_put True new nics' (nat_cache_put True fp nics (Some ((fp, v) # d)))) =
    (if nics' = [] then Some nics else None)"
proof -
  have "fp \<notin> fst ` set d" using assms(1) by (auto simp: cache_ok_def load_nat_cache_def dict_ok_def)
  then have none: "map_of d fp = None" by (simp add: map_of_eq_None_iff)
  have nd: "dict_set new v d = d @ [(new, v)]" for v
    using assms(7) by (intro dict_set_new) (auto simp: dict_has_def)
  show ?thesis
    using assms none
    by (auto simp: nat_cache_put_def nat_cache_get_def load_nat_cache_def NAT_CACHE_MAX_NETWORKS_def Let_def nd
        map_add_def split: option.split)
qed

theorem refreshed_network_dropped_witness:
  "\<exists>d. nat_cache_get ''a'' (nat_cache_put True ''z'' [(''e'', nat_info None None None)]
      (nat_cache_put True ''a'' [(''e'', nat_info None None None)] (Some ((''a'', None) # d)))) = None"
proof -
  define d :: nat_cache where "d = map (\<lambda>n. (replicate n CHR ''b'', None)) [1..<16]"
  have "cache_ok (Some ((''a'', None) # d))"
    by (auto simp: cache_ok_def load_nat_cache_def d_def dict_ok_def NAT_CACHE_MAX_NETWORKS_def comp_def distinct_map
        inj_on_def replicate_eq_replicate Cons_replicate_eq)
  moreover have "length d = 15" "''z'' \<notin> fst ` set d"
    by (auto simp: d_def Cons_replicate_eq)
  ultimately have "nat_cache_get ''a'' (nat_cache_put True ''z'' [(''e'', nat_info None None None)]
      (nat_cache_put True ''a'' [(''e'', nat_info None None None)] (Some ((''a'', None) # d)))) = None"
    using refreshed_network_dropped [of "''a''" None d "[(''e'', nat_info None None None)]" "''z''" "[(''e'', nat_info None None None)]"]
    by simp
  then show ?thesis by blast
qed

text \<open>Two views of the same attachment: the IPv6 addresses may differ in their 64-bit suffixes.\<close>

definition same_network :: "nic_view \<Rightarrow> nic_view \<Rightarrow> bool" where
  "same_network a b \<longleftrightarrow>
     nv_name a = nv_name b \<and> nv_ip4 a = nv_ip4 b \<and> nv_gws a = nv_gws b \<and>
     (nv_ip6 a = nv_ip6 b \<or>
      (\<exists>s t m n. nv_ip6 a = Some s \<and> nv_ip6 b = Some t \<and> s \<noteq> [] \<and> t \<noteq> [] \<and>
         ipa_of_str s = Inr (IP6, m) \<and> ipa_of_str t = Inr (IP6, n) \<and> m div 2 ^ 64 = n div 2 ^ 64))"

lemma same_network_part: "same_network a b \<Longrightarrow> nic_part a = nic_part b"
  by (auto simp: same_network_def nic_part_def prefix6_def)

lemma insort_views:
  "list_all2 same_network xs ys \<Longrightarrow> same_network a b \<Longrightarrow>
   list_all2 same_network (insort_key nv_name a xs) (insort_key nv_name b ys)"
proof (induction rule: list_all2_induct)
  case (Cons x xs y ys)
  then have "nv_name x = nv_name y" "nv_name a = nv_name b" by (auto simp: same_network_def)
  with Cons show ?case by simp
qed simp

lemma sort_views: "list_all2 same_network xs ys \<Longrightarrow> list_all2 same_network (sort_key nv_name xs) (sort_key nv_name ys)"
  by (induction rule: list_all2_induct) (simp_all add: sort_key_def insort_views)

lemma view_parts: "list_all2 same_network xs ys \<Longrightarrow> map nic_part xs = map nic_part ys"
  by (induction rule: list_all2_induct) (auto intro: same_network_part)

text \<open>The fingerprint depends neither on the order in which the interfaces are listed nor on the 64-bit
  suffixes of their IPv6 addresses.\<close>

theorem fingerprint_stable:
  assumes "distinct (map nv_name l)" "mset ifs' = mset l" "list_all2 same_network ifs l"
  shows "network_fingerprint sha256_hex ifs' = network_fingerprint sha256_hex ifs"
proof -
  have "inj_on nv_name (set ifs')"
    using assms(1,2) by (simp add: distinct_map mset_eq_setD [OF assms(2)])
  moreover have "mset ifs' = mset (sort_key nv_name l)" using assms(2) by simp
  ultimately have "sort_key nv_name ifs' = sort_key nv_name l"
    by (intro sort_key_inj_key_eq) simp_all
  moreover have "map nic_part (sort_key nv_name ifs) = map nic_part (sort_key nv_name l)"
    by (rule view_parts, rule sort_views) (rule assms(3))
  ultimately show ?thesis by (simp add: network_fingerprint_def)
qed

theorem fingerprint_stable_witness:
  "\<exists>s t. s \<noteq> t \<and> network_fingerprint (\<lambda>s. s)
     [\<lparr>nv_name = ''b'', nv_ip4 = None, nv_ip6 = Some t, nv_gws = None\<rparr>,
      \<lparr>nv_name = ''a'', nv_ip4 = Some ''10.0.0.2'', nv_ip6 = None, nv_gws = None\<rparr>] =
   network_fingerprint (\<lambda>s. s)
     [\<lparr>nv_name = ''a'', nv_ip4 = Some ''10.0.0.2'', nv_ip6 = None, nv_gws = None\<rparr>,
      \<lparr>nv_name = ''b'', nv_ip4 = None, nv_ip6 = Some s, nv_gws = None\<rparr>]"
proof (intro exI conjI)
  define s t where "s = ipa_text (IP6, 2 ^ 64 + 1)" and "t = ipa_text (IP6, 2 ^ 64 + 2)"
  let ?a = "\<lparr>nv_name = ''a'', nv_ip4 = Some ''10.0.0.2'', nv_ip6 = None, nv_gws = None\<rparr>"
  let ?b = "\<lambda>s. \<lparr>nv_name = ''b'', nv_ip4 = None, nv_ip6 = Some s, nv_gws = None\<rparr>"
  have st: "ipa_of_str s = Inr (IP6, 2 ^ 64 + 1)" "ipa_of_str t = Inr (IP6, 2 ^ 64 + 2)"
    unfolding s_def t_def by (simp_all add: ipa_of_str_text ipa_ok_def af_bitlen_def)
  then show "s \<noteq> t" by auto
  have "ipa_of_str [] \<noteq> Inr (IP6, 2 ^ 64 + 1)" "ipa_of_str [] \<noteq> Inr (IP6, 2 ^ 64 + 2)"
    by code_simp+
  with st have "s \<noteq> []" "t \<noteq> []" by metis+
  with st have "\<exists>u v m n. Some s = Some u \<and> Some t = Some v \<and> u \<noteq> [] \<and> v \<noteq> [] \<and>
      ipa_of_str u = Inr (IP6, m) \<and> ipa_of_str v = Inr (IP6, n) \<and> m div 2 ^ 64 = n div 2 ^ 64"
    by (intro exI [of _ s] exI [of _ t] exI [of _ "2 ^ 64 + 1"] exI [of _ "2 ^ 64 + 2"]) simp
  then have "same_network (?b s) (?b t)" by (simp add: same_network_def)
  then have l: "list_all2 same_network [?a, ?b s] [?a, ?b t]" by (simp add: same_network_def)
  show "network_fingerprint (\<lambda>s. s) [?b t, ?a] = network_fingerprint (\<lambda>s. s) [?a, ?b s]"
    by (rule fingerprint_stable [OF _ _ l]) simp_all
qed

end
