(* ===== verification/AckUdp.thy ===== *)
theory AckUdp
  imports PyDict PyStd
begin

text \<open>
  Acknowledged datagrams (\<open>protocol/ack_udp.py\<close>): the frame of a numbered message, what a receiver makes of
  it, the acknowledgement it sends, the table of events that outgoing messages wait on, the retransmission
  loop and the filter of duplicate messages. An \<open>asyncio.Event\<close> is the flag that it is set; a task is what it
  sends and whether it is done. The hash of Python is a parameter.
\<close>

section \<open>State\<close>

definition UDP_MAX_DICT_LEN :: nat where "UDP_MAX_DICT_LEN = 1000"

record ack_state =
  ak_seq :: "(int \<times> bool) list"
  ak_tasks :: "(bytes \<times> bool) list"
  ak_timestamp :: int

definition ack_init :: ack_state where
  "ack_init = \<lparr>ak_seq = [], ak_tasks = [], ak_timestamp = 0\<rparr>"

definition rm_done_tasks :: "('a \<times> bool) list \<Rightarrow> ('a \<times> bool) list" where
  "rm_done_tasks tasks = filter (\<lambda>t. \<not> snd t) tasks"

text \<open>\<open>self.seq[k].set()\<close> when there is such an event.\<close>

definition set_event :: "int \<Rightarrow> (int \<times> bool) list \<Rightarrow> (int \<times> bool) list" where
  "set_event k d = (if dict_has k d then dict_set k True d else d)"

section \<open>Receiving\<close>

definition is_ack :: "bytes \<Rightarrow> int option" where
  "is_ack data =
     (if length data \<ge> 9 then (if data ! 8 = 1 then Some (be_val (take 8 data)) else None) else None)"

type_synonym ackable = "int option \<times> bytes option \<times> bytes option"

definition is_ackable :: "bytes \<Rightarrow> ackable" where
  "is_ackable data =
     (if length data \<ge> 9 then
        (let seq = be_val (take 8 data);
             ack = (if data ! 8 = 0 then Some (be_bytes 8 seq @ [1]) else None)
         in (Some seq, ack, Some (drop 9 data)))
      else (None, None, None))"

text \<open>The predicates are optional arguments, as in the code; a received sequence number that is None is in
  no table. The status and payload come first, then the state, whose tasks hold the acknowledgement sent.\<close>

definition prune_done :: "(int \<times> bool) list \<Rightarrow> (int \<times> bool) list" where
  "prune_done d = (if length d > UDP_MAX_DICT_LEN then filter (\<lambda>e. \<not> snd e) d else d)"

definition ack_reply :: "bytes option \<Rightarrow> bytes option \<Rightarrow> ack_state \<Rightarrow> (int \<times> bytes option) \<times> ack_state" where
  "ack_reply ack payload st =
     (let st = st\<lparr>ak_seq := prune_done (ak_seq st)\<rparr> in
      case ack of
        Some a \<Rightarrow> ((2, payload), st\<lparr>ak_tasks := ak_tasks st @ [(a, False)]\<rparr>)
      | None \<Rightarrow> ((1, payload), st))"

definition handle_ack ::
  "bytes \<Rightarrow> (bytes \<Rightarrow> int option) option \<Rightarrow> (bytes \<Rightarrow> ackable) option \<Rightarrow> int \<Rightarrow> ack_state \<Rightarrow>
   (int \<times> bytes option) \<times> ack_state" where
  "handle_ack data f_is_ack f_is_ackable now st0 =
     (let st = st0\<lparr>ak_tasks := rm_done_tasks (ak_tasks st0), ak_timestamp := now\<rparr> in
      case (case f_is_ack of None \<Rightarrow> None | Some f \<Rightarrow> f data) of
        Some k \<Rightarrow> ((0, None), st\<lparr>ak_seq := set_event k (ak_seq st)\<rparr>)
      | None \<Rightarrow>
          (case f_is_ackable of
             None \<Rightarrow> ack_reply None None st
           | Some f \<Rightarrow>
               (case f data of
                  (recv_seq, ack, None) \<Rightarrow> ((0, None), st)
                | (recv_seq, None, Some payload) \<Rightarrow> ack_reply None (Some payload) st
                | (recv_seq, Some a, Some payload) \<Rightarrow>
                    (case recv_seq of
                       Some k \<Rightarrow>
                         if dict_has k (ak_seq st)
                         then ack_reply None (Some payload) (st\<lparr>ak_seq := set_event k (ak_seq st)\<rparr>)
                         else ack_reply (Some a) (Some payload) st
                     | None \<Rightarrow> ack_reply (Some a) (Some payload) st))))"

section \<open>Sending\<close>

definition ack_frame :: "int \<Rightarrow> bytes \<Rightarrow> bytes result" where
  "ack_frame seq data = bindr (pack_uint 8 seq) (\<lambda>s. Inr (s @ [0] @ data))"

text \<open>How one wait of the worker ends: the entry was gone before it, the event was set, or three seconds
  passed and so much time since the start.\<close>

datatype ack_wait = Gone | Acked | TimedOut int

definition ack_send :: "int \<Rightarrow> ack_state \<Rightarrow> ack_state" where
  "ack_send seq st = st\<lparr>ak_seq := dict_set seq False (ak_seq st)\<rparr>"

text \<open>The number of transmissions when \<open>n\<close> were made before; \<open>w k\<close> is the wait after the \<open>k\<close>-th.\<close>

function worker_sends :: "int \<Rightarrow> int \<Rightarrow> (nat \<Rightarrow> ack_wait) \<Rightarrow> nat \<Rightarrow> nat" where
  "worker_sends tries sock_timeout w n =
     (let n' = Suc n in
      if int n' \<ge> tries then n'
      else (case w n' of
              Gone \<Rightarrow> n'
            | Acked \<Rightarrow> n'
            | TimedOut elapsed \<Rightarrow>
                if sock_timeout \<noteq> 0 \<and> elapsed \<ge> sock_timeout then n'
                else worker_sends tries sock_timeout w n'))"
  by auto

termination by (relation "measure (\<lambda>(tries, _, _, n). nat (tries - int n))") auto

declare worker_sends.simps [simp del]

text \<open>The whole worker: the datagrams it sends and the state after its cleanup, which a frame that cannot be
  packed does not reach.\<close>

definition ack_worker ::
  "int \<Rightarrow> bytes \<Rightarrow> int \<Rightarrow> int \<Rightarrow> (nat \<Rightarrow> ack_wait) \<Rightarrow> ack_state \<Rightarrow> bytes list result \<times> ack_state" where
  "ack_worker seq data tries sock_timeout w st =
     (case ack_frame seq data of
        Inl e \<Rightarrow> (Inl e, st)
      | Inr buf \<Rightarrow>
          (Inr (replicate (worker_sends tries sock_timeout w 0) buf),
           st\<lparr>ak_seq := dict_del seq (ak_seq st)\<rparr>))"

section \<open>Duplicate messages\<close>

definition to_b :: "string \<Rightarrow> bytes" where
  "to_b s = map (\<lambda>c. of_nat (ord_c c)) (filter (\<lambda>c. ord_c c < 128) s)"

text \<open>\<open>is_unique_msg\<close> over the keys of \<open>msg_ids\<close>.\<close>

definition is_unique_msg :: "(bytes \<Rightarrow> int) \<Rightarrow> nat \<Rightarrow> bytes \<Rightarrow> string \<times> int \<Rightarrow> int list \<Rightarrow> int \<times> int list" where
  "is_unique_msg hash max_msg_ids data client_tup ids0 =
     (let ids = (if length ids0 > max_msg_ids then [] else ids0);
          msg_id = hash (to_b (fst client_tup) @ data)
      in if msg_id \<in> set ids then (0, ids) else (1, ids @ [msg_id]))"

section \<open>Lemmas\<close>

lemma map_of_set_event: "map_of (set_event k d) j = (if j = k \<and> map_of d k \<noteq> None then Some True else map_of d j)"
  by (auto simp: set_event_def dict_has_map_of)

lemma dict_ok_set_event [simp]: "dict_ok d \<Longrightarrow> dict_ok (set_event k d)"
  by (simp add: set_event_def)

lemma prune_done_waiting: "dict_ok d \<Longrightarrow> map_of d k = Some False \<Longrightarrow> map_of (prune_done d) k = Some False"
  by (simp add: prune_done_def map_of_filter)

lemma dict_ok_prune_done [simp]: "dict_ok d \<Longrightarrow> dict_ok (prune_done d)"
  by (simp add: prune_done_def)

lemma ack_reply_seq [simp]: "ak_seq (snd (ack_reply ack payload st)) = prune_done (ak_seq st)"
  by (cases ack) (simp_all add: ack_reply_def Let_def)

text \<open>What a frame is to the receiver and to the sender of its acknowledgement.\<close>

lemma frame_fields:
  assumes "0 \<le> seq" "seq < 2 ^ 64"
  shows "ack_frame seq data = Inr (be_bytes 8 seq @ [0] @ data)"
    "is_ack (be_bytes 8 seq @ [0] @ data) = None"
    "is_ackable (be_bytes 8 seq @ [0] @ data) = (Some seq, Some (be_bytes 8 seq @ [1]), Some data)"
    "is_ack (be_bytes 8 seq @ [1]) = Some seq"
  and frame_fields_Cons:
    "ack_frame seq data = Inr (be_bytes 8 seq @ 0 # data)"
    "is_ack (be_bytes 8 seq @ 0 # data) = None"
    "is_ackable (be_bytes 8 seq @ 0 # data) = (Some seq, Some (be_bytes 8 seq @ [1]), Some data)"
proof -
  have l: "length (be_bytes 8 seq) = 8" by simp
  have v: "be_val (be_bytes 8 seq) = seq" using assms by (intro be_val_be_bytes_id) auto
  show "ack_frame seq data = Inr (be_bytes 8 seq @ [0] @ data)"
    using assms by (simp add: ack_frame_def)
  show "is_ack (be_bytes 8 seq @ [0] @ data) = None" "is_ack (be_bytes 8 seq @ [1]) = Some seq"
    "is_ackable (be_bytes 8 seq @ [0] @ data) = (Some seq, Some (be_bytes 8 seq @ [1]), Some data)"
    using l v by (simp_all add: is_ack_def is_ackable_def nth_append)
  then show "ack_frame seq data = Inr (be_bytes 8 seq @ 0 # data)"
    "is_ack (be_bytes 8 seq @ 0 # data) = None"
    "is_ackable (be_bytes 8 seq @ 0 # data) = (Some seq, Some (be_bytes 8 seq @ [1]), Some data)"
    using assms by (simp_all add: ack_frame_def)
qed

lemma handle_ack_ok:
  assumes "dict_ok (ak_seq st)"
  shows "dict_ok (ak_seq (snd (handle_ack data fa fk now st)))"
  using assms
  by (auto simp: handle_ack_def Let_def split: option.splits prod.splits)

lemma worker_sends_more: "Suc n \<le> worker_sends tries sock_timeout w n"
proof (induction tries sock_timeout w n rule: worker_sends.induct)
  case (1 tries sock_timeout w n)
  then show ?case
    by (subst worker_sends.simps) (fastforce simp: Let_def split: ack_wait.split)
qed

lemma worker_sends_bound: "int n < max 1 tries \<Longrightarrow> int (worker_sends tries sock_timeout w n) \<le> max 1 tries"
proof (induction tries sock_timeout w n rule: worker_sends.induct)
  case (1 tries sock_timeout w n)
  then show ?case
    by (subst worker_sends.simps) (auto simp: Let_def split: ack_wait.split)
qed

text \<open>The last transmission is the first after which the worker has a reason to stop.\<close>

definition stops :: "int \<Rightarrow> int \<Rightarrow> (nat \<Rightarrow> ack_wait) \<Rightarrow> nat \<Rightarrow> bool" where
  "stops tries sock_timeout w k \<longleftrightarrow>
     int k \<ge> tries \<or> w k = Gone \<or> w k = Acked \<or> (\<exists>e. w k = TimedOut e \<and> sock_timeout \<noteq> 0 \<and> e \<ge> sock_timeout)"

lemma worker_sends_stops:
  "stops tries sock_timeout w (worker_sends tries sock_timeout w n) \<and>
   (\<forall>k. n < k \<and> k < worker_sends tries sock_timeout w n \<longrightarrow> \<not> stops tries sock_timeout w k)"
proof (induction tries sock_timeout w n rule: worker_sends.induct)
  case (1 tries sock_timeout w n)
  show ?case
  proof (cases "stops tries sock_timeout w (Suc n)")
    case True
    then have "worker_sends tries sock_timeout w n = Suc n"
      by (subst worker_sends.simps) (auto simp: Let_def stops_def split: ack_wait.split)
    with True show ?thesis by auto
  next
    case False
    then obtain e where e: "w (Suc n) = TimedOut e" and go: "\<not> tries \<le> int (Suc n)"
        "\<not> (sock_timeout \<noteq> 0 \<and> e \<ge> sock_timeout)"
      by (cases "w (Suc n)") (auto simp: stops_def)
    then have eq: "worker_sends tries sock_timeout w n = worker_sends tries sock_timeout w (Suc n)"
      by (subst worker_sends.simps) (auto simp: Let_def)
    have ih: "stops tries sock_timeout w (worker_sends tries sock_timeout w (Suc n)) \<and>
        (\<forall>k. Suc n < k \<and> k < worker_sends tries sock_timeout w (Suc n) \<longrightarrow> \<not> stops tries sock_timeout w k)"
      using 1 [OF refl] go e by auto
    then show ?thesis unfolding eq using False by (metis Suc_lessI)
  qed
qed

section \<open>Properties\<close>

text \<open>C28. A message that \<open>ack_send\<close> numbers and frames is delivered by a receiver that does not itself wait
  for this number, which answers it with an acknowledgement; that acknowledgement sets the sender's event,
  is not passed on and is not acknowledged in turn.\<close>

theorem ack_exchange:
  assumes "0 \<le> seq" "seq < 2 ^ 64" "\<not> dict_has seq (ak_seq r)"
  shows "\<exists>frame ack r'. ack_frame seq data = Inr frame \<and>
    handle_ack frame (Some is_ack) (Some is_ackable) now r = ((2, Some data), r') \<and>
    ak_tasks r' = rm_done_tasks (ak_tasks r) @ [(ack, False)] \<and>
    (let (out, s') = handle_ack ack (Some is_ack) (Some is_ackable) now' (ack_send seq s) in
     out = (0, None) \<and> map_of (ak_seq s') seq = Some True \<and> ak_tasks s' = rm_done_tasks (ak_tasks s))"
proof (intro exI conjI)
  note f = frame_fields_Cons [OF assms(1,2)] frame_fields(4) [OF assms(1,2)]
  show "ack_frame seq data = Inr (be_bytes 8 seq @ 0 # data)" by (rule f)
  show "handle_ack (be_bytes 8 seq @ 0 # data) (Some is_ack) (Some is_ackable) now r =
      ((2, Some data), r\<lparr>ak_tasks := rm_done_tasks (ak_tasks r) @ [(be_bytes 8 seq @ [1], False)],
         ak_timestamp := now, ak_seq := prune_done (ak_seq r)\<rparr>)"
    using assms(3) by (simp add: handle_ack_def ack_reply_def f Let_def)
  show "let (out, s') = handle_ack (be_bytes 8 seq @ [1]) (Some is_ack) (Some is_ackable) now' (ack_send seq s) in
     out = (0, None) \<and> map_of (ak_seq s') seq = Some True \<and> ak_tasks s' = rm_done_tasks (ak_tasks s)"
    by (simp add: handle_ack_def ack_send_def f map_of_set_event Let_def)
qed simp

theorem ack_exchange_witness:
  "\<exists>frame ack r'. ack_frame 7 [1, 2] = Inr frame \<and>
    handle_ack frame (Some is_ack) (Some is_ackable) 3 ack_init = ((2, Some [1, 2]), r') \<and>
    ak_tasks r' = rm_done_tasks (ak_tasks ack_init) @ [(ack, False)] \<and>
    (let (out, s') = handle_ack ack (Some is_ack) (Some is_ackable) 4 (ack_send 7 ack_init) in
     out = (0, None) \<and> map_of (ak_seq s') 7 = Some True \<and> ak_tasks s' = rm_done_tasks (ak_tasks ack_init))"
  using ack_exchange [of 7 ack_init "[1, 2]" 3 4 ack_init] by (simp add: ack_init_def dict_has_def)

text \<open>An event that a sender still waits on is lost by no incoming packet, whatever the size of the
  table: it stays in the table unset, or the packet carried its number.\<close>

theorem waiting_event_kept:
  assumes "dict_ok (ak_seq st)" "map_of (ak_seq st) k = Some False"
    "map_of (ak_seq (snd (handle_ack data (Some is_ack) (Some is_ackable) now st))) k \<noteq> Some False"
  shows "length data \<ge> 9 \<and> be_val (take 8 data) = k \<and> (data ! 8 = 0 \<or> data ! 8 = 1)"
proof (rule ccontr)
  assume no: "\<not> ?thesis"
  have "map_of (ak_seq (snd (handle_ack data (Some is_ack) (Some is_ackable) now st))) k = Some False"
  proof (cases "length data \<ge> 9")
    case True
    show ?thesis
    proof (cases "be_val (take 8 data) = k")
      case True
      with no \<open>length data \<ge> 9\<close> assms(1,2) show ?thesis
        by (simp add: handle_ack_def is_ack_def is_ackable_def Let_def prune_done_waiting)
    next
      case False
      then have "map_of (set_event (be_val (take 8 data)) (ak_seq st)) k = Some False"
        using assms(2) by (simp add: map_of_set_event)
      with \<open>length data \<ge> 9\<close> assms(1,2) show ?thesis
        by (simp add: handle_ack_def is_ack_def is_ackable_def Let_def prune_done_waiting)
    qed
  next
    case False
    with assms(2) show ?thesis by (simp add: handle_ack_def is_ack_def is_ackable_def Let_def)
  qed
  with assms(3) show False by simp
qed

theorem waiting_event_kept_witness:
  "length (be_bytes 8 5 @ [1] :: bytes) \<ge> 9 \<and> be_val (take 8 (be_bytes 8 5 @ [1])) = 5 \<and>
   ((be_bytes 8 5 @ [1] :: bytes) ! 8 = 0 \<or> (be_bytes 8 5 @ [1] :: bytes) ! 8 = 1)"
proof (rule waiting_event_kept [of "ack_send 5 ack_init" 5 "be_bytes 8 5 @ [1]" 0])
  show "map_of (ak_seq (snd (handle_ack (be_bytes 8 5 @ [1]) (Some is_ack) (Some is_ackable) 0 (ack_send 5 ack_init)))) 5 \<noteq> Some False"
    using frame_fields(4) [of 5]
    by (simp add: handle_ack_def ack_send_def ack_init_def map_of_set_event Let_def)
qed (simp_all add: ack_send_def ack_init_def dict_ok_def)

text \<open>C22. The sender transmits at least once and at most \<open>tries\<close> times, stops after the first transmission
  that is acknowledged, whose entry is gone or whose time is up, and leaves no entry behind.\<close>

theorem worker_sends_spec:
  assumes "0 \<le> seq" "seq < 2 ^ 64"
  shows "\<exists>sent st'. ack_worker seq data tries sock_timeout w st = (Inr sent, st') \<and>
    1 \<le> length sent \<and> int (length sent) \<le> max 1 tries \<and>
    set sent = {be_bytes 8 seq @ [0] @ data} \<and>
    stops tries sock_timeout w (length sent) \<and>
    list_all (\<lambda>k. \<not> stops tries sock_timeout w k) [1..<length sent] \<and>
    \<not> dict_has seq (ak_seq st')"
proof -
  have "1 \<le> worker_sends tries sock_timeout w 0" using worker_sends_more [of 0 tries sock_timeout w] by simp
  moreover have "int (worker_sends tries sock_timeout w 0) \<le> max 1 tries" by (rule worker_sends_bound) simp
  ultimately show ?thesis
    using worker_sends_stops [of tries sock_timeout w 0] frame_fields(1) [OF assms]
    by (auto simp: ack_worker_def dict_has_map_of list_all_iff)
qed

theorem worker_sends_spec_witness:
  "\<exists>sent st'. ack_worker 9 [1] 3 0 (\<lambda>k. if k = 2 then Acked else TimedOut 3) ack_init = (Inr sent, st') \<and>
    1 \<le> length sent \<and> int (length sent) \<le> max 1 3 \<and> set sent = {be_bytes 8 9 @ [0] @ [1]} \<and>
    stops 3 0 (\<lambda>k. if k = 2 then Acked else TimedOut 3) (length sent) \<and>
    list_all (\<lambda>k. \<not> stops 3 0 (\<lambda>k. if k = 2 then Acked else TimedOut 3) k) [1..<length sent] \<and>
    \<not> dict_has 9 (ak_seq st')"
  by (rule worker_sends_spec) simp_all

text \<open>The duplicate filter joins the address text and the payload with nothing between, so a first
  message of one host can be dropped because of a different message of another host, for every hash.\<close>

theorem unique_msg_confuses_hosts:
  assumes "1 \<le> max_msg_ids"
  shows "\<exists>ids. is_unique_msg hash max_msg_ids [0x32, 0x41] (''10.0.0.1'', p) [] = (1, ids) \<and>
    fst (is_unique_msg hash max_msg_ids [0x41] (''10.0.0.12'', q) ids) = 0"
proof -
  have b: "to_b ''10.0.0.1'' @ [0x32, 0x41] = to_b ''10.0.0.12'' @ [0x41]" by code_simp
  show ?thesis using assms by (simp add: is_unique_msg_def b Let_def)
qed

theorem unique_msg_confuses_hosts_witness:
  "\<exists>ids. is_unique_msg (\<lambda>b. int (length b)) 10 [0x32, 0x41] (''10.0.0.1'', 5) [] = (1, ids) \<and>
    fst (is_unique_msg (\<lambda>b. int (length b)) 10 [0x41] (''10.0.0.12'', 6) ids) = 0"
  by (rule unique_msg_confuses_hosts) simp

end
