(* ===== verification/Pipe.thy ===== *)
theory Pipe
  imports AckUdp IpAddr Complex_Main "HOL-Library.Sublist"
begin

text \<open>
  Message routing of a pipe: the subscriptions and queues of \<open>PipeClient\<close> (\<open>net/pipe/pipe_client.py\<close>), the path
  of a received packet through \<open>PipeEvents\<close> (\<open>net/pipe/pipe_events.py\<close>) and the request loops of
  \<open>net/net_patterns.py\<close>. Hashes and the regular expression search (whether it finds anything, or raises) are
  parameters; a handler is a number, and running it is recorded. A queue item is a message or the close marker None. What arrives while \<open>recv\<close>
  waits is taken to be in the queue when it starts.
\<close>

section \<open>Subscriptions\<close>

type_synonym addr = "string \<times> int"
type_synonym sub = "bytes option \<times> addr option"
type_synonym message = "addr \<times> bytes"

text \<open>Why \<open>re.findall\<close> can raise: a pattern that is not of bytes, or no regular expression.\<close>

datatype find_error = FindTypeError | FindReError

definition SUB_ALL :: sub where "SUB_ALL = (None, None)"

record sub_entry =
  se_sub :: sub
  se_queue :: "message option list"
  se_handler :: "nat option"

record pipe_env =
  env_hash_pat :: "bytes option \<Rightarrow> int"
  env_hash_str :: "string \<Rightarrow> int"
  env_hash_msg :: "bytes \<Rightarrow> int"
  env_findall :: "bytes \<Rightarrow> bytes \<Rightarrow> find_error + bool"
  env_max_qsize :: nat
  env_enable_msg_ids :: bool
  env_max_msg_ids :: nat

record pipe_client =
  pc_subs :: "(int \<times> sub_entry) list"
  pc_calls :: "(nat \<times> message) list"

definition pipe_client_init :: pipe_client where
  "pipe_client_init = \<lparr>pc_subs = [], pc_calls = []\<rparr>"

definition norm_client_tup :: "addr \<Rightarrow> addr result" where
  "norm_client_tup t = bindr (ip_norm (fst t)) (\<lambda>ip. Inr (ip, snd t))"

definition hash_sub :: "pipe_env \<Rightarrow> sub \<Rightarrow> int" where
  "hash_sub env s =
     (case snd s of
        None \<Rightarrow> env_hash_pat env (fst s)
      | Some (ip, port) \<Rightarrow> env_hash_pat env (fst s) + env_hash_str env (ip @ '':'' @ show_int port))"

definition norm_sub :: "sub \<Rightarrow> sub result" where
  "norm_sub s = (case snd s of None \<Rightarrow> Inr s | Some t \<Rightarrow> bindr (norm_client_tup t) (\<lambda>t'. Inr (fst s, Some t')))"

definition subscribe :: "pipe_env \<Rightarrow> sub \<Rightarrow> nat option \<Rightarrow> pipe_client \<Rightarrow> (int \<times> pipe_client) result" where
  "subscribe env s handler c =
     bindr (norm_sub s) (\<lambda>s'.
       let k = hash_sub env s' in
       Inr (k, if dict_has k (pc_subs c) then c
               else c\<lparr>pc_subs := dict_set k \<lparr>se_sub = s', se_queue = [], se_handler = handler\<rparr> (pc_subs c)\<rparr>))"

text \<open>\<open>unsubscribe\<close> hashes what it is given.\<close>

definition unsubscribe :: "pipe_env \<Rightarrow> sub \<Rightarrow> pipe_client \<Rightarrow> pipe_client" where
  "unsubscribe env s c =
     (let k = hash_sub env s in if dict_has k (pc_subs c) then c\<lparr>pc_subs := dict_del k (pc_subs c)\<rparr> else c)"

section \<open>Messages\<close>

definition do_add :: "nat \<Rightarrow> 'a \<Rightarrow> 'a list \<Rightarrow> 'a list" where
  "do_add max_qsize x q = (if max_qsize > 0 \<and> length q \<ge> max_qsize then tl q else q) @ [x]"

text \<open>The filters of a subscription; the search raises what \<open>re.findall\<close> raises.\<close>

definition sub_matches :: "pipe_env \<Rightarrow> sub \<Rightarrow> message \<Rightarrow> bool result" where
  "sub_matches env s m =
     (if (case snd s of
            None \<Rightarrow> False
          | Some t \<Rightarrow> if snd t \<noteq> 0 then t \<noteq> fst m else fst t \<noteq> fst (fst m))
      then Inr False
      else (case fst s of
              None \<Rightarrow> Inr True
            | Some p \<Rightarrow>
                if p = [] then Inr True
                else (case env_findall env p (snd m) of
                        Inl FindTypeError \<Rightarrow> Inl TypeError
                      | Inl FindReError \<Rightarrow> Inl ReError
                      | Inr found \<Rightarrow> Inr found)))"

definition add_entry :: "pipe_env \<Rightarrow> message \<Rightarrow> sub_entry \<Rightarrow> sub_entry" where
  "add_entry env m e =
     (if se_handler e = None
      then e\<lparr>se_queue := do_add (env_max_qsize env) (Some m) (se_queue e)\<rparr> else e)"

definition handler_calls :: "message \<Rightarrow> sub_entry \<Rightarrow> (nat \<times> message) list" where
  "handler_calls m e = (case se_handler e of Some h \<Rightarrow> [(h, m)] | None \<Rightarrow> [])"

text \<open>The loop over the subscriptions: the exception that stopped it, the subscriptions, and the handlers it ran.\<close>

fun add_loop ::
  "pipe_env \<Rightarrow> message \<Rightarrow> (int \<times> sub_entry) list \<Rightarrow> py_exn option \<times> (int \<times> sub_entry) list \<times> (nat \<times> message) list" where
  "add_loop env m [] = (None, [], [])"
| "add_loop env m ((k, e) # es) =
     (case sub_matches env (se_sub e) m of
        Inl x \<Rightarrow> (Some x, (k, e) # es, [])
      | Inr found \<Rightarrow>
          (case add_loop env m es of (x, es', calls) \<Rightarrow>
             if found then (x, (k, add_entry env m e) # es', handler_calls m e @ calls) else (x, (k, e) # es', calls)))"

definition add_msg :: "pipe_env \<Rightarrow> bytes \<Rightarrow> addr \<Rightarrow> pipe_client \<Rightarrow> py_exn option \<times> pipe_client" where
  "add_msg env data client_tup c =
     (if pc_subs c = [] then (None, c)
      else (case norm_client_tup client_tup of
              Inl x \<Rightarrow> (Some x, c)
            | Inr t \<Rightarrow>
                (case add_loop env (t, data) (pc_subs c) of (x, subs, calls) \<Rightarrow>
                   (x, c\<lparr>pc_subs := subs, pc_calls := pc_calls c @ calls\<rparr>))))"

text \<open>\<open>recv\<close>: an empty queue is a timeout; the time it waits is the argument unless that is zero or None.\<close>

definition recv_timeout :: "rat option \<Rightarrow> rat \<Rightarrow> rat" where
  "recv_timeout timeout conf = (case timeout of None \<Rightarrow> conf | Some t \<Rightarrow> if t = 0 then conf else t)"

definition recv :: "pipe_env \<Rightarrow> sub \<Rightarrow> pipe_client \<Rightarrow> (message option \<times> pipe_client) result" where
  "recv env s c =
     bindr (norm_sub s) (\<lambda>s'.
       let k = hash_sub env s' in
       case map_of (pc_subs c) k of
         None \<Rightarrow> Inl LookupError
       | Some e \<Rightarrow>
           (case se_queue e of
              [] \<Rightarrow> Inr (None, c)
            | item # q \<Rightarrow>
                (let c' = c\<lparr>pc_subs := dict_set k (e\<lparr>se_queue := q\<rparr>) (pc_subs c)\<rparr> in
                 case item of
                   None \<Rightarrow> Inr (None, c')
                 | Some m \<Rightarrow>
                     Inr (Some m, case se_handler e of None \<Rightarrow> c' | Some h \<Rightarrow> c'\<lparr>pc_calls := pc_calls c' @ [(h, m)]\<rparr>))))"

text \<open>The loop of \<open>recv_n\<close> on the queue of its subscription: the bytes, and the queue left.\<close>

fun recv_n :: "nat \<Rightarrow> bytes \<Rightarrow> message option list \<Rightarrow> bytes \<times> message option list" where
  "recv_n n buf [] = (buf, [])"
| "recv_n n buf (x # q) =
     (if length buf < n then (case x of None \<Rightarrow> (buf, q) | Some m \<Rightarrow> recv_n n (buf @ snd m) q) else (buf, x # q))"

text \<open>The close marker that \<open>PipeEvents.close\<close> puts into every queue that is not full.\<close>

definition close_queues :: "pipe_env \<Rightarrow> pipe_client \<Rightarrow> pipe_client" where
  "close_queues env c =
     c\<lparr>pc_subs := map (\<lambda>(k, e).
         (k, if env_max_qsize env > 0 \<and> length (se_queue e) \<ge> env_max_qsize env then e
             else e\<lparr>se_queue := se_queue e @ [None]\<rparr>)) (pc_subs c)\<rparr>"

section \<open>Received packets\<close>

record pipe_events =
  pe_client :: pipe_client
  pe_ack :: ack_state
  pe_msg_ids :: "int list"
  pe_is_ack :: "(bytes \<Rightarrow> int option) option"
  pe_is_ackable :: "(bytes \<Rightarrow> ackable) option"
  pe_pipes :: "nat list"
  pe_relayed :: "(nat \<times> bytes) list"
  pe_msg_cbs :: "nat list"
  pe_running :: bool

definition run_handlers :: "nat list \<Rightarrow> message \<Rightarrow> pipe_events \<Rightarrow> pipe_events" where
  "run_handlers hs m p =
     (if pe_running p
      then p\<lparr>pe_client := (pe_client p)\<lparr>pc_calls := pc_calls (pe_client p) @ map (\<lambda>h. (h, m)) hs\<rparr>\<rparr> else p)"

definition route_msg :: "pipe_env \<Rightarrow> bytes \<Rightarrow> addr \<Rightarrow> pipe_events \<Rightarrow> py_exn option \<times> pipe_events" where
  "route_msg env data client_tup p =
     (if data = [] then (None, p)
      else (let p1 = p\<lparr>pe_relayed := pe_relayed p @ map (\<lambda>x. (x, data)) (pe_pipes p)\<rparr>;
                p2 = run_handlers (pe_msg_cbs p1) (client_tup, data) p1
            in (case add_msg env data client_tup (pe_client p2) of (x, c) \<Rightarrow> (x, p2\<lparr>pe_client := c\<rparr>))))"

definition unique_then_route :: "pipe_env \<Rightarrow> bytes \<Rightarrow> addr \<Rightarrow> pipe_events \<Rightarrow> py_exn option \<times> pipe_events" where
  "unique_then_route env data client_tup p =
     (if env_enable_msg_ids env
      then (case is_unique_msg (env_hash_msg env) (env_max_msg_ids env) data client_tup (pe_msg_ids p) of
              (u, ids) \<Rightarrow>
                if u = 0 then (None, p\<lparr>pe_msg_ids := ids\<rparr>) else route_msg env data client_tup (p\<lparr>pe_msg_ids := ids\<rparr>))
      else route_msg env data client_tup p)"

definition handle_data :: "pipe_env \<Rightarrow> int \<Rightarrow> bytes \<Rightarrow> addr \<Rightarrow> pipe_events \<Rightarrow> py_exn option \<times> pipe_events" where
  "handle_data env now data client_tup0 p =
     (case norm_client_tup client_tup0 of
        Inl x \<Rightarrow> (Some x, p)
      | Inr client_tup \<Rightarrow>
          if pe_is_ack p \<noteq> None \<and> pe_is_ackable p \<noteq> None
          then (case handle_ack data (pe_is_ack p) (pe_is_ackable p) now (pe_ack p) of
                  ((did_ack, payload), a) \<Rightarrow>
                    (let p' = p\<lparr>pe_ack := a\<rparr> in
                     if did_ack = 0 then (None, p')
                     else (case payload of
                             None \<Rightarrow> (Some TypeError, p')
                           | Some d \<Rightarrow> unique_then_route env d client_tup p')))
          else unique_then_route env data client_tup p)"

section \<open>Requests\<close>

text \<open>\<open>send_recv_loop\<close> over what its sends and receives do: a send answers or raises, and so does a receive.
  The number of sends comes first.\<close>

text \<open>What \<open>PipeClient.send\<close> and the wait of \<open>PipeClient.recv\<close> make of an exception of the transport or of the
  event loop.\<close>

definition pipe_send :: "int result \<Rightarrow> int result" where
  "pipe_send r =
     (case r of Inl e \<Rightarrow> if e \<in> {OSError, ConnectionError2, ValueError} then Inr 0 else Inl e | Inr n \<Rightarrow> Inr n)"

definition recv_wait :: "'m option result \<Rightarrow> 'm option result" where
  "recv_wait r =
     (case r of Inl e \<Rightarrow> if e \<in> {OSError, ConnectionError2, TimeoutError} then Inr None else Inl e | Inr m \<Rightarrow> Inr m)"

fun send_recv_rounds :: "nat \<Rightarrow> nat \<Rightarrow> (nat \<Rightarrow> int result) \<Rightarrow> (nat \<Rightarrow> 'm option result) \<Rightarrow> nat \<times> 'm option result" where
  "send_recv_rounds 0 k snd_at rcv_at = (k, Inr None)"
| "send_recv_rounds (Suc n) k snd_at rcv_at =
     (case bindr (snd_at k) (\<lambda>_. rcv_at k) of
        Inr r \<Rightarrow> (Suc k, Inr r)
      | Inl e \<Rightarrow>
          if e \<in> {TimeoutError, OSError, ConnectionError2} then send_recv_rounds n (Suc k) snd_at rcv_at
          else (Suc k, Inl e))"

definition send_recv_loop :: "bool \<Rightarrow> (nat \<Rightarrow> int result) \<Rightarrow> (nat \<Rightarrow> 'm option result) \<Rightarrow> nat \<times> 'm option result" where
  "send_recv_loop is_tcp snd_at rcv_at = send_recv_rounds (if is_tcp then 1 else 3) 0 snd_at rcv_at"

section \<open>A subscription is a mailbox\<close>

datatype pipe_op = Arrive bytes addr | Receive

fun pipe_run :: "pipe_env \<Rightarrow> sub \<Rightarrow> pipe_op list \<Rightarrow> pipe_client \<Rightarrow> message list \<times> pipe_client" where
  "pipe_run env s [] c = ([], c)"
| "pipe_run env s (Arrive d t # ops) c =
     pipe_run env s ops (snd (add_msg env d t c))"
| "pipe_run env s (Receive # ops) c =
     (case recv env s c of
        Inl e \<Rightarrow> pipe_run env s ops c
      | Inr (None, c') \<Rightarrow> pipe_run env s ops c'
      | Inr (Some m, c') \<Rightarrow> (case pipe_run env s ops c' of (ms, c'') \<Rightarrow> (m # ms, c'')))"

text \<open>What a subscription asks for: a message from its host, and from its port unless that is zero, in which its
  pattern is found.\<close>

definition wants :: "pipe_env \<Rightarrow> sub \<Rightarrow> message \<Rightarrow> bool" where
  "wants env s m \<longleftrightarrow>
     (case snd s of None \<Rightarrow> True | Some (ip, port) \<Rightarrow> fst (fst m) = ip \<and> (port = 0 \<or> snd (fst m) = port)) \<and>
     (case fst s of None \<Rightarrow> True | Some p \<Rightarrow> p = [] \<or> env_findall env p (snd m) = Inr True)"

text \<open>No search for the pattern of a subscription raises.\<close>

definition patterns_ok :: "pipe_env \<Rightarrow> pipe_client \<Rightarrow> bool" where
  "patterns_ok env c \<longleftrightarrow>
     (\<forall>e\<in>set (pc_subs c). \<forall>p d. fst (se_sub (snd e)) = Some p \<longrightarrow> \<not> isl (env_findall env p d))"

text \<open>The bounded first-in first-out mailbox: a message arrives, or one is taken (None).\<close>

fun mbox_run :: "nat \<Rightarrow> 'm option list \<Rightarrow> 'm list \<Rightarrow> 'm list \<times> 'm list" where
  "mbox_run b [] q = ([], q)"
| "mbox_run b (Some m # os) q = mbox_run b os (do_add b m q)"
| "mbox_run b (None # os) [] = mbox_run b os []"
| "mbox_run b (None # os) (m # q) = (case mbox_run b os q of (ms, q') \<Rightarrow> (m # ms, q'))"

fun arrived :: "'m option list \<Rightarrow> 'm list" where
  "arrived [] = []"
| "arrived (None # os) = arrived os"
| "arrived (Some m # os) = m # arrived os"

definition mail :: "pipe_env \<Rightarrow> sub \<Rightarrow> pipe_op \<Rightarrow> message option list" where
  "mail env s a =
     (case a of
        Arrive d t \<Rightarrow> (case norm_client_tup t of Inl e \<Rightarrow> [] | Inr t' \<Rightarrow> if wants env s (t', d) then [Some (t', d)] else [])
      | Receive \<Rightarrow> [None])"

definition mails :: "pipe_env \<Rightarrow> sub \<Rightarrow> pipe_op list \<Rightarrow> message option list" where
  "mails env s ops = concat (map (mail env s) ops)"

lemma mails_Cons [simp]: "mails env s [] = []" "mails env s (a # ops) = mail env s a @ mails env s ops"
  by (simp_all add: mails_def)

text \<open>Which of the messages are taken, by their positions in the order of arrival: \<open>n\<close> have arrived, and the
  oldest that can still be taken is number \<open>h\<close>. With a bound, only the last \<open>b\<close> can be.\<close>

fun taken :: "nat \<Rightarrow> 'm option list \<Rightarrow> nat \<Rightarrow> nat \<Rightarrow> nat list \<times> nat" where
  "taken b [] h n = ([], h)"
| "taken b (Some m # os) h n = taken b os (if b = 0 then h else max h (n + 1 - b)) (n + 1)"
| "taken b (None # os) h n =
     (if h < n then (case taken b os (h + 1) n of (ks, h') \<Rightarrow> (h # ks, h')) else taken b os h n)"

definition open_sub :: "pipe_env \<Rightarrow> sub \<Rightarrow> pipe_client \<Rightarrow> message list \<Rightarrow> bool" where
  "open_sub env s c q \<longleftrightarrow>
     norm_sub s = Inr s \<and>
     map_of (pc_subs c) (hash_sub env s) = Some \<lparr>se_sub = s, se_queue = map Some q, se_handler = None\<rparr>"

lemma do_add_map: "do_add b (Some m) (map Some q) = map Some (do_add b m q)"
  by (simp add: do_add_def map_tl)

lemma sub_matches_ok:
  assumes "\<And>p d. fst s = Some p \<Longrightarrow> \<not> isl (env_findall env p d)"
  shows "sub_matches env s m = Inr (wants env s m)"
proof -
  have a: "(case snd s of None \<Rightarrow> False | Some t \<Rightarrow> if snd t \<noteq> 0 then t \<noteq> fst m else fst t \<noteq> fst (fst m)) \<longleftrightarrow>
      \<not> (case snd s of None \<Rightarrow> True | Some (ip, port) \<Rightarrow> fst (fst m) = ip \<and> (port = 0 \<or> snd (fst m) = port))"
    by (cases m) (auto split: option.split)
  show ?thesis
  proof (cases "fst s")
    case None
    then show ?thesis unfolding sub_matches_def wants_def a by simp
  next
    case (Some p)
    then obtain b where "env_findall env p (snd m) = Inr b"
      using assms [of p "snd m"] by (cases "env_findall env p (snd m)") auto
    with Some show ?thesis unfolding sub_matches_def wants_def a by (cases b) simp_all
  qed
qed

lemma add_loop_ok:
  assumes "\<forall>e\<in>set es. \<forall>p d. fst (se_sub (snd e)) = Some p \<longrightarrow> \<not> isl (env_findall env p d)"
  shows "add_loop env m es =
    (None, map (\<lambda>(k, e). (k, if wants env (se_sub e) m then add_entry env m e else e)) es,
     concat (map (\<lambda>(k, e). if wants env (se_sub e) m then handler_calls m e else []) es))"
  using assms
proof (induction es)
  case (Cons x es)
  then have "sub_matches env (se_sub (snd x)) m = Inr (wants env (se_sub (snd x)) m)"
    by (intro sub_matches_ok) simp
  with Cons show ?case by (cases x) simp
qed simp

lemma add_loop_subs: "map (\<lambda>e. se_sub (snd e)) (fst (snd (add_loop env m es))) = map (\<lambda>e. se_sub (snd e)) es"
  by (induction env m es rule: add_loop.induct) (auto simp: add_entry_def split: sum.splits prod.splits)

lemma add_msg_ok:
  assumes "patterns_ok env c" "pc_subs c \<noteq> []" "norm_client_tup t = Inr t'"
  shows "add_msg env d t c = (None, c\<lparr>
    pc_subs := map (\<lambda>(k, e). (k, if wants env (se_sub e) (t', d) then add_entry env (t', d) e else e)) (pc_subs c),
    pc_calls := pc_calls c @ concat (map (\<lambda>(k, e). if wants env (se_sub e) (t', d) then handler_calls (t', d) e else [])
      (pc_subs c))\<rparr>)"
  using add_loop_ok [of "pc_subs c" env "(t', d)"] assms by (simp add: add_msg_def patterns_ok_def)

lemma patterns_ok_subs: "patterns_ok env c \<longleftrightarrow>
    (\<forall>u\<in>set (map (\<lambda>e. se_sub (snd e)) (pc_subs c)). \<forall>p d. fst u = Some p \<longrightarrow> \<not> isl (env_findall env p d))"
  by (simp add: patterns_ok_def)

lemma patterns_ok_add:
  assumes "patterns_ok env c"
  shows "patterns_ok env (snd (add_msg env d t c))"
proof (cases "norm_client_tup t")
  case (Inr t')
  obtain x subs calls where l: "add_loop env (t', d) (pc_subs c) = (x, subs, calls)" by (metis prod_cases3)
  then have "map (\<lambda>e. se_sub (snd e)) subs = map (\<lambda>e. se_sub (snd e)) (pc_subs c)"
    using add_loop_subs [of env "(t', d)" "pc_subs c"] by simp
  then have "patterns_ok env (c\<lparr>pc_subs := subs, pc_calls := pc_calls c @ calls\<rparr>)"
    using assms unfolding patterns_ok_subs by simp
  with assms show ?thesis by (simp add: add_msg_def Inr l)
qed (use assms in \<open>simp add: add_msg_def\<close>)

lemma patterns_ok_set:
  assumes "patterns_ok env c" "map_of (pc_subs c) k = Some e"
  shows "patterns_ok env (c\<lparr>pc_subs := dict_set k (e\<lparr>se_queue := q\<rparr>) (pc_subs c)\<rparr>)"
proof -
  have ke: "(k, e) \<in> set (pc_subs c)" using assms(2) by (rule map_of_SomeD)
  show ?thesis
    unfolding patterns_ok_def
  proof (intro ballI allI impI)
    fix x p d
    assume x: "x \<in> set (pc_subs (c\<lparr>pc_subs := dict_set k (e\<lparr>se_queue := q\<rparr>) (pc_subs c)\<rparr>))"
      and p: "fst (se_sub (snd x)) = Some p"
    from x set_dict_set [of k "e\<lparr>se_queue := q\<rparr>" "pc_subs c"]
    have "x = (k, e\<lparr>se_queue := q\<rparr>) \<or> x \<in> set (pc_subs c)" by auto
    then obtain y where "y \<in> set (pc_subs c)" "se_sub (snd y) = se_sub (snd x)"
      using ke by (elim disjE) (auto intro: that)
    with assms(1) p show "\<not> isl (env_findall env p d)" unfolding patterns_ok_def by metis
  qed
qed

lemma patterns_ok_calls [simp]: "patterns_ok env (c\<lparr>pc_calls := x\<rparr>) = patterns_ok env c"
  by (simp add: patterns_ok_def)

lemma patterns_ok_recv:
  assumes "patterns_ok env c" "recv env s c = Inr (r, c')"
  shows "patterns_ok env c'"
proof -
  obtain s' e where e: "norm_sub s = Inr s'" "map_of (pc_subs c) (hash_sub env s') = Some e"
    using assms(2) by (auto simp: recv_def bindr_eq_Inr Let_def split: option.splits)
  show ?thesis
  proof (cases "se_queue e")
    case Nil
    with assms e show ?thesis by (simp add: recv_def)
  next
    case (Cons item q)
    have "patterns_ok env (c\<lparr>pc_subs := dict_set (hash_sub env s') (e\<lparr>se_queue := q\<rparr>) (pc_subs c)\<rparr>)"
      using assms(1) e(2) by (rule patterns_ok_set)
    with assms(2) e Cons show ?thesis
      by (cases item; cases "se_handler e") (auto simp: recv_def Let_def)
  qed
qed

lemma add_msg_open:
  assumes "open_sub env s c q" "patterns_ok env c"
  shows "case norm_client_tup t of
      Inl e \<Rightarrow> add_msg env d t c = (Some e, c)
    | Inr t' \<Rightarrow> \<exists>c'. add_msg env d t c = (None, c') \<and>
        open_sub env s c' (if wants env s (t', d) then do_add (env_max_qsize env) (t', d) q else q)"
proof -
  have ne: "pc_subs c \<noteq> []" using assms by (auto simp: open_sub_def)
  show ?thesis
  proof (cases "norm_client_tup t")
    case (Inr t')
    with add_msg_ok [OF assms(2) ne Inr, of d] assms(1) show ?thesis
      by (simp add: open_sub_def map_of_map add_entry_def do_add_map)
  qed (simp add: add_msg_def ne)
qed

lemma recv_open:
  assumes "open_sub env s c q"
  shows "case q of
      [] \<Rightarrow> recv env s c = Inr (None, c)
    | m # q' \<Rightarrow> \<exists>c'. recv env s c = Inr (Some m, c') \<and> open_sub env s c' q'"
  using assms by (cases q) (auto simp: recv_def open_sub_def Let_def)

lemma pipe_run_mbox:
  "open_sub env s c q \<Longrightarrow> patterns_ok env c \<Longrightarrow>
   \<exists>c' q'. pipe_run env s ops c = (fst (mbox_run (env_max_qsize env) (mails env s ops) q), c') \<and>
     open_sub env s c' (snd (mbox_run (env_max_qsize env) (mails env s ops) q))"
proof (induction ops arbitrary: c q)
  case (Cons a ops)
  show ?case
  proof (cases a)
    case (Arrive d t)
    note ok = patterns_ok_add [OF Cons.prems(2), where d = d and t = t]
    show ?thesis
    proof (cases "norm_client_tup t")
      case (Inl e)
      with add_msg_open [OF Cons.prems, where t = t and d = d] Cons show ?thesis by (simp add: Arrive mail_def)
    next
      case (Inr t')
      with add_msg_open [OF Cons.prems, where t = t and d = d] obtain c' where c': "add_msg env d t c = (None, c')"
        "open_sub env s c' (if wants env s (t', d) then do_add (env_max_qsize env) (t', d) q else q)"
        by auto
      from Cons.IH [OF c'(2)] ok c'(1) show ?thesis
        by (cases "wants env s (t', d)") (simp_all add: Arrive Inr mail_def)
    qed
  next
    case Receive
    show ?thesis
    proof (cases q)
      case Nil
      then show ?thesis using Receive Cons recv_open [OF Cons.prems(1)] by (simp add: mail_def)
    next
      case (Cons m q')
      then obtain c' where c': "recv env s c = Inr (Some m, c')" "open_sub env s c' q'"
        using recv_open [OF Cons.prems(1)] by auto
      from Cons.IH [OF c'(2) patterns_ok_recv [OF Cons.prems(2) c'(1)]] show ?thesis
        by (auto simp: Receive mail_def c'(1) Cons split: prod.split)
    qed
  qed
qed simp

text \<open>A queue holds the last arrivals.\<close>

lemma do_add_drop:
  assumes "h \<le> length xs" "b = 0 \<or> length xs - h \<le> b"
  shows "do_add b m (drop h xs) = drop (if b = 0 then h else max h (length xs + 1 - b)) (xs @ [m])"
proof (cases "0 < b \<and> b \<le> length xs - h")
  case True
  with assms have e: "max h (length xs + 1 - b) = Suc h" "Suc h \<le> length xs" by auto
  have "tl (drop h xs) = drop (Suc h) xs" by (simp add: tl_drop drop_Suc)
  with True e show ?thesis by (simp add: do_add_def)
next
  case False
  with assms have "(if b = 0 then h else max h (length xs + 1 - b)) = h" by auto
  with False assms(1) show ?thesis by (auto simp: do_add_def)
qed

lemma mbox_taken:
  assumes "h \<le> length xs" "b = 0 \<or> length xs - h \<le> b"
  shows "mbox_run b os (drop h xs) = (case taken b os h (length xs) of (ks, h') \<Rightarrow>
    (map (\<lambda>i. (xs @ arrived os) ! i) ks, drop h' (xs @ arrived os)))"
  using assms
proof (induction os arbitrary: h xs)
  case (Cons x os)
  show ?case
  proof (cases x)
    case None
    show ?thesis
    proof (cases "h < length xs")
      case True
      obtain ks h' where t: "taken b os (h + 1) (length xs) = (ks, h')" by fastforce
      have "h + 1 \<le> length xs" "b = 0 \<or> length xs - (h + 1) \<le> b" using True Cons.prems by auto
      from Cons.IH [OF this] have "mbox_run b os (drop (h + 1) xs) =
          (map (\<lambda>i. (xs @ arrived os) ! i) ks, drop h' (xs @ arrived os))" unfolding t prod.case .
      moreover have "drop h xs = (xs @ arrived os) ! h # drop (h + 1) xs"
        using True by (simp add: Cons_nth_drop_Suc nth_append)
      ultimately show ?thesis using True t by (simp add: None)
    next
      case False
      with Cons.prems Cons.IH [of h xs] show ?thesis by (simp add: None del: drop_append)
    qed
  next
    case (Some m)
    let ?h = "if b = 0 then h else max h (length xs + 1 - b)"
    have "?h \<le> length (xs @ [m])" "b = 0 \<or> length (xs @ [m]) - ?h \<le> b" using Cons.prems by auto
    from Cons.IH [OF this] show ?thesis
      unfolding Some mbox_run.simps do_add_drop [OF Cons.prems] by simp
  qed
qed simp

text \<open>The positions are taken in increasing order, each once, and all of them when there is no bound.\<close>

lemma taken_bounds:
  "sorted_wrt (<) (fst (taken b os h n)) \<and> (\<forall>i\<in>set (fst (taken b os h n)). h \<le> i)"
proof (induction b os h n rule: taken.induct)
  case (2 b m os h n)
  let ?h = "if b = 0 then h else max h (n + 1 - b)"
  have "h \<le> ?h" by simp
  with 2 show ?case unfolding taken.simps by (meson le_trans)
next
  case (3 b os h n)
  then show ?case
    by (cases "h < n"; cases "taken b os (h + 1) n") (auto dest: Suc_le_lessD Suc_leD)
qed simp

lemma taken_next: "h \<le> snd (taken b os h n)"
proof (induction b os h n rule: taken.induct)
  case (2 b m os h n)
  then show ?case by (cases "b = 0") (auto simp: max_def split: if_splits)
next
  case (3 b os h n)
  then show ?case by (cases "h < n"; cases "taken b os (h + 1) n") auto
qed simp

lemma taken_all: "fst (taken 0 os h n) = [h..<snd (taken 0 os h n)]"
proof (induction "0 :: nat" os h n rule: taken.induct)
  case (3 os h n)
  have "Suc h \<le> snd (taken 0 os (Suc h) n)" by (rule taken_next)
  with 3 show ?case by (cases "h < n"; cases "taken 0 os (Suc h) n") (auto simp: upt_conv_Cons)
qed auto

section \<open>Properties\<close>

text \<open>C10. A subscription without a handler is a bounded first-in first-out mailbox. Number the messages that it
  held or that arrived and that it wants, in the order of arrival. Every receive takes the oldest of the last
  \<open>max_qsize\<close> that was not yet taken (of all of them, when the queue is unbounded) or nothing, and what is left
  in the queue is the last of them from the next position on. So the positions taken increase, and
  without a bound none is left out. This holds while no pattern of the subscriptions makes the search raise,
  whatever the other subscriptions are.\<close>

theorem subscription_is_mailbox:
  assumes "open_sub env s c q" "patterns_ok env c" "env_max_qsize env = 0 \<or> length q \<le> env_max_qsize env"
  shows "\<exists>c' ks nxt. pipe_run env s ops c = (map (\<lambda>i. (q @ arrived (mails env s ops)) ! i) ks, c') \<and>
    taken (env_max_qsize env) (mails env s ops) 0 (length q) = (ks, nxt) \<and>
    open_sub env s c' (drop nxt (q @ arrived (mails env s ops))) \<and>
    sorted_wrt (<) ks \<and> (env_max_qsize env = 0 \<longrightarrow> ks = [0..<nxt])"
proof -
  let ?b = "env_max_qsize env" and ?os = "mails env s ops"
  obtain ks nxt where t: "taken ?b ?os 0 (length q) = (ks, nxt)" by fastforce
  have "mbox_run ?b ?os q = (map (\<lambda>i. (q @ arrived ?os) ! i) ks, drop nxt (q @ arrived ?os))"
    using mbox_taken [of 0 q ?b ?os] assms(3) t by simp
  moreover have "sorted_wrt (<) ks" using taken_bounds [of ?b ?os 0 "length q"] t by simp
  moreover have "?b = 0 \<longrightarrow> ks = [0..<nxt]" using taken_all [of ?os 0 "length q"] t by auto
  ultimately show ?thesis using pipe_run_mbox [OF assms(1,2), of ops] t by auto
qed

text \<open>On a pipe \<open>send_recv_loop\<close> sends its request exactly once: the receive turns a timeout into None and
  the send turns an error into zero, so no round ends with the exception that the next one waits for.\<close>

theorem send_recv_never_retries:
  assumes "\<forall>k. t k \<noteq> Inl TimeoutError"
  shows "fst (send_recv_loop is_tcp (\<lambda>k. pipe_send (t k)) (\<lambda>k. recv_wait (w k))) = 1"
proof -
  have "bindr (pipe_send (t 0)) (\<lambda>_. recv_wait (w 0)) \<notin> Inl ` {TimeoutError, OSError, ConnectionError2}"
    using assms by (auto simp: pipe_send_def recv_wait_def bindr_def split: sum.splits if_splits)
  then show ?thesis
    by (cases "bindr (pipe_send (t 0)) (\<lambda>_. recv_wait (w 0))")
      (auto simp: send_recv_loop_def numeral_3_eq_3)
qed

theorem send_recv_never_retries_witness:
  "fst (send_recv_loop False (\<lambda>k. pipe_send (Inr 1)) (\<lambda>k. recv_wait (Inl TimeoutError :: message option result))) = 1"
  by (rule send_recv_never_retries) simp

text \<open>C11. On a pipe that acknowledges and filters duplicates, a numbered message is routed once: its first
  arrival is relayed, handed to the callbacks and queued, its retransmission changes none of this, and both
  are acknowledged. When the pattern of a subscription makes the first routing raise, the retransmission is
  still not routed again.\<close>

theorem retransmission_routed_once:
  assumes "0 \<le> seq" "seq < 2 ^ 64" "\<not> dict_has seq (ak_seq (pe_ack p))" "data \<noteq> []"
    "pe_is_ack p = Some is_ack" "pe_is_ackable p = Some is_ackable" "ip_norm ip = Inr ip'"
    "env_enable_msg_ids env" "length (pe_msg_ids p) < env_max_msg_ids env"
    "env_hash_msg env (to_b ip' @ data) \<notin> set (pe_msg_ids p)" "ack_frame seq data = Inr frame"
  shows "\<exists>x p1 p2 ack. handle_data env now frame (ip, port) p = (x, p1) \<and>
    (patterns_ok env (pe_client p) \<longrightarrow> x = None) \<and>
    handle_data env now' frame (ip, port) p1 = (None, p2) \<and>
    pe_relayed p1 = pe_relayed p @ map (\<lambda>x. (x, data)) (pe_pipes p) \<and>
    add_msg env data (ip', port)
      (pe_client (run_handlers (pe_msg_cbs p) ((ip', port), data) p)) = (x, pe_client p1) \<and>
    pe_client p2 = pe_client p1 \<and> pe_relayed p2 = pe_relayed p1 \<and> pe_msg_ids p2 = pe_msg_ids p1 \<and>
    ak_tasks (pe_ack p1) = rm_done_tasks (ak_tasks (pe_ack p)) @ [(ack, False)] \<and>
    ak_tasks (pe_ack p2) = rm_done_tasks (ak_tasks (pe_ack p1)) @ [(ack, False)]"
proof -
  note f = frame_fields_Cons [OF assms(1,2)]
  have frame: "frame = be_bytes 8 seq @ 0 # data" using assms(11) f(1) [of data] by simp
  have n: "norm_client_tup (ip, port) = Inr (ip', port)" by (simp add: norm_client_tup_def assms(7))
  have n': "norm_client_tup (ip', port) = Inr (ip', port)"
    using assms(7) by (auto simp: norm_client_tup_def elim: ip_norm_Inr)
  have pr: "\<not> dict_has seq (prune_done (ak_seq (pe_ack p)))"
    using assms(3) by (auto simp: prune_done_def dict_has_def)
  define ack where "ack = be_bytes 8 seq @ [1 :: byte]"
  define a1 where "a1 = (pe_ack p)\<lparr>ak_tasks := rm_done_tasks (ak_tasks (pe_ack p)) @ [(ack, False)], ak_timestamp := now,
     ak_seq := prune_done (ak_seq (pe_ack p))\<rparr>"
  have h: "handle_ack frame (Some is_ack) (Some is_ackable) t st =
      ((2, Some data), st\<lparr>ak_tasks := rm_done_tasks (ak_tasks st) @ [(ack, False)], ak_timestamp := t,
         ak_seq := prune_done (ak_seq st)\<rparr>)"
    if "\<not> dict_has seq (ak_seq st)" for t st
    using that by (simp add: frame f handle_ack_def ack_reply_def ack_def Let_def)
  define ids where "ids = pe_msg_ids p @ [env_hash_msg env (to_b ip' @ data)]"
  define q where "q = run_handlers (pe_msg_cbs p) ((ip', port), data)
    (p\<lparr>pe_ack := a1, pe_msg_ids := ids, pe_relayed := pe_relayed p @ map (\<lambda>x. (x, data)) (pe_pipes p)\<rparr>)"
  obtain x c where c: "add_msg env data (ip', port) (pe_client q) = (x, c)" by fastforce
  have x: "patterns_ok env (pe_client p) \<Longrightarrow> x = None"
  proof -
    assume "patterns_ok env (pe_client p)"
    then have "patterns_ok env (pe_client q)" by (simp add: q_def run_handlers_def patterns_ok_def)
    then show "x = None"
      using c add_msg_ok [of env "pe_client q" "(ip', port)", OF _ _ n', of data]
      by (cases "pc_subs (pe_client q) = []") (simp_all add: add_msg_def)
  qed
  have u1: "is_unique_msg (env_hash_msg env) (env_max_msg_ids env) data (ip', port) (pe_msg_ids p) = (1, ids)"
    using assms(9,10) by (simp add: is_unique_msg_def ids_def Let_def)
  have u2: "is_unique_msg (env_hash_msg env) (env_max_msg_ids env) data (ip', port) ids = (0, ids)"
    using assms(9) by (simp add: is_unique_msg_def ids_def Let_def)
  have one: "handle_data env now frame (ip, port) p = (x, q\<lparr>pe_client := c\<rparr>)"
    using c assms(4,5,6,8)
    by (simp add: handle_data_def n h assms(3) unique_then_route_def u1 route_msg_def q_def a1_def [symmetric] Let_def)
  have q: "pe_ack q = a1" "pe_msg_ids q = ids" "pe_is_ack q = Some is_ack" "pe_is_ackable q = Some is_ackable"
    "pe_relayed q = pe_relayed p @ map (\<lambda>x. (x, data)) (pe_pipes p)"
    "pe_client q = pe_client (run_handlers (pe_msg_cbs p) ((ip', port), data) p)"
    using assms(5,6) by (simp_all add: q_def run_handlers_def)
  have a1: "\<not> dict_has seq (ak_seq a1)" "ak_tasks a1 = rm_done_tasks (ak_tasks (pe_ack p)) @ [(ack, False)]"
    using pr by (simp_all add: a1_def)
  define p2 where "p2 = q\<lparr>pe_client := c, pe_ack := a1\<lparr>ak_tasks := rm_done_tasks (ak_tasks a1) @ [(ack, False)],
        ak_timestamp := now', ak_seq := prune_done (ak_seq a1)\<rparr>\<rparr>"
  have two: "handle_data env now' frame (ip, port) (q\<lparr>pe_client := c\<rparr>) = (None, p2)"
    unfolding p2_def using assms(8) by (simp add: handle_data_def n q h a1(1) unique_then_route_def u2 Let_def)
  show ?thesis
    using c x by (intro exI [of _ x] exI [of _ "q\<lparr>pe_client := c\<rparr>"] exI [of _ p2] exI [of _ ack] conjI impI one two)
      (simp_all add: q a1(2) p2_def)
qed

text \<open>\<open>unsubscribe\<close> does not normalise the address as \<open>subscribe\<close> does, so a subscription made with another
  spelling of the address survives it and keeps collecting messages.\<close>

theorem unsubscribe_misses:
  assumes "ip_norm ip = Inr ip'" "env_hash_str env (ip @ '':'' @ show_int port) \<noteq> env_hash_str env (ip' @ '':'' @ show_int port)"
  shows "\<exists>k c. subscribe env (pat, Some (ip, port)) None pipe_client_init = Inr (k, c) \<and>
    unsubscribe env (pat, Some (ip, port)) c = c \<and> open_sub env (pat, Some (ip', port)) c []"
proof -
  have n: "ip_norm ip' = Inr ip'" using assms(1) by (auto elim: ip_norm_Inr)
  show ?thesis
    using assms(2)
    by (simp add: subscribe_def norm_sub_def norm_client_tup_def assms(1) n unsubscribe_def hash_sub_def
        pipe_client_init_def open_sub_def Let_def)
qed

section \<open>Witnesses\<close>

definition env0 :: pipe_env where
  "env0 = \<lparr>env_hash_pat = (\<lambda>p. 0), env_hash_str = (\<lambda>s. int (length s)), env_hash_msg = (\<lambda>b. int (length b)),
     env_findall = (\<lambda>p d. Inr True), env_max_qsize = 1, env_enable_msg_ids = True, env_max_msg_ids = 10\<rparr>"

definition pipe0 :: pipe_events where
  "pipe0 = \<lparr>pe_client = pipe_client_init, pe_ack = ack_init, pe_msg_ids = [], pe_is_ack = Some is_ack,
     pe_is_ackable = Some is_ackable, pe_pipes = [4], pe_relayed = [], pe_msg_cbs = [2], pe_running = True\<rparr>"

theorem subscription_is_mailbox_witness:
  "\<exists>k c c'. subscribe env0 SUB_ALL None pipe_client_init = Inr (k, c) \<and>
    pipe_run env0 SUB_ALL [Arrive [1] (''10.0.0.5/24'', 9), Arrive [2] (''10.0.0.5/24'', 9), Receive, Receive] c =
      ([((''10.0.0.5'', 9), [2])], c') \<and> open_sub env0 SUB_ALL c' []"
proof -
  let ?ops = "[Arrive [1] (''10.0.0.5/24'', 9), Arrive [2] (''10.0.0.5/24'', 9), Receive, Receive]"
  obtain k c where c: "subscribe env0 SUB_ALL None pipe_client_init = Inr (k, c)" "open_sub env0 SUB_ALL c []"
    "patterns_ok env0 c"
    by (auto simp: subscribe_def norm_sub_def SUB_ALL_def open_sub_def pipe_client_init_def Let_def patterns_ok_def)
  have m: "mails env0 SUB_ALL ?ops =
      [Some ((''10.0.0.5'', 9), [1]), Some ((''10.0.0.5'', 9), [2]), None, None]"
    by (simp add: mail_def norm_client_tup_def ip_norm_example wants_def SUB_ALL_def)
  show ?thesis
    using c(1) subscription_is_mailbox [OF c(2,3), of ?ops]
    unfolding m by (auto simp: env0_def)
qed

theorem retransmission_routed_once_witness:
  "\<exists>p1 p2. handle_data env0 1 (be_bytes 8 7 @ [0] @ [65]) (''10.0.0.5/24'', 9) pipe0 = (None, p1) \<and>
    handle_data env0 2 (be_bytes 8 7 @ [0] @ [65]) (''10.0.0.5/24'', 9) p1 = (None, p2) \<and>
    pe_relayed p1 = [(4, [65])] \<and> pe_relayed p2 = [(4, [65])]"
  using retransmission_routed_once [of 7 pipe0 "[65]" "''10.0.0.5/24''" "''10.0.0.5''" env0 "be_bytes 8 7 @ [0] @ [65]" 1 9 2]
    ip_norm_example frame_fields(1) [of 7 "[65]"]
  by (fastforce simp: pipe0_def env0_def ack_init_def patterns_ok_def pipe_client_init_def)

theorem unsubscribe_misses_witness:
  "\<exists>k c. subscribe env0 (None, Some (''10.0.0.5/24'', 0)) None pipe_client_init = Inr (k, c) \<and>
    unsubscribe env0 (None, Some (''10.0.0.5/24'', 0)) c = c \<and> open_sub env0 (None, Some (''10.0.0.5'', 0)) c []"
  by (rule unsubscribe_misses [OF ip_norm_example]) (simp add: env0_def)

end
