(* ===== verification/SysClock.thy ===== *)
theory SysClock
  imports IpAddr Complex_Main "HOL-Library.Multiset"
begin

text \<open>
  The network clock (\<open>utility/sys_clock.py\<close>): the intersection of uncertainty intervals and the clock that is
  set from time server samples. Seconds are rationals. A probe's answer is an argument: None for a failed one,
  else the corrected time, the round trip and the monotonic moment of the sample, in completion order.
\<close>

section \<open>Intersection of intervals\<close>

type_synonym ival = "rat \<times> rat"
type_synonym edge = "rat \<times> int"

definition edges :: "ival list \<Rightarrow> edge list" where
  "edges intervals = sort_key (\<lambda>e. (fst e, - snd e)) (concat (map (\<lambda>(lo, hi). [(lo, 1), (hi, - 1)]) intervals))"

record sweep =
  sw_count :: int
  sw_max :: int
  sw_best :: "ival option"
  sw_cur :: "rat option"

definition sweep_init :: sweep where
  "sweep_init = \<lparr>sw_count = 0, sw_max = 0, sw_best = None, sw_cur = None\<rparr>"

definition sweep_step :: "edge \<Rightarrow> sweep \<Rightarrow> sweep" where
  "sweep_step e s0 =
     (let t = fst e; delta = snd e; count = sw_count s0 + delta; s = s0\<lparr>sw_count := count\<rparr> in
      if delta > 0 then
        (if count > sw_max s then s\<lparr>sw_max := count, sw_cur := Some t, sw_best := None\<rparr>
         else if count = sw_max s \<and> sw_cur s = None then s\<lparr>sw_cur := Some t\<rparr> else s)
      else
        (case sw_cur s of
           Some c \<Rightarrow>
             if count = sw_max s - 1
             then (let better = (case sw_best s of None \<Rightarrow> True | Some (lo, hi) \<Rightarrow> t - c < hi - lo)
                   in s\<lparr>sw_best := (if better then Some (c, t) else sw_best s), sw_cur := None\<rparr>)
             else s
         | None \<Rightarrow> s))"

definition marzullo_intersection :: "ival list \<Rightarrow> ival option" where
  "marzullo_intersection intervals =
     (if intervals = [] then None
      else (case sw_best (fold sweep_step (edges intervals) sweep_init) of
              None \<Rightarrow> Some (Min (set (map fst intervals)), Max (set (map snd intervals)))
            | Some b \<Rightarrow> Some b))"

section \<open>Clock\<close>

type_synonym sample = "rat \<times> rat \<times> rat"

record SysClock =
  ck_start_time :: rat
  ck_ntp :: rat
  ck_offset :: rat
  ck_ntp_loaded :: bool
  ck_uncertainty :: rat
  ck_ntp_addr :: "string option"

definition clock_init :: "rat \<Rightarrow> rat \<Rightarrow> string option \<Rightarrow> SysClock" where
  "clock_init now ntp ntp_addr =
     \<lparr>ck_start_time = now, ck_ntp = ntp, ck_offset = 0, ck_ntp_loaded = (ntp \<noteq> 0), ck_uncertainty = 0,
      ck_ntp_addr = ntp_addr\<rparr>"

definition advance :: "rat \<Rightarrow> SysClock \<Rightarrow> SysClock" where
  "advance n c = c\<lparr>ck_offset := ck_offset c + n\<rparr>"

text \<open>The probes of \<open>start\<close>: the one address given, with \<open>partition\<close> at the first colon, or the servers of
  each supported family.\<close>

definition partition_at :: "char \<Rightarrow> string \<Rightarrow> string \<times> string" where
  "partition_at c s = (takeWhile (\<lambda>x. x \<noteq> c) s, drop 1 (dropWhile (\<lambda>x. x \<noteq> c) s))"

definition clock_probes ::
  "SysClock \<Rightarrow> af list \<Rightarrow> (af \<Rightarrow> (string \<times> int) list) \<Rightarrow> (af \<times> (string \<times> int)) list result" where
  "clock_probes c supported infra =
     (case ck_ntp_addr c of
        Some (x # xs) \<Rightarrow>
          (let (host, port_s) = partition_at (CHR '':'') (x # xs) in
           bindr (if port_s \<noteq> [] then py_int 10 port_s else Inr 123) (\<lambda>port.
           Inr [(if CHR '':'' \<in> set host then IP6 else IP4, (host, port))]))
      | _ \<Rightarrow> Inr (concat (map (\<lambda>a. map (\<lambda>s. (a, s)) (infra a)) supported)))"

text \<open>The loop over the probes in completion order stops at the first sample.\<close>

fun first_sample :: "sample option list \<Rightarrow> sample list" where
  "first_sample [] = []"
| "first_sample (None # rs) = first_sample rs"
| "first_sample (Some r # rs) = [r]"

definition sample_intervals :: "rat \<Rightarrow> sample list \<Rightarrow> ival list" where
  "sample_intervals ref_mono successes =
     map (\<lambda>(ntp, rtt, now).
       let projected = ntp + (ref_mono - now); half = rtt / 2 in (projected - half, projected + half)) successes"

definition clock_set :: "sample list \<Rightarrow> SysClock \<Rightarrow> SysClock result" where
  "clock_set successes c =
     (if successes = [] then Inl GenericException
      else (let ref_mono = Max (set (map (\<lambda>r. snd (snd r)) successes)) in
            case marzullo_intersection (sample_intervals ref_mono successes) of
              None \<Rightarrow> Inl TypeError
            | Some (lo, hi) \<Rightarrow>
                Inr (c\<lparr>ck_ntp := (lo + hi) / 2, ck_uncertainty := (hi - lo) / 2,
                       ck_start_time := ref_mono, ck_ntp_loaded := True\<rparr>)))"

definition clock_start ::
  "SysClock \<Rightarrow> af list \<Rightarrow> (af \<Rightarrow> (string \<times> int) list) \<Rightarrow> sample option list \<Rightarrow> SysClock result" where
  "clock_start c supported infra results =
     (if ck_ntp c \<noteq> 0 then Inr c
      else bindr (clock_probes c supported infra) (\<lambda>probes.
        if probes = [] then Inl GenericException else clock_set (first_sample results) c))"

definition use_system_clock :: "rat \<Rightarrow> SysClock \<Rightarrow> SysClock" where
  "use_system_clock wall c = c\<lparr>ck_ntp := wall, ck_ntp_loaded := False\<rparr>"

definition clock_time :: "rat \<Rightarrow> rat \<Rightarrow> SysClock \<Rightarrow> rat \<times> SysClock" where
  "clock_time wall now c0 =
     (let c = (if ck_ntp c0 = 0 then use_system_clock wall c0 else c0);
          elapsed = max (now - ck_start_time c) 0
      in (ck_ntp c + elapsed + ck_offset c, c))"

section \<open>The sweep over the edges\<close>

text \<open>The sum of the edges passed, the number of intervals over a moment, and the opening and closing edges
  that follow each other at a given level.\<close>

definition cnt :: "edge list \<Rightarrow> int" where
  "cnt p = sum_list (map snd p)"

definition depth :: "ival list \<Rightarrow> rat \<Rightarrow> nat" where
  "depth intervals t = length (filter (\<lambda>(lo, hi). lo \<le> t \<and> t \<le> hi) intervals)"

definition gaps :: "edge list \<Rightarrow> int \<Rightarrow> ival set" where
  "gaps p m = {(c, t). \<exists>a b. p = a @ [(c, 1), (t, - 1)] @ b \<and> cnt (a @ [(c, 1)]) = m}"

lemma cnt_append [simp]: "cnt (p @ q) = cnt p + cnt q" "cnt [] = 0" "cnt (e # p) = snd e + cnt p"
  by (simp_all add: cnt_def)

lemma gaps_snoc:
  "gaps (p @ [e]) m =
     gaps p m \<union> {(c, t). e = (t, - 1) \<and> cnt p = m \<and> (\<exists>a. p = a @ [(c, 1)])}"
proof (intro set_eqI, clarify)
  fix c t
  show "(c, t) \<in> gaps (p @ [e]) m \<longleftrightarrow>
      (c, t) \<in> gaps p m \<union> {(c, t). e = (t, - 1) \<and> cnt p = m \<and> (\<exists>a. p = a @ [(c, 1)])}"
  proof
    assume "(c, t) \<in> gaps (p @ [e]) m"
    then obtain a b where ab: "p @ [e] = a @ [(c, 1), (t, - 1)] @ b" "cnt (a @ [(c, 1)]) = m"
      unfolding gaps_def by blast
    show "(c, t) \<in> gaps p m \<union> {(c, t). e = (t, - 1) \<and> cnt p = m \<and> (\<exists>a. p = a @ [(c, 1)])}"
    proof (cases b rule: rev_cases)
      case Nil
      then have "p @ [e] = (a @ [(c, 1)]) @ [(t, - 1)]" using ab by simp
      then have "p = a @ [(c, 1)]" "e = (t, - 1)" by (simp_all only: append1_eq_conv)
      then show ?thesis using ab(2) by auto
    next
      case (snoc b' x)
      then have "p @ [e] = (a @ [(c, 1), (t, - 1)] @ b') @ [x]" using ab by simp
      then have "p = a @ [(c, 1), (t, - 1)] @ b'" by (simp only: append1_eq_conv)
      then show ?thesis using ab(2) unfolding gaps_def by blast
    qed
  next
    assume "(c, t) \<in> gaps p m \<union> {(c, t). e = (t, - 1) \<and> cnt p = m \<and> (\<exists>a. p = a @ [(c, 1)])}"
    then show "(c, t) \<in> gaps (p @ [e]) m"
    proof
      assume "(c, t) \<in> gaps p m"
      then obtain a b where "p @ [e] = a @ [(c, 1), (t, - 1)] @ (b @ [e])" "cnt (a @ [(c, 1)]) = m"
        unfolding gaps_def by auto
      then show ?thesis unfolding gaps_def by blast
    next
      assume "(c, t) \<in> {(c, t). e = (t, - 1) \<and> cnt p = m \<and> (\<exists>a. p = a @ [(c, 1)])}"
      then obtain a where "p @ [e] = a @ [(c, 1), (t, - 1)] @ []" "cnt (a @ [(c, 1)]) = m" by auto
      then show ?thesis unfolding gaps_def by blast
    qed
  qed
qed

lemma gaps_above: "(\<And>q r. p = q @ r \<Longrightarrow> cnt q < m) \<Longrightarrow> gaps p m = {}"
proof -
  assume low: "\<And>q r. p = q @ r \<Longrightarrow> cnt q < m"
  have "False" if "(c, t) \<in> gaps p m" for c t
  proof -
    from that obtain a b where ab: "p = (a @ [(c, 1)]) @ (t, - 1) # b" "cnt (a @ [(c, 1)]) = m"
      unfolding gaps_def by auto
    from low [OF ab(1)] ab(2) show False by simp
  qed
  then show ?thesis by auto
qed

definition peak :: "edge list \<Rightarrow> int \<Rightarrow> bool" where
  "peak p m \<longleftrightarrow> (\<forall>q r. p = q @ r \<longrightarrow> cnt q \<le> m) \<and> (\<exists>q r. p = q @ r \<and> cnt q = m)"

lemma snoc_split: "p @ [e] = q @ r \<longleftrightarrow> (r = [] \<and> q = p @ [e]) \<or> (\<exists>r'. r = r' @ [e] \<and> p = q @ r')"
  by (cases r rule: rev_cases) auto

lemma peak_same: "peak p m \<Longrightarrow> cnt (p @ [e]) \<le> m \<Longrightarrow> peak (p @ [e]) m"
  unfolding peak_def snoc_split by blast

lemma peak_new: "peak p m \<Longrightarrow> m < cnt (p @ [e]) \<Longrightarrow> peak (p @ [e]) (cnt (p @ [e]))"
  unfolding peak_def snoc_split by (smt (verit, best) append_Nil2)

lemma peak_last: "peak p m \<Longrightarrow> cnt p \<le> m"
  unfolding peak_def by blast

definition best_ok :: "ival set \<Rightarrow> ival option \<Rightarrow> bool" where
  "best_ok g best \<longleftrightarrow>
     (case best of None \<Rightarrow> g = {} | Some b \<Rightarrow> b \<in> g \<and> (\<forall>(c, t) \<in> g. snd b - fst b \<le> t - c))"

definition sweep_ok :: "edge list \<Rightarrow> sweep \<Rightarrow> bool" where
  "sweep_ok p s \<longleftrightarrow>
     sw_count s = cnt p \<and> peak p (sw_max s) \<and>
     (case sw_cur s of
        Some c \<Rightarrow> (\<exists>q. p = q @ [(c, 1)]) \<and> cnt p = sw_max s
      | None \<Rightarrow> (p = [] \<or> cnt p < sw_max s) \<and> (0 < sw_max s \<longrightarrow> sw_best s \<noteq> None)) \<and>
     best_ok (gaps p (sw_max s)) (sw_best s)"

lemma sweep_ok_init: "sweep_ok [] sweep_init"
  by (auto simp: sweep_ok_def sweep_init_def gaps_def best_ok_def peak_def)

lemma sweep_open:
  assumes "sweep_ok p s"
  shows "sweep_ok (p @ [(t, 1)]) (sweep_step (t, 1) s)"
proof -
  have c: "sw_count s = cnt p" and m: "peak p (sw_max s)" and b: "best_ok (gaps p (sw_max s)) (sw_best s)"
    using assms by (simp_all add: sweep_ok_def)
  have g: "gaps (p @ [(t, 1)]) k = gaps p k" for k by (simp add: gaps_snoc)
  have "cnt p + 1 > sw_max s \<or> sw_cur s = None"
    using assms by (cases "sw_cur s") (auto simp: sweep_ok_def)
  then consider "cnt p + 1 > sw_max s" | "cnt p + 1 = sw_max s" "sw_cur s = None" | "cnt p + 1 < sw_max s" "sw_cur s = None"
    by linarith
  then show ?thesis
  proof cases
    case 1
    have "gaps p (cnt p + 1) = {}" using m 1 by (intro gaps_above) (auto simp: peak_def)
    then have "best_ok (gaps p (1 + cnt p)) None" by (simp add: best_ok_def add.commute)
    then show ?thesis using 1 peak_new [OF m, of "(t, 1)"] g
      by (simp add: sweep_ok_def sweep_step_def c Let_def add.commute)
  next
    case 2
    then show ?thesis using peak_same [OF m, of "(t, 1)"] b g
      by (simp add: sweep_ok_def sweep_step_def c Let_def)
  next
    case 3
    then show ?thesis using peak_same [OF m, of "(t, 1)"] b g assms
      by (simp add: sweep_ok_def sweep_step_def c Let_def)
  qed
qed

lemma sweep_close:
  assumes "sweep_ok p s"
  shows "sweep_ok (p @ [(t, - 1)]) (sweep_step (t, - 1) s)"
proof -
  have c: "sw_count s = cnt p" and m: "peak p (sw_max s)" and b: "best_ok (gaps p (sw_max s)) (sw_best s)"
    using assms by (simp_all add: sweep_ok_def)
  have m': "peak (p @ [(t, - 1)]) (sw_max s)" using peak_last [OF m] by (intro peak_same [OF m]) simp
  show ?thesis
  proof (cases "sw_cur s")
    case None
    then have "p = [] \<or> cnt p < sw_max s" using assms by (simp add: sweep_ok_def)
    then have "gaps (p @ [(t, - 1)]) (sw_max s) = gaps p (sw_max s)" "cnt p - 1 < sw_max s"
      using peak_last [OF m] by (auto simp: gaps_snoc)
    with None m' b assms show ?thesis
      by (simp add: sweep_ok_def sweep_step_def c Let_def)
  next
    case (Some k)
    then obtain q where q: "p = q @ [(k, 1)]" "cnt p = sw_max s" using assms by (auto simp: sweep_ok_def)
    then have g: "gaps (p @ [(t, - 1)]) (sw_max s) = insert (k, t) (gaps p (sw_max s))"
      unfolding gaps_snoc by blast
    let ?best = "if (case sw_best s of None \<Rightarrow> True | Some (lo, hi) \<Rightarrow> t - k < hi - lo) then Some (k, t) else sw_best s"
    have best: "best_ok (gaps (p @ [(t, - 1)]) (sw_max s)) ?best"
    proof (cases "sw_best s")
      case None
      with b show ?thesis by (simp add: best_ok_def g)
    next
      case (Some lh)
      with b show ?thesis by (cases lh) (fastforce simp: best_ok_def g)
    qed
    have "?best \<noteq> None" by (cases "sw_best s") auto
    moreover have "sweep_step (t, - 1) s = s\<lparr>sw_count := cnt p - 1, sw_best := ?best, sw_cur := None\<rparr>"
      using Some q(2) by (simp add: sweep_step_def c Let_def)
    ultimately show ?thesis using m' best q(2) by (simp add: sweep_ok_def)
  qed
qed

lemma sweep_fold:
  "\<forall>e\<in>set q. snd e = 1 \<or> snd e = - 1 \<Longrightarrow> sweep_ok p s \<Longrightarrow> sweep_ok (p @ q) (fold sweep_step q s)"
proof (induction q arbitrary: p s)
  case (Cons e q)
  then have "sweep_ok (p @ [e]) (sweep_step e s)"
    using sweep_open [of p s "fst e"] sweep_close [of p s "fst e"] by (cases e) auto
  then show ?case using Cons by fastforce
qed simp

section \<open>Sorted edges\<close>

abbreviation ekey :: "edge \<Rightarrow> rat \<times> int" where
  "ekey e \<equiv> (fst e, - snd e)"

text \<open>The edges that count at a moment: what has opened by then and what has closed before.\<close>

definition level :: "rat \<Rightarrow> edge list \<Rightarrow> int" where
  "level t es = sum_list (map (\<lambda>e. if ekey e \<le> (t, - 1) then snd e else 0) es)"

lemma level_append [simp]: "level t [] = 0" "level t (p @ q) = level t p + level t q"
  "level t (e # p) = (if ekey e \<le> (t, - 1) then snd e else 0) + level t p"
  by (simp_all add: level_def)

lemma edges_sorted: "sorted (map ekey (edges ivs))"
  by (simp add: edges_def)

lemma edges_unit: "e \<in> set (edges ivs) \<Longrightarrow> snd e = 1 \<or> snd e = - 1"
  by (auto simp: edges_def)

lemma sum_list_sort_key: "sum_list (map f (sort_key k xs)) = sum_list (map f xs :: int list)"
proof -
  have "sum_mset (image_mset f (mset (sort_key k xs))) = sum_mset (image_mset f (mset xs))" by simp
  then show ?thesis by (simp only: mset_map [symmetric] sum_mset_sum_list)
qed

lemma edges_cnt: "cnt (edges ivs) = 0"
  unfolding cnt_def edges_def sum_list_sort_key by (induction ivs) auto

lemma level_edges:
  assumes "\<forall>(lo, hi) \<in> set ivs. lo \<le> hi"
  shows "level t (edges ivs) = int (depth ivs t)"
  using assms unfolding level_def edges_def sum_list_sort_key depth_def
  by (induction ivs) (auto simp: less_eq_prod_def split: if_splits)

lemma level_all: "\<forall>e\<in>set p. ekey e \<le> (t, - 1) \<Longrightarrow> level t p = cnt p"
  by (induction p) auto

lemma level_none: "\<forall>e\<in>set p. \<not> ekey e \<le> (t, - 1) \<Longrightarrow> level t p = 0"
  by (induction p) auto

lemma level_ge:
  assumes "\<forall>e\<in>set p. (t, - 1) \<le> ekey e" "\<forall>e\<in>set p. snd e = 1 \<or> snd e = - 1"
  shows "0 \<le> level t p"
  using assms by (induction p) (auto simp: less_eq_prod_def)

text \<open>At an opening edge the running sum is at most the depth there; between an opening and the closing edge
  that follows it the depth is the running sum; and every depth is a running sum.\<close>

lemma cnt_open_le:
  assumes "sorted (map ekey es)" "\<forall>e\<in>set es. snd e = 1 \<or> snd e = - 1" "es = (a @ [(t, 1)]) @ b"
  shows "cnt (a @ [(t, 1)]) \<le> level t es"
proof -
  have "\<forall>e\<in>set (a @ [(t, 1)]). ekey e \<le> (t, - 1)" "\<forall>e\<in>set b. (t, - 1) \<le> ekey e"
    using assms(1) by (auto simp: assms(3) sorted_append)
  then have "level t (a @ [(t, 1)]) = cnt (a @ [(t, 1)])" "0 \<le> level t b"
    using assms(2) by (auto intro!: level_all level_ge simp: assms(3))
  then show ?thesis by (simp add: assms(3))
qed

lemma level_gap:
  assumes "sorted (map ekey es)" "es = a @ [(c, 1), (t, - 1)] @ b" "c \<le> u" "u \<le> t"
  shows "level u es = cnt (a @ [(c, 1)])"
proof -
  have "\<forall>e\<in>set (a @ [(c, 1)]). ekey e \<le> (c, - 1)" "\<forall>e\<in>set ((t, - 1) # b). (t, 1) \<le> ekey e"
    using assms(1) by (auto simp: assms(2) sorted_append)
  then have "\<forall>e\<in>set (a @ [(c, 1)]). ekey e \<le> (u, - 1)" "\<forall>e\<in>set ((t, - 1) # b). \<not> ekey e \<le> (u, - 1)"
    using assms(3,4) by (fastforce simp: less_eq_prod_def)+
  then have "level u (a @ [(c, 1)]) = cnt (a @ [(c, 1)])" "level u ((t, - 1) # b) = 0"
    using level_all [of "a @ [(c, 1)]"] level_none [of "(t, - 1) # b"] by blast+
  then show ?thesis by (simp add: assms(2))
qed

lemma level_split:
  assumes "sorted (map ekey es)"
  obtains p q where "es = p @ q" "level t es = cnt p" "\<forall>e\<in>set p. ekey e \<le> (t, - 1)"
    "\<forall>e\<in>set q. \<not> ekey e \<le> (t, - 1)"
proof -
  let ?P = "\<lambda>e. ekey e \<le> (t, - 1)"
  have p: "\<forall>e\<in>set (takeWhile ?P es). ?P e" by (auto dest: set_takeWhileD)
  have q: "\<forall>e\<in>set (dropWhile ?P es). \<not> ?P e"
  proof (cases "dropWhile ?P es")
    case (Cons x xs)
    then have x: "\<not> ?P x" by (metis hd_dropWhile list.sel(1) list.simps(3))
    have "sorted (map ekey (dropWhile ?P es))"
      using assms by (simp add: dropWhile_eq_drop drop_map [symmetric] sorted_wrt_drop)
    then have "sorted (map ekey (x # xs))" by (simp only: Cons)
    then have "\<forall>e\<in>set xs. ekey x \<le> ekey e" by simp
    then show ?thesis unfolding Cons using x by (auto simp: less_eq_prod_def)
  next
    case Nil
    show ?thesis unfolding Nil by simp
  qed
  have "level t (takeWhile ?P es @ dropWhile ?P es) = cnt (takeWhile ?P es)"
    unfolding level_append(2) level_all [OF p] level_none [OF q] by simp
  then have "level t es = cnt (takeWhile ?P es)" unfolding takeWhile_dropWhile_id .
  then show ?thesis by (rule that [OF takeWhile_dropWhile_id [symmetric] _ p q])
qed

section \<open>Properties\<close>

text \<open>The sweep finds the greatest depth and a gap at that depth which is no wider than any other.\<close>

lemma sweep_result:
  assumes "ivs \<noteq> []" "\<forall>(lo, hi) \<in> set ivs. lo \<le> hi"
  obtains lo hi m where "marzullo_intersection ivs = Some (lo, hi)" "(lo, hi) \<in> gaps (edges ivs) m"
    "\<forall>(c, t) \<in> gaps (edges ivs) m. hi - lo \<le> t - c" "peak (edges ivs) m" "0 < m"
proof -
  define s where "s = fold sweep_step (edges ivs) sweep_init"
  have ok: "sweep_ok (edges ivs) s"
    using sweep_fold [of "edges ivs" "[]" sweep_init] edges_unit sweep_ok_init by (auto simp: s_def)
  obtain l h rest where ivs: "ivs = (l, h) # rest" using assms(1) by (cases ivs) auto
  have pos: "0 < sw_max s"
  proof -
    obtain p q where "edges ivs = p @ q" "level l (edges ivs) = cnt p"
      using level_split [OF edges_sorted] by metis
    moreover have "0 < depth ivs l" using assms(2) by (simp add: ivs depth_def)
    ultimately have "0 < cnt p" using level_edges [OF assms(2), of l] by simp
    with ok \<open>edges ivs = p @ q\<close> show ?thesis unfolding sweep_ok_def peak_def by force
  qed
  have "sw_cur s = None"
    using ok pos edges_cnt [of ivs] by (cases "sw_cur s") (auto simp: sweep_ok_def)
  with ok pos obtain b where b: "sw_best s = Some b" by (auto simp: sweep_ok_def)
  have "marzullo_intersection ivs = Some b"
    using assms(1) b by (simp add: marzullo_intersection_def s_def)
  with ok b pos show ?thesis
    by (intro that [of "fst b" "snd b" "sw_max s"]) (auto simp: sweep_ok_def best_ok_def)
qed

lemma depth_le_peak:
  assumes "\<forall>(lo, hi) \<in> set ivs. lo \<le> hi" "peak (edges ivs) m"
  shows "int (depth ivs t) \<le> m"
proof -
  obtain p q where "edges ivs = p @ q" "level t (edges ivs) = cnt p"
    using level_split [OF edges_sorted] by metis
  then show ?thesis using assms(2) level_edges [OF assms(1), of t] unfolding peak_def by force
qed

lemma depth_in_gap:
  assumes "\<forall>(lo, hi) \<in> set ivs. lo \<le> hi" "(c, t) \<in> gaps (edges ivs) m" "c \<le> u" "u \<le> t"
  shows "int (depth ivs u) = m"
proof -
  from assms(2) obtain a b where "edges ivs = a @ [(c, 1), (t, - 1)] @ b" "cnt (a @ [(c, 1)]) = m"
    unfolding gaps_def by blast
  then show ?thesis
    using level_gap [OF edges_sorted _ assms(3,4)] level_edges [OF assms(1), of u] by metis
qed

lemma gap_order: "(c, t) \<in> gaps (edges ivs) m \<Longrightarrow> c \<le> t"
  using edges_sorted [of ivs] by (auto simp: gaps_def sorted_append less_eq_prod_def)

text \<open>A moment of greatest depth lies in a gap at that depth.\<close>

lemma peak_in_gap:
  assumes "\<forall>(lo, hi) \<in> set ivs. lo \<le> hi" "peak (edges ivs) m" "int (depth ivs t) = m" "0 < m"
  obtains c d where "(c, d) \<in> gaps (edges ivs) m" "c \<le> t" "t \<le> d"
proof -
  obtain p q where pq: "edges ivs = p @ q" "level t (edges ivs) = cnt p"
      "\<forall>e\<in>set p. ekey e \<le> (t, - 1)" "\<forall>e\<in>set q. \<not> ekey e \<le> (t, - 1)"
    using level_split [OF edges_sorted] by metis
  have m: "cnt p = m" using pq(2) level_edges [OF assms(1), of t] assms(3) by simp
  have le: "edges ivs = x @ y \<Longrightarrow> cnt x \<le> m" for x y using assms(2) unfolding peak_def by blast
  obtain a e where a: "p = a @ [e]" using m assms(4) by (cases p rule: rev_cases) auto
  have e: "snd e = 1"
    using edges_unit [of e ivs] le [of a "e # q"] m by (auto simp: pq(1) a)
  have "q \<noteq> []" using m assms(4) edges_cnt [of ivs] by (auto simp: pq(1))
  then obtain f b where q: "q = f # b" by (cases q) auto
  have f: "snd f = - 1"
    using edges_unit [of f ivs] le [of "p @ [f]" b] m by (auto simp: pq(1) q)
  have "edges ivs = a @ [(fst e, 1), (fst f, - 1)] @ b" "cnt (a @ [(fst e, 1)]) = m"
    using pq(1) m e f by (auto simp: a q prod_eq_iff)
  then have "(fst e, fst f) \<in> gaps (edges ivs) m" unfolding gaps_def by blast
  moreover have "fst e \<le> t" "t \<le> fst f"
    using pq(3,4) e f by (auto simp: a q less_eq_prod_def)
  ultimately show ?thesis by (rule that)
qed

text \<open>C17. For intervals whose ends are in order the intersection is an interval all of whose moments lie in
  the greatest number of the given intervals, and every moment of that many lies in an interval of such
  moments that is at least as wide.\<close>

theorem marzullo_truth:
  assumes "ivs \<noteq> []" "\<forall>(lo, hi) \<in> set ivs. lo \<le> hi"
  shows "\<exists>lo hi. marzullo_intersection ivs = Some (lo, hi) \<and> lo \<le> hi \<and>
    (\<forall>t. depth ivs t \<le> depth ivs lo) \<and>
    (\<forall>t. lo \<le> t \<and> t \<le> hi \<longrightarrow> depth ivs t = depth ivs lo) \<and>
    (\<forall>t. depth ivs t = depth ivs lo \<longrightarrow>
       (\<exists>a b. a \<le> t \<and> t \<le> b \<and> hi - lo \<le> b - a \<and> (\<forall>u. a \<le> u \<and> u \<le> b \<longrightarrow> depth ivs u = depth ivs lo)))"
proof -
  obtain lo hi m where r: "marzullo_intersection ivs = Some (lo, hi)" "(lo, hi) \<in> gaps (edges ivs) m"
    "\<forall>(c, t) \<in> gaps (edges ivs) m. hi - lo \<le> t - c" "peak (edges ivs) m" "0 < m"
    using sweep_result [OF assms] by blast
  note gap = depth_in_gap [OF assms(2)]
  have lh: "lo \<le> hi" by (rule gap_order [OF r(2)])
  then have d: "int (depth ivs lo) = m" using gap [OF r(2)] by simp
  have "\<exists>a b. a \<le> t \<and> t \<le> b \<and> hi - lo \<le> b - a \<and> (\<forall>u. a \<le> u \<and> u \<le> b \<longrightarrow> depth ivs u = depth ivs lo)"
    if "depth ivs t = depth ivs lo" for t
  proof -
    have "int (depth ivs t) = m" using that d by simp
    then obtain c e where g: "(c, e) \<in> gaps (edges ivs) m" "c \<le> t" "t \<le> e"
      by (rule peak_in_gap [OF assms(2) r(4) _ r(5)])
    then have "\<forall>u. c \<le> u \<and> u \<le> e \<longrightarrow> depth ivs u = depth ivs lo" using gap [OF g(1)] d by fastforce
    with g r(3) show ?thesis by fast
  qed
  moreover have "depth ivs t \<le> depth ivs lo" for t using depth_le_peak [OF assms(2) r(4), of t] d by simp
  moreover have "depth ivs t = depth ivs lo" if "lo \<le> t" "t \<le> hi" for t using gap [OF r(2) that] d by simp
  ultimately show ?thesis using r(1) lh by blast
qed

theorem marzullo_truth_witness:
  "\<exists>lo hi. marzullo_intersection [(8, 12), (11, 13), (10, 12)] = Some (lo, hi) \<and> lo \<le> hi \<and>
    (\<forall>t. depth [(8, 12), (11, 13), (10, 12)] t \<le> depth [(8, 12), (11, 13), (10, 12)] lo) \<and>
    (\<forall>t. lo \<le> t \<and> t \<le> hi \<longrightarrow> depth [(8, 12), (11, 13), (10, 12)] t = depth [(8, 12), (11, 13), (10, 12)] lo) \<and>
    (\<forall>t. depth [(8, 12), (11, 13), (10, 12)] t = depth [(8, 12), (11, 13), (10, 12)] lo \<longrightarrow>
       (\<exists>a b. a \<le> t \<and> t \<le> b \<and> hi - lo \<le> b - a \<and>
         (\<forall>u. a \<le> u \<and> u \<le> b \<longrightarrow> depth [(8, 12), (11, 13), (10, 12)] u = depth [(8, 12), (11, 13), (10, 12)] lo)))"
  by (rule marzullo_truth) simp_all

lemma one_interval: "marzullo_intersection [(lo, hi)] = Some (lo, hi)"
  by (auto simp: marzullo_intersection_def edges_def sweep_step_def sweep_init_def Let_def less_eq_prod_def)

lemma start_sample:
  assumes "ck_ntp c = 0" "clock_probes c supported infra = Inr probes" "probes \<noteq> []"
    "first_sample results = [(ntp, rtt, now)]"
  shows "clock_start c supported infra results =
    Inr (c\<lparr>ck_ntp := ntp, ck_uncertainty := rtt / 2, ck_start_time := now, ck_ntp_loaded := True\<rparr>)"
  using assms by (simp add: clock_start_def clock_set_def sample_intervals_def one_interval field_simps)

text \<open>C29. When the time server's clock at the moment of the sample is within half the round trip of the
  corrected time, every later reading of a started clock is within the published uncertainty of it, plus the
  offset that was added by hand.\<close>

theorem clock_reading_bounded:
  assumes "ck_ntp c = 0" "ck_ntp_addr c = None" "concat (map infra supported) \<noteq> []"
    "results = replicate k None @ Some (ntp, rtt, m0) # later" "ntp \<noteq> 0"
    "\<bar>true_time - ntp\<bar> \<le> rtt / 2" "m0 \<le> m"
  shows "\<exists>c'. clock_start c supported infra results = Inr c' \<and> ck_ntp_loaded c' \<and>
    \<bar>fst (clock_time wall m c') - ck_offset c - (true_time + (m - m0))\<bar> \<le> ck_uncertainty c'"
proof -
  have f: "first_sample results = [(ntp, rtt, m0)]"
    unfolding assms(4) by (induction k) simp_all
  have "clock_probes c supported infra = Inr (concat (map (\<lambda>a. map (\<lambda>s. (a, s)) (infra a)) supported))"
    by (simp add: clock_probes_def assms(2))
  moreover have "concat (map (\<lambda>a. map (\<lambda>s. (a, s)) (infra a)) supported) \<noteq> []"
    using assms(3) by auto
  ultimately have "clock_start c supported infra results =
      Inr (c\<lparr>ck_ntp := ntp, ck_uncertainty := rtt / 2, ck_start_time := m0, ck_ntp_loaded := True\<rparr>)"
    by (rule start_sample [OF assms(1) _ _ f])
  moreover have "\<bar>ntp + (m - m0) - (true_time + (m - m0))\<bar> \<le> rtt / 2"
    using assms(6) by (simp add: abs_minus_commute)
  ultimately show ?thesis using assms(5,7) by (simp add: clock_time_def)
qed

theorem clock_reading_bounded_witness:
  "\<exists>c'. clock_start (clock_init 0 0 None) [IP4] (\<lambda>a. [(''192.0.2.9'', 123)]) (replicate 1 None @ [Some (500, 1, 10)]) = Inr c' \<and>
    ck_ntp_loaded c' \<and>
    \<bar>fst (clock_time 3 25 c') - ck_offset (clock_init 0 0 None) - (500 + (25 - 10))\<bar> \<le> ck_uncertainty c'"
  by (rule clock_reading_bounded [of _ "\<lambda>a. [(''192.0.2.9'', 123)]" "[IP4]" _ 1 500 1 10 "[]"])
    (simp_all add: clock_init_def)

text \<open>A clock that was never started reads the wall clock plus the time since it was made: the seed is
  taken at the first reading, the elapsed time from the construction.\<close>

theorem unstarted_clock_runs_ahead:
  assumes "wall \<noteq> 0" "m0 \<le> m"
  shows "fst (clock_time wall m (clock_init m0 0 addr)) = wall + (m - m0)"
  using assms by (simp add: clock_time_def clock_init_def use_system_clock_def)

theorem unstarted_clock_runs_ahead_witness: "fst (clock_time 1000 60 (clock_init 0 0 None)) = 1000 + (60 - 0)"
  by (rule unstarted_clock_runs_ahead) simp_all

text \<open>The address option is cut at its first colon, so an address with two colons, as every IPv6 address
  has them, is refused with ValueError although the option is documented as a host or host:port.\<close>

theorem clock_addr_v6_refused:
  assumes "ck_ntp c = 0" "ck_ntp_addr c = Some addr" "2 \<le> length (filter ((=) (CHR '':'')) addr)"
  shows "clock_start c supported infra results = Inl ValueError"
proof -
  let ?P = "\<lambda>x. x \<noteq> CHR '':''"
  have none: "filter ((=) (CHR '':'')) (takeWhile ?P addr) = []" by (auto simp: filter_empty_conv dest: set_takeWhileD)
  have "filter ((=) (CHR '':'')) (takeWhile ?P addr @ dropWhile ?P addr) = filter ((=) (CHR '':'')) (dropWhile ?P addr)"
    using none by (simp del: takeWhile_dropWhile_id)
  then have two: "2 \<le> length (filter ((=) (CHR '':'')) (dropWhile ?P addr))" using assms(3) by simp
  then obtain y ys where d: "dropWhile ?P addr = y # ys" by (cases "dropWhile ?P addr") auto
  have "filter ((=) (CHR '':'')) ys \<noteq> []" using two d by (cases "CHR '':'' = y") auto
  then have "CHR '':'' \<in> set ys" by (auto simp: filter_empty_conv)
  then have "py_int 10 ys = Inl ValueError" "ys \<noteq> []" by (auto simp: py_int_colon)
  moreover obtain x xs where "addr = x # xs" using assms(3) by (cases addr) auto
  moreover have "partition_at (CHR '':'') addr = (takeWhile ?P addr, ys)" by (simp add: partition_at_def d)
  ultimately show ?thesis using assms(1,2) by (simp add: clock_start_def clock_probes_def)
qed

theorem clock_addr_v6_refused_witness:
  "clock_start (clock_init 0 0 (Some ''fe80::1'')) [IP6] (\<lambda>a. []) [Some (5, 1, 1)] = Inl ValueError"
  by (rule clock_addr_v6_refused [of _ "''fe80::1''"]) (simp_all add: clock_init_def)

end
