(* ===== verification/Topology.thy ===== *)
theory Topology
  imports NatUtils IpRange PyDict
begin

text \<open>
  Node addresses (\<open>net/topology.py\<close>): the wire text by which a node advertises its interfaces, the parser, the
  validator and the encoder. The text is ASCII, so \<open>to_b\<close> and \<open>to_s\<close> change nothing. What the encoder reads
  of an interface (its NAT, its route and its link-local addresses as text) is a record of the model.
\<close>

section \<open>Data\<close>

record hint =
  hi_af :: int
  hi_host :: string
  hi_port :: int

record if_info =
  ni_netiface_index :: int
  ni_if_index :: int
  ni_ext :: IPRange
  ni_nic :: IPRange
  ni_nat :: nat_desc
  ni_port :: int
  ni_ext_port :: int
  ni_nic_port :: int

record node_addr =
  na_ifs :: "af \<Rightarrow> (int \<times> if_info) list"
  na_pub_key_hex :: string
  na_machine_id :: string
  na_bytes :: string
  na_mqtt_brokers :: "hint list"
  na_turn_servers :: "hint list"
  na_os :: "string option"

section \<open>Validating\<close>

definition if_info_ok :: "af \<Rightarrow> if_info \<Rightarrow> bool" where
  "if_info_ok a i \<longleftrightarrow>
     (ni_port i = 0 \<or> in_range (ni_port i) (1, MAX_PORT)) \<and>
     in_range (nt_type (ni_nat i)) (OPEN_INTERNET, BLOCKED_NAT) \<and>
     in_range (dl_type (nt_delta (ni_nat i))) (NA_DELTA, RANDOM_DELTA) \<and>
     in_range \<bar>dl_value (nt_delta (ni_nat i))\<bar> (0, MAX_PORT) \<and>
     (case ir_subnet (ni_nic i) of None \<Rightarrow> True | Some s \<Rightarrow> in_range s (0, int (af_bitlen a))) \<and>
     (ni_nic_port i = 0 \<or> ni_nic_port i = ni_port i \<or> in_range (ni_nic_port i) (1, MAX_PORT)) \<and>
     (ni_port i \<noteq> 0 \<or> ni_nic_port i \<noteq> 0)"

definition validate_node_addr :: "node_addr \<Rightarrow> node_addr option" where
  "validate_node_addr a =
     (if list_all (\<lambda>f. list_all (\<lambda>(k, i). if_info_ok f i) (na_ifs a f)) [IP4, IP6] then Some a else None)"

section \<open>Parsing\<close>

definition parse_hint :: "string \<Rightarrow> hint option" where
  "parse_hint entry =
     (if length entry < 2 then None
      else (let inner = (if hd entry = CHR ''['' \<and> last entry = CHR '']'' then butlast (tl entry) else entry) in
            case py_split (CHR '','') inner of
              [a, host, p] \<Rightarrow>
                (case (py_int 10 a, py_int 10 p) of
                   (Inr n, Inr port) \<Rightarrow>
                     if host = [] \<or> port = 0 then None else Some \<lparr>hi_af = n, hi_host = host, hi_port = port\<rparr>
                 | _ \<Rightarrow> None)
            | _ \<Rightarrow> None))"

definition parse_server_hints :: "string \<Rightarrow> hint list" where
  "parse_server_hints buf =
     (if buf = [] \<or> buf = ''0'' then []
      else concat (map (\<lambda>e. case parse_hint e of None \<Rightarrow> [] | Some h \<Rightarrow> [h]) (py_split (CHR ''|'') buf)))"

text \<open>The number fields by position; an optional field that is there must be a number.\<close>

definition num_field :: "string list \<Rightarrow> nat \<Rightarrow> int option" where
  "num_field parts i =
     (if py_isnumeric (parts ! i) then (case py_int 10 (parts ! i) of Inr n \<Rightarrow> Some n | Inl _ \<Rightarrow> None) else None)"

definition opt_field :: "string list \<Rightarrow> nat \<Rightarrow> int option option" where
  "opt_field parts i = (if length parts \<le> i then Some None else map_option Some (num_field parts i))"

text \<open>One interface entry: None when it is skipped; the constructor of a range may raise something else than
  ValueError.\<close>

definition range_text :: "(af \<Rightarrow> int \<Rightarrow> bool) \<Rightarrow> string \<Rightarrow> IPRange option result" where
  "range_text priv s =
     (case ip_range priv (IpStr s) None None of
        Inr r \<Rightarrow> Inr (Some r)
      | Inl e \<Rightarrow> if e = ValueError then Inr None else Inl e)"

definition parse_entry :: "(af \<Rightarrow> int \<Rightarrow> bool) \<Rightarrow> string \<Rightarrow> if_info option result" where
  "parse_entry priv info =
     (let parts = py_split (CHR '','') (butlast (tl info)) in
      if length info < 2 \<or> length parts \<notin> {8, 9, 10} then Inr None
      else
        (case map (num_field parts) [0, 1, 4, 5, 6, 7] of
           [Some netiface, Some idx, Some port, Some nt, Some dt, Some dv] \<Rightarrow>
             (case (opt_field parts 8, opt_field parts 9) of
                (Some subnet, Some nic_port) \<Rightarrow>
                  bindr (range_text priv (parts ! 2)) (\<lambda>ext.
                  case ext of None \<Rightarrow> Inr None | Some e \<Rightarrow>
                  bindr (range_text priv (parts ! 3)) (\<lambda>nic.
                  case nic of None \<Rightarrow> Inr None | Some n \<Rightarrow>
                  Inr (Some \<lparr>ni_netiface_index = netiface, ni_if_index = idx, ni_ext = e,
                    ni_nic = (case subnet of None \<Rightarrow> n | Some s \<Rightarrow> n\<lparr>ir_subnet := Some s\<rparr>),
                    ni_nat = nat_info (Some nt) (Some (delta_info dt dv)) None,
                    ni_port = port, ni_ext_port = port,
                    ni_nic_port = (case nic_port of None \<Rightarrow> port | Some p \<Rightarrow> p)\<rparr>)))
              | _ \<Rightarrow> Inr None)
         | _ \<Rightarrow> Inr None))"

fun parse_entries :: "(af \<Rightarrow> int \<Rightarrow> bool) \<Rightarrow> string list \<Rightarrow> (int \<times> if_info) list \<Rightarrow> (int \<times> if_info) list result" where
  "parse_entries priv [] d = Inr d"
| "parse_entries priv (info # infos) d =
     bindr (parse_entry priv info) (\<lambda>e.
       parse_entries priv infos (case e of None \<Rightarrow> d | Some i \<Rightarrow> dict_set (ni_if_index i) i d))"

definition parse_node_addr :: "(af \<Rightarrow> int \<Rightarrow> bool) \<Rightarrow> string \<Rightarrow> node_addr option result" where
  "parse_node_addr priv addr =
     (let af_parts = py_split (CHR ''^'') addr; n = length af_parts in
      if n \<notin> {4, 6, 7} then Inr None
      else
        bindr (parse_entries priv (py_split (CHR ''|'') (af_parts ! 0)) []) (\<lambda>d4.
        bindr (parse_entries priv (py_split (CHR ''|'') (af_parts ! 1)) []) (\<lambda>d6.
        Inr (Some \<lparr>na_ifs = (\<lambda>f. case f of IP4 \<Rightarrow> d4 | IP6 \<Rightarrow> d6),
          na_pub_key_hex = af_parts ! 2, na_machine_id = af_parts ! 3, na_bytes = addr,
          na_mqtt_brokers = (if 6 \<le> n then parse_server_hints (af_parts ! 4) else []),
          na_turn_servers = (if 6 \<le> n then parse_server_hints (af_parts ! 5) else []),
          na_os = (if 7 \<le> n \<and> af_parts ! 6 \<noteq> [] then Some (af_parts ! 6) else None)\<rparr>))))"

definition node_addr_extract_exts :: "node_addr \<Rightarrow> IPRange list" where
  "node_addr_extract_exts a =
     concat (map (\<lambda>f. concat (map (\<lambda>(k, i). [ni_ext i, ni_nic i]) (na_ifs a f))) [IP4, IP6])"

text \<open>\<open>is_node_addr_us\<close>: the local interfaces are the external ranges of their routes by family; a text that
  does not parse is subscripted all the same.\<close>

definition is_node_addr_us :: "(af \<Rightarrow> int \<Rightarrow> bool) \<Rightarrow> string \<Rightarrow> (af \<Rightarrow> IPRange list) list \<Rightarrow> bool result" where
  "is_node_addr_us priv addr if_list =
     bindr (parse_node_addr priv addr) (\<lambda>pa.
       case pa of
         None \<Rightarrow> Inl TypeError
       | Some a \<Rightarrow>
           Inr (list_ex (\<lambda>f. list_ex (\<lambda>(k, i).
             ni_if_index i + 1 \<le> int (length if_list) \<and>
             list_ex (\<lambda>e. ir_eq e (ni_ext i)) ((if_list ! nat (ni_if_index i)) f)) (na_ifs a f)) [IP4, IP6]))"

section \<open>Encoding\<close>

definition encode_hint :: "hint \<Rightarrow> string" where
  "encode_hint h =
     CHR ''['' # py_join (CHR '','') [show_int (hi_af h), hi_host h, show_int (hi_port h)] @ '']''"

definition encode_server_hints :: "hint list \<Rightarrow> string" where
  "encode_server_hints hints =
     (let parts = map encode_hint (filter (\<lambda>h. hi_host h \<noteq> [] \<and> hi_port h \<noteq> 0) hints)
      in if parts = [] then ''0'' else py_join (CHR ''|'') parts)"

text \<open>What the encoder reads of a route and of an interface: texts with the \<open>subnet\<close> of their range.\<close>

record route_view =
  rv_nic :: string
  rv_nic_subnet :: "int option"
  rv_ext :: string
  rv_ext_subnet :: "int option"
  rv_link_locals :: "(string \<times> int option) list"

record iface_view =
  iv_netiface_index :: int
  iv_nat :: "nat_desc option"
  iv_supported :: "af list"
  iv_has_routes :: "af \<Rightarrow> bool"
  iv_route :: "af \<Rightarrow> route_view option"
  iv_link_locals :: "af \<Rightarrow> (string \<times> int option) list"

record addr_entry =
  en_netiface :: int
  en_if :: int
  en_ext :: string
  en_nic :: string
  en_port :: int
  en_nat :: int
  en_delta :: delta
  en_subnet :: int
  en_nic_port :: int

definition encode_entry :: "addr_entry \<Rightarrow> string" where
  "encode_entry e =
     CHR ''['' # py_join (CHR '','')
       [show_int (en_netiface e), show_int (en_if e), en_ext e, en_nic e, show_int (en_port e),
        show_int (en_nat e), show_int (dl_type (en_delta e)), show_int (dl_value (en_delta e)),
        show_int (en_subnet e), show_int (en_nic_port e)] @ '']''"

text \<open>The NAT fields of an entry: the caller's, else the measured, else the default; none for IPv6.\<close>

definition entry_nat :: "af \<Rightarrow> nat_desc option \<Rightarrow> iface_view \<Rightarrow> int \<times> delta" where
  "entry_nat a user iface =
     (let source = (case user of Some n \<Rightarrow> n | None \<Rightarrow> (case iv_nat iface of Some n \<Rightarrow> n | None \<Rightarrow> nat_info None None None))
      in if a = IP6 then (OPEN_INTERNET, delta_info NA_DELTA 0) else (nt_type source, nt_delta source))"

type_synonym if_ports = "((af \<times> int) \<times> (int option \<times> int option)) list"

definition entry_ports :: "af \<Rightarrow> int \<Rightarrow> int \<Rightarrow> if_ports option \<Rightarrow> int \<times> int" where
  "entry_ports a idx port ports =
     (case (case ports of None \<Rightarrow> None | Some d \<Rightarrow> map_of d (a, idx)) of
        None \<Rightarrow> (port, port)
      | Some (e, n) \<Rightarrow> ((case e of None \<Rightarrow> 0 | Some p \<Rightarrow> p), (case n of None \<Rightarrow> 0 | Some p \<Rightarrow> p)))"

text \<open>An address that the caller wants in place of the route's, as a text or as a byte string.\<close>

datatype addr_override = OverText string | OverBytes string

fun over_chars :: "addr_override \<Rightarrow> string" where
  "over_chars (OverText s) = s"
| "over_chars (OverBytes s) = s"

text \<open>The text of the NIC slot and its subnet.\<close>

definition nic_slot :: "af \<Rightarrow> addr_override option \<Rightarrow> route_view \<Rightarrow> string \<times> int option" where
  "nic_slot a ip r =
     (case a of
        IP4 \<Rightarrow> (case map_option over_chars ip of Some (x # xs) \<Rightarrow> x # xs | _ \<Rightarrow> rv_nic r, rv_nic_subnet r)
      | IP6 \<Rightarrow>
          (case ip of
             Some s \<Rightarrow> (over_chars s, None)
           | None \<Rightarrow> (case rv_link_locals r of [] \<Rightarrow> (rv_ext r, rv_ext_subnet r) | ll # _ \<Rightarrow> ll)))"

text \<open>A text that is not empty goes unconverted into the external slot, whose format takes byte strings only.\<close>

definition make_entry ::
  "af \<Rightarrow> int \<Rightarrow> addr_override option \<Rightarrow> nat_desc option \<Rightarrow> int option \<Rightarrow> if_ports option \<Rightarrow> nat \<Rightarrow> iface_view \<Rightarrow>
   addr_entry option result" where
  "make_entry a port ip user_nat if_index ports i iface =
     (let (nt, dl) = entry_nat a user_nat iface;
          idx = (case if_index of Some k \<Rightarrow> if k \<noteq> 0 then k else int i | None \<Rightarrow> int i);
          (ext_port, nic_port) = entry_ports a idx port ports;
          entry = (\<lambda>ext nic subnet.
            \<lparr>en_netiface = iv_netiface_index iface, en_if = idx, en_ext = ext, en_nic = nic, en_port = ext_port,
             en_nat = nt, en_delta = dl, en_subnet = (case subnet of None \<Rightarrow> 0 | Some s \<Rightarrow> s), en_nic_port = nic_port\<rparr>)
      in if iv_has_routes iface a \<and> a \<in> set (iv_supported iface)
         then (case iv_route iface a of
                 None \<Rightarrow> Inr None
               | Some r \<Rightarrow>
                   (let (nic, subnet) = nic_slot a ip r
                    in case ip of
                         Some (OverText (x # xs)) \<Rightarrow> Inl TypeError
                       | Some (OverBytes (x # xs)) \<Rightarrow> Inr (Some (entry (x # xs) nic subnet))
                       | _ \<Rightarrow> Inr (Some (entry (rv_ext r) nic subnet))))
         else (case iv_link_locals iface a of
                 [] \<Rightarrow> Inr None
               | (s, subnet) # _ \<Rightarrow> Inr (Some (entry s s subnet))))"

fun make_entries ::
  "af \<Rightarrow> int \<Rightarrow> addr_override option \<Rightarrow> nat_desc option \<Rightarrow> int option \<Rightarrow> if_ports option \<Rightarrow> nat \<Rightarrow> iface_view list \<Rightarrow>
   addr_entry list result" where
  "make_entries a port ip user_nat if_index ports i [] = Inr []"
| "make_entries a port ip user_nat if_index ports i (iface # ifaces) =
     bindr (make_entry a port ip user_nat if_index ports i iface) (\<lambda>e.
     bindr (make_entries a port ip user_nat if_index ports (Suc i) ifaces) (\<lambda>es.
     Inr (case e of None \<Rightarrow> es | Some e \<Rightarrow> e # es)))"

definition encode_af :: "addr_entry list \<Rightarrow> string" where
  "encode_af es = (if es = [] then ''0'' else py_join (CHR ''|'') (map encode_entry es))"

definition make_node_addr ::
  "string \<Rightarrow> string \<Rightarrow> iface_view list \<Rightarrow> int \<Rightarrow> addr_override option \<Rightarrow> nat_desc option \<Rightarrow> int option \<Rightarrow>
   hint list \<Rightarrow> hint list \<Rightarrow> if_ports option \<Rightarrow> string option \<Rightarrow> string result" where
  "make_node_addr pub_key_hex machine_id ifaces port ip user_nat if_index mqtt turn ports os =
     (if ifaces = [] then Inl ValueError
      else if port = 0 \<and> ports = None then Inl ValueError
      else
        bindr (make_entries IP4 port ip user_nat if_index ports 0 ifaces) (\<lambda>e4.
        bindr (make_entries IP6 port ip user_nat if_index ports 0 ifaces) (\<lambda>e6.
        let has_os = (case os of Some (x # xs) \<Rightarrow> True | _ \<Rightarrow> False)
        in Inr (py_join (CHR ''^'')
              ([encode_af e4, encode_af e6, pub_key_hex, machine_id] @
               (if mqtt \<noteq> [] \<or> turn \<noteq> [] \<or> has_os then [encode_server_hints mqtt, encode_server_hints turn] else []) @
               (if has_os then [the os] else []))))))"

section \<open>Reading an entry back\<close>

definition plain :: "string \<Rightarrow> bool" where
  "plain s \<longleftrightarrow> CHR '','' \<notin> set s \<and> CHR ''|'' \<notin> set s \<and> CHR ''^'' \<notin> set s"

lemma plain_simps [simp]:
  "plain []"
  "plain (c # s) \<longleftrightarrow> c \<noteq> CHR '','' \<and> c \<noteq> CHR ''|'' \<and> c \<noteq> CHR ''^'' \<and> plain s"
  by (auto simp: plain_def)

lemma plain_show_nat [simp]: "plain (show_nat n)"
  unfolding plain_def by (intro conjI show_nat_notin; code_simp)

lemma plain_show_int [simp]: "plain (show_int n)"
  by (simp add: show_int_def)

lemma plain_ipa_text [simp]: "plain (ipa_text a)"
  unfolding plain_def by (intro conjI ipa_text_notin; code_simp)

lemma plain_comma: "plain s \<Longrightarrow> CHR '','' \<notin> set s"
  by (simp add: plain_def)

definition entry_ok :: "(af \<Rightarrow> int \<Rightarrow> bool) \<Rightarrow> addr_entry \<Rightarrow> bool" where
  "entry_ok priv e \<longleftrightarrow>
     0 \<le> en_netiface e \<and> 0 \<le> en_if e \<and> 0 \<le> en_port e \<and> 0 \<le> en_nat e \<and> 0 \<le> dl_type (en_delta e) \<and>
     0 \<le> dl_value (en_delta e) \<and> 0 \<le> en_subnet e \<and> 0 \<le> en_nic_port e \<and>
     plain (en_ext e) \<and> plain (en_nic e) \<and>
     (\<exists>r. ip_range priv (IpStr (en_ext e)) None None = Inr r) \<and> (\<exists>r. ip_range priv (IpStr (en_nic e)) None None = Inr r)"

text \<open>What a peer should learn from an entry.\<close>

definition entry_info :: "(af \<Rightarrow> int \<Rightarrow> bool) \<Rightarrow> addr_entry \<Rightarrow> if_info" where
  "entry_info priv e =
     \<lparr>ni_netiface_index = en_netiface e, ni_if_index = en_if e,
      ni_ext = projr (ip_range priv (IpStr (en_ext e)) None None),
      ni_nic = (projr (ip_range priv (IpStr (en_nic e)) None None))\<lparr>ir_subnet := Some (en_subnet e)\<rparr>,
      ni_nat = nat_info (Some (en_nat e)) (Some (en_delta e)) None,
      ni_port = en_port e, ni_ext_port = en_port e, ni_nic_port = en_nic_port e\<rparr>"

lemma delta_info_eq [simp]: "delta_info (dl_type d) (dl_value d) = d"
  by (simp add: delta_info_def)

lemma py_join_hd: "p \<noteq> [] \<Longrightarrow> \<exists>r. py_join c (p # ps) = hd p # r"
  by (cases ps; cases p) auto

lemma split_join_map:
  "xs \<noteq> [] \<Longrightarrow> (\<And>x. x \<in> set xs \<Longrightarrow> c \<notin> set (f x)) \<Longrightarrow> py_split c (py_join c (map f xs)) = map f xs"
  by (rule py_split_join) auto

lemma num_field_show: "parts ! i = show_int n \<Longrightarrow> 0 \<le> n \<Longrightarrow> num_field parts i = Some n"
  by (simp add: num_field_def show_int_def)

lemma parse_encode_entry:
  assumes "entry_ok priv e"
  shows "parse_entry priv (encode_entry e) = Inr (Some (entry_info priv e))"
proof -
  let ?fields = "[show_int (en_netiface e), show_int (en_if e), en_ext e, en_nic e, show_int (en_port e),
        show_int (en_nat e), show_int (dl_type (en_delta e)), show_int (dl_value (en_delta e)),
        show_int (en_subnet e), show_int (en_nic_port e)]"
  have "py_split (CHR '','') (py_join (CHR '','') ?fields) = ?fields"
    using assms by (intro py_split_join) (auto simp: plain_comma entry_ok_def)
  then have parts: "py_split (CHR '','') (butlast (tl (encode_entry e))) = ?fields"
    by (simp add: encode_entry_def butlast_append del: py_join.simps)
  have len: "\<not> length (encode_entry e) < 2" by (simp add: encode_entry_def del: py_join.simps)
  have num: "map (num_field ?fields) [0, 1, 4, 5, 6, 7] =
      [Some (en_netiface e), Some (en_if e), Some (en_port e), Some (en_nat e), Some (dl_type (en_delta e)),
       Some (dl_value (en_delta e))]"
    using assms by (simp add: num_field_show entry_ok_def)
  have opt: "opt_field ?fields 8 = Some (Some (en_subnet e))" "opt_field ?fields 9 = Some (Some (en_nic_port e))"
    using assms by (simp_all add: opt_field_def num_field_show entry_ok_def)
  obtain re rn where r: "ip_range priv (IpStr (en_ext e)) None None = Inr re" "ip_range priv (IpStr (en_nic e)) None None = Inr rn"
    using assms by (auto simp: entry_ok_def)
  show ?thesis
    unfolding parse_entry_def parts Let_def num opt using len r
    by (simp add: range_text_def entry_info_def delta_info_eq)
qed

lemma plain_join: "c \<noteq> d \<Longrightarrow> \<forall>p\<in>set ps. c \<notin> set p \<Longrightarrow> c \<notin> set (py_join d ps)"
  by (induction d ps rule: py_join.induct) auto

lemma encode_entry_notin:
  assumes "entry_ok priv e"
  shows "CHR ''|'' \<notin> set (encode_entry e)" "CHR ''^'' \<notin> set (encode_entry e)"
  using assms plain_show_int
  by (auto simp: encode_entry_def entry_ok_def plain_def simp del: py_join.simps dest!: plain_join [THEN notE, rotated 2])

lemma parse_entries_encoded:
  assumes "\<forall>e\<in>set es. entry_ok priv e" "distinct (map en_if es @ map fst d)"
  shows "parse_entries priv (map encode_entry es) d = Inr (d @ map (\<lambda>e. (en_if e, entry_info priv e)) es)"
  using assms
proof (induction es arbitrary: d)
  case (Cons e es)
  have "dict_set (en_if e) (entry_info priv e) d = d @ [(en_if e, entry_info priv e)]"
    using Cons.prems(2) by (intro dict_set_new) (simp add: dict_has_def)
  moreover have "ni_if_index (entry_info priv e) = en_if e" by (simp add: entry_info_def)
  ultimately show ?case
    using Cons by (simp add: parse_encode_entry)
qed simp

lemma parse_encode_af:
  assumes "\<forall>e\<in>set es. entry_ok priv e" "distinct (map en_if es)"
  shows "parse_entries priv (py_split (CHR ''|'') (encode_af es)) [] = Inr (map (\<lambda>e. (en_if e, entry_info priv e)) es)"
proof (cases "es = []")
  case True
  have "parse_entry priv ''0'' = Inr None" by (simp add: parse_entry_def)
  then show ?thesis by (simp add: True encode_af_def)
next
  case False
  then have "py_split (CHR ''|'') (encode_af es) = map encode_entry es"
    using split_join_map [of es "CHR ''|''" encode_entry] encode_entry_notin(1) assms(1) unfolding encode_af_def
    by simp blast
  then show ?thesis using parse_entries_encoded [OF assms(1), of "[]"] assms(2) by simp
qed

section \<open>Reading hints back\<close>

definition hint_ok :: "hint \<Rightarrow> bool" where
  "hint_ok h \<longleftrightarrow> 0 \<le> hi_af h \<and> 0 < hi_port h \<and> hi_host h \<noteq> [] \<and> plain (hi_host h)"

lemma parse_encode_hint: "hint_ok h \<Longrightarrow> parse_hint (encode_hint h) = Some h"
proof -
  assume ok: "hint_ok h"
  let ?fields = "[show_int (hi_af h), hi_host h, show_int (hi_port h)]"
  have "py_split (CHR '','') (py_join (CHR '','') ?fields) = ?fields"
    using ok by (intro py_split_join) (auto simp: plain_comma hint_ok_def)
  moreover have "py_int 10 (show_int (hi_af h)) = Inr (hi_af h)" "py_int 10 (show_int (hi_port h)) = Inr (hi_port h)"
    using ok by (simp_all add: show_int_def hint_ok_def)
  ultimately show ?thesis
    using ok by (simp add: parse_hint_def encode_hint_def butlast_append hint_ok_def Let_def del: py_join.simps)
qed

lemma encode_hint_notin:
  assumes "hint_ok h"
  shows "CHR ''|'' \<notin> set (encode_hint h)" "CHR ''^'' \<notin> set (encode_hint h)"
  using assms plain_show_int
  by (auto simp: encode_hint_def hint_ok_def plain_def simp del: py_join.simps dest!: plain_join [THEN notE, rotated 2])

lemma parse_encode_hints:
  assumes "\<forall>h\<in>set hs. hint_ok h"
  shows "parse_server_hints (encode_server_hints hs) = hs"
proof -
  have f: "filter (\<lambda>h. hi_host h \<noteq> [] \<and> hi_port h \<noteq> 0) hs = hs"
    using assms by (auto simp: filter_id_conv hint_ok_def)
  show ?thesis
  proof (cases "hs = []")
    case False
    then have sp: "py_split (CHR ''|'') (py_join (CHR ''|'') (map encode_hint hs)) = map encode_hint hs"
      using split_join_map [of hs "CHR ''|''" encode_hint] encode_hint_notin(1) assms by blast
    obtain h t where hs: "hs = h # t" using False by (cases hs) auto
    obtain r where "py_join (CHR ''|'') (map encode_hint hs) = CHR ''['' # r"
      using py_join_hd [of "encode_hint h" "CHR ''|''" "map encode_hint t"] by (auto simp: hs encode_hint_def)
    then have "py_join (CHR ''|'') (map encode_hint hs) \<noteq> []" "py_join (CHR ''|'') (map encode_hint hs) \<noteq> ''0''"
      by simp_all
    moreover have "concat (map (\<lambda>e. case parse_hint e of None \<Rightarrow> [] | Some h \<Rightarrow> [h]) (map encode_hint hs)) = hs"
      using assms by (induction hs) (auto simp: parse_encode_hint)
    ultimately show ?thesis using False unfolding encode_server_hints_def f Let_def parse_server_hints_def
      by (simp add: sp)
  qed (simp add: encode_server_hints_def parse_server_hints_def)
qed

section \<open>Properties\<close>

lemma all_af_iff: "(\<forall>a. P a) \<longleftrightarrow> P IP4 \<and> P IP6"
  by (metis af.exhaust)


lemma join_caret: "\<forall>p\<in>set ps. CHR ''^'' \<notin> set p \<Longrightarrow> ps \<noteq> [] \<Longrightarrow> py_split (CHR ''^'') (py_join (CHR ''^'') ps) = ps"
  by (rule py_split_join) auto

lemma join_map_notin: "c \<noteq> d \<Longrightarrow> (\<And>x. x \<in> set xs \<Longrightarrow> c \<notin> set (f x)) \<Longrightarrow> c \<notin> set (py_join d (map f xs))"
  by (rule plain_join) auto

lemma encode_af_notin: "\<forall>e\<in>set es. entry_ok priv e \<Longrightarrow> CHR ''^'' \<notin> set (encode_af es)"
  using join_map_notin [of "CHR ''^''" "CHR ''|''" es encode_entry] encode_entry_notin(2) by (auto simp: encode_af_def)

lemma encode_hints_notin: "\<forall>h\<in>set hs. hint_ok h \<Longrightarrow> CHR ''^'' \<notin> set (encode_server_hints hs)"
  using join_map_notin [of "CHR ''^''" "CHR ''|''" "filter (\<lambda>h. hi_host h \<noteq> [] \<and> hi_port h \<noteq> 0) hs" encode_hint]
    encode_hint_notin(2)
  by (auto simp: encode_server_hints_def Let_def)

lemma node_addr_reads_back:
  assumes "make_node_addr pub machine ifaces port ip user_nat if_index mqtt turn ports os = Inr addr"
    "\<forall>a. make_entries a port ip user_nat if_index ports 0 ifaces = Inr (entries a)"
    "\<forall>a. (\<forall>e\<in>set (entries a). entry_ok priv e) \<and> distinct (map en_if (entries a))"
    "\<forall>h\<in>set (mqtt @ turn). hint_ok h"
    "CHR ''^'' \<notin> set pub" "CHR ''^'' \<notin> set machine" "case os of None \<Rightarrow> True | Some s \<Rightarrow> CHR ''^'' \<notin> set s"
  shows "\<exists>na. parse_node_addr priv addr = Inr (Some na) \<and>
    (\<forall>a. na_ifs na a = map (\<lambda>e. (en_if e, entry_info priv e)) (entries a)) \<and>
    na_pub_key_hex na = pub \<and> na_machine_id na = machine \<and> na_bytes na = addr \<and>
    na_mqtt_brokers na = mqtt \<and> na_turn_servers na = turn \<and> na_os na = (if os = Some [] then None else os)"
proof -
  define hs where "hs = (if mqtt \<noteq> [] \<or> turn \<noteq> [] \<or> (os \<noteq> None \<and> os \<noteq> Some [])
    then [encode_server_hints mqtt, encode_server_hints turn] else [])"
  define osp where "osp = (if os \<noteq> None \<and> os \<noteq> Some [] then [the os] else [])"
  let ?parts = "[encode_af (entries IP4), encode_af (entries IP6), pub, machine] @ hs @ osp"
  have has: "(case os of Some (x # xs) \<Rightarrow> True | _ \<Rightarrow> False) \<longleftrightarrow> os \<noteq> None \<and> os \<noteq> Some []"
    by (auto split: option.split list.split)
  have addr: "addr = py_join (CHR ''^'') ?parts"
    using assms(1) unfolding make_node_addr_def has Let_def assms(2) [rule_format] bindr_simps hs_def osp_def
    by (simp only: sum.inject split: if_splits) simp_all
  have "CHR ''^'' \<notin> set (encode_af (entries a))" for a
    using assms(3) by (intro encode_af_notin [of _ priv]) auto
  then have "\<forall>p\<in>set ?parts. CHR ''^'' \<notin> set p"
    using assms(4-7) encode_hints_notin [of mqtt] encode_hints_notin [of turn]
    by (auto simp: hs_def osp_def)
  then have sp: "py_split (CHR ''^'') addr = ?parts" unfolding addr by (intro join_caret) simp_all
  have af: "parse_entries priv (py_split (CHR ''|'') (encode_af (entries a))) [] =
      Inr (map (\<lambda>e. (en_if e, entry_info priv e)) (entries a))" for a
    using assms(3) by (intro parse_encode_af) auto
  have h: "parse_server_hints (encode_server_hints mqtt) = mqtt" "parse_server_hints (encode_server_hints turn) = turn"
    using assms(4) by (auto intro: parse_encode_hints)
  consider "mqtt = []" "turn = []" "os = None \<or> os = Some []"
    | "mqtt \<noteq> [] \<or> turn \<noteq> []" "os = None \<or> os = Some []"
    | s where "os = Some s" "s \<noteq> []"
    by (cases os) auto
  then show ?thesis
    by cases (auto simp: parse_node_addr_def sp af h Let_def all_af_iff hs_def osp_def numeral_eq_Suc)
qed

text \<open>C9. Every address that \<open>make_node_addr\<close> builds from interfaces with valid address texts, different indices
  and numbers that are not negative, and from hints without separators, parses back: each family holds the entries of its interfaces
  in order, with the ranges, NAT, ports and subnet that were encoded, and the keys, hints and system name are
  those that were given.\<close>

theorem node_addr_roundtrip:
  assumes "make_node_addr pub machine ifaces port ip user_nat if_index mqtt turn ports os = Inr addr"
    "\<forall>a. make_entries a port ip user_nat if_index ports 0 ifaces = Inr (entries a)"
    "\<forall>a. (\<forall>e\<in>set (entries a). entry_ok priv e) \<and> distinct (map en_if (entries a))"
    "\<forall>h\<in>set (mqtt @ turn). hint_ok h"
    "CHR ''^'' \<notin> set pub" "CHR ''^'' \<notin> set machine" "case os of None \<Rightarrow> True | Some s \<Rightarrow> CHR ''^'' \<notin> set s"
  shows "\<exists>na. parse_node_addr priv addr = Inr (Some na) \<and>
    (\<forall>a. na_ifs na a = map (\<lambda>e. (en_if e, entry_info priv e)) (entries a)) \<and>
    na_pub_key_hex na = pub \<and> na_machine_id na = machine \<and> na_bytes na = addr \<and>
    na_mqtt_brokers na = mqtt \<and> na_turn_servers na = turn \<and> na_os na = (if os = Some [] then None else os)"
  using assms by (rule node_addr_reads_back)

text \<open>An interface with one IPv4 route and one hint.\<close>

definition sample_iface :: "string \<Rightarrow> iface_view" where
  "sample_iface t =
     \<lparr>iv_netiface_index = 2, iv_nat = None, iv_supported = [IP4], iv_has_routes = (\<lambda>a. a = IP4),
      iv_route = (\<lambda>a. Some \<lparr>rv_nic = t, rv_nic_subnet = Some 24, rv_ext = t, rv_ext_subnet = None, rv_link_locals = []\<rparr>),
      iv_link_locals = (\<lambda>a. [])\<rparr>"

lemma sample_entries:
  "make_entries IP4 port None None None None 0 [sample_iface t] = Inr
     [\<lparr>en_netiface = 2, en_if = 0, en_ext = t, en_nic = t, en_port = port, en_nat = RESTRICT_PORT_NAT,
       en_delta = delta_info EQUAL_DELTA 0, en_subnet = 24, en_nic_port = port\<rparr>]"
  "make_entries IP6 port None None None None 0 [sample_iface t] = Inr []"
  by (simp_all add: make_entry_def entry_nat_def entry_ports_def nic_slot_def sample_iface_def nat_info_def Let_def
      delta_info_def)

definition sample_list :: "string \<Rightarrow> int \<Rightarrow> af \<Rightarrow> addr_entry list" where
  "sample_list t port a = projr (make_entries a port None None None None 0 [sample_iface t])"

lemma sample_ok:
  assumes "0 \<le> port" "ipa_ok x"
  shows "\<forall>a. make_entries a port None None None None 0 [sample_iface (ipa_text x)] = Inr (sample_list (ipa_text x) port a)"
    and "\<forall>a. (\<forall>e\<in>set (sample_list (ipa_text x) port a). entry_ok priv e) \<and>
      distinct (map en_if (sample_list (ipa_text x) port a))"
  unfolding all_af_iff sample_list_def sample_entries using ip_range_of_text [OF assms(2), of priv] assms
  by (auto simp: entry_ok_def delta_info_def RESTRICT_PORT_NAT_def EQUAL_DELTA_def)

theorem node_addr_roundtrip_witness:
  "\<exists>t addr na. make_node_addr ''ab'' ''cd'' [sample_iface t] 1337 None None None
       [\<lparr>hi_af = 2, hi_host = ''h'', hi_port = 1883\<rparr>] [] None (Some ''linux'') = Inr addr \<and>
     parse_node_addr (\<lambda>_ _. True) addr = Inr (Some na) \<and>
     map fst (na_ifs na IP4) = [0] \<and> na_ifs na IP6 = [] \<and> na_pub_key_hex na = ''ab'' \<and>
     na_mqtt_brokers na = [\<lparr>hi_af = 2, hi_host = ''h'', hi_port = 1883\<rparr>] \<and> na_os na = Some ''linux''"
proof -
  define t where "t = ipa_text (IP4, 167772161)"
  have ok: "ipa_ok (IP4, 167772161)" by (simp add: ipa_ok_def af_bitlen_def)
  let ?h = "\<lparr>hi_af = 2, hi_host = ''h'', hi_port = 1883\<rparr>"
  obtain addr where m: "make_node_addr ''ab'' ''cd'' [sample_iface t] 1337 None None None [?h] [] None (Some ''linux'') = Inr addr"
    by (simp add: make_node_addr_def Let_def sample_entries del: make_entries.simps)
  have "\<exists>na. parse_node_addr (\<lambda>_ _. True) addr = Inr (Some na) \<and>
    (\<forall>a. na_ifs na a = map (\<lambda>e. (en_if e, entry_info (\<lambda>_ _. True) e))
       (sample_list t 1337 a)) \<and>
    na_pub_key_hex na = ''ab'' \<and> na_machine_id na = ''cd'' \<and> na_bytes na = addr \<and>
    na_mqtt_brokers na = [?h] \<and> na_turn_servers na = [] \<and> na_os na = (if Some ''linux'' = Some [] then None else Some ''linux'')"
    using sample_ok(1) [OF _ ok, of 1337] sample_ok(2) [OF _ ok, of 1337 "\<lambda>_ _. True"]
    by (intro node_addr_roundtrip [OF m, where entries = "sample_list t 1337"]) (simp_all add: t_def hint_ok_def)
  then show ?thesis using m by (fastforce simp: sample_list_def sample_entries simp del: make_entries.simps)
qed

text \<open>An override that is a text makes the encoder raise for an interface with a route.\<close>

theorem text_override_raises:
  "make_node_addr pub machine [sample_iface t] 1337 (Some (OverText ''10.0.0.1'')) None None mqtt turn None os = Inl TypeError"
  by (simp add: make_node_addr_def make_entry_def sample_iface_def entry_nat_def entry_ports_def nic_slot_def Let_def
      case_prod_beta)

text \<open>The parser calls the validator and drops its answer: an address whose port is out of range is accepted.\<close>

theorem invalid_addr_accepted:
  "\<exists>addr na. parse_node_addr priv addr = Inr (Some na) \<and> validate_node_addr na = None"
proof -
  define t where "t = ipa_text (IP4, 167772161)"
  have ok: "ipa_ok (IP4, 167772161)" by (simp add: ipa_ok_def af_bitlen_def)
  obtain addr where m: "make_node_addr ''ab'' ''cd'' [sample_iface t] 70000 None None None [] [] None None = Inr addr"
    by (simp add: make_node_addr_def Let_def sample_entries del: make_entries.simps)
  have "\<exists>na. parse_node_addr priv addr = Inr (Some na) \<and>
    (\<forall>a. na_ifs na a = map (\<lambda>e. (en_if e, entry_info priv e))
       (sample_list t 70000 a)) \<and>
    na_pub_key_hex na = ''ab'' \<and> na_machine_id na = ''cd'' \<and> na_bytes na = addr \<and>
    na_mqtt_brokers na = [] \<and> na_turn_servers na = [] \<and> na_os na = (if (None :: string option) = Some [] then None else None)"
    using sample_ok(1) [OF _ ok, of 70000] sample_ok(2) [OF _ ok, of 70000 priv] 
    by (intro node_addr_reads_back [OF m, where entries = "sample_list t 70000"]) (simp_all add: t_def)
  then obtain na where "parse_node_addr priv addr = Inr (Some na)"
    "na_ifs na IP4 = map (\<lambda>e. (en_if e, entry_info priv e)) (sample_list t 70000 IP4)"
    by blast
  then show ?thesis
    by (intro exI [of _ addr] exI [of _ na]) (simp add: sample_list_def sample_entries validate_node_addr_def if_info_ok_def entry_info_def
        in_range_def MAX_PORT_def del: make_entries.simps)
qed

end
