(* ===== verification/Binds.thy ===== *)
theory Binds
  imports IpRange
begin

text \<open>
  Choosing the tuple a socket is bound to (\<open>net/bind/\<close>): the table of platform rules, its two passes before and
  after the address lookup, \<open>Bind\<close> and the closure that resolves it once. The lookup \<open>getaddrinfo\<close>, the
  platform name, the interface and the table \<open>priv\<close> of private networks are arguments. Addresses with a
  scope are not addresses for \<open>ipaddress\<close>, as before Python 3.9.
\<close>

section \<open>Rules\<close>

datatype tval = VNone | VStr string | VInt int

fun show_tval :: "tval \<Rightarrow> string" where
  "show_tval VNone = ''None''"
| "show_tval (VStr s) = s"
| "show_tval (VInt n) = show_int n"

definition VALID_LOCALHOST :: "string list" where
  "VALID_LOCALHOST = [''localhost'', ''::1'', ''127.0.0.1'']"

definition V6_VALID_LOCALHOST :: "string list" where
  "V6_VALID_LOCALHOST = [''localhost'', ''::1'']"

definition V4_VALID_ANY :: "string list" where
  "V4_VALID_ANY = [''*'', ''0.0.0.0'', '''']"

definition V6_VALID_ANY :: "string list" where
  "V6_VALID_ANY = [''*'', ''::'', ''::/0'', '''', ''0000:0000:0000:0000:0000:0000:0000:0000'']"

definition VALID_ANY_ADDR :: "string list" where
  "VALID_ANY_ADDR = [''0.0.0.0'', ''::'']"

definition LOCALHOST_LOOKUP :: "af \<Rightarrow> string" where
  "LOCALHOST_LOOKUP a = (case a of IP4 \<Rightarrow> ''127.0.0.1'' | IP6 \<Rightarrow> ''::1'')"

datatype rule_type = IP_APPEND | IP_BIND_TUP
datatype hey = HeyIps "string list" | HeyPrivate

text \<open>The last field of a rule: a text to append, the scope to append, or an offset with its value.\<close>

datatype change = ChText string | ChNicId | ChSet nat "int option"

record BindRule =
  br_platform :: string
  br_afs :: "af list"
  br_type :: rule_type
  br_hey :: hey
  br_norm :: "string option"
  br_change :: change

definition bind_rule :: "string \<Rightarrow> af list \<Rightarrow> rule_type \<Rightarrow> hey \<Rightarrow> string option \<Rightarrow> change \<Rightarrow> BindRule" where
  "bind_rule p as ty h n c =
     \<lparr>br_platform = p, br_afs = as, br_type = ty, br_hey = h, br_norm = n, br_change = c\<rparr>"

text \<open>In the offset rules \<open>ChSet k None\<close> writes the interface, \<open>ChSet k (Some v)\<close> a number.\<close>

definition get_bind_magic_table :: "af \<Rightarrow> BindRule list" where
  "get_bind_magic_table a =
     [bind_rule ''*'' [IP4, IP6] IP_APPEND (HeyIps VALID_LOCALHOST) (Some (LOCALHOST_LOOKUP a)) (ChText ''''),
      bind_rule ''*'' [IP6] IP_APPEND (HeyIps V6_VALID_ANY) (Some ''::'') (ChText ''''),
      bind_rule ''*'' [IP4] IP_APPEND (HeyIps V4_VALID_ANY) (Some ''0.0.0.0'') (ChText ''''),
      bind_rule ''Windows'' [IP6] IP_APPEND HeyPrivate (Some '''') ChNicId,
      bind_rule ''*'' [IP6] IP_APPEND HeyPrivate (Some '''') ChNicId,
      bind_rule ''Windows'' [IP6] IP_BIND_TUP (HeyIps V6_VALID_ANY) None (ChSet 3 (Some 0)),
      bind_rule ''*'' [IP6] IP_BIND_TUP (HeyIps V6_VALID_LOCALHOST) None (ChSet 3 (Some 0)),
      bind_rule ''Windows'' [IP6] IP_BIND_TUP HeyPrivate None (ChSet 3 None)]"

text \<open>\<open>is_private\<close> of an address text as the rules read it: a text that is no address passes too.\<close>

definition hey_private :: "(af \<Rightarrow> int \<Rightarrow> bool) \<Rightarrow> string \<Rightarrow> bool" where
  "hey_private priv ip = (case ipa_of_str ip of Inl e \<Rightarrow> True | Inr (a, n) \<Rightarrow> priv a n)"

definition match_bind_rule :: "(af \<Rightarrow> int \<Rightarrow> bool) \<Rightarrow> string \<Rightarrow> af \<Rightarrow> string \<Rightarrow> BindRule \<Rightarrow> rule_type \<Rightarrow> bool" where
  "match_bind_rule priv ip a plat r ty \<longleftrightarrow>
     br_type r = ty \<and> a \<in> set (br_afs r) \<and> (br_platform r = ''*'' \<or> br_platform r = plat) \<and>
     (case br_hey r of HeyIps ips \<Rightarrow> ip \<in> set ips | HeyPrivate \<Rightarrow> hey_private priv ip)"

definition apply_append :: "string \<Rightarrow> tval \<Rightarrow> BindRule \<Rightarrow> string" where
  "apply_append ip nic_id r =
     (let ip' = (case br_norm r of None \<Rightarrow> ip | Some s \<Rightarrow> if s = '''' then ip else s)
      in case br_change r of
           ChNicId \<Rightarrow> ip' @ ''%'' @ show_tval nic_id
         | ChText s \<Rightarrow> ip' @ s
         | ChSet k v \<Rightarrow> ip')"

fun resolve_bind_ip :: "(af \<Rightarrow> int \<Rightarrow> bool) \<Rightarrow> string \<Rightarrow> af \<Rightarrow> tval \<Rightarrow> string \<Rightarrow> BindRule list \<Rightarrow> string" where
  "resolve_bind_ip priv ip a nic_id plat [] = ip"
| "resolve_bind_ip priv ip a nic_id plat (r # rs) =
     (if match_bind_rule priv ip a plat r IP_APPEND then apply_append ip nic_id r
      else resolve_bind_ip priv ip a nic_id plat rs)"

definition apply_set :: "tval list \<Rightarrow> tval \<Rightarrow> BindRule \<Rightarrow> tval list" where
  "apply_set tup nic_id r =
     (case br_change r of
        ChSet k v \<Rightarrow> if k < length tup then tup[k := (case v of None \<Rightarrow> nic_id | Some n \<Rightarrow> VInt n)] else tup
      | _ \<Rightarrow> tup)"

fun tuple_rules :: "(af \<Rightarrow> int \<Rightarrow> bool) \<Rightarrow> tval list \<Rightarrow> string \<Rightarrow> af \<Rightarrow> tval \<Rightarrow> string \<Rightarrow> BindRule list \<Rightarrow> tval list" where
  "tuple_rules priv tup ip a nic_id plat [] = tup"
| "tuple_rules priv tup ip a nic_id plat (r # rs) =
     (if match_bind_rule priv ip a plat r IP_BIND_TUP then apply_set tup nic_id r
      else tuple_rules priv tup ip a nic_id plat rs)"

text \<open>The lookup gives tuples that begin with the address text.\<close>

definition strip_first :: "tval list \<Rightarrow> tval list" where
  "strip_first tup = (case tup of VStr s # rest \<Rightarrow> VStr (ip_strip_if s) # rest | _ \<Rightarrow> tup)"

definition resolve_bind_tuple ::
  "(af \<Rightarrow> int \<Rightarrow> bool) \<Rightarrow> tval list \<Rightarrow> string \<Rightarrow> af \<Rightarrow> tval \<Rightarrow> string \<Rightarrow> BindRule list \<Rightarrow> tval list" where
  "resolve_bind_tuple priv tup ip a nic_id plat rules =
     (let t = tuple_rules priv tup ip a nic_id plat rules in if a = IP6 then strip_first t else t)"

text \<open>\<open>binder_async\<close> and \<open>binder_sync\<close>: a failed lookup is the empty list.\<close>

definition binder_sync ::
  "(af \<Rightarrow> int \<Rightarrow> bool) \<Rightarrow> (string \<Rightarrow> int \<Rightarrow> tval list list) \<Rightarrow> string \<Rightarrow> af \<Rightarrow> string \<Rightarrow> int \<Rightarrow> tval \<Rightarrow> tval list option" where
  "binder_sync priv lookup plat a ip port nic_id =
     (let rules = get_bind_magic_table a; ip' = resolve_bind_ip priv ip a nic_id plat rules in
      case lookup ip' port of
        [] \<Rightarrow> None
      | tup # _ \<Rightarrow> Some (resolve_bind_tuple priv tup ip' a nic_id plat rules))"

section \<open>Bind objects\<close>

record bind_iface =
  bi_nic_id :: "af \<Rightarrow> tval"
  bi_nic :: "af \<Rightarrow> string result"

record Bind =
  bd_ips :: "string option"
  bd_interface :: "bind_iface option"
  bd_af :: af
  bd_resolved :: bool
  bd_port :: int
  bd_tups :: "tval list option"

definition bind_init :: "bind_iface option \<Rightarrow> af \<Rightarrow> int \<Rightarrow> string option \<Rightarrow> Bind" where
  "bind_init iface a port ips =
     \<lparr>bd_ips = ips, bd_interface = iface, bd_af = a, bd_resolved = False, bd_port = port, bd_tups = Some []\<rparr>"

definition LOOPBACK_BIND :: int where "LOOPBACK_BIND = 5"

text \<open>\<open>bind_tup\<close>: the tuple is immutable, so overriding its port raises; a failed lookup left None.\<close>

definition bind_tup :: "int option \<Rightarrow> int \<Rightarrow> Bind \<Rightarrow> tval list result" where
  "bind_tup port flag b =
     (if flag = LOOPBACK_BIND then
        Inr [VStr (if bd_af b = IP6 then ''::1'' else ''127.0.0.1''), VInt (bd_port b)]
      else if port \<noteq> None then Inl TypeError
      else (case bd_tups b of
              None \<Rightarrow> Inl TypeError
            | Some [] \<Rightarrow> Inl IndexError
            | Some (x # xs) \<Rightarrow> if x = VNone then Inl ValueError else Inr (x # xs)))"

definition supported :: "Bind \<Rightarrow> af list" where
  "supported b = [bd_af b]"

text \<open>The closure: \<open>nic\<close> is what \<open>self.nic()\<close> answers where there is no interface. A resolved object answers
  None.\<close>

definition bind_call ::
  "(af \<Rightarrow> int \<Rightarrow> bool) \<Rightarrow> (string \<Rightarrow> int \<Rightarrow> tval list list) \<Rightarrow> string \<Rightarrow> string result \<Rightarrow> int option \<Rightarrow> string option \<Rightarrow>
   Bind \<Rightarrow> (bool \<times> Bind) result" where
  "bind_call priv lookup plat nic port ips b =
     (if bd_resolved b then Inr (False, b)
      else
        (let port' = (case port of Some p \<Rightarrow> if p \<noteq> 0 then p else bd_port b | None \<Rightarrow> bd_port b);
             ips' = (case ips of Some (c # s) \<Rightarrow> Some (c # s) | _ \<Rightarrow> bd_ips b);
             nic_id = (case bd_interface b of None \<Rightarrow> VNone | Some i \<Rightarrow> bi_nic_id i (bd_af b))
         in bindr (case ips' of
                Some s \<Rightarrow> Inr s
              | None \<Rightarrow> (case bd_interface b of Some i \<Rightarrow> bi_nic i (bd_af b) | None \<Rightarrow> nic)) (\<lambda>ip.
              Inr (True, b\<lparr>bd_tups := binder_sync priv lookup plat (bd_af b) ip port' nic_id, bd_port := port', bd_resolved := True\<rparr>))))"

section \<open>Helpers of \<open>bind_utils\<close>\<close>

definition ip6_patch_bind_ip :: "string \<Rightarrow> string \<Rightarrow> tval \<Rightarrow> string" where
  "ip6_patch_bind_ip plat bind_ip nic_id =
     (if nic_id = VNone then bind_ip
      else if py_lower (take 2 bind_ip) \<in> {''fe'', ''fd''} then
        bind_ip @ ''%'' @
          (if plat = ''Windows'' then
             (case nic_id of
                VInt n \<Rightarrow> show_int n
              | VStr s \<Rightarrow> (case py_int 10 s of Inr n \<Rightarrow> show_int n | Inl e \<Rightarrow> s)
              | VNone \<Rightarrow> '''')
           else show_tval nic_id)
      else bind_ip)"

text \<open>\<open>patch_connect_ip\<close>: the attribute \<open>ip\<close> of the range is the normalised text.\<close>

definition patch_connect_ip :: "(af \<Rightarrow> int \<Rightarrow> bool) \<Rightarrow> string \<Rightarrow> string \<Rightarrow> tval \<Rightarrow> IPRange option \<Rightarrow> string result" where
  "patch_connect_ip priv plat ip nic_id ipr =
     bindr (case ipr of Some r \<Rightarrow> Inr r | None \<Rightarrow> IPR priv ip 0) (\<lambda>r.
       if (case ir_ip r of IpStr s \<Rightarrow> s \<in> set VALID_ANY_ADDR | _ \<Rightarrow> False)
       then Inr (if ir_af r = IP4 then ''127.0.0.1'' else ''::1'')
       else if ir_af r = IP6 \<and> ip \<notin> {''::'', ''::1''} \<and> ir_private r then Inr (ip6_patch_bind_ip plat ip nic_id)
       else Inr ip)"

text \<open>\<open>get_high_port_socket\<close>: the rounds of its loop, with the drawn ports and whether a socket can be made in
  each round as arguments.\<close>

fun high_port ::
  "(Bind \<Rightarrow> int \<Rightarrow> (bool \<times> Bind) result) \<Rightarrow> (nat \<Rightarrow> int) \<Rightarrow> (nat \<Rightarrow> bool) \<Rightarrow> nat \<Rightarrow> nat \<Rightarrow> Bind \<Rightarrow> (Bind \<times> int) result" where
  "high_port bind_to port ok 0 i b = Inl OSError"
| "high_port bind_to port ok (Suc k) i b =
     bindr (bind_to b (port i)) (\<lambda>(_, b').
       if ok i then Inr (b', port i) else high_port bind_to port ok k (Suc i) b')"

definition get_high_port_socket ::
  "(Bind \<Rightarrow> int \<Rightarrow> (bool \<times> Bind) result) \<Rightarrow> (nat \<Rightarrow> int) \<Rightarrow> (nat \<Rightarrow> bool) \<Rightarrow> Bind \<Rightarrow> (Bind \<times> int) result" where
  "get_high_port_socket bind_to port ok b = high_port bind_to port ok 20 0 b"

section \<open>Properties\<close>

lemmas rule_defs = get_bind_magic_table_def bind_rule_def match_bind_rule_def apply_append_def apply_set_def

lemma ip_decision:
  "resolve_bind_ip priv ip a nic_id plat (get_bind_magic_table a) =
     (if ip \<in> set VALID_LOCALHOST then LOCALHOST_LOOKUP a
      else if a = IP6 \<and> ip \<in> set V6_VALID_ANY then ''::''
      else if a = IP4 \<and> ip \<in> set V4_VALID_ANY then ''0.0.0.0''
      else if a = IP6 \<and> hey_private priv ip then ip @ ''%'' @ show_tval nic_id
      else ip)"
  by (cases a) (simp_all add: rule_defs LOCALHOST_LOOKUP_def)

text \<open>The first pass of the rule table, decided directly: any spelling of the local host becomes the local
  host of the wanted family, any spelling of the any-address that of its family, and an IPv6 address that is
  private (or no address) gets the interface as its scope; the platform makes no difference.\<close>

theorem bind_ip_decision:
  "resolve_bind_ip priv ip a nic_id plat (get_bind_magic_table a) =
     (if ip \<in> set VALID_LOCALHOST then LOCALHOST_LOOKUP a
      else if a = IP6 \<and> ip \<in> set V6_VALID_ANY then ''::''
      else if a = IP4 \<and> ip \<in> set V4_VALID_ANY then ''0.0.0.0''
      else if a = IP6 \<and> hey_private priv ip then ip @ ''%'' @ show_tval nic_id
      else ip)"
  by (rule ip_decision)

lemma ip6_spellings:
  assumes "ip' = resolve_bind_ip priv ip IP6 nic_id plat (get_bind_magic_table IP6)"
  shows "ip' \<in> set V6_VALID_ANY \<longleftrightarrow> ip' = ''::''" "ip' \<in> set V6_VALID_LOCALHOST \<longleftrightarrow> ip' = ''::1''"
proof -
  have "CHR ''%'' \<notin> set s" if "s \<in> set V6_VALID_ANY \<union> set V6_VALID_LOCALHOST" for s
    using that by (auto simp: V6_VALID_ANY_def V6_VALID_LOCALHOST_def)
  then have s: "ip @ ''%'' @ t \<notin> set V6_VALID_ANY \<union> set V6_VALID_LOCALHOST" for t
    by (metis Cons_eq_appendI in_set_conv_decomp)
  show "ip' \<in> set V6_VALID_ANY \<longleftrightarrow> ip' = ''::''" "ip' \<in> set V6_VALID_LOCALHOST \<longleftrightarrow> ip' = ''::1''"
    using s [of "show_tval nic_id"] unfolding assms ip_decision
    by (auto simp: V6_VALID_ANY_def V6_VALID_LOCALHOST_def VALID_LOCALHOST_def LOCALHOST_LOOKUP_def)
qed

lemma tuple_decision:
  "tuple_rules priv tup ip IP6 nic_id plat (get_bind_magic_table IP6) =
     (let put = (\<lambda>v. if 3 < length tup then tup[3 := v] else tup) in
      if plat = ''Windows'' \<and> ip \<in> set V6_VALID_ANY \<or> ip \<in> set V6_VALID_LOCALHOST then put (VInt 0)
      else if plat = ''Windows'' \<and> hey_private priv ip then put nic_id else tup)"
  by (simp add: rule_defs Let_def)

text \<open>What a socket is bound to: without an address for the wanted one there is no tuple; an IPv4 tuple is
  the first one of the lookup; an IPv6 tuple is that one with the scope cut from its text and, on the local
  host, scope zero, on Windows scope zero for the any-address and the interface for a private address.\<close>

theorem binder_result:
  assumes "ip' = resolve_bind_ip priv ip a nic_id plat (get_bind_magic_table a)"
  shows "(lookup ip' port = [] \<longrightarrow> binder_sync priv lookup plat a ip port nic_id = None) \<and>
    (\<forall>t ts. lookup ip' port = t # ts \<longrightarrow> a = IP4 \<longrightarrow> binder_sync priv lookup plat a ip port nic_id = Some t) \<and>
    (\<forall>s p f sc ts. lookup ip' port = [VStr s, p, f, sc] # ts \<longrightarrow> a = IP6 \<longrightarrow>
       binder_sync priv lookup plat a ip port nic_id =
         Some [VStr (ip_strip_if s), p, f,
           if ip' = ''::1'' \<or> plat = ''Windows'' \<and> ip' = ''::'' then VInt 0
           else if plat = ''Windows'' \<and> hey_private priv ip' then nic_id else sc])"
proof (intro conjI allI impI)
  assume "lookup ip' port = []"
  then show "binder_sync priv lookup plat a ip port nic_id = None" by (simp add: binder_sync_def assms Let_def)
next
  fix t ts assume "lookup ip' port = t # ts" "a = IP4"
  then show "binder_sync priv lookup plat a ip port nic_id = Some t"
    by (simp add: binder_sync_def resolve_bind_tuple_def assms Let_def) (simp add: rule_defs)
next
  fix s p f sc ts
  assume l: "lookup ip' port = [VStr s, p, f, sc] # ts" and a: "a = IP6"
  have any: "ip' \<in> set V6_VALID_ANY \<longleftrightarrow> ip' = ''::''" and loc: "ip' \<in> set V6_VALID_LOCALHOST \<longleftrightarrow> ip' = ''::1''"
    using ip6_spellings assms a by blast+
  have r: "resolve_bind_ip priv ip IP6 nic_id plat (get_bind_magic_table IP6) = ip'" using assms a by simp
  show "binder_sync priv lookup plat a ip port nic_id =
         Some [VStr (ip_strip_if s), p, f,
           if ip' = ''::1'' \<or> plat = ''Windows'' \<and> ip' = ''::'' then VInt 0
           else if plat = ''Windows'' \<and> hey_private priv ip' then nic_id else sc]"
    using l
    by (simp add: a binder_sync_def resolve_bind_tuple_def r tuple_decision any loc strip_first_def Let_def
        del: resolve_bind_ip.simps)
qed

theorem binder_result_witness:
  "binder_sync (\<lambda>_ _. True) (\<lambda>s p. [[VStr s, VInt p, VInt 0, VInt 9]]) ''Windows'' IP6 ''localhost'' 80 (VInt 4) =
     Some [VStr ''::1'', VInt 80, VInt 0, VInt 0]"
proof -
  let ?ip = "resolve_bind_ip (\<lambda>_ _. True) ''localhost'' IP6 (VInt 4) ''Windows'' (get_bind_magic_table IP6)"
  have ip: "?ip = ''::1''" by (simp add: ip_decision VALID_LOCALHOST_def LOCALHOST_LOOKUP_def del: resolve_bind_ip.simps)
  show ?thesis
    using binder_result [OF refl, where priv = "\<lambda>_ _. True" and ip = "''localhost''" and a = IP6 and nic_id = "VInt 4"
      and plat = "''Windows''" and lookup = "\<lambda>s p. [[VStr s, VInt p, VInt 0, VInt 9]]" and port = 80]
    unfolding ip by (simp add: ip_strip_if_def)
qed

text \<open>A bound object cannot give its tuple with another port: tuples are immutable.\<close>

theorem bind_tup_port_raises:
  "flag \<noteq> LOOPBACK_BIND \<Longrightarrow> bind_tup (Some port) flag b = Inl TypeError"
  by (simp add: bind_tup_def)

text \<open>Binding a second time changes nothing and answers None, not the object.\<close>

theorem bind_once:
  assumes "bind_call priv lookup plat nic port ips b = Inr (fresh, b')"
  shows "bind_call priv lookup' plat nic' port' ips' b' = Inr (False, b') \<and> (fresh \<longleftrightarrow> \<not> bd_resolved b)"
  using assms by (auto simp: bind_call_def Let_def bindr_eq_Inr split: if_splits)

text \<open>An IPv6 range keeps the exploded text of its address, which is never one of the short any-addresses: the
  any-address of IPv6 is not replaced by the local host.\<close>

lemma length_ipa_text6: "length (ipa_text (IP6, n)) = 39"
proof -
  have w: "length (v6_words bs) = length bs div 2" "\<forall>x\<in>set (map hex4 (v6_words bs)). length x = 4" for bs
    by (induction bs rule: v6_words.induct) (auto simp: hex4_def)
  have j: "ps \<noteq> [] \<Longrightarrow> \<forall>x\<in>set ps. length x = 4 \<Longrightarrow> length (py_join c ps) = 5 * length ps - 1" for ps :: "string list" and c
    by (induction c ps rule: py_join.induct) auto
  have "length (v6_words (be_bytes 16 n)) = 8" by (simp add: w(1))
  then have "map hex4 (v6_words (be_bytes 16 n)) \<noteq> []" by auto
  with j [OF this w(2)] show ?thesis by (simp add: ipa_text_def w(1))
qed

theorem connect_any_v6_kept:
  assumes "IPR priv ip 0 = Inr r" "ir_af r = IP6"
  shows "patch_connect_ip priv plat ip nic_id None =
    Inr (if ip \<notin> {''::'', ''::1''} \<and> ir_private r then ip6_patch_bind_ip plat ip nic_id else ip)"
proof -
  obtain ip1 x nm p b where x: "base_addr (IpStr ip) None = Inr (ip1, x)" "r = built p ip1 x nm b"
    using assms(1) unfolding IPR_def by (rule ip_range_built)
  obtain t where t: "ip_norm ip = Inr t" "ip1 = IpStr t" "ipa_of_str t = Inr x"
    using x(1) by (cases "ip_norm ip") (auto simp: base_addr_def norm_arg_def bindr_eq_Inr)
  obtain a where "t = ipa_text a" "ipa_of_str t = Inr a"
    by (rule ip_norm_Inr [OF t(1)]) (rule that)
  then have "t = ipa_text x" using t(3) by (metis sum.inject(2))
  moreover have f: "fst x = IP6" using assms(2) unfolding x(2) by simp
  ultimately have "length t = 39" using length_ipa_text6 [of "snd x"] by (metis prod.collapse)
  then have "t \<notin> set VALID_ANY_ADDR" by (auto simp: VALID_ANY_ADDR_def)
  then show ?thesis using assms by (simp add: patch_connect_ip_def x(2) t(2) f)
qed

text \<open>Every round of \<open>get_high_port_socket\<close> uses the port that the first one bound, because later binds do
  nothing, but it answers the port of the round that succeeded.\<close>

lemma high_port_resolved:
  "bd_resolved b \<Longrightarrow> high_port (\<lambda>b n. bind_call priv lookup plat nic (Some n) None b) port ok k i b = Inr (b', n) \<Longrightarrow>
   b' = b \<and> (\<exists>j. i \<le> j \<and> j < i + k \<and> ok j \<and> (\<forall>l. i \<le> l \<longrightarrow> l < j \<longrightarrow> \<not> ok l) \<and> n = port j)"
proof (induction k arbitrary: i)
  case (Suc k)
  show ?case
  proof (cases "ok i")
    case True
    with Suc.prems show ?thesis by (auto simp: bind_call_def intro: exI [of _ i])
  next
    case False
    with Suc.prems have "high_port (\<lambda>b n. bind_call priv lookup plat nic (Some n) None b) port ok k (Suc i) b = Inr (b', n)"
      by (simp add: bind_call_def)
    from Suc.IH [OF Suc.prems(1) this] obtain j where "b' = b" "Suc i \<le> j" "j < Suc i + k" "ok j"
      "\<forall>l. Suc i \<le> l \<longrightarrow> l < j \<longrightarrow> \<not> ok l" "n = port j" by blast
    moreover from this False have "\<forall>l. i \<le> l \<longrightarrow> l < j \<longrightarrow> \<not> ok l" by (metis Suc_leI le_neq_implies_less)
    ultimately show ?thesis by (intro conjI exI [of _ j]) simp_all
  qed
qed simp

theorem high_port_mismatch:
  assumes "get_high_port_socket (\<lambda>b n. bind_call priv lookup plat nic (Some n) None b) port ok b = Inr (b', n)"
    "\<not> bd_resolved b" "port 0 \<noteq> 0"
  shows "bd_port b' = port 0 \<and> (\<exists>j<20. ok j \<and> (\<forall>i<j. \<not> ok i) \<and> n = port j)"
proof -
  obtain b1 where b1: "bind_call priv lookup plat nic (Some (port 0)) None b = Inr (True, b1)" "bd_port b1 = port 0" "bd_resolved b1"
    "(if ok 0 then Inr (b1, port 0)
      else high_port (\<lambda>b n. bind_call priv lookup plat nic (Some n) None b) port ok 19 (Suc 0) b1) = Inr (b', n)"
  proof -
    let ?f = "\<lambda>b n. bind_call priv lookup plat nic (Some n) None b"
    have "high_port ?f port ok (Suc 19) 0 b = Inr (b', n)" using assms(1) by (simp add: get_high_port_socket_def)
    then obtain t b1 where "?f b (port 0) = Inr (t, b1)"
      "(if ok 0 then Inr (b1, port 0) else high_port ?f port ok 19 (Suc 0) b1) = Inr (b', n)"
      unfolding high_port.simps(2) bindr_eq_Inr by auto
    moreover from this(1) have "t" "bd_port b1 = port 0" "bd_resolved b1"
      using assms(2,3) by (auto simp: bind_call_def Let_def bindr_eq_Inr)
    ultimately show ?thesis using that by simp
  qed
  show ?thesis
  proof (cases "ok 0")
    case True
    with b1 show ?thesis by (auto intro!: exI [of _ 0])
  next
    case False
    with b1(4) have h: "high_port (\<lambda>b n. bind_call priv lookup plat nic (Some n) None b) port ok 19 (Suc 0) b1 = Inr (b', n)" by simp
    obtain j where "b' = b1" "1 \<le> j" "j < 20" "ok j" "\<forall>l. 1 \<le> l \<longrightarrow> l < j \<longrightarrow> \<not> ok l" "n = port j"
      using high_port_resolved [OF b1(3) h] by auto
    with False b1(2) show ?thesis by (auto simp: Suc_le_eq intro!: exI [of _ j]) (metis neq0_conv)
  qed
qed

end
