(* ===== verification/Routes.thy ===== *)
theory Routes
  imports Binds NumUtils
begin

text \<open>
  Routes and route pools (\<open>nic/route/route.py\<close>, \<open>nic/route/route_pool.py\<close>): a route extends \<open>Bind\<close> with its local
  and its external ranges; a pool addresses every external host of its routes by one index. The pool a route
  is linked to is an argument of the operations that use it. \<open>len\<close> of a range that does not fit the machine's
  sizes raises. The text of an address is its exploded form, which the constructor of a range would give it.
\<close>

section \<open>Routes\<close>

record Route = Bind +
  ro_nic_ips :: "IPRange list"
  ro_ext_ips :: "IPRange list"
  ro_link_locals :: "IPRange list"
  ro_route_offset :: "nat option"
  ro_host_offset :: "int option"

definition make_route ::
  "af \<Rightarrow> IPRange list \<Rightarrow> IPRange list \<Rightarrow> bind_iface option \<Rightarrow> bool \<Rightarrow> Route result" where
  "make_route a nic_ips ext_ips iface ext_check =
     (if ext_ips = [] then Inl ValueError
      else if nic_ips = [] then Inl ValueError
      else if ir_int (hd ext_ips) = 0 then Inl ValueError
      else if ir_af (hd ext_ips) \<noteq> a then Inl ValueError
      else if list_ex (\<lambda>r. ir_af r \<noteq> a) nic_ips then Inl ValueError
      else if ext_check \<and> \<not> ir_public (hd ext_ips) then Inl AssertionError
      else Inr (Bind.extend (bind_init iface a 0 None)
             \<lparr>ro_nic_ips = nic_ips, ro_ext_ips = ext_ips, ro_link_locals = [], ro_route_offset = None, ro_host_offset = None\<rparr>))"

definition set_link_locals :: "IPRange list \<Rightarrow> Route \<Rightarrow> Route" where
  "set_link_locals ll r = r\<lparr>ro_link_locals := ll\<rparr>"

definition set_offsets :: "nat option \<Rightarrow> int option \<Rightarrow> Route \<Rightarrow> Route" where
  "set_offsets route_offset host_offset r = r\<lparr>ro_route_offset := route_offset, ro_host_offset := host_offset\<rparr>"

definition ro_nic :: "Route \<Rightarrow> string result" where
  "ro_nic r = ipr_norm (hd (ro_nic_ips r))"

definition ro_ext :: "Route \<Rightarrow> string result" where
  "ro_ext r = ipr_norm (hd (ro_ext_ips r))"

definition link_local :: "Route \<Rightarrow> string result" where
  "link_local r = (case ro_link_locals r of [] \<Rightarrow> Inl ValueError | l # _ \<Rightarrow> ipr_norm l)"

definition has_nic_ip :: "IPRange \<Rightarrow> Route \<Rightarrow> bool" where
  "has_nic_ip x r = list_ex (\<lambda>n. ir_eq n x) (ro_nic_ips r)"

subsection \<open>Comparison\<close>

definition ir_len :: "IPRange \<Rightarrow> int result" where
  "ir_len r = (if ir_host_no r \<ge> 2 ^ 63 then Inl OverflowError else Inr (ir_host_no r))"

definition route_len :: "Route \<Rightarrow> int result" where
  "route_len r = (case ro_ext_ips r of [] \<Rightarrow> Inr 0 | e # _ \<Rightarrow> ir_len e)"

datatype route_arg = RRoute Route | RRange IPRange | RArg ip_arg

text \<open>\<open>convert_other\<close>: None is the empty list; the bytes of an address text are ASCII.\<close>

definition route_convert_other :: "(af \<Rightarrow> int \<Rightarrow> bool) \<Rightarrow> route_arg \<Rightarrow> IPRange option result" where
  "route_convert_other priv x =
     (case x of
        RRoute r \<Rightarrow> Inr (case ro_ext_ips r of [] \<Rightarrow> None | e # _ \<Rightarrow> Some e)
      | RRange i \<Rightarrow> Inr (Some i)
      | RArg a \<Rightarrow> bindr (ip_range priv (case a of IpBytes b \<Rightarrow> IpStr (map (\<lambda>x. char_of (unat x)) b) | _ \<Rightarrow> a) None (Some 0)) (\<lambda>i. Inr (Some i)))"

definition bad_len :: "Route \<Rightarrow> IPRange option \<Rightarrow> bool result" where
  "bad_len r x =
     bindr (route_len r) (\<lambda>m.
       if m = 0 then Inr True
       else bindr (case x of None \<Rightarrow> Inr 0 | Some i \<Rightarrow> ir_len i) (\<lambda>n. Inr (n = 0)))"

definition route_compare :: "(IPRange \<Rightarrow> IPRange \<Rightarrow> bool) \<Rightarrow> (af \<Rightarrow> int \<Rightarrow> bool) \<Rightarrow> Route \<Rightarrow> route_arg \<Rightarrow> bool result" where
  "route_compare rel priv r x =
     bindr (route_convert_other priv x) (\<lambda>i.
     bindr (bad_len r i) (\<lambda>bad.
       Inr (if bad then False else rel (hd (ro_ext_ips r)) (the i))))"

definition route_eq :: "(af \<Rightarrow> int \<Rightarrow> bool) \<Rightarrow> Route \<Rightarrow> route_arg \<Rightarrow> bool result" where
  "route_eq priv r x = route_compare ir_eq priv r x"

definition route_lt :: "(af \<Rightarrow> int \<Rightarrow> bool) \<Rightarrow> Route \<Rightarrow> route_arg \<Rightarrow> bool result" where
  "route_lt priv r x = route_compare ir_lt priv r x"

text \<open>\<open>route in routes\<close>; no route stands in a list twice as the same object.\<close>

fun route_in :: "(af \<Rightarrow> int \<Rightarrow> bool) \<Rightarrow> Route \<Rightarrow> Route list \<Rightarrow> bool result" where
  "route_in priv r [] = Inr False"
| "route_in priv r (s # ss) = bindr (route_eq priv s (RRoute r)) (\<lambda>e. if e then Inr True else route_in priv r ss)"

text \<open>\<open>__ne__\<close>: the call for a list passes a keyword that \<open>alt\<close> does not have.\<close>

datatype ne_arg = NeSelf | NeRoute Route | NeList "Route list" | NeOther

definition route_ne :: "Route \<Rightarrow> ne_arg \<Rightarrow> bool result" where
  "route_ne r x =
     (case x of
        NeSelf \<Rightarrow> Inr False
      | NeRoute s \<Rightarrow> Inr (\<not> ir_eq (hd (ro_ext_ips r)) (hd (ro_ext_ips s)))
      | NeList _ \<Rightarrow> Inl TypeError
      | NeOther \<Rightarrow> Inl NotImplementedError)"

subsection \<open>Dictionary form and copies\<close>

record route_dict =
  rd_af :: af
  rd_nic_ips :: "ir_dict list"
  rd_ext_ips :: "ir_dict list"
  rd_link_local_ips :: "ir_dict list"

definition route_to_dict :: "Route \<Rightarrow> route_dict" where
  "route_to_dict r =
     \<lparr>rd_af = bd_af r, rd_nic_ips = map to_dict (ro_nic_ips r), rd_ext_ips = map to_dict (ro_ext_ips r),
      rd_link_local_ips = map to_dict (ro_link_locals r)\<rparr>"

definition route_from_dict :: "(af \<Rightarrow> int \<Rightarrow> bool) \<Rightarrow> route_dict \<Rightarrow> Route result" where
  "route_from_dict priv d =
     bindr (mapr (from_dict priv) (rd_nic_ips d)) (\<lambda>nic_ips.
     bindr (mapr (from_dict priv) (rd_ext_ips d)) (\<lambda>ext_ips.
     bindr (make_route (rd_af d) nic_ips ext_ips None True) (\<lambda>r.
     bindr (mapr (from_dict priv) (rd_link_local_ips d)) (\<lambda>ll. Inr (set_link_locals ll r)))))"

definition route_deepcopy :: "(af \<Rightarrow> int \<Rightarrow> bool) \<Rightarrow> Route \<Rightarrow> Route result" where
  "route_deepcopy priv r =
     bindr (mapr (deepcopy priv) (ro_nic_ips r)) (\<lambda>nic_ips.
     bindr (mapr (deepcopy priv) (ro_ext_ips r)) (\<lambda>ext_ips.
     bindr (make_route (bd_af r) nic_ips ext_ips (bd_interface r) True) (\<lambda>c.
     bindr (mapr (deepcopy priv) (ro_link_locals r)) (\<lambda>ll.
       Inr (c\<lparr>ro_route_offset := ro_route_offset r, ro_host_offset := ro_host_offset r, bd_ips := bd_ips r,
              bd_port := bd_port r, bd_tups := bd_tups r, bd_resolved := bd_resolved r, ro_link_locals := ll\<rparr>)))))"

text \<open>\<open>rebind\<close>: a copy bound to another port.\<close>

definition rebind ::
  "(af \<Rightarrow> int \<Rightarrow> bool) \<Rightarrow> (string \<Rightarrow> int \<Rightarrow> tval list list) \<Rightarrow> string \<Rightarrow> int \<Rightarrow> string option \<Rightarrow> Route \<Rightarrow> (Route \<times> Bind) result" where
  "rebind priv lookup plat port ips r =
     bindr (route_deepcopy priv r) (\<lambda>c.
     bindr (bind_call priv lookup plat (ro_nic c) (Some port) ips (Bind.truncate c)) (\<lambda>(fresh, b). Inr (c, b)))"

section \<open>Pools\<close>

record RoutePool =
  rp_routes :: "Route list"
  rp_link_locals :: "IPRange list"
  rp_len_list :: "int list"
  rp_wan_hosts :: int
  rp_pop_pointer :: int

fun unique_routes :: "(af \<Rightarrow> int \<Rightarrow> bool) \<Rightarrow> Route list \<Rightarrow> Route list \<Rightarrow> Route list result" where
  "unique_routes priv [] seen = Inr seen"
| "unique_routes priv (r # rs) seen =
     bindr (route_in priv r seen) (\<lambda>m. unique_routes priv rs (if m then seen else seen @ [r]))"

text \<open>The loop that numbers the routes and adds up their hosts: the lengths so far and the sum.\<close>

fun len_loop :: "Route list \<Rightarrow> int \<Rightarrow> int list result" where
  "len_loop [] n = Inr []"
| "len_loop (r # rs) n = bindr (route_len r) (\<lambda>m. bindr (len_loop rs (n + m)) (\<lambda>ls. Inr ((n + m) # ls)))"

definition make_pool :: "(af \<Rightarrow> int \<Rightarrow> bool) \<Rightarrow> Route list \<Rightarrow> IPRange list \<Rightarrow> RoutePool result" where
  "make_pool priv routes link_locals =
     bindr (unique_routes priv routes []) (\<lambda>rs.
     bindr (len_loop rs 0) (\<lambda>ls.
       Inr \<lparr>rp_routes = map (\<lambda>(i, r). set_offsets (Some i) None r) (enumerate 0 rs), rp_link_locals = link_locals,
            rp_len_list = ls, rp_wan_hosts = (if ls = [] then 0 else last ls), rp_pop_pointer = 0\<rparr>))"

fun locate :: "(af \<Rightarrow> int \<Rightarrow> bool) \<Rightarrow> route_arg \<Rightarrow> Route list \<Rightarrow> Route option result" where
  "locate priv x [] = Inr None"
| "locate priv x (r # rs) = bindr (route_eq priv r x) (\<lambda>e. if e then Inr (Some r) else locate priv x rs)"

definition pool_contains :: "(af \<Rightarrow> int \<Rightarrow> bool) \<Rightarrow> RoutePool \<Rightarrow> route_arg \<Rightarrow> bool result" where
  "pool_contains priv p x = bindr (locate priv x (rp_routes p)) (\<lambda>r. Inr (r \<noteq> None))"

subsection \<open>One host of a pool\<close>

text \<open>The route that \<open>get_route_info\<close> builds once the offsets have passed its assertions.\<close>

definition host_route :: "(af \<Rightarrow> int \<Rightarrow> bool) \<Rightarrow> nat \<Rightarrow> int \<Rightarrow> int \<Rightarrow> Route \<Rightarrow> Route result" where
  "host_route priv route_offset abs_host_offset rel r =
     bindr (get_value (hd (ro_ext_ips r)) rel) (\<lambda>x.
     bindr (ip_range priv (IpStr (ipa_text x)) None (Some 0)) (\<lambda>wan_ip.
     bindr (mapr (deepcopy priv) (ro_nic_ips r)) (\<lambda>nic_ips.
     bindr (make_route (bd_af r) nic_ips [wan_ip] (bd_interface r) False) (\<lambda>n.
     bindr (mapr (deepcopy priv) (ro_link_locals r)) (\<lambda>ll.
       Inr (set_offsets (Some route_offset) (Some abs_host_offset) (set_link_locals ll n)))))))"

definition prev_len :: "RoutePool \<Rightarrow> nat \<Rightarrow> int" where
  "prev_len p i = (if i = 0 then 0 else rp_len_list p ! (i - 1))"

definition get_route_info :: "(af \<Rightarrow> int \<Rightarrow> bool) \<Rightarrow> RoutePool \<Rightarrow> nat \<Rightarrow> int \<Rightarrow> Route result" where
  "get_route_info priv p i abs_host_offset =
     (if length (rp_routes p) \<le> i then Inl AssertionError
      else
        (let r = rp_routes p ! i; rel = abs_host_offset - prev_len p i in
         if rp_len_list p ! i - 1 < rel \<or> rp_wan_hosts p < rel + 1 then Inl AssertionError
         else bindr (ir_len (hd (ro_ext_ips r))) (\<lambda>m. bindr (ir_len (hd (ro_nic_ips r))) (\<lambda>n.
           if m = 0 \<or> n = 0 then Inl AssertionError
           else host_route priv i abs_host_offset (rel mod rp_wan_hosts p) r))))"

record RoutePoolIter =
  rpi_reverse :: bool
  rpi_host_p :: int
  rpi_route_offset :: nat

definition rp_iter :: "RoutePool \<Rightarrow> bool \<Rightarrow> RoutePoolIter" where
  "rp_iter p rv = \<lparr>rpi_reverse = rv, rpi_host_p = 0, rpi_route_offset = (if rv then length (rp_routes p) - 1 else 0)\<rparr>"

definition pool_len :: "RoutePool \<Rightarrow> int result" where
  "pool_len p = (if rp_wan_hosts p \<ge> 2 ^ 63 then Inl OverflowError else Inr (rp_wan_hosts p))"

text \<open>\<open>__next__\<close>: None is \<open>StopIteration\<close>.\<close>

definition rp_next :: "(af \<Rightarrow> int \<Rightarrow> bool) \<Rightarrow> RoutePool \<Rightarrow> RoutePoolIter \<Rightarrow> (Route \<times> RoutePoolIter) option result" where
  "rp_next priv p it =
     (if rpi_host_p it \<ge> rp_wan_hosts p then Inr None
      else
        bindr (if rpi_reverse it then bindr (pool_len p) (\<lambda>n. Inr ((n - 1) - rpi_host_p it)) else Inr (rpi_host_p it)) (\<lambda>h.
          let h' = rpi_host_p it + 1; i = rpi_route_offset it; turn = (h' \<ge> rp_len_list p ! i)
          in bindr (get_route_info priv p i h) (\<lambda>r.
               Inr (Some (r, it\<lparr>rpi_host_p := h',
                 rpi_route_offset :=
                   (if \<not> turn then i
                    else if rpi_reverse it then (if i = 0 then 0 else i - 1)
                    else (if i < length (rp_routes p) - 1 then i + 1 else i))\<rparr>)))))"

lemma rp_next_moves:
  "rp_next priv p it = Inr (Some (r, it')) \<Longrightarrow>
   rpi_host_p it \<le> rp_wan_hosts p \<and> rpi_host_p it' = rpi_host_p it + 1"
  by (auto simp: rp_next_def bindr_eq_Inr Let_def split: if_splits)

declare bindr_cong [fundef_cong]

text \<open>A \<open>for\<close> loop over the iterator: it ends when the iterator does.\<close>

function rp_list :: "(af \<Rightarrow> int \<Rightarrow> bool) \<Rightarrow> RoutePool \<Rightarrow> RoutePoolIter \<Rightarrow> Route list result" where
  "rp_list priv p it =
     bindr (rp_next priv p it) (\<lambda>o'. case o' of
         None \<Rightarrow> Inr []
       | Some (r, it') \<Rightarrow> bindr (rp_list priv p it') (\<lambda>rs. Inr (r # rs)))"
  by auto

termination rp_list
  by (relation "measure (\<lambda>(priv, p, it). nat (rp_wan_hosts p + 1 - rpi_host_p it))")
     (auto dest: rp_next_moves)

declare rp_list.simps [simp del]

subsection \<open>Indexing\<close>

definition pool_at :: "(af \<Rightarrow> int \<Rightarrow> bool) \<Rightarrow> RoutePool \<Rightarrow> int \<Rightarrow> Route result" where
  "pool_at priv p key =
     (let k = (if key < 0 then key mod rp_wan_hosts p else key) in
      bindr (sorted_search (rp_len_list p) (k + 1) None) (\<lambda>i.
        case i of None \<Rightarrow> Inl TypeError | Some j \<Rightarrow> get_route_info priv p j k))"

definition pool_getitem :: "(af \<Rightarrow> int \<Rightarrow> bool) \<Rightarrow> RoutePool \<Rightarrow> ir_key \<Rightarrow> Route list result" where
  "pool_getitem priv p k =
     (if rp_wan_hosts p = 0 then Inr []
      else
        (case k of
           KInt i \<Rightarrow> bindr (pool_at priv p i) (\<lambda>r. Inr [r])
         | KTuple is \<Rightarrow> mapr (pool_at priv p) is
         | KSlice a b s \<Rightarrow>
             bindr (pool_len p) (\<lambda>n.
             bindr (slice_indices a b s n) (\<lambda>(a', b', s'). mapr (pool_at priv p) (py_range a' b' s')))))"

definition pool_pop :: "(af \<Rightarrow> int \<Rightarrow> bool) \<Rightarrow> RoutePool \<Rightarrow> (Route \<times> RoutePool) result" where
  "pool_pop priv p =
     (if rp_pop_pointer p \<ge> rp_wan_hosts p then Inl IndexError
      else bindr (pool_at priv p (rp_pop_pointer p)) (\<lambda>r. Inr (r, p\<lparr>rp_pop_pointer := rp_pop_pointer p + 1\<rparr>)))"

subsection \<open>Alternatives to a route\<close>

text \<open>The loops of \<open>alt\<close> and \<open>__invert__\<close> over a pool's iterator.\<close>

function alt_loop :: "(af \<Rightarrow> int \<Rightarrow> bool) \<Rightarrow> RoutePool \<Rightarrow> Route \<Rightarrow> int \<Rightarrow> Route list option \<Rightarrow> RoutePoolIter \<Rightarrow> Route list \<Rightarrow> Route list result" where
  "alt_loop priv p self limit excl it acc =
     bindr (rp_next priv p it) (\<lambda>o'. case o' of
         None \<Rightarrow> Inr acc
       | Some (r, it') \<Rightarrow>
           bindr (route_eq priv r (RRoute self)) (\<lambda>e.
           bindr (if e then Inr True else case excl of None \<Rightarrow> Inr False | Some xs \<Rightarrow> route_in priv r xs) (\<lambda>skip.
             if skip then alt_loop priv p self limit excl it' acc
             else if int (length (acc @ [r])) \<ge> limit then Inr (acc @ [r])
             else alt_loop priv p self limit excl it' (acc @ [r]))))"
  by auto

termination alt_loop
  by (relation "measure (\<lambda>(priv, p, self, limit, excl, it, acc). nat (rp_wan_hosts p + 1 - rpi_host_p it))")
     (auto dest: rp_next_moves)

definition alt :: "(af \<Rightarrow> int \<Rightarrow> bool) \<Rightarrow> RoutePool option \<Rightarrow> Route \<Rightarrow> int \<Rightarrow> Route list option \<Rightarrow> Route list result" where
  "alt priv pool self limit excl =
     (case pool of
        None \<Rightarrow> Inl AssertionError
      | Some p \<Rightarrow> alt_loop priv p self limit excl (rp_iter p False) [])"

function invert_loop :: "(af \<Rightarrow> int \<Rightarrow> bool) \<Rightarrow> RoutePool \<Rightarrow> Route \<Rightarrow> RoutePoolIter \<Rightarrow> Route option result" where
  "invert_loop priv p self it =
     bindr (rp_next priv p it) (\<lambda>o'. case o' of
         None \<Rightarrow> Inr None
       | Some (r, it') \<Rightarrow>
           bindr (route_eq priv r (RRoute self)) (\<lambda>e. if e then invert_loop priv p self it' else Inr (Some r)))"
  by auto

termination invert_loop
  by (relation "measure (\<lambda>(priv, p, self, it). nat (rp_wan_hosts p + 1 - rpi_host_p it))")
     (auto dest: rp_next_moves)

declare alt_loop.simps [simp del] invert_loop.simps [simp del] bindr_cong [fundef_cong del]

definition route_invert :: "(af \<Rightarrow> int \<Rightarrow> bool) \<Rightarrow> RoutePool option \<Rightarrow> Route \<Rightarrow> Route option result" where
  "route_invert priv pool self =
     (case pool of
        None \<Rightarrow> Inl AssertionError
      | Some p \<Rightarrow> invert_loop priv p self (rp_iter p False))"

definition pool_to_dict :: "RoutePool \<Rightarrow> route_dict list" where
  "pool_to_dict p = map route_to_dict (rp_routes p)"

definition pool_from_dict :: "(af \<Rightarrow> int \<Rightarrow> bool) \<Rightarrow> route_dict list \<Rightarrow> RoutePool result" where
  "pool_from_dict priv ds = bindr (mapr (route_from_dict priv) ds) (\<lambda>rs. make_pool priv rs [])"

section \<open>The layout of a pool\<close>

definition ext_ok :: "Route \<Rightarrow> bool" where
  "ext_ok r \<longleftrightarrow> ro_ext_ips r \<noteq> [] \<and>
     1 \<le> ir_host_no (hd (ro_ext_ips r)) \<and> ir_host_no (hd (ro_ext_ips r)) < 2 ^ 63"

definition route_ok :: "Route \<Rightarrow> bool" where
  "route_ok r \<longleftrightarrow> ext_ok r \<and> ro_nic_ips r \<noteq> [] \<and>
     1 \<le> ir_host_no (hd (ro_nic_ips r)) \<and> ir_host_no (hd (ro_nic_ips r)) < 2 ^ 63"

definition pool_ok :: "RoutePool \<Rightarrow> bool" where
  "pool_ok p \<longleftrightarrow> length (rp_len_list p) = length (rp_routes p) \<and>
     rp_wan_hosts p = (if rp_len_list p = [] then 0 else last (rp_len_list p)) \<and>
     (\<forall>i<length (rp_routes p). route_ok (rp_routes p ! i) \<and>
        rp_len_list p ! i = prev_len p i + ir_host_no (hd (ro_ext_ips (rp_routes p ! i))))"

lemma route_ok_offsets [simp]: "route_ok (set_offsets i h r) = route_ok r"
  by (simp add: route_ok_def ext_ok_def set_offsets_def)

lemma route_ok_ext: "route_ok r \<Longrightarrow> ext_ok r"
  by (simp add: route_ok_def)

lemma route_len_ok: "ext_ok r \<Longrightarrow> route_len r = Inr (ir_host_no (hd (ro_ext_ips r)))"
  by (auto simp: ext_ok_def route_len_def ir_len_def split: list.split)

lemma route_eq_ok:
  "ext_ok r \<Longrightarrow> ext_ok s \<Longrightarrow> route_eq priv r (RRoute s) = Inr (ir_eq (hd (ro_ext_ips r)) (hd (ro_ext_ips s)))"
  using route_len_ok [of r]
  by (cases "ro_ext_ips s")
     (auto simp: route_eq_def route_compare_def route_convert_other_def bad_len_def ir_len_def ext_ok_def)

lemma route_in_ok:
  "ext_ok r \<Longrightarrow> \<forall>s\<in>set ss. ext_ok s \<Longrightarrow>
   route_in priv r ss = Inr (\<exists>s\<in>set ss. ir_eq (hd (ro_ext_ips s)) (hd (ro_ext_ips r)))"
  by (induction ss) (auto simp: route_eq_ok)

lemma unique_routes_ok:
  "\<forall>r\<in>set rs. ext_ok r \<Longrightarrow> \<forall>s\<in>set seen. ext_ok s \<Longrightarrow> unique_routes priv rs seen = Inr us \<Longrightarrow>
   set us \<subseteq> set rs \<union> set seen"
  by (induction priv rs seen rule: unique_routes.induct) (fastforce simp: route_in_ok bindr_eq_Inr split: if_splits)+

lemma len_loop_ok:
  "\<forall>r\<in>set rs. ext_ok r \<Longrightarrow> \<exists>ls. len_loop rs n = Inr ls \<and> length ls = length rs \<and>
   (\<forall>i<length rs. ls ! i = (if i = 0 then n else ls ! (i - 1)) + ir_host_no (hd (ro_ext_ips (rs ! i))))"
proof (induction rs arbitrary: n)
  case (Cons r rs)
  let ?m = "ir_host_no (hd (ro_ext_ips r))"
  obtain ls where ls: "len_loop rs (n + ?m) = Inr ls" "length ls = length rs"
    "\<forall>i<length rs. ls ! i = (if i = 0 then n + ?m else ls ! (i - 1)) + ir_host_no (hd (ro_ext_ips (rs ! i)))"
    using Cons.IH [of "n + ?m"] Cons.prems by auto
  have "\<forall>i<length (r # rs). ((n + ?m) # ls) ! i =
      (if i = 0 then n else ((n + ?m) # ls) ! (i - 1)) + ir_host_no (hd (ro_ext_ips ((r # rs) ! i)))"
  proof (intro allI impI)
    fix i assume "i < length (r # rs)"
    then show "((n + ?m) # ls) ! i =
        (if i = 0 then n else ((n + ?m) # ls) ! (i - 1)) + ir_host_no (hd (ro_ext_ips ((r # rs) ! i)))"
      using ls(3) [rule_format, of "i - 1"] by (cases i; cases "i - 1") auto
  qed
  with ls(1,2) Cons.prems show ?case
    by (intro exI [of _ "(n + ?m) # ls"]) (simp add: route_len_ok)
qed simp

lemma make_pool_ok:
  assumes "make_pool priv rs ll = Inr p" "\<forall>r\<in>set rs. route_ok r"
  shows "pool_ok p"
proof -
  obtain us ls where u: "unique_routes priv rs [] = Inr us" and l: "len_loop us 0 = Inr ls"
    and p: "p = \<lparr>rp_routes = map (\<lambda>(i, r). set_offsets (Some i) None r) (enumerate 0 us), rp_link_locals = ll,
            rp_len_list = ls, rp_wan_hosts = (if ls = [] then 0 else last ls), rp_pop_pointer = 0\<rparr>"
    using assms(1) by (auto simp: make_pool_def bindr_eq_Inr)
  have ext: "\<forall>r\<in>set rs. ext_ok r" using assms(2) by (simp add: route_ok_ext)
  have ok: "\<forall>r\<in>set us. route_ok r" using unique_routes_ok [OF ext _ u] assms(2) by auto
  then have ok': "\<forall>r\<in>set us. ext_ok r" by (simp add: route_ok_ext)
  have "length ls = length us"
    "\<forall>i<length us. ls ! i = (if i = 0 then 0 else ls ! (i - 1)) + ir_host_no (hd (ro_ext_ips (us ! i)))"
    using len_loop_ok [OF ok', of 0] l by auto
  with ok show ?thesis
    by (simp add: p pool_ok_def prev_len_def nth_enumerate_eq set_offsets_def)
       (simp flip: set_offsets_def)
qed

definition owner :: "RoutePool \<Rightarrow> int \<Rightarrow> nat" where
  "owner p h = length (takeWhile (\<lambda>n. n \<le> h) (rp_len_list p))"

lemma pool_ok_less: "pool_ok p \<Longrightarrow> i < length (rp_routes p) \<Longrightarrow> prev_len p i < rp_len_list p ! i"
  by (auto simp: pool_ok_def route_ok_def ext_ok_def)

lemma pool_ok_mono:
  assumes "pool_ok p" "i < j" "j < length (rp_routes p)"
  shows "rp_len_list p ! i < rp_len_list p ! j"
  using assms(2,3)
proof (induction j)
  case (Suc j)
  have "rp_len_list p ! j < rp_len_list p ! Suc j"
    using pool_ok_less [OF assms(1) Suc.prems(2)] by (simp add: prev_len_def)
  with Suc show ?case by (cases "i = j") auto
qed simp

lemma pool_ok_prev:
  assumes "pool_ok p" "j < i" "i < length (rp_routes p)"
  shows "rp_len_list p ! j \<le> prev_len p i"
proof (cases "j = i - 1")
  case False
  with assms have "j < i - 1" "i - 1 < length (rp_routes p)" by linarith+
  then show ?thesis using pool_ok_mono [OF assms(1)] assms(2) by (simp add: prev_len_def less_imp_le)
qed (use assms(2) in \<open>simp add: prev_len_def\<close>)

lemma pool_ok_pos: "pool_ok p \<Longrightarrow> k < length (rp_routes p) \<Longrightarrow> 0 < rp_len_list p ! k"
  using pool_ok_less [of p 0] pool_ok_mono [of p 0 k] by (cases "k = 0"; cases "rp_routes p") (auto simp: prev_len_def)

lemma prev_len_nonneg: "pool_ok p \<Longrightarrow> i < length (rp_routes p) \<Longrightarrow> 0 \<le> prev_len p i"
  using pool_ok_pos [of p "i - 1"] by (cases i) (auto simp: prev_len_def)

lemma pool_ok_wan: "pool_ok p \<Longrightarrow> 0 < length (rp_routes p) \<Longrightarrow> rp_wan_hosts p = rp_len_list p ! (length (rp_routes p) - 1)"
  by (auto simp: pool_ok_def last_conv_nth)

lemma owner_eq:
  assumes "pool_ok p" "i < length (rp_routes p)" "prev_len p i \<le> h" "h < rp_len_list p ! i"
  shows "owner p h = i"
proof -
  have len: "length (rp_len_list p) = length (rp_routes p)" using assms(1) by (simp add: pool_ok_def)
  have "rp_len_list p ! j \<le> h" if "j < i" for j
    using pool_ok_prev [OF assms(1) that assms(2)] assms(3) by linarith
  then have "takeWhile (\<lambda>n. n \<le> h) (rp_len_list p) = take i (rp_len_list p)"
    using assms(4) by (intro takeWhile_eq_take_P_nth) auto
  then show ?thesis using assms(2) len by (simp add: owner_def)
qed

lemma owner_bounds:
  assumes "pool_ok p" "0 \<le> h" "h < rp_wan_hosts p"
  shows "owner p h < length (rp_routes p)" "prev_len p (owner p h) \<le> h" "h < rp_len_list p ! owner p h"
proof -
  have len: "length (rp_len_list p) = length (rp_routes p)" using assms(1) by (simp add: pool_ok_def)
  have ne: "rp_len_list p \<noteq> []" using assms by (auto simp: pool_ok_def)
  then have pos: "0 < length (rp_routes p)" using len by (metis length_greater_0_conv)
  then have "\<exists>i<length (rp_routes p). h < rp_len_list p ! i"
    using assms(3) pool_ok_wan [OF assms(1)] by (intro exI [of _ "length (rp_routes p) - 1"]) simp
  then obtain i where i: "i < length (rp_routes p)" "h < rp_len_list p ! i"
    and least: "\<And>j. j < i \<Longrightarrow> \<not> (j < length (rp_routes p) \<and> h < rp_len_list p ! j)"
    using exists_least_iff [of "\<lambda>i. i < length (rp_routes p) \<and> h < rp_len_list p ! i"] by blast
  have "prev_len p i \<le> h"
    using least [of "i - 1"] i(1) assms(2) by (cases i) (auto simp: prev_len_def)
  with i owner_eq [OF assms(1)] show "owner p h < length (rp_routes p)" "prev_len p (owner p h) \<le> h" "h < rp_len_list p ! owner p h"
    by simp_all
qed

lemma owner_Suc:
  assumes "pool_ok p" "0 \<le> h" "h + 1 < rp_wan_hosts p"
  shows "owner p (h + 1) = (if h + 1 \<ge> rp_len_list p ! owner p h then owner p h + 1 else owner p h)"
    "h + 1 \<ge> rp_len_list p ! owner p h \<Longrightarrow> owner p h < length (rp_routes p) - 1"
proof -
  have b: "owner p h < length (rp_routes p)" "prev_len p (owner p h) \<le> h" "h < rp_len_list p ! owner p h"
    using owner_bounds [OF assms(1,2)] assms(3) by auto
  show last: "owner p h < length (rp_routes p) - 1" if "h + 1 \<ge> rp_len_list p ! owner p h"
  proof (rule ccontr)
    assume "\<not> owner p h < length (rp_routes p) - 1"
    with b(1) have "owner p h = length (rp_routes p) - 1" "0 < length (rp_routes p)" by linarith+
    with that assms(3) pool_ok_wan [OF assms(1)] show False by simp
  qed
  show "owner p (h + 1) = (if h + 1 \<ge> rp_len_list p ! owner p h then owner p h + 1 else owner p h)"
  proof (cases "h + 1 \<ge> rp_len_list p ! owner p h")
    case True
    have "prev_len p (owner p h + 1) \<le> h + 1" using True by (simp add: prev_len_def)
    moreover have "h + 1 < rp_len_list p ! (owner p h + 1)"
      using b(3) pool_ok_mono [OF assms(1), of "owner p h" "owner p h + 1"] last [OF True] by linarith
    ultimately show ?thesis using True last owner_eq [OF assms(1), of "owner p h + 1" "h + 1"] by auto
  next
    case False
    then show ?thesis using b by (auto intro!: owner_eq [OF assms(1)])
  qed
qed

lemma get_route_info_owner:
  assumes "pool_ok p" "0 \<le> h" "h < rp_wan_hosts p"
  shows "get_route_info priv p (owner p h) h =
    host_route priv (owner p h) h (h - prev_len p (owner p h)) (rp_routes p ! owner p h)"
proof -
  define i where "i = owner p h"
  note b = owner_bounds [OF assms, folded i_def]
  have p0: "0 \<le> prev_len p i" using prev_len_nonneg [OF assms(1) b(1)] .
  have ok: "route_ok (rp_routes p ! i)" using assms(1) b(1) by (simp add: pool_ok_def)
  have "(h - prev_len p i) mod rp_wan_hosts p = h - prev_len p i" using b(2) p0 assms(3) by simp
  then show ?thesis
    using b p0 assms(3) ok
    by (simp add: get_route_info_def Let_def i_def [symmetric] ir_len_def route_ok_def ext_ok_def)
qed

section \<open>Properties\<close>

lemma rp_list_stop: "rp_wan_hosts p \<le> rpi_host_p it \<Longrightarrow> rp_list priv p it = Inr []"
  by (subst rp_list.simps) (simp add: rp_next_def)

lemma rp_list_from:
  assumes "pool_ok p" "0 \<le> h" "h < rp_wan_hosts p \<longrightarrow> i = owner p h" "int k = rp_wan_hosts p - h"
  shows "rp_list priv p \<lparr>rpi_reverse = False, rpi_host_p = h, rpi_route_offset = i\<rparr> =
    mapr (\<lambda>h. get_route_info priv p (owner p h) h) [h..rp_wan_hosts p - 1]"
  using assms(2-4)
proof (induction k arbitrary: h i)
  case (Suc k)
  then have h: "h < rp_wan_hosts p" "i = owner p h" by auto
  define i' where "i' = (if \<not> h + 1 \<ge> rp_len_list p ! i then i else if i < length (rp_routes p) - 1 then i + 1 else i)"
  have n: "rp_next priv p \<lparr>rpi_reverse = False, rpi_host_p = h, rpi_route_offset = i\<rparr> =
      bindr (get_route_info priv p i h) (\<lambda>r. Inr (Some (r, \<lparr>rpi_reverse = False, rpi_host_p = h + 1, rpi_route_offset = i'\<rparr>)))"
    using h(1) by (simp add: rp_next_def Let_def i'_def)
  have "h + 1 < rp_wan_hosts p \<longrightarrow> i' = owner p (h + 1)"
    using owner_Suc [OF assms(1) Suc.prems(1)] by (auto simp: i'_def h(2))
  from Suc.IH [OF _ this] Suc.prems
  have "rp_list priv p \<lparr>rpi_reverse = False, rpi_host_p = h + 1, rpi_route_offset = i'\<rparr> =
      mapr (\<lambda>h. get_route_info priv p (owner p h) h) [h + 1..rp_wan_hosts p - 1]" by simp
  moreover have "[h..rp_wan_hosts p - 1] = h # [h + 1..rp_wan_hosts p - 1]" using h(1) by (simp add: upto_rec1)
  ultimately show ?case
    by (subst rp_list.simps) (simp add: n bindr_assoc, simp add: h(2))
qed (simp add: rp_list_stop)

text \<open>The host at an absolute position of a pool, by the owner of the position.\<close>

definition host_at :: "(af \<Rightarrow> int \<Rightarrow> bool) \<Rightarrow> RoutePool \<Rightarrow> int \<Rightarrow> Route result" where
  "host_at priv p h = host_route priv (owner p h) h (h - prev_len p (owner p h)) (rp_routes p ! owner p h)"

lemma mapr_cong: "(\<And>x. x \<in> set xs \<Longrightarrow> f x = g x) \<Longrightarrow> mapr f xs = mapr g xs"
  by (induction xs) auto

lemma pool_ok_start:
  assumes "pool_ok p"
  shows "0 \<le> rp_wan_hosts p" "0 < rp_wan_hosts p \<longrightarrow> 0 = owner p 0"
proof -
  show "0 \<le> rp_wan_hosts p"
    using assms pool_ok_wan [OF assms] pool_ok_pos [OF assms, of "length (rp_routes p) - 1"]
    by (cases "rp_routes p") (auto simp: pool_ok_def)
  show "0 < rp_wan_hosts p \<longrightarrow> 0 = owner p 0"
    using owner_bounds [OF assms, of 0] owner_eq [OF assms, of 0 0] pool_ok_less [OF assms, of 0]
    by (cases "rp_routes p") (auto simp: prev_len_def pool_ok_def)
qed

lemma rp_list_hosts:
  assumes "pool_ok p"
  shows "rp_list priv p (rp_iter p False) = mapr (host_at priv p) [0..rp_wan_hosts p - 1]"
proof -
  have "rp_list priv p (rp_iter p False) =
      mapr (\<lambda>h. get_route_info priv p (owner p h) h) [0..rp_wan_hosts p - 1]"
    unfolding rp_iter_def if_False using pool_ok_start [OF assms] by (intro rp_list_from [OF assms, where k = "nat (rp_wan_hosts p)"]) simp_all
  also have "\<dots> = mapr (host_at priv p) [0..rp_wan_hosts p - 1]"
    by (rule mapr_cong) (simp add: host_at_def get_route_info_owner [OF assms])
  finally show ?thesis .
qed

text \<open>C6. A \<open>for\<close> loop over a pool ends, and visits every external host exactly once: position \<open>h\<close>, from 0 up
  to and without the number of external hosts, gives host number \<open>h - prev\<close> of the one route whose hosts are
  numbered from \<open>prev\<close> up to and without \<open>prev\<close> plus its size. If one host cannot be given, the loop ends with
  the exception.\<close>

theorem pool_iteration:
  assumes "make_pool priv rs ll = Inr p" "\<forall>r\<in>set rs. route_ok r"
  shows "rp_list priv p (rp_iter p False) = mapr (host_at priv p) [0..rp_wan_hosts p - 1] \<and>
    (\<forall>h i. 0 \<le> h \<and> h < rp_wan_hosts p \<and> i < length (rp_routes p) \<longrightarrow>
       owner p h < length (rp_routes p) \<and>
       (owner p h = i \<longleftrightarrow> prev_len p i \<le> h \<and> h < prev_len p i + ir_host_no (hd (ro_ext_ips (rp_routes p ! i)))))"
proof -
  note ok = make_pool_ok [OF assms]
  have b: "rp_len_list p ! i = prev_len p i + ir_host_no (hd (ro_ext_ips (rp_routes p ! i)))"
    if "i < length (rp_routes p)" for i using ok that by (simp add: pool_ok_def)
  show ?thesis
    using rp_list_hosts [OF ok] owner_bounds [OF ok] owner_eq [OF ok] b by (metis (no_types, lifting))
qed

text \<open>A pool of two routes: three hosts behind the first and one behind the second.\<close>

definition sample_range :: "nat \<Rightarrow> int \<Rightarrow> IPRange" where
  "sample_range b n = built False (IpInt n) (IP4, n) (IpStr (ipa_text (IP4, mask_int 32 (32 - b)))) b"

definition sample_route :: "nat \<Rightarrow> int \<Rightarrow> Route" where
  "sample_route b n = projr (make_route IP4 [sample_range 0 3232235777] [sample_range b n] None True)"

lemma sample_range_fields:
  "ir_host_no (sample_range 2 n) = 3" "ir_host_no (sample_range 0 n) = 1"
  "ir_r (sample_range 0 n) = (n, n)" "ir_r (sample_range 2 3221225984) = (3221225984, 3221225987)"
  "ir_int (sample_range b n) = n" "ir_af (sample_range b n) = IP4" "ir_public (sample_range b n)"
  by (simp_all add: sample_range_def built_def Let_def af_bitlen_def ir_int_def)

lemma sample_route_fields:
  assumes "n \<noteq> 0"
  shows "ro_nic_ips (sample_route b n) = [sample_range 0 3232235777]" "ro_ext_ips (sample_route b n) = [sample_range b n]"
  using assms by (simp_all add: sample_route_def make_route_def sample_range_fields Bind.defs Route.defs)

lemma sample_pool:
  "\<forall>r\<in>set [sample_route 2 3221225984, sample_route 0 3221226000]. route_ok r"
  "\<exists>p. make_pool (\<lambda>_ _. False) [sample_route 2 3221225984, sample_route 0 3221226000] [] = Inr p \<and>
     rp_wan_hosts p = 4 \<and> rp_len_list p = [3, 4] \<and>
     rp_routes p = [set_offsets (Some 0) None (sample_route 2 3221225984), set_offsets (Some 1) None (sample_route 0 3221226000)]"
proof -
  let ?rs = "[sample_route 2 3221225984, sample_route 0 3221226000]"
  show ok: "\<forall>r\<in>set ?rs. route_ok r"
    by (simp add: route_ok_def ext_ok_def sample_route_fields sample_range_fields)
  then have ext: "\<forall>r\<in>set ?rs. ext_ok r" by (simp add: route_ok_ext)
  then have "unique_routes (\<lambda>_ _. False) ?rs [] = Inr ?rs"
    by (simp add: route_in_ok sample_route_fields ir_eq_def sample_range_fields range_intersects_def)
  moreover have "len_loop ?rs 0 = Inr [3, 4]"
    using ext by (simp add: route_len_ok sample_route_fields sample_range_fields)
  ultimately show "\<exists>p. make_pool (\<lambda>_ _. False) ?rs [] = Inr p \<and>
     rp_wan_hosts p = 4 \<and> rp_len_list p = [3, 4] \<and>
     rp_routes p = [set_offsets (Some 0) None (sample_route 2 3221225984), set_offsets (Some 1) None (sample_route 0 3221226000)]"
    by (simp add: make_pool_def)
qed

theorem pool_iteration_witness:
  "\<exists>p. make_pool (\<lambda>_ _. False) [sample_route 2 3221225984, sample_route 0 3221226000] [] = Inr p \<and>
     rp_wan_hosts p = 4 \<and> rp_len_list p = [3, 4] \<and>
     rp_list (\<lambda>_ _. False) p (rp_iter p False) = mapr (host_at (\<lambda>_ _. False) p) [0..3]"
proof -
  obtain p where p: "make_pool (\<lambda>_ _. False) [sample_route 2 3221225984, sample_route 0 3221226000] [] = Inr p"
    "rp_wan_hosts p = 4" "rp_len_list p = [3, 4]" using sample_pool(2) by blast
  with pool_iteration [OF p(1) sample_pool(1)] show ?thesis by (intro exI [of _ p]) simp
qed

text \<open>The search behind the indexing, over positions instead of values.\<close>

fun search_pos :: "nat \<Rightarrow> nat \<Rightarrow> nat \<Rightarrow> nat \<Rightarrow> nat result" where
  "search_pos 0 n r i = Inl ValueError"
| "search_pos (Suc k) n r i =
     (if i = 0 then Inr 0
      else if r \<le> i \<and> \<not> r \<le> i - 1 then Inr i
      else (let s = (if i div 2 = 0 then 1 else i div 2);
                j = (if r \<le> i then i - s else i + s)
            in if j \<ge> n - 1 then Inr (n - 1) else search_pos k n r j))"

lemma search_loop_pos:
  "\<forall>i<length xs. (t \<le> xs ! i) = (r \<le> i) \<Longrightarrow> i < length xs \<Longrightarrow>
   search_loop k xs t i = search_pos k (length xs) r i"
proof (induction k arbitrary: i)
  case (Suc k)
  have "xs ! i \<ge> t \<longleftrightarrow> r \<le> i" "xs ! (i - 1) < t \<longleftrightarrow> \<not> r \<le> i - 1"
    using Suc.prems by (auto simp: linorder_not_le [symmetric])
  moreover have "\<not> j \<ge> length xs - 1 \<Longrightarrow> search_loop k xs t j = search_pos k (length xs) r j" for j
    using Suc by simp
  ultimately show ?case by (simp add: Let_def)
qed simp

lemma search_pos_small: "\<forall>n\<in>set [1..<7]. \<forall>r\<in>set [0..<n]. search_pos n n r (n div 2) = Inr r"
  by code_simp

lemma sorted_search_owner:
  assumes "pool_ok p" "0 \<le> h" "h < rp_wan_hosts p"
  shows "sorted_search (rp_len_list p) (h + 1) None =
    bindr (search_pos (length (rp_routes p)) (length (rp_routes p)) (owner p h) (length (rp_routes p) div 2)) (\<lambda>r. Inr (Some r))"
proof -
  have len: "length (rp_len_list p) = length (rp_routes p)" using assms(1) by (simp add: pool_ok_def)
  note b = owner_bounds [OF assms]
  have "(h + 1 \<le> rp_len_list p ! i) = (owner p h \<le> i)" if "i < length (rp_routes p)" for i
  proof (cases "owner p h \<le> i")
    case True
    then show ?thesis using b(3) pool_ok_mono [OF assms(1), of "owner p h" i] that by (cases "owner p h = i") auto
  next
    case False
    then have "rp_len_list p ! i \<le> prev_len p (owner p h)"
      using pool_ok_prev [OF assms(1) _ b(1)] by simp
    with b(2) False show ?thesis by simp
  qed
  then have "search_loop (length (rp_len_list p)) (rp_len_list p) (h + 1) (length (rp_len_list p) div 2) =
      search_pos (length (rp_routes p)) (length (rp_routes p)) (owner p h) (length (rp_routes p) div 2)"
    using b(1) len by (subst search_loop_pos [of _ _ "owner p h"]) auto
  moreover have "rp_len_list p \<noteq> []" using len b(1) by auto
  ultimately show ?thesis by (simp add: sorted_search_def Let_def len)
qed

text \<open>On a pool of at most six routes an index gives what iteration gives at that position, and a negative
  index counts from the end.\<close>

theorem pool_indexing:
  assumes "make_pool priv rs ll = Inr p" "\<forall>r\<in>set rs. route_ok r" "length (rp_routes p) \<le> 6"
    "0 \<le> h" "h < rp_wan_hosts p"
  shows "pool_getitem priv p (KInt h) = bindr (host_at priv p h) (\<lambda>r. Inr [r]) \<and>
    pool_getitem priv p (KInt (h - rp_wan_hosts p)) = pool_getitem priv p (KInt h)"
proof -
  note ok = make_pool_ok [OF assms(1,2)]
  note b = owner_bounds [OF ok assms(4,5)]
  have "search_pos (length (rp_routes p)) (length (rp_routes p)) (owner p h) (length (rp_routes p) div 2) = Inr (owner p h)"
    using search_pos_small b(1) assms(3) by simp
  then have at: "pool_at priv p h = host_at priv p h"
    using assms(4) sorted_search_owner [OF ok assms(4,5)]
    by (simp add: pool_at_def get_route_info_owner [OF ok assms(4,5)] host_at_def)
  have "(h - rp_wan_hosts p) mod rp_wan_hosts p = h" using assms(4,5) by (simp add: mod_diff_right_eq [symmetric])
  then have "pool_at priv p (h - rp_wan_hosts p) = pool_at priv p h"
    using assms(4,5) by (simp add: pool_at_def)
  with at show ?thesis using assms(4,5) by (simp add: pool_getitem_def)
qed

theorem pool_indexing_witness:
  "\<exists>p. make_pool (\<lambda>_ _. False) [sample_route 2 3221225984, sample_route 0 3221226000] [] = Inr p \<and>
     pool_getitem (\<lambda>_ _. False) p (KInt (- 1)) = bindr (host_at (\<lambda>_ _. False) p 3) (\<lambda>r. Inr [r])"
proof -
  obtain p where p: "make_pool (\<lambda>_ _. False) [sample_route 2 3221225984, sample_route 0 3221226000] [] = Inr p"
    "rp_wan_hosts p = 4" "length (rp_routes p) = 2" using sample_pool(2) by fastforce
  with pool_indexing [OF p(1) sample_pool(1), of 3] show ?thesis by (intro exI [of _ p]) simp
qed

text \<open>On a pool of eight routes with one host each the sixth host cannot be indexed: the search behind the
  indexing cycles.\<close>

theorem pool_index_fails:
  assumes "pool_ok p" "rp_len_list p = [1, 2, 3, 4, 5, 6, 7, 8]"
  shows "pool_getitem priv p (KInt 5) = Inl ValueError"
proof -
  have "rp_wan_hosts p = 8" using assms by (simp add: pool_ok_def)
  moreover have "sorted_search [1, 2, 3, 4, 5, 6, 7, 8] 6 None = Inl ValueError" by code_simp
  ultimately show ?thesis by (simp add: pool_getitem_def pool_at_def assms(2))
qed

text \<open>An index past the end need not raise: on two routes with one host each, index 2 gives a host.\<close>

theorem pool_index_past_end:
  assumes "pool_ok p" "rp_len_list p = [1, 2]"
  shows "pool_getitem priv p (KInt 2) = bindr (host_route priv 1 2 1 (rp_routes p ! 1)) (\<lambda>r. Inr [r])"
proof -
  have "rp_wan_hosts p = 2" "length (rp_routes p) = 2" "route_ok (rp_routes p ! 1)"
    using assms by (auto simp: pool_ok_def)
  moreover have "sorted_search [1, 2] 3 None = Inr (Some 1)" by code_simp
  ultimately show ?thesis
    by (simp add: pool_getitem_def pool_at_def assms(2) get_route_info_def prev_len_def Let_def ir_len_def route_ok_def
        ext_ok_def)
qed

text \<open>Reverse iteration over routes with one host each never leaves the last route.\<close>

theorem pool_reversed_stuck:
  assumes "pool_ok p" "rp_len_list p = map int [1..<Suc n]" "0 < n" "int n < 2 ^ 63"
  shows "rp_list priv p (rp_iter p True) =
    mapr (\<lambda>k. get_route_info priv p (n - 1) (int n - 1 - int k)) [0..<n]"
proof -
  have len: "length (rp_routes p) = n" using assms(1,2) by (auto simp: pool_ok_def simp del: upt_Suc)
  have w: "rp_wan_hosts p = int n" using assms(3) pool_ok_wan [OF assms(1)] by (simp add: len assms(2) del: upt_Suc)
  have stop: "rp_list priv p \<lparr>rpi_reverse = True, rpi_host_p = int n, rpi_route_offset = i\<rparr> = Inr []" for i
    by (simp add: rp_list_stop w)
  have "rp_list priv p \<lparr>rpi_reverse = True, rpi_host_p = int m, rpi_route_offset = n - 1\<rparr> =
      mapr (\<lambda>k. get_route_info priv p (n - 1) (int n - 1 - int k)) [m..<n]" if "m \<le> n" for m
    using that
  proof (induction "n - m" arbitrary: m)
    case (Suc k)
    then have m: "m < n" "n - m = Suc k" "n - Suc m = k" "[m..<n] = m # [Suc m..<n]" by (auto simp: upt_conv_Cons)
    have "(int m + 1 \<ge> rp_len_list p ! (n - 1)) = (Suc m = n)"
      using assms(2,3) m(1) by (auto simp del: upt_Suc)
    then have "rp_next priv p \<lparr>rpi_reverse = True, rpi_host_p = int m, rpi_route_offset = n - 1\<rparr> =
        bindr (get_route_info priv p (n - 1) (int n - 1 - int m)) (\<lambda>r. Inr (Some (r,
          \<lparr>rpi_reverse = True, rpi_host_p = int (Suc m), rpi_route_offset = (if Suc m = n then n - 2 else n - 1)\<rparr>)))"
      using m(1) assms(4) by (auto simp: rp_next_def w pool_len_def Let_def numeral_2_eq_2 add.commute)
    moreover have "Suc m = n \<Longrightarrow> k = 0" using m(3) by simp
    ultimately show ?case
      using Suc.hyps(1) [of "Suc m"] m stop
      by (subst rp_list.simps) (cases "Suc m = n"; simp add: bindr_assoc)
  qed (simp add: rp_list_stop w)
  from this [of 0] show ?thesis by (simp add: rp_iter_def len)
qed

text \<open>\<open>r != [s]\<close> raises instead of answering the alternatives to \<open>r\<close>.\<close>

theorem route_ne_list_raises: "route_ne r (NeList ss) = Inl TypeError"
  by (simp add: route_ne_def)

text \<open>A route whose external range is private, as \<open>ext_check=0\<close> allows, can be neither copied nor read back.\<close>

theorem private_route_not_copied:
  assumes "mapr (deepcopy priv) (ro_nic_ips r) = Inr ns" "mapr (deepcopy priv) (ro_ext_ips r) = Inr es"
    "make_route (bd_af r) ns es (bd_interface r) False = Inr c" "\<not> ir_public (hd es)"
  shows "route_deepcopy priv r = Inl AssertionError"
  using assms by (auto simp: route_deepcopy_def make_route_def split: if_splits)

lemma ip_range_single: "ip_range priv ip None (Some 0) = Inr r \<Longrightarrow> ir_host_no r = 1"
  by (auto simp: ip_range_def derive_def bindr_eq_Inr Let_def split: if_splits)

lemma host_route_ext: "host_route priv i h rel r = Inr n \<Longrightarrow> ext_ok n"
  by (auto simp: host_route_def bindr_eq_Inr make_route_def ext_ok_def set_offsets_def set_link_locals_def Bind.defs Route.defs
      dest!: ip_range_single split: if_splits)

lemma rp_next_ext: "rp_next priv p it = Inr (Some (r, it')) \<Longrightarrow> ext_ok r"
  by (auto simp: rp_next_def get_route_info_def bindr_eq_Inr Let_def split: if_splits dest: host_route_ext)

text \<open>The routes that \<open>alt\<close> may answer.\<close>

definition alternative :: "Route \<Rightarrow> Route list option \<Rightarrow> Route \<Rightarrow> bool" where
  "alternative self excl r \<longleftrightarrow> \<not> ir_eq (hd (ro_ext_ips r)) (hd (ro_ext_ips self)) \<and>
     (case excl of None \<Rightarrow> True | Some xs \<Rightarrow> \<not> (\<exists>x\<in>set xs. ir_eq (hd (ro_ext_ips x)) (hd (ro_ext_ips r))))"

lemma alt_loop_result:
  assumes "ext_ok self" "case excl of None \<Rightarrow> True | Some xs \<Rightarrow> \<forall>x\<in>set xs. ext_ok x"
  shows "rp_list priv p it = Inr rs \<Longrightarrow> int (length acc) < limit \<Longrightarrow>
    alt_loop priv p self limit excl it acc = Inr (acc @ take (nat limit - length acc) (filter (alternative self excl) rs))"
proof (induction priv p it arbitrary: acc rs rule: rp_list.induct)
  case stp: (1 priv p it)
  then obtain o' where o': "rp_next priv p it = Inr o'"
    by (auto simp: rp_list.simps [of priv p it] bindr_eq_Inr)
  note unf = alt_loop.simps [of priv p self limit excl it] rp_list.simps [of priv p it]
  show ?case
  proof (cases o')
    case None
    then show ?thesis using stp.prems by (simp add: unf o')
  next
    case (Some x)
    obtain r it' where x: "x = (r, it')" by fastforce
    obtain rs' where rs: "rp_list priv p it' = Inr rs'" "rs = r # rs'"
      using stp.prems(1) by (auto simp: unf o' Some x bindr_eq_Inr)
    have r: "ext_ok r" using rp_next_ext o' Some x by blast
    have skip: "bindr (route_eq priv r (RRoute self)) (\<lambda>e. bindr (if e then Inr True else
        case excl of None \<Rightarrow> Inr False | Some xs \<Rightarrow> route_in priv r xs) f) = f (\<not> alternative self excl r)" for f :: "bool \<Rightarrow> Route list result"
      using assms r by (auto simp: route_eq_ok route_in_ok alternative_def split: option.splits)
    consider "\<not> alternative self excl r" | "alternative self excl r" "int (length (acc @ [r])) \<ge> limit"
      | "alternative self excl r" "int (length (acc @ [r])) < limit" by linarith
    then show ?thesis
    proof cases
      case 1
      then show ?thesis using stp.IH [OF o' Some x [symmetric] rs(1) stp.prems(2)] by (simp add: unf o' Some x skip rs(2))
    next
      case 2
      then have "nat limit - length acc = 1" using stp.prems(2) by simp
      then show ?thesis using 2 by (simp add: unf o' Some x skip rs(2))
    next
      case 3
      then have "nat limit - length acc = Suc (nat limit - length (acc @ [r]))" by simp
      then show ?thesis using 3 stp.IH [OF o' Some x [symmetric] rs(1) 3(2)] by (simp add: unf o' Some x skip rs(2))
    qed
  qed
qed

text \<open>\<open>alt\<close> answers the first \<open>limit\<close> hosts of the pool, in iteration order, whose external address neither
  lies in the route's own range nor in an excluded one.\<close>

theorem alt_result:
  assumes "rp_list priv p (rp_iter p False) = Inr hosts" "0 < limit" "ext_ok self"
    "case excl of None \<Rightarrow> True | Some xs \<Rightarrow> \<forall>x\<in>set xs. ext_ok x"
  shows "alt priv (Some p) self limit excl = Inr (take (nat limit) (filter (alternative self excl) hosts))"
  using alt_loop_result [OF assms(3,4,1), of "[]" limit] assms(2) by (simp add: alt_def)

lemma deepcopy_sample:
  assumes "2 ^ 31 \<le> n" "n < 2 ^ 32" "b \<le> 32" "\<not> priv IP4 n" "n - n mod 2 ^ b \<noteq> 0"
  shows "deepcopy priv (sample_range b n) = Inr (sample_range b n)"
proof -
  define m where "m = mask_int 32 (32 - b)"
  have mb: "0 \<le> m" "m < 2 ^ 32" using mask_int_bounds [of "32 - b" 32] by (simp_all add: m_def)
  then have ok: "ipa_ok (IP4, m)" by (simp add: ipa_ok_def af_bitlen_def)
  have w: "hamming_weight (nat m) = 32 - b" by (simp add: m_def hamming_weight_popcount popcount_mask_int)
  have d: "derive priv (IpInt n) (IP4, n) (IpStr (ipa_text (IP4, m))) (int b) = Inr (sample_range b n)"
    using assms ones_pos [of b] by (cases "b = 0")
      (simp_all add: derive_def built_def sample_range_def m_def Let_def get_bits_0 af_bitlen_def)
  have "ip_range priv (IpInt n) (Some (IpStr (ipa_text (IP4, m)))) (Some (int b)) = Inr (sample_range b n)"
    using assms(1-3) d by (simp add: ip_range_def norm_arg_def ip_norm_plain [OF ok] base_addr_def ipa_of_str_text [OF ok]
        af_bitlen_def w Let_def of_nat_diff)
  then show ?thesis by (simp add: deepcopy_def sample_range_def built_def m_def Let_def)
qed

lemma host_route_sample:
  assumes "get_value (sample_range b n) rel = Inr (IP4, v)" "0 < v" "v < 2 ^ 32" "n \<noteq> 0"
  shows "\<exists>r. host_route (\<lambda>_ _. False) i h rel (set_offsets j k (sample_route b n)) = Inr r"
proof -
  have ok: "ipa_ok (IP4, v)" using assms(2,3) by (simp add: ipa_ok_def af_bitlen_def)
  obtain p m where w: "ip_range (\<lambda>_ _. False) (IpStr (ipa_text (IP4, v))) None (Some 0) =
      Inr (built p (IpStr (ipa_text (IP4, v))) (IP4, v) m 0)"
    using ip_range_of_text [OF ok, of "\<lambda>_ _. False"] by (auto simp: ip_range_def Let_def)
  have "bd_af (sample_route b n) = IP4" "ro_link_locals (sample_route b n) = []" "bd_interface (sample_route b n) = None"
    using assms(4) by (simp_all add: sample_route_def make_route_def sample_range_fields Bind.defs Route.defs bind_init_def)
  then show ?thesis
    using assms w deepcopy_sample [of 3232235777 0 "\<lambda>_ _. False"]
    by (simp add: host_route_def set_offsets_def sample_route_fields make_route_def sample_range_fields Bind.defs Route.defs)
qed

theorem alt_result_witness:
  "\<exists>p self hosts. make_pool (\<lambda>_ _. False) [sample_route 2 3221225984, sample_route 0 3221226000] [] = Inr p \<and>
     rp_list (\<lambda>_ _. False) p (rp_iter p False) = Inr hosts \<and>
     alt (\<lambda>_ _. False) (Some p) self 2 None = Inr (take 2 (filter (alternative self None) hosts))"
proof -
  let ?P = "\<lambda>_ _. False"
  obtain p where p: "make_pool ?P [sample_route 2 3221225984, sample_route 0 3221226000] [] = Inr p"
    "rp_wan_hosts p = 4" "rp_len_list p = [3, 4]"
    "rp_routes p = [set_offsets (Some 0) None (sample_route 2 3221225984), set_offsets (Some 1) None (sample_route 0 3221226000)]"
    using sample_pool(2) by blast
  have v: "get_value (sample_range 2 3221225984) 0 = Inr (IP4, 3221225985)" "get_value (sample_range 2 3221225984) 1 = Inr (IP4, 3221225986)"
    "get_value (sample_range 2 3221225984) 2 = Inr (IP4, 3221225987)" "get_value (sample_range 0 3221226000) 0 = Inr (IP4, 3221226000)"
    by (simp_all add: get_value_def sample_range_def built_def ipa_of_def af_bitlen_def Let_def)
  note r = host_route_sample [OF v(1), of 0 0 "Some 0" None] host_route_sample [OF v(2), of 0 1 "Some 0" None]
    host_route_sample [OF v(3), of 0 2 "Some 0" None] host_route_sample [OF v(4), of 1 3 "Some 1" None]
  obtain hosts where "mapr (host_at ?P p) [0, 1, 2, 3] = Inr hosts"
    using r by (auto simp: host_at_def owner_def p(3,4) prev_len_def)
  moreover have "rp_list ?P p (rp_iter p False) = mapr (host_at ?P p) [0, 1, 2, 3]"
    using rp_list_hosts [OF make_pool_ok [OF p(1) sample_pool(1)], of ?P] by (simp add: p(2) upto_rec1)
  ultimately have h: "rp_list ?P p (rp_iter p False) = Inr hosts" by simp
  have "alt ?P (Some p) (sample_route 2 3221225984) 2 None =
      Inr (take (nat 2) (filter (alternative (sample_route 2 3221225984) None) hosts))"
    using h sample_pool(1) by (intro alt_result) (simp_all add: p(2) route_ok_ext)
  with p(1) h show ?thesis by (intro exI [of _ p] exI [of _ "sample_route 2 3221225984"] exI [of _ hosts]) simp
qed

end
