(* ===== verification/RouteBuild.thy ===== *)
theory RouteBuild
  imports Routes PyDict "HOL-Library.Multiset"
begin

text \<open>
  How the routes of an interface come about: the helpers of \<open>nic/route/route_utils.py\<close>, the narrowing of a
  table to given addresses (\<open>nic/route/rp_from_ip.py\<close>) and the discovery of an interface's external addresses
  (\<open>nic/route/route_load.py\<close>). The addresses of the interface, the source address the system prefers and the
  result of a STUN lookup from a source address are arguments.
\<close>

section \<open>Helpers\<close>

definition first_ext :: "Route \<Rightarrow> int" where
  "first_ext r = ir_int (hd (ro_ext_ips r))"

definition sort_routes :: "Route list \<Rightarrow> Route list" where
  "sort_routes rs = sort_key first_ext rs"

definition get_route_by_src :: "string \<Rightarrow> (string \<times> Route) list \<Rightarrow> Route option" where
  "get_route_by_src src results =
     (case filter (\<lambda>(x, y). x = src) results of [] \<Rightarrow> None | (x, y) # _ \<Rightarrow> Some y)"

definition exclude_routes_by_src :: "string list \<Rightarrow> (string \<times> Route) list \<Rightarrow> Route list" where
  "exclude_routes_by_src srcs results = map snd (filter (\<lambda>(x, y). \<not> list_ex (\<lambda>n. x = n) srcs) results)"

text \<open>An interface without a pool for the family contributes nothing.\<close>

definition interfaces_to_rp ::
  "(af \<Rightarrow> int \<Rightarrow> bool) \<Rightarrow> (af \<Rightarrow> RoutePool option) list \<Rightarrow> (RoutePool \<times> RoutePool) result" where
  "interfaces_to_rp priv ifs =
     (let pool = (\<lambda>a. bindr (mapr (\<lambda>rp. case rp a of None \<Rightarrow> Inr [] | Some p \<Rightarrow> mapr (route_deepcopy priv) (rp_routes p)) ifs)
                    (\<lambda>rss. make_pool priv (concat rss) []))
      in bindr (pool IP4) (\<lambda>p4. bindr (pool IP6) (\<lambda>p6. Inr (p4, p6))))"

text \<open>\<open>rp_from_fixed\<close>: pairs of local and external texts with optional netmasks.\<close>

definition fixed_ranges :: "(af \<Rightarrow> int \<Rightarrow> bool) \<Rightarrow> (string \<times> string option) list \<Rightarrow> IPRange list result" where
  "fixed_ranges priv infos = mapr (\<lambda>(ip, m). ip_range priv (IpStr ip) (map_option IpStr m) None) infos"

definition rp_from_fixed ::
  "(af \<Rightarrow> int \<Rightarrow> bool) \<Rightarrow> ((string \<times> string option) list \<times> (string \<times> string option) list) list \<Rightarrow>
   bind_iface option \<Rightarrow> af \<Rightarrow> RoutePool result" where
  "rp_from_fixed priv fixed iface a =
     bindr (mapr (\<lambda>(nics, exts). bindr (fixed_ranges priv nics) (\<lambda>ns. bindr (fixed_ranges priv exts) (\<lambda>es.
        make_route a ns es iface True))) fixed) (\<lambda>rs. make_pool priv rs [])"

text \<open>\<open>bind_to_route\<close> up to its final bind: the address that was bound, and the pool of the interface's family. A
  local address outside every route keeps itself as external range.\<close>

fun ext_of_nic :: "IPRange \<Rightarrow> Route list \<Rightarrow> IPRange option" where
  "ext_of_nic nic [] = None"
| "ext_of_nic nic (r # rs) =
     (if list_ex (\<lambda>n. ir_eq n nic) (ro_nic_ips r) then Some (hd (ro_ext_ips r)) else ext_of_nic nic rs)"

definition bind_to_route ::
  "(af \<Rightarrow> int \<Rightarrow> bool) \<Rightarrow> Bind \<Rightarrow> string \<Rightarrow> Route list \<Rightarrow> Route result" where
  "bind_to_route priv b bound routes =
     (if \<not> bd_resolved b then Inl AssertionError
      else bindr (ip_range priv (IpStr bound) None None) (\<lambda>nic.
        bindr (if ir_public nic then Inr nic
               else (case ext_of_nic nic routes of None \<Rightarrow> Inr nic | Some e \<Rightarrow> deepcopy priv e)) (\<lambda>ext.
          make_route (bd_af b) [nic] [ext] (bd_interface b) False)))"

section \<open>Narrowing to given addresses\<close>

definition sort_iprs :: "IPRange list \<Rightarrow> IPRange list \<times> IPRange list" where
  "sort_iprs iprs = (filter ir_public iprs, filter ir_private iprs)"

text \<open>\<open>find_intersect\<close> on ranges, with their own equality.\<close>

fun find_intersect_iprs :: "IPRange list \<Rightarrow> IPRange list \<Rightarrow> IPRange list" where
  "find_intersect_iprs [] bs = []"
| "find_intersect_iprs (a # xs) bs = map (\<lambda>_. a) (filter (ir_eq a) bs) @ find_intersect_iprs xs bs"

text \<open>A \<open>for\<close> loop over a pool that builds a list.\<close>

declare bindr_cong [fundef_cong]

function rp_for :: "(af \<Rightarrow> int \<Rightarrow> bool) \<Rightarrow> RoutePool \<Rightarrow> (Route \<Rightarrow> 'a list result) \<Rightarrow> RoutePoolIter \<Rightarrow> 'a list result" where
  "rp_for priv p f it =
     bindr (rp_next priv p it) (\<lambda>o'. case o' of
         None \<Rightarrow> Inr []
       | Some (r, it') \<Rightarrow> bindr (f r) (\<lambda>xs. bindr (rp_for priv p f it') (\<lambda>ys. Inr (xs @ ys))))"
  by auto

termination rp_for
  by (relation "measure (\<lambda>(priv, p, f, it). nat (rp_wan_hosts p + 1 - rpi_host_p it))")
     (auto dest: rp_next_moves)

declare rp_for.simps [simp del] bindr_cong [fundef_cong del]

definition rp_each :: "(af \<Rightarrow> int \<Rightarrow> bool) \<Rightarrow> RoutePool \<Rightarrow> (Route \<Rightarrow> 'a list result) \<Rightarrow> 'a list result" where
  "rp_each priv p f = rp_for priv p f (rp_iter p False)"

definition v6_route_pool_from_ips ::
  "(af \<Rightarrow> int \<Rightarrow> bool) \<Rightarrow> IPRange list \<Rightarrow> RoutePool \<Rightarrow> bind_iface option \<Rightarrow> Route list result" where
  "v6_route_pool_from_ips priv iprs rp nic =
     (let (pub, given) = sort_iprs iprs in
      bindr (if given \<noteq> [] then Inr given
             else if rp_link_locals rp \<noteq> [] then Inr (rp_link_locals rp)
             else if rp_wan_hosts rp \<noteq> 0 then bindr (pool_at priv rp 0) (\<lambda>r. Inr (ro_link_locals r))
             else Inr []) (\<lambda>lls.
      bindr (rp_each priv rp (\<lambda>r.
               if pub \<noteq> [] then
                 (let e = find_intersect_iprs (ro_ext_ips r) pub in
                  if e = [] then Inr [] else bindr (make_route IP6 e e nic True) (\<lambda>n. Inr [n]))
               else bindr (make_route IP6 (ro_ext_ips r) (ro_ext_ips r) nic True) (\<lambda>n. Inr [n]))) (\<lambda>rs.
      bindr (if lls \<noteq> [] \<and> rs = [] \<and> pub = []
             then bindr (make_route IP6 [hd lls] [hd lls] nic False) (\<lambda>n. Inr [n]) else Inr rs) (\<lambda>rs'.
        Inr (map (set_link_locals lls) rs')))))"

definition v4_route_pool_from_ips ::
  "(af \<Rightarrow> int \<Rightarrow> bool) \<Rightarrow> IPRange list \<Rightarrow> RoutePool \<Rightarrow> bind_iface option \<Rightarrow> Route list result" where
  "v4_route_pool_from_ips priv iprs rp nic =
     (let (pub, given) = sort_iprs iprs in
      rp_each priv rp (\<lambda>r.
        let n = find_intersect_iprs (ro_nic_ips r) given; w = find_intersect_iprs (ro_ext_ips r) pub in
        if n = [] then Inr []
        else bindr (make_route IP4 n (if w \<noteq> [] then w else ro_ext_ips r) nic True) (\<lambda>x. Inr [x])))"

definition route_pool_from_ips ::
  "(af \<Rightarrow> int \<Rightarrow> bool) \<Rightarrow> string list \<Rightarrow> RoutePool \<Rightarrow> RoutePool \<Rightarrow> bind_iface option \<Rightarrow> (RoutePool \<times> RoutePool) result" where
  "route_pool_from_ips priv ips rp4 rp6 nic =
     bindr (mapr (\<lambda>ip. IPR priv ip 0) ips) (\<lambda>iprs.
     let pool = (\<lambda>rs old. if rs \<noteq> [] then make_pool priv rs [] else Inr old) in
     bindr (v4_route_pool_from_ips priv (filter (\<lambda>r. ir_af r = IP4) iprs) rp4 nic) (\<lambda>r4.
     bindr (pool r4 rp4) (\<lambda>p4.
     bindr (v6_route_pool_from_ips priv (filter (\<lambda>r. ir_af r = IP6) iprs) rp6 nic) (\<lambda>r6.
     bindr (pool r6 rp6) (\<lambda>p6. Inr (p4, p6))))))"

text \<open>\<open>sort_ips_by_nic\<close>: the addresses that each interface owns, as texts, without repetition.\<close>

definition owns_ip :: "(af \<Rightarrow> int \<Rightarrow> bool) \<Rightarrow> RoutePool \<Rightarrow> IPRange \<Rightarrow> bool result" where
  "owns_ip priv p x =
     bindr (rp_each priv p (\<lambda>r. Inr (map (\<lambda>y. ir_eq y x) (ro_nic_ips r @ ro_ext_ips r @ ro_link_locals r)))) (\<lambda>bs.
       Inr (True \<in> set bs \<or> list_ex (\<lambda>l. ir_eq x l) (rp_link_locals p)))"

definition add_ip_to_nics ::
  "(af \<Rightarrow> int \<Rightarrow> bool) \<Rightarrow> ('n \<times> (af \<Rightarrow> RoutePool)) list \<Rightarrow> string \<Rightarrow> ('n \<times> string list) list \<Rightarrow> ('n \<times> string list) list result" where
  "add_ip_to_nics priv nics ip d =
     bindr (IPR priv ip 0) (\<lambda>x. bindr (ipr_norm x) (\<lambda>t.
     bindr (mapr (\<lambda>(i, rp). bindr (owns_ip priv (rp (ir_af x)) x) (\<lambda>b. Inr (if b then [i] else []))) nics) (\<lambda>ids.
       Inr (map (\<lambda>(i, ts). (i, if i \<in> set (concat ids) \<and> t \<notin> set ts then ts @ [t] else ts)) d))))"

fun sort_ips_loop ::
  "(af \<Rightarrow> int \<Rightarrow> bool) \<Rightarrow> ('n \<times> (af \<Rightarrow> RoutePool)) list \<Rightarrow> string list \<Rightarrow> ('n \<times> string list) list \<Rightarrow> ('n \<times> string list) list result" where
  "sort_ips_loop priv nics [] d = Inr d"
| "sort_ips_loop priv nics (ip # ips) d = bindr (add_ip_to_nics priv nics ip d) (sort_ips_loop priv nics ips)"

definition sort_ips_by_nic ::
  "(af \<Rightarrow> int \<Rightarrow> bool) \<Rightarrow> string list \<Rightarrow> ('n \<times> (af \<Rightarrow> RoutePool)) list \<Rightarrow> ('n \<times> string list) list result" where
  "sort_ips_by_nic priv ips nics = sort_ips_loop priv nics ips (fold (\<lambda>(i, rp) d. dict_set i [] d) nics [])"

section \<open>One lookup\<close>

text \<open>The route from a source address and the external address that was reported for it. The first lookups carry
  the subnet of the original range over, the last one does not.\<close>

definition stun_route ::
  "(af \<Rightarrow> int \<Rightarrow> bool) \<Rightarrow> af \<Rightarrow> bind_iface option \<Rightarrow> bool \<Rightarrow> string \<Rightarrow> IPRange option \<Rightarrow> string \<Rightarrow> (string \<times> Route) result" where
  "stun_route priv a iface keep src_ip input_ipr wan_ip =
     bindr (ip_range priv (IpStr wan_ip) None (Some 0)) (\<lambda>ext_ipr.
     bindr (ip_range priv (IpStr src_ip) None (Some 0)) (\<lambda>nic_ipr.
       let nat = (ir_private nic_ipr \<or> src_ip \<noteq> wan_ip);
           n = nic_ipr\<lparr>ir_private := nat, ir_public := \<not> nat\<rparr>;
           n' = (case input_ipr of
                   Some i \<Rightarrow> if keep \<and> ir_subnet i \<noteq> None then n\<lparr>ir_subnet := ir_subnet i\<rparr> else n
                 | None \<Rightarrow> n)
       in bindr (make_route a [n'] [ext_ipr] iface True) (\<lambda>r. Inr (src_ip, r))))"

text \<open>One round over the servers: which clients got a local address, and what they agreed on within the
  timeout. Errors of the network are caught.\<close>

record stun_round =
  sr_binds :: "bool list result"
  sr_answer :: "string option result"

datatype stun_out = NoTasks | Answer "string option"

definition run_round :: "stun_round \<Rightarrow> stun_out result" where
  "run_round t =
     bindr (sr_binds t) (\<lambda>bs. if \<not> list_ex (\<lambda>b. b) bs then Inr NoTasks
                                else bindr (sr_answer t) (\<lambda>w. Inr (Answer w)))"

definition stun_caught :: "py_exn \<Rightarrow> bool" where
  "stun_caught e = (e = OSError \<or> e = TimeoutError)"

text \<open>The attempts over UDP: the outer \<open>Some\<close> is a return.\<close>

definition udp_attempt :: "(string \<Rightarrow> (string \<times> Route) result) \<Rightarrow> stun_round \<Rightarrow> (string \<times> Route) option option result" where
  "udp_attempt f t =
     bindr (run_round t) (\<lambda>v. case v of
         NoTasks \<Rightarrow> Inr (Some None)
       | Answer None \<Rightarrow> Inr None
       | Answer (Some w) \<Rightarrow> bindr (f w) (\<lambda>x. Inr (Some (Some x))))"

fun udp_rounds ::
  "(string \<Rightarrow> (string \<times> Route) result) \<Rightarrow> stun_round list \<Rightarrow> (string \<times> Route) option option result" where
  "udp_rounds f [] = Inr None"
| "udp_rounds f (t # ts) =
     (case udp_attempt f t of
        Inl e \<Rightarrow> if stun_caught e then udp_rounds f ts else Inl e
      | Inr None \<Rightarrow> udp_rounds f ts
      | Inr (Some x) \<Rightarrow> Inr (Some x))"

text \<open>The last attempt over TCP; None is a set-up that failed or found no server.\<close>

definition tcp_round ::
  "(string \<Rightarrow> (string \<times> Route) result) \<Rightarrow> stun_round option \<Rightarrow> (string \<times> Route) option result" where
  "tcp_round f tcp =
     (case tcp of
        None \<Rightarrow> Inr None
      | Some t \<Rightarrow>
          (case bindr (run_round t) (\<lambda>v. case v of
                   Answer (Some w) \<Rightarrow> bindr (f w) (\<lambda>x. Inr (Some x))
                 | _ \<Rightarrow> Inr None) of
             Inl e \<Rightarrow> if stun_caught e then Inr None else Inl e
           | Inr x \<Rightarrow> Inr x))"

definition lookup_wan_ip_for_nic_ip ::
  "(af \<Rightarrow> int \<Rightarrow> bool) \<Rightarrow> af \<Rightarrow> bind_iface option \<Rightarrow> bool \<Rightarrow> stun_round \<times> stun_round \<Rightarrow> stun_round option \<Rightarrow>
   string \<Rightarrow> IPRange option \<Rightarrow> (string \<times> Route) option result" where
  "lookup_wan_ip_for_nic_ip priv a iface clients udp tcp src_ip input_ipr =
     (if \<not> clients then Inr None
      else bindr (udp_rounds (stun_route priv a iface True src_ip input_ipr) [fst udp, snd udp]) (\<lambda>v. case v of
             Some x \<Rightarrow> Inr x
           | None \<Rightarrow> tcp_round (stun_route priv a iface False src_ip input_ipr) tcp))"

text \<open>Lookups run in batches; \<open>async_wrap_errors\<close> turns an error into None.\<close>

definition STUN_BATCH_SIZE :: nat where
  "STUN_BATCH_SIZE = 4"

function batches :: "nat \<Rightarrow> 'a list \<Rightarrow> 'a list list" where
  "batches n xs = (if n = 0 \<or> xs = [] then [] else take n xs # batches n (drop n xs))"
  by auto
termination by (relation "measure (\<lambda>(n, xs). length xs)") auto

declare batches.simps [simp del]

definition run_stun_tasks_batched :: "('a \<Rightarrow> 'b) \<Rightarrow> 'a list \<Rightarrow> 'b list" where
  "run_stun_tasks_batched run tasks = concat (map (map run) (batches STUN_BATCH_SIZE tasks))"

section \<open>Discovery\<close>

text \<open>\<open>group_pub_iprs_by_subnet\<close>: the public ranges by network and prefix, and those queried on their own.\<close>

type_synonym net_key = "int \<times> int"

definition net_key_of :: "int \<Rightarrow> IPRange \<Rightarrow> net_key option result" where
  "net_key_of max_bits r =
     (let nc = (case ir_subnet r of None \<Rightarrow> max_bits | Some n \<Rightarrow> n); host_bits = nat (max_bits - nc) in
      if nc = max_bits then Inr None
      else if nc > max_bits then Inl ValueError
      else Inr (Some (push_bit host_bits (drop_bit host_bits (ir_int r)), nc)))"

fun group_loop ::
  "int \<Rightarrow> IPRange list \<Rightarrow> (net_key \<times> IPRange list) list \<Rightarrow> IPRange list \<Rightarrow>
   ((net_key \<times> IPRange list) list \<times> IPRange list) result" where
  "group_loop max_bits [] groups individual = Inr (groups, individual)"
| "group_loop max_bits (r # rs) groups individual =
     bindr (net_key_of max_bits r) (\<lambda>k. case k of
         None \<Rightarrow> group_loop max_bits rs groups (individual @ [r])
       | Some k \<Rightarrow>
           group_loop max_bits rs (dict_set k ((case map_of groups k of None \<Rightarrow> [] | Some g \<Rightarrow> g) @ [r]) groups) individual)"

text \<open>The heads by source text: the ranges that follow, and the head itself.\<close>

fun head_loop ::
  "(net_key \<times> IPRange list) list \<Rightarrow> (string \<times> IPRange list) list \<Rightarrow> (string \<times> IPRange) list \<Rightarrow>
   ((string \<times> IPRange list) list \<times> (string \<times> IPRange) list) result" where
  "head_loop [] heads iprs = Inr (heads, iprs)"
| "head_loop ((k, g) # gs) heads iprs =
     bindr (ipr_norm (hd g)) (\<lambda>src. head_loop gs (dict_set src (tl g) heads) (dict_set src (hd g) iprs))"

definition group_pub_iprs_by_subnet ::
  "IPRange list \<Rightarrow> int \<Rightarrow> ((string \<times> IPRange list) list \<times> IPRange list \<times> (string \<times> IPRange) list) result" where
  "group_pub_iprs_by_subnet rs max_bits =
     bindr (group_loop max_bits rs [] []) (\<lambda>(groups, individual).
       bindr (head_loop groups [] []) (\<lambda>(heads, iprs). Inr (heads, individual, iprs)))"

text \<open>The addresses of an interface: link-local ones, private ones and public ones.\<close>

fun classify :: "IPRange list \<Rightarrow> (IPRange list \<times> IPRange list \<times> IPRange list) result" where
  "classify [] = Inr ([], [], [])"
| "classify (r # rs) =
     bindr (get_value r 0) (\<lambda>x.
       if snd x = 0 then Inl AssertionError
       else bindr (ip_norm (ipa_text x)) (\<lambda>t.
         bindr (classify rs) (\<lambda>(lls, privs, pubs).
           Inr (if take 2 t \<in> {''fe'', ''fd''} then (r # lls, privs, pubs)
                else if ir_private r then (lls, r # privs, pubs) else (lls, privs, r # pubs)))))"

fun promote :: "string \<Rightarrow> IPRange list \<Rightarrow> IPRange list \<Rightarrow> IPRange list result" where
  "promote t seen [] = Inr seen"
| "promote t seen (r # rs) =
     bindr (ipr_norm r) (\<lambda>s. if s = t then Inr (r # seen @ rs) else promote t (seen @ [r]) rs)"

fun find_src :: "string \<Rightarrow> IPRange list \<Rightarrow> IPRange option result" where
  "find_src t [] = Inr None"
| "find_src t (r # rs) = bindr (ipr_norm r) (\<lambda>s. if s = t then Inr (Some r) else find_src t rs)"

type_synonym stun_task = "string \<times> IPRange option"

fun individual_tasks ::
  "IPRange list \<Rightarrow> (string \<times> IPRange list) list \<Rightarrow> ((string \<times> IPRange list) list \<times> stun_task list) result" where
  "individual_tasks [] heads = Inr (heads, [])"
| "individual_tasks (r # rs) heads =
     bindr (ipr_norm r) (\<lambda>s. bindr (individual_tasks rs (dict_set s [] heads)) (\<lambda>(h, ts). Inr (h, (s, Some r) # ts)))"

text \<open>Whether the route of the system's preferred source address counts for this interface, and that address.\<close>

definition default_source :: "(af \<Rightarrow> int \<Rightarrow> bool) \<Rightarrow> bool \<Rightarrow> string \<Rightarrow> IPRange list \<Rightarrow> (bool \<times> string) result" where
  "default_source priv enable preferred nic_iprs =
     (if \<not> enable then Inr (False, [])
      else bindr (ip_norm preferred) (\<lambda>t.
        bindr (if t = [] then Inr False
               else bindr (ip_range priv (IpStr t) None None) (\<lambda>d. Inr (\<not> list_ex (\<lambda>r. ir_eq r d) nic_iprs))) (\<lambda>other.
          Inr (if other then (False, []) else (True, t)))))"

text \<open>The lookups that are made, in order; the heads and their followers; the source of the private lookup.\<close>

definition stun_tasks ::
  "af \<Rightarrow> bool \<Rightarrow> string \<Rightarrow> IPRange list \<Rightarrow> IPRange list \<Rightarrow> IPRange list \<Rightarrow>
   (stun_task list \<times> (string \<times> IPRange list) list \<times> string) result" where
  "stun_tasks a enable dflt nic_iprs privs pubs0 =
     bindr (if dflt \<noteq> [] then promote dflt [] pubs0 else Inr pubs0) (\<lambda>pubs.
     bindr (group_pub_iprs_by_subnet pubs (int (af_bitlen a))) (\<lambda>(heads0, individual, head_iprs).
     bindr (individual_tasks individual heads0) (\<lambda>(heads, ts).
     bindr (if enable \<and> \<not> dict_has dflt heads then bindr (find_src dflt nic_iprs) (\<lambda>r. Inr [(dflt, r)]) else Inr []) (\<lambda>dts.
     bindr (if length privs > 1 \<or> (privs \<noteq> [] \<and> \<not> enable) then ipr_norm (hd privs) else Inr []) (\<lambda>priv_src.
       Inr (map (\<lambda>(s, g). (s, map_of head_iprs s)) heads0 @ ts @ dts @
              (if length privs > 1 \<or> (privs \<noteq> [] \<and> \<not> enable) then [(priv_src, Some (hd privs))] else []),
            heads, priv_src))))))"

text \<open>The routes of the ranges that follow a head whose lookup succeeded.\<close>

definition follower_route ::
  "(af \<Rightarrow> int \<Rightarrow> bool) \<Rightarrow> af \<Rightarrow> bind_iface option \<Rightarrow> Route \<Rightarrow> IPRange \<Rightarrow> (string \<times> Route) result" where
  "follower_route priv a iface hr extra =
     bindr (ipr_norm extra) (\<lambda>src.
     bindr (if ir_int (hd (ro_nic_ips hr)) = ir_int (hd (ro_ext_ips hr))
            then bindr (ip_range priv (IpStr src) None (Some 0)) (\<lambda>e. Inr [e])
            else mapr (deepcopy priv) (ro_ext_ips hr)) (\<lambda>exts.
     bindr (make_route a [extra] exts iface True) (\<lambda>r. Inr (src, r))))"

fun derive_followers ::
  "(af \<Rightarrow> int \<Rightarrow> bool) \<Rightarrow> af \<Rightarrow> bind_iface option \<Rightarrow> (string \<times> IPRange list) list \<Rightarrow> (string \<times> Route) list \<Rightarrow>
   (string \<times> Route) list result" where
  "derive_followers priv a iface [] results = Inr results"
| "derive_followers priv a iface ((src, rest) # heads) results =
     (case get_route_by_src src results of
        None \<Rightarrow> derive_followers priv a iface heads results
      | Some hr \<Rightarrow> bindr (mapr (follower_route priv a iface hr) rest) (\<lambda>new. derive_followers priv a iface heads (results @ new)))"

text \<open>The routes from the results of the lookups.\<close>

definition assemble_routes ::
  "(af \<Rightarrow> int \<Rightarrow> bool) \<Rightarrow> af \<Rightarrow> bind_iface option \<Rightarrow> bool \<Rightarrow> string \<Rightarrow> string \<Rightarrow> bool \<Rightarrow> IPRange list \<Rightarrow> IPRange list \<Rightarrow>
   (string \<times> Route) list \<Rightarrow> Route list result" where
  "assemble_routes priv a iface enable dflt priv_src dflt_is_head nic_iprs privs results =
     bindr (if \<not> enable then Inr None
            else bindr (ip_range priv (IpStr dflt) None (Some 0)) (\<lambda>d.
              Inr (if list_ex (\<lambda>r. ir_eq r d) nic_iprs then get_route_by_src dflt results else None))) (\<lambda>default_route.
     let priv_route = get_route_by_src priv_src results;
         routes = exclude_routes_by_src (priv_src # (if dflt_is_head then [] else [dflt])) results;
         priv_ext = (case default_route of Some r \<Rightarrow> Some (ro_ext_ips r) | None \<Rightarrow> map_option ro_ext_ips priv_route)
     in bindr (case priv_ext of
                 Some e \<Rightarrow> if privs \<noteq> [] then bindr (make_route a privs e iface True) (\<lambda>r. Inr (routes @ [r])) else Inr routes
               | None \<Rightarrow> Inr routes) (\<lambda>rs.
          Inr (if rs = [] then (case default_route of None \<Rightarrow> [] | Some r \<Rightarrow> [r]) else sort_routes rs)))"

definition discover_nic_wan_ips ::
  "(af \<Rightarrow> int \<Rightarrow> bool) \<Rightarrow> af \<Rightarrow> bool \<Rightarrow> string \<Rightarrow> IPRange list \<Rightarrow> (stun_task \<Rightarrow> (string \<times> Route) option) \<Rightarrow>
   bind_iface option \<Rightarrow> (Route list \<times> IPRange list) result" where
  "discover_nic_wan_ips priv a enable_default preferred nic_iprs lookup iface =
     bindr (classify nic_iprs) (\<lambda>(lls, privs, pubs).
     bindr (default_source priv enable_default preferred nic_iprs) (\<lambda>(enable, dflt).
     bindr (stun_tasks a enable dflt nic_iprs privs pubs) (\<lambda>(tasks, heads, priv_src).
     bindr (derive_followers priv a iface heads (List.map_filter (\<lambda>r. r) (run_stun_tasks_batched lookup tasks))) (\<lambda>results.
     bindr (assemble_routes priv a iface enable dflt priv_src (dict_has dflt heads) nic_iprs privs results) (\<lambda>rs.
       let lls' = (if a = IP4 \<and> rs = [] \<and> privs \<noteq> [] then privs else lls)
       in Inr (map (set_link_locals lls') rs, lls'))))))"

section \<open>Properties of the lookup\<close>

lemma run_batched_map: "run_stun_tasks_batched run tasks = map run tasks"
proof -
  have "concat (map (map run) (batches n xs)) = map run xs" if "0 < n" for n xs
    using that by (induction n xs rule: batches.induct) (subst batches.simps, auto simp flip: map_append)
  then show ?thesis by (simp add: run_stun_tasks_batched_def STUN_BATCH_SIZE_def)
qed

lemma stun_route_fields:
  assumes "stun_route priv a iface keep src_ip input_ipr wan_ip = Inr (s, r)"
  shows "s = src_ip \<and> (\<exists>n e x. ro_nic_ips r = [n] \<and> ro_ext_ips r = [e] \<and> bd_af r = a \<and> ir_public e \<and>
     ip_range priv (IpStr wan_ip) None (Some 0) = Inr e \<and> ip_range priv (IpStr src_ip) None (Some 0) = Inr x \<and>
     ir_int n = ir_int x \<and> ir_public n = (\<not> ir_private x \<and> src_ip = wan_ip) \<and> ir_private n = (\<not> ir_public n) \<and>
     ir_subnet n = (if keep then Option.bind input_ipr ir_subnet else None))"
proof -
  from assms obtain e x where e: "ip_range priv (IpStr wan_ip) None (Some 0) = Inr e"
    and x: "ip_range priv (IpStr src_ip) None (Some 0) = Inr x"
    by (auto simp: stun_route_def bindr_eq_Inr Let_def)
  have sx: "ir_subnet x = None"
    using x by (auto simp: ip_range_def bindr_eq_Inr derive_def Let_def split: if_splits)
  show ?thesis
    using assms e x sx
    by (auto simp: stun_route_def bindr_eq_Inr Let_def make_route_def Bind.defs Route.defs bind_init_def ir_int_def
        split: if_splits option.splits)
qed

lemma udp_attempt_source:
  assumes "udp_attempt f t = Inr (Some (Some x))"
  shows "\<exists>w. f w = Inr x"
proof -
  from assms obtain v where v: "run_round t = Inr v" by (auto simp: udp_attempt_def bindr_eq_Inr)
  with assms obtain w where "v = Answer (Some w)"
    by (cases v rule: stun_out.exhaust) (auto simp: udp_attempt_def split: option.splits)
  with v assms show ?thesis by (auto simp: udp_attempt_def bindr_eq_Inr)
qed

lemma udp_rounds_source:
  "udp_rounds f ts = Inr (Some (Some x)) \<Longrightarrow> \<exists>w. f w = Inr x"
  by (induction f ts rule: udp_rounds.induct)
    (auto dest: udp_attempt_source split: sum.splits option.splits if_splits)

lemma tcp_round_source: "tcp_round f t = Inr (Some x) \<Longrightarrow> \<exists>w. f w = Inr x"
proof -
  assume a: "tcp_round f t = Inr (Some x)"
  then obtain u v where t: "t = Some u" "run_round u = Inr v"
    by (cases t; cases "run_round (the t)") (auto simp: tcp_round_def split: if_splits)
  then show ?thesis
  proof (cases v)
    case (Answer w)
    with a t show ?thesis
      by (cases w; cases "f (the w)") (auto simp: tcp_round_def split: if_splits)
  qed (use a in \<open>auto simp: tcp_round_def\<close>)
qed

text \<open>A lookup that succeeds gives a route from the source address that was asked for to one external range
  that is public, for the family of the clients; the local range counts as public only when it is the
  external address itself.\<close>

theorem lookup_result:
  assumes "lookup_wan_ip_for_nic_ip priv a iface clients udp tcp src_ip input_ipr = Inr (Some (s, r))"
  shows "s = src_ip \<and> bd_af r = a \<and> (\<exists>wan_ip n e. ro_nic_ips r = [n] \<and> ro_ext_ips r = [e] \<and>
     ip_range priv (IpStr wan_ip) None (Some 0) = Inr e \<and> ir_public e \<and>
     (ir_public n \<longrightarrow> src_ip = wan_ip) \<and> ir_private n = (\<not> ir_public n))"
proof -
  from assms obtain v where v: "udp_rounds (stun_route priv a iface True src_ip input_ipr) [fst udp, snd udp] = Inr v"
      "(case v of Some x \<Rightarrow> Inr x | None \<Rightarrow> tcp_round (stun_route priv a iface False src_ip input_ipr) tcp) = Inr (Some (s, r))"
    by (auto simp: lookup_wan_ip_for_nic_ip_def bindr_eq_Inr simp del: udp_rounds.simps split: if_splits)
  obtain keep w where "stun_route priv a iface keep src_ip input_ipr w = Inr (s, r)"
  proof (cases v)
    case None
    with v(2) tcp_round_source [of _ tcp "(s, r)"] that show ?thesis by fastforce
  next
    case (Some x)
    with v udp_rounds_source [of "stun_route priv a iface True src_ip input_ipr" _ "(s, r)"] that show ?thesis
      by (simp del: udp_rounds.simps) blast
  qed
  from stun_route_fields [OF this] show ?thesis by blast
qed

text \<open>When only the last attempt over TCP succeeds the subnet of the original range is lost, although the
  function promises to carry it over.\<close>

theorem tcp_fallback_drops_subnet:
  assumes "lookup_wan_ip_for_nic_ip priv a iface True (u1, u2) tcp src_ip input_ipr = Inr (Some (s, r))"
    "run_round u1 = Inr (Answer None)" "run_round u2 = Inr (Answer None)"
  shows "ir_subnet (hd (ro_nic_ips r)) = None"
proof -
  have "tcp_round (stun_route priv a iface False src_ip input_ipr) tcp = Inr (Some (s, r))"
    using assms by (simp add: lookup_wan_ip_for_nic_ip_def udp_attempt_def)
  from tcp_round_source [OF this] obtain w where "stun_route priv a iface False src_ip input_ipr w = Inr (s, r)" by blast
  from stun_route_fields [OF this] show ?thesis by auto
qed

section \<open>Properties of the grouping\<close>

lemma mset_dict_set_group:
  assumes "dict_ok gs"
  shows "mset (concat (map snd (dict_set k ((case map_of gs k of None \<Rightarrow> [] | Some g \<Rightarrow> g) @ [r]) gs))) =
    mset (concat (map snd gs)) + {#r#}"
  using assms
proof (induction gs)
  case (Cons e gs)
  obtain j g where e: "e = (j, g)" by fastforce
  have "j = k \<Longrightarrow> map_of gs k = None" using Cons.prems by (auto simp: e dict_ok_def map_of_eq_None_iff)
  with Cons show ?case by (auto simp: e dict_ok_def)
qed simp

text \<open>Every group has distinct keys, is not empty, and holds ranges of its key only.\<close>

definition groups_ok :: "int \<Rightarrow> (net_key \<times> IPRange list) list \<Rightarrow> bool" where
  "groups_ok m gs \<longleftrightarrow> dict_ok gs \<and> (\<forall>e\<in>set gs. snd e \<noteq> [] \<and> (\<forall>r\<in>set (snd e). net_key_of m r = Inr (Some (fst e))))"

lemma groups_ok_add:
  assumes "groups_ok m gs" "net_key_of m r = Inr (Some k)"
  shows "groups_ok m (dict_set k ((case map_of gs k of None \<Rightarrow> [] | Some g \<Rightarrow> g) @ [r]) gs)"
proof -
  have "\<And>g. map_of gs k = Some g \<Longrightarrow> (k, g) \<in> set gs" by (simp add: map_of_SomeD)
  then have "(case map_of gs k of None \<Rightarrow> [] | Some g \<Rightarrow> g) = [] \<or> (k, case map_of gs k of None \<Rightarrow> [] | Some g \<Rightarrow> g) \<in> set gs"
    by (cases "map_of gs k") auto
  then have "\<forall>s\<in>set ((case map_of gs k of None \<Rightarrow> [] | Some g \<Rightarrow> g) @ [r]). net_key_of m s = Inr (Some k)"
    using assms by (fastforce simp: groups_ok_def)
  then show ?thesis
    using assms(1) set_dict_set [of k "(case map_of gs k of None \<Rightarrow> [] | Some g \<Rightarrow> g) @ [r]" gs]
    unfolding groups_ok_def by (fastforce simp del: set_append)
qed

lemma group_loop_ok:
  "group_loop m rs gs ind = Inr (gs', ind') \<Longrightarrow> groups_ok m gs \<Longrightarrow>
   groups_ok m gs' \<and> mset (concat (map snd gs')) + mset ind' = mset (concat (map snd gs)) + mset ind + mset rs"
proof (induction m rs gs ind rule: group_loop.induct)
  case (2 m r rs gs ind)
  from "2.prems"(1) obtain v where v: "net_key_of m r = Inr v" by (auto simp: bindr_eq_Inr)
  have ok: "dict_ok gs" using "2.prems"(2) by (simp add: groups_ok_def)
  show ?case
  proof (cases v)
    case None
    then show ?thesis using "2.IH"(1) "2.prems" v by simp
  next
    case (Some k)
    then show ?thesis
      using "2.IH"(2) "2.prems" v groups_ok_add [of m gs r k] mset_dict_set_group [OF ok, of k r]
      by simp
  qed
qed simp

lemma head_loop_spec:
  "head_loop gs heads iprs = Inr (heads', iprs') \<Longrightarrow>
   (\<forall>e\<in>set gs. snd e \<noteq> []) \<Longrightarrow> distinct (map (\<lambda>e. ipr_norm (hd (snd e))) gs) \<Longrightarrow>
   (\<forall>e\<in>set gs. \<forall>s. ipr_norm (hd (snd e)) = Inr s \<longrightarrow> \<not> dict_has s heads \<and> \<not> dict_has s iprs) \<Longrightarrow>
   mset (map snd iprs' @ concat (map snd heads')) =
   mset (map snd iprs @ concat (map snd heads)) + mset (concat (map snd gs))"
proof (induction gs heads iprs rule: head_loop.induct)
  case (2 k g gs heads iprs)
  from "2.prems"(1) obtain s where s: "ipr_norm (hd g) = Inr s"
    and rest: "head_loop gs (dict_set s (tl g) heads) (dict_set s (hd g) iprs) = Inr (heads', iprs')"
    by (auto simp: bindr_eq_Inr)
  have new: "dict_set s (tl g) heads = heads @ [(s, tl g)]" "dict_set s (hd g) iprs = iprs @ [(s, hd g)]"
    using "2.prems"(4) s by (auto intro: dict_set_new)
  have fresh: "\<forall>e\<in>set gs. \<forall>t. ipr_norm (hd (snd e)) = Inr t \<longrightarrow>
      \<not> dict_has t (dict_set s (tl g) heads) \<and> \<not> dict_has t (dict_set s (hd g) iprs)"
  proof (intro ballI allI impI)
    fix e t assume e: "e \<in> set gs" "ipr_norm (hd (snd e)) = Inr t"
    have "Inr s \<notin> (\<lambda>e. ipr_norm (hd (snd e))) ` set gs" using "2.prems"(3) s by simp
    with e have "t \<noteq> s" by (metis image_eqI)
    moreover have "\<not> dict_has t heads \<and> \<not> dict_has t iprs" using "2.prems"(4) e by simp
    ultimately show "\<not> dict_has t (dict_set s (tl g) heads) \<and> \<not> dict_has t (dict_set s (hd g) iprs)"
      by (simp add: new) (simp add: dict_has_def)
  qed
  have "g \<noteq> []" using "2.prems"(2) by simp
  then have g: "mset g = add_mset (hd g) (mset (tl g))" by (cases g) auto
  from "2.IH" [OF rest _ _ fresh] "2.prems"(2,3) show ?case
    by (simp add: new g)
qed simp

text \<open>The grouping by subnet loses no public range and asks for none twice: the heads, the ranges that follow
  them and the ranges queried on their own are the given ranges, when different ranges have different
  addresses. All ranges of a group lie in one network.\<close>

theorem groups_partition:
  assumes "group_pub_iprs_by_subnet rs max_bits = Inr (heads, individual, iprs)"
    "\<forall>x\<in>set rs. \<forall>y\<in>set rs. ipr_norm x = ipr_norm y \<longrightarrow> x = y"
  shows "mset (map snd iprs @ concat (map snd heads) @ individual) = mset rs"
proof -
  from assms(1) obtain gs where g: "group_loop max_bits rs [] [] = Inr (gs, individual)"
    and h: "head_loop gs [] [] = Inr (heads, iprs)"
    by (auto simp: group_pub_iprs_by_subnet_def bindr_eq_Inr)
  have ok: "groups_ok max_bits gs" and ms: "mset (concat (map snd gs)) + mset individual = mset rs"
    using group_loop_ok [OF g] by (simp_all add: groups_ok_def)
  have sub: "hd (snd e) \<in> set rs" if "e \<in> set gs" for e
  proof -
    have "hd (snd e) \<in> set (concat (map snd gs))" using ok that by (force simp: groups_ok_def)
    then show ?thesis using arg_cong [OF ms, of set_mset] by auto
  qed
  have key: "net_key_of max_bits (hd (snd e)) = Inr (Some (fst e))" if "e \<in> set gs" for e
    using ok that by (simp add: groups_ok_def)
  have "inj_on (\<lambda>e. ipr_norm (hd (snd e))) (set gs)"
  proof (rule inj_onI)
    fix x y assume xy: "x \<in> set gs" "y \<in> set gs" "ipr_norm (hd (snd x)) = ipr_norm (hd (snd y))"
    then have "hd (snd x) = hd (snd y)" using assms(2) sub by blast
    then have "fst x = fst y" using key [OF xy(1)] key [OF xy(2)] by simp
    then show "x = y"
      using ok xy(1,2) by (metis groups_ok_def dict_ok_def eq_key_imp_eq_value prod.collapse)
  qed
  moreover have "distinct gs" using ok by (auto simp: groups_ok_def dict_ok_def simp: distinct_map)
  ultimately have "distinct (map (\<lambda>e. ipr_norm (hd (snd e))) gs)" by (simp add: distinct_map)
  from head_loop_spec [OF h _ this] ok ms show ?thesis
    by (simp add: groups_ok_def flip: union_assoc)
qed

text \<open>Sample ranges in a /24 network.\<close>

definition lan_range :: "int \<Rightarrow> IPRange" where
  "lan_range n = (sample_range 0 n)\<lparr>ir_subnet := Some 24\<rparr>"

lemma lan_texts:
  "ipr_norm (lan_range 3221225985) = Inr ''192.0.2.1''"
  "ipr_norm (lan_range 3221225986) = Inr ''192.0.2.2''"
  "ipr_norm (lan_range 3221226241) = Inr ''192.0.3.1''"
  by code_simp+

theorem groups_partition_witness:
  "\<exists>heads iprs. group_pub_iprs_by_subnet [lan_range 3221225985, lan_range 3221226241, lan_range 3221225986] 32 =
       Inr (heads, [], iprs) \<and> map fst heads = [''192.0.2.1'', ''192.0.3.1''] \<and>
     mset (map snd iprs @ concat (map snd heads)) =
       mset [lan_range 3221225985, lan_range 3221226241, lan_range 3221225986]"
proof -
  let ?g = "group_pub_iprs_by_subnet [lan_range 3221225985, lan_range 3221226241, lan_range 3221225986] 32"
  have "case ?g of Inr (h, i, p) \<Rightarrow> i = [] \<and> map fst h = [''192.0.2.1'', ''192.0.3.1''] | Inl _ \<Rightarrow> False"
    by code_simp
  then obtain h p where "?g = Inr (h, [], p)" "map fst h = [''192.0.2.1'', ''192.0.3.1'']"
    by (auto split: sum.splits)
  with groups_partition [OF this(1)] show ?thesis by (simp add: lan_texts)
qed

section \<open>Properties of the discovery\<close>

lemma first_ext_link_locals [simp]: "first_ext (set_link_locals lls r) = first_ext r"
  by (simp add: first_ext_def set_link_locals_def)

lemma assemble_sorted:
  "assemble_routes priv a iface enable dflt priv_src h nic_iprs privs results = Inr rs \<Longrightarrow> sorted (map first_ext rs)"
  by (auto simp: assemble_routes_def bindr_eq_Inr Let_def sort_routes_def split: option.splits if_splits)

text \<open>The routes found for an interface are ordered by their external address, whatever order the lookups
  returned in, and all of them carry the link-local addresses that are returned.\<close>

theorem discover_result:
  assumes "discover_nic_wan_ips priv a enable preferred nic_iprs lookup iface = Inr (rs, lls)"
  shows "sorted (map first_ext rs) \<and> (\<forall>r\<in>set rs. ro_link_locals r = lls)"
proof -
  from assms obtain en d ps h results rs' privs where
    "assemble_routes priv a iface en d ps h nic_iprs privs results = Inr rs'" "rs = map (set_link_locals lls) rs'"
    by (auto simp: discover_nic_wan_ips_def bindr_eq_Inr Let_def)
  with assemble_sorted show ?thesis by (auto simp: comp_def) (simp add: set_link_locals_def)
qed

theorem discover_result_witness:
  "\<exists>rs. discover_nic_wan_ips (\<lambda>_ _. False) IP4 False [] [lan_range 3221226241, lan_range 3221225985]
     (\<lambda>t. Some (fst t, sample_route 0 (if fst t = ''192.0.2.1'' then 3221225985 else 3221226241))) None = Inr (rs, []) \<and>
     length rs = 2 \<and> sorted (map first_ext rs)"
proof -
  let ?d = "discover_nic_wan_ips (\<lambda>_ _. False) IP4 False [] [lan_range 3221226241, lan_range 3221225985]
     (\<lambda>t. Some (fst t, sample_route 0 (if fst t = ''192.0.2.1'' then 3221225985 else 3221226241))) None"
  have "case ?d of Inr (rs, l) \<Rightarrow> length rs = 2 \<and> l = [] | Inl _ \<Rightarrow> False"
    by code_simp
  then obtain rs where "?d = Inr (rs, [])" "length rs = 2" by (auto split: sum.splits)
  with discover_result [OF this(1)] show ?thesis by auto
qed
lemma no_results:
  "derive_followers priv a iface heads [] = Inr []"
  by (induction heads) (auto simp: get_route_by_src_def)

lemma assemble_empty:
  "assemble_routes priv a iface enable dflt priv_src h nic_iprs privs [] = Inr rs \<Longrightarrow> rs = []"
  by (auto simp: assemble_routes_def bindr_eq_Inr get_route_by_src_def exclude_routes_by_src_def Let_def split: if_splits)

text \<open>Without an answer to any lookup the interface has no routes, and over IPv4 its private addresses are kept
  in the place of the link-local ones.\<close>

theorem discover_offline:
  assumes "discover_nic_wan_ips priv a enable preferred nic_iprs (\<lambda>_. None) iface = Inr (rs, lls)"
    "classify nic_iprs = Inr (l, privs, pubs)"
  shows "rs = [] \<and> lls = (if a = IP4 \<and> privs \<noteq> [] then privs else l)"
proof -
  have none: "List.map_filter (\<lambda>r. r) (run_stun_tasks_batched (\<lambda>_. None) tasks) = []" for tasks :: "stun_task list"
    by (simp add: run_batched_map map_filter_def)
  show ?thesis
    using assms by (auto simp: discover_nic_wan_ips_def bindr_eq_Inr none no_results Let_def dest: assemble_empty)
qed

section \<open>Properties of the narrowing\<close>

lemma rp_for_nothing:
  assumes "\<And>r. f r = Inr []" "rp_for priv p f it = Inr xs"
  shows "xs = []"
  using assms(2)
proof (induction "nat (rp_wan_hosts p + 1 - rpi_host_p it)" arbitrary: it xs rule: less_induct)
  case less
  from less.prems consider "xs = []" | r it' where
    "rp_next priv p it = Inr (Some (r, it'))" "rp_for priv p f it' = Inr xs"
    by (subst (asm) rp_for.simps) (auto simp: bindr_eq_Inr assms(1) split: option.splits)
  then show ?case
  proof cases
    case 2
    then show ?thesis using rp_next_moves [OF 2(1)] by (intro less.hyps [OF _ 2(2)]) simp
  qed
qed

text \<open>Given only external IPv4 addresses, narrowing keeps the whole IPv4 pool: no route is limited to them.\<close>

theorem wan_ip_ignored:
  assumes "route_pool_from_ips priv ips rp4 rp6 nic = Inr (p4, p6)" "mapr (\<lambda>ip. IPR priv ip 0) ips = Inr iprs"
    "\<forall>r\<in>set iprs. ir_af r = IP4 \<longrightarrow> \<not> ir_private r"
  shows "p4 = rp4"
proof -
  let ?v4 = "filter (\<lambda>r. ir_af r = IP4) iprs"
  obtain r4 where r4: "v4_route_pool_from_ips priv ?v4 rp4 nic = Inr r4"
    and p4: "(if r4 \<noteq> [] then make_pool priv r4 [] else Inr rp4) = Inr p4"
    using assms(1,2) by (auto simp: route_pool_from_ips_def bindr_eq_Inr Let_def)
  have none: "filter ir_private ?v4 = []" using assms(3) by (auto simp: filter_empty_conv)
  have f: "find_intersect_iprs xs [] = []" for xs by (induction xs) auto
  have "r4 = []"
    using r4 unfolding v4_route_pool_from_ips_def sort_iprs_def none Let_def prod.case rp_each_def f
    by (rule rp_for_nothing [rotated]) simp
  with p4 show ?thesis by simp
qed

lemma rp_for_stop: "rp_wan_hosts p \<le> rpi_host_p it \<Longrightarrow> rp_for priv p f it = Inr []"
  by (subst rp_for.simps) (simp add: rp_next_def)

lemma rp_for_from:
  assumes "pool_ok p" "0 \<le> h" "h < rp_wan_hosts p \<longrightarrow> i = owner p h" "int k = rp_wan_hosts p - h"
  shows "rp_for priv p f \<lparr>rpi_reverse = False, rpi_host_p = h, rpi_route_offset = i\<rparr> =
    bindr (mapr (\<lambda>h. bindr (get_route_info priv p (owner p h) h) f) [h..rp_wan_hosts p - 1]) (\<lambda>xss. Inr (concat xss))"
  using assms(2-4)
proof (induction k arbitrary: h i)
  case (Suc k)
  then have h: "h < rp_wan_hosts p" "i = owner p h" by auto
  define i' where "i' = (if \<not> h + 1 \<ge> rp_len_list p ! i then i else if i < length (rp_routes p) - 1 then i + 1 else i)"
  have n: "rp_next priv p \<lparr>rpi_reverse = False, rpi_host_p = h, rpi_route_offset = i\<rparr> =
      bindr (get_route_info priv p i h) (\<lambda>r. Inr (Some (r, \<lparr>rpi_reverse = False, rpi_host_p = h + 1, rpi_route_offset = i'\<rparr>)))"
    using h(1) by (simp add: rp_next_def Let_def i'_def)
  have "h + 1 < rp_wan_hosts p \<longrightarrow> i' = owner p (h + 1)"
    using owner_Suc [OF assms(1) Suc.prems(1)] by (auto simp: i'_def h(2))
  from Suc.IH [OF _ this] Suc.prems
  have "rp_for priv p f \<lparr>rpi_reverse = False, rpi_host_p = h + 1, rpi_route_offset = i'\<rparr> =
      bindr (mapr (\<lambda>h. bindr (get_route_info priv p (owner p h) h) f) [h + 1..rp_wan_hosts p - 1]) (\<lambda>xss. Inr (concat xss))"
    by simp
  moreover have "[h..rp_wan_hosts p - 1] = h # [h + 1..rp_wan_hosts p - 1]" using h(1) by (simp add: upto_rec1)
  ultimately show ?case
    by (subst rp_for.simps) (simp add: n bindr_assoc, simp add: h(2))
qed (simp add: rp_for_stop)

text \<open>A loop over a pool is a loop over its hosts.\<close>

lemma rp_each_hosts:
  assumes "pool_ok p"
  shows "rp_each priv p f =
    bindr (mapr (\<lambda>h. bindr (host_at priv p h) f) [0..rp_wan_hosts p - 1]) (\<lambda>xss. Inr (concat xss))"
proof -
  have "rp_each priv p f =
      bindr (mapr (\<lambda>h. bindr (get_route_info priv p (owner p h) h) f) [0..rp_wan_hosts p - 1]) (\<lambda>xss. Inr (concat xss))"
    unfolding rp_each_def rp_iter_def if_False
    using pool_ok_start [OF assms] by (intro rp_for_from [OF assms, where k = "nat (rp_wan_hosts p)"]) simp_all
  also have "mapr (\<lambda>h. bindr (get_route_info priv p (owner p h) h) f) [0..rp_wan_hosts p - 1] =
      mapr (\<lambda>h. bindr (host_at priv p h) f) [0..rp_wan_hosts p - 1]"
    by (rule mapr_cong) (simp add: host_at_def get_route_info_owner [OF assms])
  finally show ?thesis .
qed

lemma mapr_concat_mem:
  "mapr f xs = Inr yss \<Longrightarrow> y \<in> set (concat yss) \<Longrightarrow> \<exists>x\<in>set xs. \<exists>ys. f x = Inr ys \<and> y \<in> set ys"
proof (induction xs arbitrary: yss)
  case (Cons x xs)
  then obtain ys zss where "f x = Inr ys" "mapr f xs = Inr zss" "yss = ys # zss" by (auto simp: bindr_eq_Inr)
  with Cons show ?case by (cases "y \<in> set ys") auto
qed simp

lemma find_intersect_iprs_mem:
  "x \<in> set (find_intersect_iprs xs ys) \<longleftrightarrow> x \<in> set xs \<and> (\<exists>y\<in>set ys. ir_eq x y)"
  by (induction xs) auto

lemma make_route_ips:
  "make_route a ns es iface c = Inr r \<Longrightarrow> ro_nic_ips r = ns \<and> ro_ext_ips r = es \<and> bd_af r = a"
  by (auto simp: make_route_def Bind.defs Route.defs bind_init_def split: if_splits)

text \<open>Narrowing the IPv4 pool never invents a route: every route it keeps comes from one host of the pool, uses
  only local ranges of that host that meet a given private address, and keeps the host's external ranges,
  or those of them that meet a given public address.\<close>

theorem narrowed_v4:
  assumes "make_pool priv routes ll = Inr rp" "\<forall>r\<in>set routes. route_ok r"
    "v4_route_pool_from_ips priv iprs rp nic = Inr rs" "r \<in> set rs"
  shows "\<exists>h s. 0 \<le> h \<and> h < rp_wan_hosts rp \<and> host_at priv rp h = Inr s \<and>
    (\<forall>n\<in>set (ro_nic_ips r). n \<in> set (ro_nic_ips s) \<and> (\<exists>g\<in>set iprs. ir_private g \<and> ir_eq n g)) \<and>
    (ro_ext_ips r = ro_ext_ips s \<or>
     (\<forall>e\<in>set (ro_ext_ips r). e \<in> set (ro_ext_ips s) \<and> (\<exists>g\<in>set iprs. ir_public g \<and> ir_eq e g)))"
proof -
  define f :: "Route \<Rightarrow> Route list result" where "f r = (let n = find_intersect_iprs (ro_nic_ips r) (filter ir_private iprs);
        w = find_intersect_iprs (ro_ext_ips r) (filter ir_public iprs) in
        if n = [] then Inr []
        else bindr (make_route IP4 n (if w \<noteq> [] then w else ro_ext_ips r) nic True) (\<lambda>x. Inr [x]))" for r
  have "rp_each priv rp f = Inr rs"
    using assms(3) by (simp add: v4_route_pool_from_ips_def sort_iprs_def f_def [abs_def])
  then obtain rss where rss: "mapr (\<lambda>h. bindr (host_at priv rp h) f) [0..rp_wan_hosts rp - 1] = Inr rss" "rs = concat rss"
    using rp_each_hosts [OF make_pool_ok [OF assms(1,2)], of priv f] by (auto simp: bindr_eq_Inr)
  from mapr_concat_mem [OF rss(1), of r] assms(4) rss(2)
  obtain h ys where "0 \<le> h" "h < rp_wan_hosts rp" "bindr (host_at priv rp h) f = Inr ys" "r \<in> set ys" by auto
  then obtain s where h: "0 \<le> h" "h < rp_wan_hosts rp" "host_at priv rp h = Inr s" "f s = Inr ys" "r \<in> set ys"
    by (auto simp: bindr_eq_Inr)
  then show ?thesis
    by (intro exI [of _ h] exI [of _ s])
      (auto simp: f_def Let_def bindr_eq_Inr find_intersect_iprs_mem split: if_splits dest!: make_route_ips)
qed

end
