(* ===== verification/PipeShim.thy ===== *)
theory PipeShim
  imports Pipe
begin

text \<open>
  \<open>PipeShim\<close> (\<open>net/pcap/tcp/pipe_shim.py\<close>): the surface of a pipe over a userspace connection. A pump task reads
  chunks from the connection and puts them into the queues of the subscriptions, a watcher waits for the end
  of the connection, and \<open>close\<close> stops both and removes the firewall rule. Tasks act one at a time, and \<open>close\<close>
  gives way to the others at each of its awaits; what the connection answers is an argument. The mailbox interface at the end is shared by \<open>PipeClient\<close> and the shim.
\<close>

section \<open>State\<close>

type_synonym shim_msg = "addr option \<times> bytes"

record shim_entry =
  she_sub :: sub
  she_queue :: "shim_msg option list"
  she_handler :: "nat option"

text \<open>A pump task that was never scheduled, that runs, and that has ended.\<close>

datatype pump = PumpNew | PumpRunning | PumpDone

text \<open>How far \<open>close\<close> has come: it waits for the pump that it cancelled, for the connection to close, for the
  watcher that it cancelled, or has returned.\<close>

datatype close_phase = NotClosing | AwaitPump | AwaitConn | AwaitWatcher | CloseDone

record shim =
  sh_client_tup :: "addr option"
  sh_subs :: "(int \<times> shim_entry) list"
  sh_calls :: "(nat \<times> shim_msg) list"
  sh_running :: bool
  sh_closed :: bool
  sh_on_close :: bool
  sh_pump :: pump
  sh_watcher :: bool
  sh_firewall :: bool
  sh_teardowns :: nat
  sh_phase :: close_phase

definition shim_init :: "addr option \<Rightarrow> bool \<Rightarrow> shim" where
  "shim_init client_tup firewall =
     \<lparr>sh_client_tup = client_tup, sh_subs = [], sh_calls = [], sh_running = True, sh_closed = False, sh_on_close = False,
      sh_pump = PumpNew, sh_watcher = True, sh_firewall = firewall, sh_teardowns = 0, sh_phase = NotClosing\<rparr>"

definition SHIM_QSIZE :: nat where
  "SHIM_QSIZE = 100"

section \<open>Subscriptions\<close>

definition sub_or_all :: "sub option \<Rightarrow> sub" where
  "sub_or_all s = (case s of None \<Rightarrow> SUB_ALL | Some x \<Rightarrow> x)"

definition shim_subscribe :: "pipe_env \<Rightarrow> sub option \<Rightarrow> nat option \<Rightarrow> shim \<Rightarrow> int \<times> shim" where
  "shim_subscribe env s handler sh =
     (let k = hash_sub env (sub_or_all s) in
      (k, if dict_has k (sh_subs sh) then sh
          else sh\<lparr>sh_subs := dict_set k \<lparr>she_sub = sub_or_all s, she_queue = [], she_handler = handler\<rparr> (sh_subs sh)\<rparr>))"

definition shim_unsubscribe :: "pipe_env \<Rightarrow> sub \<Rightarrow> shim \<Rightarrow> shim" where
  "shim_unsubscribe env s sh =
     (let k = hash_sub env s in if dict_has k (sh_subs sh) then sh\<lparr>sh_subs := dict_del k (sh_subs sh)\<rparr> else sh)"

section \<open>Sending and receiving\<close>

definition shim_send :: "int result \<Rightarrow> shim \<Rightarrow> int" where
  "shim_send answer sh =
     (if sh_closed sh \<or> \<not> sh_running sh then 0 else case answer of Inl e \<Rightarrow> 0 | Inr n \<Rightarrow> n)"

definition shim_timeout :: "rat option \<Rightarrow> rat" where
  "shim_timeout timeout = (case timeout of Some t \<Rightarrow> t | None \<Rightarrow> 2)"

text \<open>An empty queue is a timeout; the item None is the close marker.\<close>

definition shim_take :: "int \<Rightarrow> shim \<Rightarrow> shim_msg option \<times> shim" where
  "shim_take k sh =
     (case map_of (sh_subs sh) k of
        None \<Rightarrow> (None, sh)
      | Some e \<Rightarrow>
          (case she_queue e of
             [] \<Rightarrow> (None, sh)
           | item # q \<Rightarrow> (item, sh\<lparr>sh_subs := dict_set k (e\<lparr>she_queue := q\<rparr>) (sh_subs sh)\<rparr>)))"

definition shim_recv :: "pipe_env \<Rightarrow> sub option \<Rightarrow> shim \<Rightarrow> shim_msg option \<times> shim" where
  "shim_recv env s sh =
     (let k = hash_sub env (sub_or_all s) in
      shim_take k (if dict_has k (sh_subs sh) then sh else snd (shim_subscribe env (Some (sub_or_all s)) None sh)))"

text \<open>The loop of \<open>recv_n\<close>, on the queue it reads.\<close>

fun shim_recv_n :: "nat \<Rightarrow> bytes \<Rightarrow> shim_msg option list \<Rightarrow> bytes \<times> shim_msg option list" where
  "shim_recv_n n buf [] = (buf, [])"
| "shim_recv_n n buf (x # q) =
     (if length buf < n then (case x of None \<Rightarrow> (buf, q) | Some m \<Rightarrow> shim_recv_n n (buf @ snd m) q) else (buf, x # q))"

section \<open>The pump\<close>

text \<open>A search that raises matches nothing.\<close>

definition shim_matches :: "pipe_env \<Rightarrow> sub \<Rightarrow> addr option \<Rightarrow> bytes \<Rightarrow> bool" where
  "shim_matches env s client_tup data =
     ((case (snd s, client_tup) of
         (Some t, Some c) \<Rightarrow> if snd t \<noteq> 0 then t = c else fst t = fst c
       | _ \<Rightarrow> True) \<and>
      (case fst s of None \<Rightarrow> True | Some p \<Rightarrow> p = [] \<or> env_findall env p data = Inr True))"

definition shim_add :: "pipe_env \<Rightarrow> addr option \<Rightarrow> bytes \<Rightarrow> shim_entry \<Rightarrow> shim_entry" where
  "shim_add env client_tup data e =
     (if shim_matches env (she_sub e) client_tup data \<and> she_handler e = None
      then e\<lparr>she_queue := do_add SHIM_QSIZE (Some (client_tup, data)) (she_queue e)\<rparr> else e)"

definition shim_handler_calls :: "pipe_env \<Rightarrow> addr option \<Rightarrow> bytes \<Rightarrow> shim_entry \<Rightarrow> (nat \<times> shim_msg) list" where
  "shim_handler_calls env client_tup data e =
     (case she_handler e of
        Some h \<Rightarrow> if shim_matches env (she_sub e) client_tup data then [(h, client_tup, data)] else []
      | None \<Rightarrow> [])"

definition dispatch :: "pipe_env \<Rightarrow> bytes \<Rightarrow> shim \<Rightarrow> shim" where
  "dispatch env data sh =
     (if sh_subs sh = [] then sh
      else sh\<lparr>sh_subs := map (\<lambda>(k, e). (k, shim_add env (sh_client_tup sh) data e)) (sh_subs sh),
             sh_calls := sh_calls sh @ concat (map (\<lambda>(k, e). shim_handler_calls env (sh_client_tup sh) data e) (sh_subs sh))\<rparr>)"

definition broadcast_close_sentinel :: "shim \<Rightarrow> shim" where
  "broadcast_close_sentinel sh =
     sh\<lparr>sh_subs := map (\<lambda>(k, e). (k, e\<lparr>she_queue := do_add SHIM_QSIZE None (she_queue e)\<rparr>)) (sh_subs sh)\<rparr>"

text \<open>One round of \<open>pump_loop\<close>, with what the connection answers. A pump that \<open>close\<close> cancelled ends instead, and
  runs its \<open>finally\<close> only when it had started.\<close>

definition pump_step :: "pipe_env \<Rightarrow> bytes result \<Rightarrow> shim \<Rightarrow> shim" where
  "pump_step env answer sh =
     (if sh_pump sh \<notin> {PumpNew, PumpRunning} then sh
      else if sh_closed sh
        then (if sh_pump sh = PumpRunning then broadcast_close_sentinel (sh\<lparr>sh_pump := PumpDone\<rparr>)
              else sh\<lparr>sh_pump := PumpDone\<rparr>)
      else (case answer of
              Inl e \<Rightarrow> broadcast_close_sentinel (sh\<lparr>sh_pump := PumpDone\<rparr>)
            | Inr data \<Rightarrow>
                if data = [] then broadcast_close_sentinel (sh\<lparr>sh_pump := PumpDone\<rparr>)
                else dispatch env data (sh\<lparr>sh_pump := PumpRunning\<rparr>)))"

section \<open>Closing\<close>

definition close_watcher :: "shim \<Rightarrow> shim" where
  "close_watcher sh = (if sh_watcher sh then sh\<lparr>sh_on_close := True, sh_running := False, sh_watcher := False\<rparr> else sh)"

definition teardown :: "shim \<Rightarrow> shim" where
  "teardown sh = (if sh_firewall sh then sh\<lparr>sh_firewall := False, sh_teardowns := sh_teardowns sh + 1\<rparr> else sh)"

datatype close_outcome = CloseOk | CloseRaised | CloseCancelled

definition close_finish :: "shim \<Rightarrow> shim" where
  "close_finish sh = (teardown ((broadcast_close_sentinel sh)\<lparr>sh_on_close := True\<rparr>))\<lparr>sh_phase := CloseDone\<rparr>"

text \<open>The call of \<open>close\<close>, up to its first await: it cancels the pump.\<close>

definition shim_close :: "shim \<Rightarrow> shim" where
  "shim_close sh =
     (if sh_closed sh then sh else sh\<lparr>sh_closed := True, sh_running := False, sh_phase := AwaitPump\<rparr>)"

text \<open>\<open>close\<close> goes on when what it awaits is done; the argument is how \<open>connection.close\<close> ended.\<close>

definition close_resume :: "close_outcome \<Rightarrow> shim \<Rightarrow> shim" where
  "close_resume out sh =
     (case sh_phase sh of
        AwaitPump \<Rightarrow> if sh_pump sh = PumpDone then sh\<lparr>sh_phase := AwaitConn\<rparr> else sh
      | AwaitConn \<Rightarrow>
          if out = CloseCancelled then close_finish sh
          else if sh_watcher sh then sh\<lparr>sh_phase := AwaitWatcher\<rparr>
          else close_finish sh
      | AwaitWatcher \<Rightarrow> if sh_watcher sh then sh else close_finish sh
      | _ \<Rightarrow> sh)"

section \<open>The shim as a machine\<close>

datatype shim_event =
    ShSubscribe "sub option" "nat option"
  | ShUnsubscribe sub
  | ShRecv "sub option"
  | ShPump "bytes result"
  | ShWatcher
  | ShClose
  | ShResume close_outcome

fun shim_do :: "pipe_env \<Rightarrow> shim_event \<Rightarrow> shim \<Rightarrow> shim" where
  "shim_do env (ShSubscribe s h) sh = snd (shim_subscribe env s h sh)"
| "shim_do env (ShUnsubscribe s) sh = shim_unsubscribe env s sh"
| "shim_do env (ShRecv s) sh = snd (shim_recv env s sh)"
| "shim_do env (ShPump a) sh = pump_step env a sh"
| "shim_do env ShWatcher sh = close_watcher sh"
| "shim_do env ShClose sh = shim_close sh"
| "shim_do env (ShResume out) sh = close_resume out sh"

inductive shim_reach :: "pipe_env \<Rightarrow> addr option \<Rightarrow> bool \<Rightarrow> shim \<Rightarrow> bool"
  for env client_tup firewall where
  init: "shim_reach env client_tup firewall (shim_init client_tup firewall)"
| step: "shim_reach env client_tup firewall sh \<Longrightarrow> shim_reach env client_tup firewall (shim_do env e sh)"

text \<open>No queue is over its bound; the firewall rule is removed once, and only when \<open>close\<close> ends; from the call of
  \<open>close\<close> on nothing is sent, once it no longer waits for the pump the pump has ended, and when it has ended the
  close event is set.\<close>

definition shim_inv :: "bool \<Rightarrow> shim \<Rightarrow> bool" where
  "shim_inv firewall sh \<longleftrightarrow>
     dict_ok (sh_subs sh) \<and> (\<forall>e\<in>set (sh_subs sh). length (she_queue (snd e)) \<le> SHIM_QSIZE) \<and>
     sh_teardowns sh = (if firewall \<and> sh_phase sh = CloseDone then 1 else 0) \<and>
     (sh_firewall sh \<longleftrightarrow> firewall \<and> sh_phase sh \<noteq> CloseDone) \<and> (sh_closed sh \<longleftrightarrow> sh_phase sh \<noteq> NotClosing) \<and>
     (sh_closed sh \<longrightarrow> \<not> sh_running sh) \<and> (sh_phase sh = CloseDone \<longrightarrow> sh_on_close sh) \<and>
     (sh_phase sh \<in> {AwaitConn, AwaitWatcher, CloseDone} \<longrightarrow> sh_pump sh = PumpDone) \<and>
     (\<not> sh_closed sh \<longrightarrow> sh_running sh = sh_watcher sh) \<and>
     (sh_phase sh \<noteq> CloseDone \<longrightarrow> sh_on_close sh = (\<not> sh_watcher sh))"

section \<open>The invariant\<close>

lemma length_do_add: "length q \<le> b \<Longrightarrow> 0 < b \<Longrightarrow> length (do_add b x q) \<le> b"
  by (auto simp: do_add_def)

lemma shim_qsize_pos [simp]: "0 < SHIM_QSIZE"
  by (simp add: SHIM_QSIZE_def)

definition queues_ok :: "(int \<times> shim_entry) list \<Rightarrow> bool" where
  "queues_ok d \<longleftrightarrow> dict_ok d \<and> (\<forall>e\<in>set d. length (she_queue (snd e)) \<le> SHIM_QSIZE)"

lemma queues_ok_set: "queues_ok d \<Longrightarrow> length (she_queue v) \<le> SHIM_QSIZE \<Longrightarrow> queues_ok (dict_set k v d)"
  using set_dict_set [of k v d] by (fastforce simp: queues_ok_def)

lemma queues_ok_del: "queues_ok d \<Longrightarrow> queues_ok (dict_del k d)"
  by (auto simp: queues_ok_def dict_del_def)

lemma queues_ok_map:
  "queues_ok d \<Longrightarrow> (\<And>e. length (she_queue e) \<le> SHIM_QSIZE \<Longrightarrow> length (she_queue (f e)) \<le> SHIM_QSIZE) \<Longrightarrow>
   queues_ok (map (\<lambda>(k, e). (k, f e)) d)"
  by (auto simp: queues_ok_def dict_ok_def comp_def case_prod_beta)

lemma queues_ok_entry: "queues_ok d \<Longrightarrow> map_of d k = Some e \<Longrightarrow> length (she_queue e) \<le> SHIM_QSIZE"
  by (force simp: queues_ok_def dest: map_of_SomeD)

text \<open>What the operations do to the flags is read off their definitions; the queues are the invariant's own part.\<close>

definition flags_ok :: "bool \<Rightarrow> shim \<Rightarrow> bool" where
  "flags_ok firewall sh \<longleftrightarrow>
     sh_teardowns sh = (if firewall \<and> sh_phase sh = CloseDone then 1 else 0) \<and>
     (sh_firewall sh \<longleftrightarrow> firewall \<and> sh_phase sh \<noteq> CloseDone) \<and> (sh_closed sh \<longleftrightarrow> sh_phase sh \<noteq> NotClosing) \<and>
     (sh_closed sh \<longrightarrow> \<not> sh_running sh) \<and> (sh_phase sh = CloseDone \<longrightarrow> sh_on_close sh) \<and>
     (sh_phase sh \<in> {AwaitConn, AwaitWatcher, CloseDone} \<longrightarrow> sh_pump sh = PumpDone) \<and>
     (\<not> sh_closed sh \<longrightarrow> sh_running sh = sh_watcher sh) \<and>
     (sh_phase sh \<noteq> CloseDone \<longrightarrow> sh_on_close sh = (\<not> sh_watcher sh))"

lemma shim_inv_parts: "shim_inv firewall sh \<longleftrightarrow> queues_ok (sh_subs sh) \<and> flags_ok firewall sh"
  by (auto simp: shim_inv_def queues_ok_def flags_ok_def)

lemma queues_subscribe: "queues_ok (sh_subs sh) \<Longrightarrow> queues_ok (sh_subs (snd (shim_subscribe env s h sh)))"
  by (simp add: shim_subscribe_def Let_def queues_ok_set)

lemma queues_take: "queues_ok (sh_subs sh) \<Longrightarrow> queues_ok (sh_subs (snd (shim_take k sh)))"
  using queues_ok_entry [of "sh_subs sh" k]
  by (auto simp: shim_take_def intro!: queues_ok_set split: option.split list.split)

lemma queues_recv: "queues_ok (sh_subs sh) \<Longrightarrow> queues_ok (sh_subs (snd (shim_recv env s sh)))"
  by (simp add: shim_recv_def Let_def queues_take queues_subscribe)

lemma queues_broadcast: "queues_ok (sh_subs sh) \<Longrightarrow> queues_ok (sh_subs (broadcast_close_sentinel sh))"
  by (simp add: broadcast_close_sentinel_def) (rule queues_ok_map, simp_all add: length_do_add)

lemma queues_dispatch: "queues_ok (sh_subs sh) \<Longrightarrow> queues_ok (sh_subs (dispatch env data sh))"
  by (cases "sh_subs sh = []")
    (auto simp: dispatch_def shim_add_def length_do_add intro!: queues_ok_map)

lemma queues_pump: "queues_ok (sh_subs sh) \<Longrightarrow> queues_ok (sh_subs (pump_step env a sh))"
  by (simp add: pump_step_def queues_broadcast queues_dispatch split: sum.split)

lemma queues_finish: "queues_ok (sh_subs sh) \<Longrightarrow> queues_ok (sh_subs (close_finish sh))"
  by (simp add: close_finish_def teardown_def queues_broadcast)

lemma queues_close:
  "queues_ok (sh_subs sh) \<Longrightarrow> queues_ok (sh_subs (shim_close sh))"
  "queues_ok (sh_subs sh) \<Longrightarrow> queues_ok (sh_subs (close_resume out sh))"
  by (simp_all add: shim_close_def close_resume_def queues_finish split: close_phase.split)

lemma queues_do: "queues_ok (sh_subs sh) \<Longrightarrow> queues_ok (sh_subs (shim_do env e sh))"
  by (cases e) (simp_all add: queues_subscribe queues_recv queues_pump queues_close shim_unsubscribe_def close_watcher_def
      queues_ok_del Let_def)

lemmas shim_flag_defs = shim_subscribe_def shim_unsubscribe_def pump_step_def dispatch_def
  broadcast_close_sentinel_def close_watcher_def shim_close_def teardown_def close_resume_def close_finish_def flags_ok_def Let_def

lemma flags_subs: "flags_ok firewall (sh\<lparr>sh_subs := d\<rparr>) = flags_ok firewall sh"
  by (simp add: flags_ok_def)

lemma flags_take: "flags_ok firewall (snd (shim_take k sh)) = flags_ok firewall sh"
  by (simp add: shim_take_def flags_subs split: option.split list.split)

lemma flags_subscribe: "flags_ok firewall (snd (shim_subscribe env s h sh)) = flags_ok firewall sh"
  by (simp add: shim_subscribe_def flags_subs Let_def)

lemma flags_recv: "flags_ok firewall (snd (shim_recv env s sh)) = flags_ok firewall sh"
  by (simp add: shim_recv_def Let_def flags_take flags_subscribe)

lemma flags_do: "flags_ok firewall sh \<Longrightarrow> flags_ok firewall (shim_do env e sh)"
proof (cases e)
  case (ShPump a)
  then show "flags_ok firewall sh \<Longrightarrow> flags_ok firewall (shim_do env e sh)"
    by (cases a) (auto simp: shim_flag_defs)
next
  case (ShRecv s)
  then show "flags_ok firewall sh \<Longrightarrow> flags_ok firewall (shim_do env e sh)" by (simp add: flags_recv)
next
  case (ShResume out)
  then show "flags_ok firewall sh \<Longrightarrow> flags_ok firewall (shim_do env e sh)"
    by (cases "sh_phase sh") (auto simp: shim_flag_defs)
qed (auto simp: shim_flag_defs)

text \<open>C20. In every state that a shim can reach, also while \<open>close\<close> waits, its queues hold at most a hundred items
  each. The firewall rule that was given to it is in place until \<open>close\<close> ends, is removed then, and never twice.
  From the call of \<open>close\<close> on the shim does not run; its pump has ended once \<open>close\<close> goes on to the connection; and
  when \<open>close\<close> has ended the close event is set.\<close>

theorem shim_invariant: "shim_reach env client_tup firewall sh \<Longrightarrow> shim_inv firewall sh"
  unfolding shim_inv_parts
proof (induction rule: shim_reach.induct)
  case init
  show ?case by (simp add: shim_init_def queues_ok_def flags_ok_def)
next
  case (step sh e)
  then show ?case by (simp add: queues_do flags_do)
qed

theorem shim_invariant_witness:
  "\<exists>sh sh'. shim_reach env0 None True sh \<and> sh_closed sh \<and> sh_firewall sh \<and> sh_teardowns sh = 0 \<and>
    shim_reach env0 None True sh' \<and> sh_phase sh' = CloseDone \<and> sh_teardowns sh' = 1"
proof -
  let ?sh = "shim_do env0 ShClose (shim_do env0 (ShPump (Inr [1])) (shim_init None True))"
  let ?sh' = "shim_do env0 (ShResume CloseCancelled) (shim_do env0 (ShResume CloseOk) (shim_do env0 (ShPump (Inr [])) ?sh))"
  have r: "shim_reach env0 None True ?sh" "shim_reach env0 None True ?sh'" by (intro shim_reach.intros)+
  have "sh_closed ?sh" "sh_phase ?sh = AwaitPump" "sh_phase ?sh' = CloseDone"
    by (simp_all add: shim_flag_defs shim_init_def)
  with shim_invariant [OF r(1)] shim_invariant [OF r(2)] r show ?thesis
    unfolding shim_inv_def by (intro exI [of _ ?sh] exI [of _ ?sh']) simp
qed

text \<open>A call of \<open>close\<close> can always end: when the pump, the connection and the watcher do what it awaits.\<close>

theorem shim_close_ends:
  assumes "flags_ok firewall sh"
  shows "sh_phase (foldl (\<lambda>sh e. shim_do env e sh) sh
    [ShClose, ShPump a, ShResume out, ShResume out, ShWatcher, ShResume out]) = CloseDone"
  using assms by (cases "sh_phase sh"; cases "sh_pump sh"; cases "sh_watcher sh"; cases out) (auto simp: shim_flag_defs)

section \<open>The mailbox interface\<close>

text \<open>Chunks arrive at and are taken from a state: what is taken, and the state.\<close>

fun mail_run :: "('m \<Rightarrow> 's \<Rightarrow> 's) \<Rightarrow> ('s \<Rightarrow> 'm option \<times> 's) \<Rightarrow> 'm option list \<Rightarrow> 's \<Rightarrow> 'm list \<times> 's" where
  "mail_run arrive take_one [] s = ([], s)"
| "mail_run arrive take_one (Some m # os) s = mail_run arrive take_one os (arrive m s)"
| "mail_run arrive take_one (None # os) s =
     (case take_one s of
        (None, s') \<Rightarrow> mail_run arrive take_one os s'
      | (Some m, s') \<Rightarrow> (case mail_run arrive take_one os s' of (ms, s'') \<Rightarrow> (m # ms, s'')))"

lemma mbox_lossless:
  "length q + length (arrived os) \<le> b \<Longrightarrow> fst (mbox_run b os q) @ snd (mbox_run b os q) = q @ arrived os"
  by (induction b os q rule: mbox_run.induct) (auto simp: do_add_def split: prod.splits)

locale mailbox =
  fixes arrive :: "'m \<Rightarrow> 's \<Rightarrow> 's"
    and take_one :: "'s \<Rightarrow> 'm option \<times> 's"
    and holds :: "'s \<Rightarrow> 'm list \<Rightarrow> bool"
    and bound :: nat
  assumes arrive_holds: "holds s q \<Longrightarrow> holds (arrive m s) (do_add bound m q)"
    and take_empty: "holds s [] \<Longrightarrow> fst (take_one s) = None \<and> holds (snd (take_one s)) []"
    and take_first: "holds s (m # q) \<Longrightarrow> fst (take_one s) = Some m \<and> holds (snd (take_one s)) q"
begin

lemma run_mbox:
  "holds s q \<Longrightarrow> fst (mail_run arrive take_one os s) = fst (mbox_run bound os q) \<and>
   holds (snd (mail_run arrive take_one os s)) (snd (mbox_run bound os q))"
proof (induction os arbitrary: s q)
  case (Cons x os)
  show ?case
  proof (cases x)
    case None
    show ?thesis
    proof (cases q)
      case Nil
      then show ?thesis
        using None Cons take_empty [of s] by (cases "take_one s") auto
    next
      case (Cons m q')
      then show ?thesis
        using None Cons.prems Cons.IH [of "snd (take_one s)" q'] take_first [of s m q']
        by (cases "take_one s") (auto split: prod.split)
    qed
  next
    case (Some m)
    then show ?thesis using Cons arrive_holds by auto
  qed
qed simp

text \<open>While the bound is not reached nothing is lost.\<close>

lemma run_lossless:
  assumes "holds s q" "length q + length (arrived os) \<le> bound"
  shows "\<exists>rest. holds (snd (mail_run arrive take_one os s)) rest \<and>
    fst (mail_run arrive take_one os s) @ rest = q @ arrived os"
  using run_mbox [OF assms(1), of os] mbox_lossless [OF assms(2)] by auto

end

subsection \<open>The shim as a mailbox\<close>

text \<open>A chunk that the connection delivers is not empty: its first byte and the others.\<close>

type_synonym chunk = "byte \<times> bytes"

definition chunk_bytes :: "chunk \<Rightarrow> bytes" where
  "chunk_bytes c = fst c # snd c"

definition bytes_chunk :: "bytes \<Rightarrow> chunk" where
  "bytes_chunk b = (hd b, tl b)"

lemma bytes_chunk_bytes [simp]: "bytes_chunk (chunk_bytes c) = c" "chunk_bytes c \<noteq> []"
  by (simp_all add: bytes_chunk_def chunk_bytes_def)

definition shim_arrive :: "pipe_env \<Rightarrow> chunk \<Rightarrow> shim \<Rightarrow> shim" where
  "shim_arrive env c sh = pump_step env (Inr (chunk_bytes c)) sh"

definition shim_get :: "pipe_env \<Rightarrow> shim \<Rightarrow> chunk option \<times> shim" where
  "shim_get env sh = (case shim_recv env None sh of (m, sh') \<Rightarrow> (map_option (\<lambda>x. bytes_chunk (snd x)) m, sh'))"

text \<open>A shim that is open and whose subscription to everything holds the given chunks.\<close>

definition shim_holds :: "pipe_env \<Rightarrow> shim \<Rightarrow> chunk list \<Rightarrow> bool" where
  "shim_holds env sh q \<longleftrightarrow>
     \<not> sh_closed sh \<and> sh_pump sh \<in> {PumpNew, PumpRunning} \<and>
     map_of (sh_subs sh) (hash_sub env SUB_ALL) =
       Some \<lparr>she_sub = SUB_ALL, she_queue = map (\<lambda>c. Some (sh_client_tup sh, chunk_bytes c)) q, she_handler = None\<rparr>"

lemma do_add_mapped: "do_add b (f x) (map f q) = map f (do_add b x q)"
  by (simp add: do_add_def map_tl)

lemma shim_add_all:
  "shim_add env t (chunk_bytes c) \<lparr>she_sub = SUB_ALL, she_queue = map (\<lambda>c. Some (t, chunk_bytes c)) q, she_handler = None\<rparr> =
   \<lparr>she_sub = SUB_ALL, she_queue = map (\<lambda>c. Some (t, chunk_bytes c)) (do_add SHIM_QSIZE c q), she_handler = None\<rparr>"
  using do_add_mapped [of SHIM_QSIZE "\<lambda>c. Some (t, chunk_bytes c)" c q]
  by (simp add: shim_add_def shim_matches_def SUB_ALL_def)

lemma map_of_map_entries: "map_of (map (\<lambda>(k, e). (k, f e)) l) k = map_option f (map_of l k)"
  by (induction l) auto

lemma shim_arrive_holds:
  assumes "shim_holds env sh q"
  shows "shim_holds env (shim_arrive env c sh) (do_add SHIM_QSIZE c q)"
proof -
  have "sh_subs sh \<noteq> []" using assms by (auto simp: shim_holds_def)
  with assms show ?thesis
    by (auto simp: shim_holds_def shim_arrive_def pump_step_def dispatch_def map_of_map_entries shim_add_all)
qed

interpretation shim_mail: mailbox "shim_arrive env" "shim_get env" "shim_holds env" SHIM_QSIZE
proof unfold_locales
  fix sh q m
  assume h: "shim_holds env sh q"
  then show "shim_holds env (shim_arrive env m sh) (do_add SHIM_QSIZE m q)" by (rule shim_arrive_holds)
next
  fix sh
  assume h: "shim_holds env sh []"
  then have "dict_has (hash_sub env SUB_ALL) (sh_subs sh)" by (simp add: shim_holds_def dict_has_map_of)
  with h show "fst (shim_get env sh) = None \<and> shim_holds env (snd (shim_get env sh)) []"
    by (simp add: shim_get_def shim_recv_def shim_take_def sub_or_all_def shim_holds_def)
next
  fix sh m q
  assume h: "shim_holds env sh (m # q)"
  then have "dict_has (hash_sub env SUB_ALL) (sh_subs sh)" by (simp add: shim_holds_def dict_has_map_of)
  with h show "fst (shim_get env sh) = Some m \<and> shim_holds env (snd (shim_get env sh)) q"
    by (simp add: shim_get_def shim_recv_def shim_take_def sub_or_all_def shim_holds_def Let_def)
qed

subsection \<open>The client of a pipe as a mailbox\<close>

definition client_arrive :: "pipe_env \<Rightarrow> addr \<Rightarrow> bytes \<Rightarrow> pipe_client \<Rightarrow> pipe_client" where
  "client_arrive env t d c = snd (add_msg env d t c)"

definition client_get :: "pipe_env \<Rightarrow> pipe_client \<Rightarrow> bytes option \<times> pipe_client" where
  "client_get env c = (case recv env SUB_ALL c of Inl e \<Rightarrow> (None, c) | Inr (m, c') \<Rightarrow> (map_option snd m, c'))"

definition client_holds :: "pipe_env \<Rightarrow> addr \<Rightarrow> pipe_client \<Rightarrow> bytes list \<Rightarrow> bool" where
  "client_holds env t c q \<longleftrightarrow> norm_client_tup t = Inr t \<and> patterns_ok env c \<and> open_sub env SUB_ALL c (map (Pair t) q)"

interpretation client_mail: mailbox "client_arrive env t" "client_get env" "client_holds env t" "env_max_qsize env"
proof unfold_locales
  fix c q d
  assume h: "client_holds env t c q"
  then have "open_sub env SUB_ALL c (map (Pair t) q)" "norm_client_tup t = Inr t" "patterns_ok env c"
    by (simp_all add: client_holds_def)
  with add_msg_open [OF this(1,3), where t = t and d = d] patterns_ok_add [OF this(3), of d t]
  show "client_holds env t (client_arrive env t d c) (do_add (env_max_qsize env) d q)"
    by (auto simp: client_holds_def client_arrive_def wants_def SUB_ALL_def do_add_mapped [symmetric])
next
  fix c
  assume "client_holds env t c []"
  then show "fst (client_get env c) = None \<and> client_holds env t (snd (client_get env c)) []"
    using recv_open [of env SUB_ALL c "[]"] by (simp add: client_holds_def client_get_def)
next
  fix c m q
  assume "client_holds env t c (m # q)"
  then show "fst (client_get env c) = Some m \<and> client_holds env t (snd (client_get env c)) q"
    using recv_open [of env SUB_ALL c "map (Pair t) (m # q)"] patterns_ok_recv [of env c SUB_ALL]
    by (auto simp: client_holds_def client_get_def)
qed

section \<open>Properties\<close>

lemma shim_subscribed:
  "shim_holds env (snd (shim_subscribe env None None (shim_init client_tup firewall))) []"
  by (simp add: shim_holds_def shim_subscribe_def shim_init_def sub_or_all_def Let_def)

text \<open>C14. On a fresh shim a subscription to everything delivers the byte stream of the connection: with at most a
  hundred chunks, in whatever order chunks arrive and the application reads, what it has read followed by
  what is queued is what the connection delivered, in order and without loss.\<close>

theorem shim_delivers_stream:
  assumes "length (arrived os) \<le> SHIM_QSIZE"
  shows "\<exists>got sh rest. mail_run (shim_arrive env) (shim_get env) os
      (snd (shim_subscribe env None None (shim_init client_tup firewall))) = (got, sh) \<and>
    shim_holds env sh rest \<and>
    concat (map chunk_bytes got) @ concat (map chunk_bytes rest) = concat (map chunk_bytes (arrived os))"
proof -
  define sh0 where "sh0 = snd (shim_subscribe env None None (shim_init client_tup firewall))"
  have "\<exists>rest. shim_holds env (snd (mail_run (shim_arrive env) (shim_get env) os sh0)) rest \<and>
      fst (mail_run (shim_arrive env) (shim_get env) os sh0) @ rest = [] @ arrived os"
    using assms shim_subscribed by (intro shim_mail.run_lossless) (simp_all add: sh0_def)
  then obtain rest where r: "shim_holds env (snd (mail_run (shim_arrive env) (shim_get env) os sh0)) rest"
    "fst (mail_run (shim_arrive env) (shim_get env) os sh0) @ rest = arrived os" by auto
  have "concat (map chunk_bytes (fst (mail_run (shim_arrive env) (shim_get env) os sh0))) @ concat (map chunk_bytes rest) =
      concat (map chunk_bytes (arrived os))"
    by (simp flip: r(2))
  with r(1) show ?thesis unfolding sh0_def by (metis prod.collapse)
qed

theorem shim_delivers_stream_witness:
  "\<exists>got sh rest. mail_run (shim_arrive env0) (shim_get env0) [Some (7, [8]), None, Some (9, [])]
      (snd (shim_subscribe env0 None None (shim_init None True))) = (got, sh) \<and> shim_holds env0 sh rest \<and>
    concat (map chunk_bytes got) @ concat (map chunk_bytes rest) = [7, 8, 9]"
  using shim_delivers_stream [of "[Some (7, [8]), None, Some (9, [])]" env0 None True]
  by (simp add: SHIM_QSIZE_def chunk_bytes_def)

lemma last_do_add: "last (do_add b x q) = x" "do_add b x q \<noteq> []"
  by (simp_all add: do_add_def)

text \<open>When \<open>close\<close> ends, the close marker is the last item of every queue, so a reader that waits on any subscription
  wakes up.\<close>

theorem shim_close_wakes:
  assumes "sh_phase sh \<noteq> CloseDone" "sh_phase (close_resume out sh) = CloseDone"
    "(k, e) \<in> set (sh_subs (close_resume out sh))"
  shows "she_queue e \<noteq> [] \<and> last (she_queue e) = None"
proof -
  have "close_resume out sh = close_finish sh"
    using assms(1,2) by (auto simp: close_resume_def split: close_phase.splits if_splits)
  with assms(3) show ?thesis
    by (auto simp: close_finish_def teardown_def broadcast_close_sentinel_def last_do_add split: if_splits)
qed

subsection \<open>Routing as in PipeClient\<close>

definition abs_entry :: "shim_entry \<Rightarrow> sub_entry" where
  "abs_entry e =
     \<lparr>se_sub = she_sub e, se_queue = map (map_option (\<lambda>(t, d). (the t, d))) (she_queue e), se_handler = she_handler e\<rparr>"

definition abs_client :: "shim \<Rightarrow> pipe_client" where
  "abs_client sh =
     \<lparr>pc_subs = map (\<lambda>(k, e). (k, abs_entry e)) (sh_subs sh), pc_calls = map (\<lambda>(h, t, d). (h, the t, d)) (sh_calls sh)\<rparr>"

lemma shim_wants: "shim_matches env s (Some t) d = wants env s (t, d)"
  by (cases t) (auto simp: shim_matches_def wants_def split: option.split)

lemma abs_add:
  assumes "env_max_qsize env = SHIM_QSIZE"
  shows "abs_entry (shim_add env (Some t) d e) =
    (if wants env (se_sub (abs_entry e)) (t, d) then add_entry env (t, d) (abs_entry e) else abs_entry e)"
  unfolding abs_entry_def shim_add_def add_entry_def shim_wants
  by (simp add: assms do_add_def map_tl)

lemma abs_calls:
  "map (\<lambda>(h, t, d). (h, the t, d)) (shim_handler_calls env (Some t) d e) =
    (if wants env (se_sub (abs_entry e)) (t, d) then handler_calls (t, d) (abs_entry e) else [])"
  by (simp add: abs_entry_def shim_handler_calls_def handler_calls_def shim_wants split: option.split)

text \<open>For a peer whose address is in normal form, and while no pattern makes the search raise, a chunk is routed as
  \<open>PipeClient.add_msg\<close> would route it if its queues were bounded by a hundred items, too (with the default
  configuration they are not bounded).\<close>

theorem dispatch_as_add_msg:
  assumes "sh_client_tup sh = Some t" "norm_client_tup t = Inr t" "env_max_qsize env = SHIM_QSIZE"
    "patterns_ok env (abs_client sh)"
  shows "add_msg env data t (abs_client sh) = (None, abs_client (dispatch env data sh))"
proof (cases "sh_subs sh = []")
  case True
  then show ?thesis by (simp add: add_msg_def abs_client_def dispatch_def)
next
  case False
  have "map (\<lambda>(h, t, d). (h, the t, d)) (concat (map (\<lambda>(k, e). shim_handler_calls env (Some t) data e) l)) =
      concat (map (\<lambda>(k, e). if wants env (se_sub e) (t, data) then handler_calls (t, data) e else [])
        (map (\<lambda>(k, e). (k, abs_entry e)) l))" for l :: "(int \<times> shim_entry) list"
    by (induction l) (auto simp: abs_calls)
  moreover have "pc_subs (abs_client sh) \<noteq> []" using False by (simp add: abs_client_def)
  ultimately show ?thesis
    using False assms(1) abs_add [OF assms(3), of t data]
    by (simp add: add_msg_ok [OF assms(4) _ assms(2)])
      (simp add: abs_client_def dispatch_def comp_def case_prod_beta)
qed

text \<open>They part when a search raises: \<open>add_msg\<close> raises, and the subscriptions after the one with that pattern miss
  the message; the shim passes over that subscription only.\<close>

theorem bad_pattern_blocks:
  assumes "env_findall env p d = Inl FindReError" "p \<noteq> []" "norm_client_tup t = Inr t'"
    "pc_subs c = (k, \<lparr>se_sub = (Some p, None), se_queue = q, se_handler = h\<rparr>) # es"
  shows "add_msg env d t c = (Some ReError, c)"
    and "shim_matches env (Some p, None) (Some t') d = False"
  using assms by (simp_all add: add_msg_def sub_matches_def shim_matches_def)

text \<open>The addresses of subscriptions are not brought to normal form as \<open>PipeClient\<close> does, so a subscription with
  another spelling of the peer's address never receives anything.\<close>

theorem shim_misses_spelling:
  assumes "ip_norm ip = Inr ip'" "ip \<noteq> ip'"
  shows "shim_matches env (pat, Some (ip, port)) (Some (ip', port)) data = False"
    and "\<exists>k c. subscribe env (None, Some (ip, port)) None pipe_client_init = Inr (k, c) \<and>
      add_msg env data (ip', port) c = (None, c\<lparr>pc_subs := [(k, \<lparr>se_sub = (None, Some (ip', port)),
        se_queue = [Some ((ip', port), data)], se_handler = None\<rparr>)]\<rparr>)"
proof -
  show "shim_matches env (pat, Some (ip, port)) (Some (ip', port)) data = False"
    using assms(2) by (auto simp: shim_matches_def)
  have n: "ip_norm ip' = Inr ip'" using assms(1) by (auto elim: ip_norm_Inr)
  show "\<exists>k c. subscribe env (None, Some (ip, port)) None pipe_client_init = Inr (k, c) \<and>
      add_msg env data (ip', port) c = (None, c\<lparr>pc_subs := [(k, \<lparr>se_sub = (None, Some (ip', port)),
        se_queue = [Some ((ip', port), data)], se_handler = None\<rparr>)]\<rparr>)"
    by (auto simp: subscribe_def norm_sub_def norm_client_tup_def assms(1) n pipe_client_init_def Let_def add_msg_def
        add_entry_def sub_matches_def do_add_def handler_calls_def)
qed

end
