(* ===== verification/Http.thy ===== *)
theory Http
  imports PyStd PyDict NumUtils IpAddr
begin

text \<open>
  The HTTP client and server of \<open>protocol/http/http_client_lib.py\<close> and \<open>protocol/http/http_server_lib.py\<close>: building a
  request, reading a response from the chunks of a stream, the response of the server, the checks before a
  request is served, and the routing of a URL path to the parameters of a handler. Byte strings are texts of
  8-bit characters here. The parsing of a request head, of URLs and of JSON by the standard library and
  regular expressions that a route brings along are arguments.
\<close>

section \<open>Requests\<close>

type_synonym header = "string \<times> string"

definition crlf :: string where
  "crlf = [CHR 0x0D, CHR 0x0A]"

definition HTTP_HEADERS :: "header list" where
  "HTTP_HEADERS = [(''User-Agent'', ''curl/7.54.0''), (''Origin'', ''null''), (''Accept'', ''*/*'')]"

text \<open>The lines of the headers that are not the host and whose name has not occurred.\<close>

fun header_lines :: "header list \<Rightarrow> string list \<Rightarrow> string" where
  "header_lines [] seen = []"
| "header_lines ((n, v) # hs) seen =
     (if py_lower n = ''host'' then header_lines hs seen
      else if n \<in> set seen then header_lines hs seen
      else n @ '': '' @ v @ crlf @ header_lines hs (n # seen))"

text \<open>The request and the list of headers, which is extended in place when the caller gives one.\<close>

definition http_req_buf ::
  "af \<Rightarrow> string \<Rightarrow> string \<Rightarrow> string \<Rightarrow> string option \<Rightarrow> header list option \<Rightarrow> string \<times> header list option" where
  "http_req_buf a host path method payload headers =
     (let hs = (case headers of None \<Rightarrow> HTTP_HEADERS | Some h \<Rightarrow> h @ HTTP_HEADERS);
          buf = method @ '' '' @ path @ '' HTTP/1.0'' @ crlf @
                ''Host: '' @ (if a = IP4 then host else ''['' @ host @ '']'') @ crlf @ header_lines hs [] @
                (case payload of None \<Rightarrow> [] | Some p \<Rightarrow> ''Content-Length: '' @ show_nat (length p) @ crlf)
      in (butlast (butlast buf) @ crlf @ crlf @ (case payload of None \<Rightarrow> [] | Some p \<Rightarrow> p), map_option (\<lambda>_. hs) headers))"

definition set_header :: "header \<Rightarrow> (string \<times> string) list \<Rightarrow> (string \<times> string) list" where
  "set_header h d = dict_set (py_lower (fst h)) (snd h) (dict_set (fst h) (snd h) d)"

definition http_parse_headers :: "header list \<Rightarrow> (string \<times> string) list" where
  "http_parse_headers pairs =
     (let d = fold set_header pairs [] in
      if dict_has ''Origin'' d then d else dict_set ''origin'' ''null'' (dict_set ''Origin'' ''null'' d))"

text \<open>Position -1 and None when there is no such header, or no list.\<close>

definition get_hdr :: "string \<Rightarrow> header list option \<Rightarrow> int \<times> string option" where
  "get_hdr name hdrs =
     (case hdrs of
        None \<Rightarrow> (- 1, None)
      | Some hs \<Rightarrow>
          (case filter (\<lambda>(i, n, v). py_lower n = py_lower name) (enumerate 0 hs) of
             [] \<Rightarrow> (- 1, None)
           | (i, n, v) # _ \<Rightarrow> (int i, Some v)))"

text \<open>Host and port of the network location of a URL.\<close>

definition url_res :: "string \<Rightarrow> (string \<times> int) result" where
  "url_res netloc =
     (if CHR '':'' \<in> set netloc
      then (case py_split CHR '':'' netloc of
              [host, port] \<Rightarrow> bindr (py_int 10 port) (\<lambda>p. Inr (host, p))
            | _ \<Rightarrow> Inl ValueError)
      else Inr (netloc, 80))"

section \<open>Responses from a stream\<close>

text \<open>The search for \<open>[cC]ontent-[lL]ength: *([0-9]+)\<close>.\<close>

definition cl_pattern :: "string list" where
  "cl_pattern = [''cC'', ''o'', ''n'', ''t'', ''e'', ''n'', ''t'', ''-'', ''lL'', ''e'', ''n'', ''g'', ''t'', ''h'', '':'']"

definition is_digit :: "char \<Rightarrow> bool" where
  "is_digit c = (48 \<le> ord_c c \<and> ord_c c \<le> 57)"

definition cl_here :: "string \<Rightarrow> nat option" where
  "cl_here xs =
     (if list_all2 (\<lambda>x p. x \<in> set p) (take (length cl_pattern) xs) cl_pattern
      then parse_nat 10 (takeWhile is_digit (dropWhile (\<lambda>c. c = CHR '' '') (drop (length cl_pattern) xs)))
      else None)"

fun content_length :: "string \<Rightarrow> nat option" where
  "content_length [] = None"
| "content_length (x # xs) = (case cl_here (x # xs) of Some n \<Rightarrow> Some n | None \<Rightarrow> content_length xs)"

text \<open>\<open>re.split\<close> at the first occurrence.\<close>

fun split_first :: "string \<Rightarrow> string \<Rightarrow> (string \<times> string) option" where
  "split_first p [] = None"
| "split_first p (x # xs) =
     (if py_startswith p (x # xs) then Some ([], drop (length p) (x # xs))
      else map_option (\<lambda>(a, b). (x # a, b)) (split_first p xs))"

text \<open>What \<open>recv\<close> answers is a list of chunks; its end or an empty chunk ends the stream. The loop that reads the
  head: the text so far, whether the head has ended, the length it announces, and the chunks left.\<close>

fun read_head :: "string \<Rightarrow> bool \<Rightarrow> string list \<Rightarrow> string \<times> bool \<times> nat \<times> string list" where
  "read_head out ended [] = (out, ended, 0, [])"
| "read_head out ended (b # bs) =
     (if b = [] then (out, ended, 0, bs)
      else if py_contains (crlf @ crlf) (out @ b)
        then (case content_length (out @ b) of Some n \<Rightarrow> (out @ b, True, n, bs) | None \<Rightarrow> read_head (out @ b) True bs)
      else read_head (out @ b) ended bs)"

fun read_body :: "string \<Rightarrow> nat \<Rightarrow> string list \<Rightarrow> string" where
  "read_body content n [] = content"
| "read_body content n (b # bs) =
     (if length content < n then (if b = [] then content else read_body (content @ b) n bs) else content)"

text \<open>Head and content of the response, once the connection is open and the request is sent. The content replaces
  the one of the parsed head when it is not empty.\<close>

definition do_web_req :: "bool \<Rightarrow> bool \<Rightarrow> string list \<Rightarrow> (string \<times> string) option" where
  "do_web_req connected sent chunks =
     (if \<not> connected \<or> \<not> sent then None
      else (case read_head [] False chunks of (out, ended, n, rest) \<Rightarrow>
        if \<not> ended then None
        else (case split_first (crlf @ crlf) out of
                None \<Rightarrow> None
              | Some (headers, content) \<Rightarrow> Some (headers, if n = 0 then content else read_body content n rest))))"

section \<open>The client object\<close>

text \<open>The list of headers of a client is shared by all copies of it. A body is a dictionary, given as its JSON text,
  or a buffer.\<close>

datatype web_body = BDict string | BBytes string

record web_curl =
  wc_host :: string
  wc_af :: af
  wc_url_params :: "string option"
  wc_hdrs :: "header list"
  wc_body :: web_body

definition wc_vars :: "string option \<Rightarrow> web_body \<Rightarrow> web_curl \<Rightarrow> web_curl" where
  "wc_vars params body c =
     (case params of
        None \<Rightarrow> c\<lparr>wc_body := body\<rparr>
      | Some p \<Rightarrow> c\<lparr>wc_url_params := Some p, wc_body := body\<rparr>)"

text \<open>The request that \<open>api\<close> sends, and the client with its shared headers as the call leaves them.\<close>

definition wc_api :: "string \<Rightarrow> string \<Rightarrow> header list \<Rightarrow> web_curl \<Rightarrow> string \<times> web_curl" where
  "wc_api method path hdrs c =
     (let path' = (case wc_url_params c of None \<Rightarrow> path | Some p \<Rightarrow> path @ ''?'' @ p);
          hs = (if hdrs \<noteq> [] then hdrs else wc_hdrs c);
          (hs', payload) = (case wc_body c of
             BDict json \<Rightarrow> (hs @ [(''Content-Type'', ''application/json'')], json)
           | BBytes b \<Rightarrow> (hs, b));
          (buf, left) = http_req_buf (wc_af c) (wc_host c) path' method (Some payload) (Some hs')
      in (buf, if hdrs \<noteq> [] then c else c\<lparr>wc_hdrs := the left\<rparr>))"

section \<open>The server\<close>

definition aionetiface_CORS :: "string list" where
  "aionetiface_CORS = [''null'', ''http://127.0.0.1'']"

datatype mime = MJson | MBinary | MText

definition content_type :: "mime \<Rightarrow> string" where
  "content_type m =
     (case m of MJson \<Rightarrow> ''application/json'' | MBinary \<Rightarrow> ''application/octet-stream'' | MText \<Rightarrow> ''text/html'')"

definition res_head :: "mime \<Rightarrow> string \<Rightarrow> (string \<times> nat) option \<Rightarrow> string" where
  "res_head m origin client_tup =
     ''HTTP/1.1 200 OK'' @ crlf @ ''Access-Control-Allow-Origin: '' @ origin @ crlf @
     ''x-client-tup: '' @ (case client_tup of Some (ip, port) \<Rightarrow> ip @ '':'' @ show_nat port | None \<Rightarrow> ''unknown'') @ crlf @
     ''Content-Type: '' @ content_type m @ crlf @ ''Connection: close'' @ crlf @ ''Content-Length: ''"

text \<open>The payload of a JSON response is its text.\<close>

definition http_res :: "string \<Rightarrow> mime \<Rightarrow> string \<Rightarrow> (string \<times> nat) option \<Rightarrow> string" where
  "http_res payload m origin client_tup = res_head m origin client_tup @ show_nat (length payload) @ crlf @ crlf @ payload"

record http_req =
  rq_command :: string
  rq_hdrs :: "(string \<times> string) list"
  rq_url_path :: string

text \<open>What a handler leaves for the pipe: the responses that were sent, and whether it was closed.\<close>

record pipe_out =
  po_sent :: "string list"
  po_closed :: bool

definition origin_error :: string where
  "origin_error = ''{'' @ [CHR 0x0A] @ ''    '' @ [CHR 0x22] @ ''error'' @ [CHR 0x22] @ '': 5,'' @ [CHR 0x0A] @ ''    '' @
     [CHR 0x22] @ ''msg'' @ [CHR 0x22] @ '': '' @ [CHR 0x22] @ ''Invalid origin.'' @ [CHR 0x22] @ [CHR 0x0A] @ ''}''"

definition preflight_res :: "string \<Rightarrow> string" where
  "preflight_res origin =
     ''HTTP/1.1 200 OK'' @ crlf @ ''Content-Length: 0'' @ crlf @ ''Connection: keep-alive'' @ crlf @
     ''Access-Control-Allow-Methods: POST, GET, DELETE'' @ crlf @ ''Access-Control-Allow-Headers: *'' @ crlf @
     ''Access-Control-Allow-Origin: '' @ origin @ crlf @ crlf"

definition origin_of :: "http_req \<Rightarrow> string" where
  "origin_of req = the (map_of (rq_hdrs req) ''Origin'')"

definition rest_service :: "http_req result \<Rightarrow> (pipe_out \<times> http_req option) result" where
  "rest_service parsed =
     (case parsed of
        Inl e \<Rightarrow> if e = ValueError then Inr (\<lparr>po_sent = [], po_closed = False\<rparr>, None) else Inl e
      | Inr req \<Rightarrow>
          if origin_of req \<notin> set aionetiface_CORS
          then Inr (\<lparr>po_sent = [http_res origin_error MJson (origin_of req) None], po_closed = True\<rparr>, None)
          else if dict_has ''Access-Control-Request-Method'' (rq_hdrs req) \<and>
                  dict_has ''Access-Control-Request-Headers'' (rq_hdrs req)
          then Inr (\<lparr>po_sent = [preflight_res (origin_of req)], po_closed = False\<rparr>, None)
          else Inr (\<lparr>po_sent = [], po_closed = False\<rparr>, Some req))"

section \<open>Routing\<close>

text \<open>A scheme is a name, a name with a default, or a name with a default and a regular expression, or a star for
  any. The segments of the path, and what each matches: the scheme, the value, and whether it matches.\<close>

type_synonym scheme = "string list"
type_synonym seg_match = "nat option \<times> string \<times> bool"

definition path_segments :: "string \<Rightarrow> string list" where
  "path_segments path = filter (\<lambda>s. s \<noteq> []) (tl (py_split CHR ''/'' path))"

fun in_schemes :: "(string \<Rightarrow> string \<Rightarrow> bool) \<Rightarrow> nat \<Rightarrow> scheme list \<Rightarrow> string \<Rightarrow> seg_match" where
  "in_schemes re_match i [] v = (None, v, False)"
| "in_schemes re_match i (s # ss) v =
     (if length s = 3
      then (if s ! 2 = ''*'' then (Some i, v, True)
            else if re_match (s ! 2) v then (Some i, v, True)
            else (Some i, s ! 1, True))
      else if v = s ! 0 then (Some i, v, True)
      else in_schemes re_match (Suc i) ss v)"

text \<open>The value that a scheme takes, and its new state: a segment that follows and matches nothing is the value,
  and it replaces the default.\<close>

definition scheme_value :: "scheme \<Rightarrow> string \<Rightarrow> string" where
  "scheme_value s v = (if length s > 1 then s ! 1 else v)"

definition scheme_assign :: "string \<Rightarrow> scheme \<Rightarrow> scheme" where
  "scheme_assign v s = (if length s > 1 then s[1 := v] else s)"

fun route_loop ::
  "scheme list \<Rightarrow> nat \<Rightarrow> (string \<times> string) list \<Rightarrow> (nat \<times> string) list \<Rightarrow> seg_match list \<Rightarrow>
   scheme list \<times> (string \<times> string) list \<times> (nat \<times> string) list" where
  "route_loop ss i named unnamed [] = (ss, named, unnamed)"
| "route_loop ss i named unnamed ((None, v, m) # ms) = route_loop ss (Suc i) named (dict_set i v unnamed) ms"
| "route_loop ss i named unnamed ((Some j, v, m) # (None, w, n) # ms) =
     (let s = scheme_assign w (ss ! j)
      in route_loop (ss[j := s]) i (dict_set (s ! 0) (scheme_value s w) named) unnamed ms)"
| "route_loop ss i named unnamed ((Some j, v, m) # ms) =
     route_loop ss i (dict_set (ss ! j ! 0) (scheme_value (ss ! j) v) named) unnamed ms"

text \<open>\<open>api\<close> of \<open>api_route_closure\<close>: the schemes as the call leaves them, the named and the positional values.\<close>

definition route_api ::
  "(string \<Rightarrow> string \<Rightarrow> bool) \<Rightarrow> string \<Rightarrow> scheme list \<Rightarrow>
   scheme list \<times> (string \<times> string) list \<times> (nat \<times> string) list" where
  "route_api re_match path ss = route_loop ss 0 [] [] (map (in_schemes re_match 0 ss) (path_segments path))"

section \<open>Dispatch to a handler\<close>

text \<open>What a handler gets, and what it answers: a dictionary as its JSON text, bytes, a text, or something else.\<close>

record rest_args =
  ra_req :: http_req
  ra_named :: "(string \<times> string) list"
  ra_pos :: "(nat \<times> string) list"
  ra_client :: "string \<times> nat"
  ra_body :: string

datatype rest_reply = RDict string | RBytes string | RStr string | ROther

record rest_api =
  api_args :: "scheme list"
  api_call :: "rest_args \<Rightarrow> rest_reply result"

text \<open>The body of a request; \<open>loads\<close> stands for the JSON parser, of which only its failure matters.\<close>

definition req_body :: "(string \<Rightarrow> string result) \<Rightarrow> string \<Rightarrow> (string \<times> string) list \<Rightarrow> string result" where
  "req_body loads msg hdrs =
     bindr (case map_of hdrs ''Content-Length'' of
              None \<Rightarrow> Inr (0, [])
            | Some t \<Rightarrow> bindr (py_int 10 t) (\<lambda>n. Inr (n, if in_range n (1, int (length msg)) then drop (length msg - nat n) msg else [])))
       (\<lambda>(n, body). if map_of hdrs ''Content-Type'' = Some ''application/json'' \<and> n \<noteq> 0 then loads body else Inr body)"

text \<open>The best match so far, by its index and its values; the loop leaves the schemes changed.\<close>

fun find_api ::
  "(string \<Rightarrow> string \<Rightarrow> bool) \<Rightarrow> string \<Rightarrow> bool \<Rightarrow> nat \<Rightarrow> rest_api list \<Rightarrow> nat \<Rightarrow>
   (nat \<times> (string \<times> string) list \<times> (nat \<times> string) list) option \<Rightarrow>
   rest_api list \<times> (nat \<times> (string \<times> string) list \<times> (nat \<times> string) list) option" where
  "find_api re_match path single i [] best_no best = ([], best)"
| "find_api re_match path single i (a # as) best_no best =
     (case route_api re_match path (api_args a) of (ss, named, unnamed) \<Rightarrow>
        let a' = a\<lparr>api_args := ss\<rparr>;
            ok = (single \<or> length named = length ss) \<and> length unnamed < best_no;
            (as', b) = (if ok then find_api re_match path single (Suc i) as (length unnamed) (Some (i, named, unnamed))
                        else find_api re_match path single (Suc i) as best_no best)
        in (a' # as', b))"

definition reply_res :: "rest_reply \<Rightarrow> http_req \<Rightarrow> string \<times> nat \<Rightarrow> string list" where
  "reply_res r req client =
     (case r of
        RDict t \<Rightarrow> [http_res t MJson (origin_of req) (Some client)]
      | RBytes t \<Rightarrow> [http_res t MBinary (origin_of req) (Some client)]
      | RStr t \<Rightarrow> [http_res t MText (origin_of req) (Some client)]
      | ROther \<Rightarrow> [])"

text \<open>\<open>msg_cb\<close>: the routes by command, and what was sent. A request that \<open>rest_service\<close> has answered itself is None,
  and None has no headers.\<close>

definition msg_cb ::
  "(string \<Rightarrow> string \<Rightarrow> bool) \<Rightarrow> (string \<Rightarrow> string result) \<Rightarrow> (py_exn \<Rightarrow> string) \<Rightarrow> http_req result \<Rightarrow> string \<Rightarrow> string \<times> nat \<Rightarrow>
   (string \<times> rest_api list) list \<Rightarrow> (pipe_out \<times> (string \<times> rest_api list) list) result" where
  "msg_cb re_match loads exn_json parsed msg client apis =
     bindr (rest_service parsed) (\<lambda>(out, req').
       case req' of
         None \<Rightarrow> Inl AttributeError
       | Some req \<Rightarrow>
           bindr (req_body loads msg (rq_hdrs req)) (\<lambda>body.
             case map_of apis (rq_command req) of
               None \<Rightarrow> Inl KeyError
             | Some as \<Rightarrow>
                 (case find_api re_match (rq_url_path req) (length as = 1) 0 as 100 None of (as', best) \<Rightarrow>
                    let apis' = dict_set (rq_command req) as' apis in
                    case best of
                      None \<Rightarrow> Inr (out, apis')
                    | Some (i, named, unnamed) \<Rightarrow>
                        bindr (case api_call (as ! i) \<lparr>ra_req = req, ra_named = named, ra_pos = unnamed, ra_client = client, ra_body = body\<rparr> of
                                 Inr r \<Rightarrow> Inr r
                               | Inl e \<Rightarrow> if e \<in> {OSError, ValueError, RuntimeError} then Inr (RDict (exn_json e)) else Inl e) (\<lambda>r.
                          Inr (out\<lparr>po_sent := po_sent out @ reply_res r req client\<rparr>, apis')))))"

section \<open>Properties of routing\<close>

definition seg_ok :: "string \<Rightarrow> bool" where
  "seg_ok s \<longleftrightarrow> s \<noteq> [] \<and> CHR ''/'' \<notin> set s"

definition build_path :: "string list \<Rightarrow> string" where
  "build_path ss = concat (map (\<lambda>s. CHR ''/'' # s) ss)"

lemma build_path_simps [simp]: "build_path [] = []" "build_path (s # ss) = CHR ''/'' # s @ build_path ss"
  by (simp_all add: build_path_def)

lemma py_split_path: "\<forall>s\<in>set ss. seg_ok s \<Longrightarrow> seg_ok t \<Longrightarrow> py_split CHR ''/'' (t @ build_path ss) = t # ss"
proof (induction ss arbitrary: t)
  case Nil
  then show ?case by (simp add: py_split_notin seg_ok_def)
next
  case (Cons s ss)
  then show ?case using py_split_app [of "CHR ''/''" t] by (simp add: seg_ok_def)
qed

lemma segments_build: "\<forall>s\<in>set ss. seg_ok s \<Longrightarrow> path_segments (build_path ss) = ss"
proof (cases ss)
  case Nil
  then show ?thesis by (simp add: path_segments_def)
next
  case (Cons s ts)
  assume a: "\<forall>s\<in>set ss. seg_ok s"
  have "py_split CHR ''/'' (build_path ss) = [] # py_split CHR ''/'' (s @ build_path ts)"
    using py_split_app [of "CHR ''/''" "[]" "s @ build_path ts"] by (simp add: Cons)
  also have "py_split CHR ''/'' (s @ build_path ts) = ss"
    using a py_split_path [of ts s] by (simp add: Cons)
  finally show ?thesis using a by (auto simp: path_segments_def seg_ok_def filter_id_conv)
qed

lemma in_schemes_head:
  "j < length ss \<Longrightarrow> distinct (map hd ss) \<Longrightarrow> \<forall>s\<in>set ss. s \<noteq> [] \<and> length s \<noteq> 3 \<Longrightarrow>
   in_schemes re_match i ss (hd (ss ! j)) = (Some (i + j), hd (ss ! j), True)"
proof (induction ss arbitrary: i j)
  case (Cons s ss)
  show ?case
  proof (cases j)
    case 0
    then show ?thesis using Cons.prems by (simp add: hd_conv_nth)
  next
    case (Suc k)
    then have "hd (ss ! k) \<in> hd ` set ss" using Cons.prems by (intro imageI nth_mem) simp
    then have "hd (ss ! k) \<noteq> hd s" using Cons.prems by auto
    then show ?thesis
      using Cons.prems Cons.IH [of k "Suc i"] by (simp add: Suc hd_conv_nth)
  qed
qed simp

lemma in_schemes_none:
  "\<forall>s\<in>set ss. s \<noteq> [] \<and> length s \<noteq> 3 \<Longrightarrow> v \<notin> hd ` set ss \<Longrightarrow> in_schemes re_match i ss v = (None, v, False)"
  by (induction ss arbitrary: i) (auto simp: hd_conv_nth)

lemma scheme_assign_simps:
  "s \<noteq> [] \<Longrightarrow> hd (scheme_assign v s) = hd s" "scheme_value (scheme_assign v s) v = v"
  "length (scheme_assign v s) = length s"
  by (cases s; simp add: scheme_assign_def scheme_value_def)+

lemma route_loop_pairs:
  "\<forall>(j, w)\<in>set js. j < length ss \<Longrightarrow> \<forall>s\<in>set ss. s \<noteq> [] \<Longrightarrow> distinct (map (\<lambda>(j, w). hd (ss ! j)) js) \<Longrightarrow>
   \<forall>(j, w)\<in>set js. \<not> dict_has (hd (ss ! j)) named \<Longrightarrow>
   snd (route_loop ss i named unnamed (concat (map (\<lambda>(j, w). [(Some j, hd (ss0 ! j), True), (None, w, False)]) js))) =
   (named @ map (\<lambda>(j, w). (hd (ss ! j), w)) js, unnamed)"
proof (induction js arbitrary: ss named)
  case (Cons e js)
  obtain j w where e: "e = (j, w)" by fastforce
  define ss' where "ss' = ss[j := scheme_assign w (ss ! j)]"
  have j: "j < length ss" "ss ! j \<noteq> []" using Cons.prems by (auto simp: e)
  have hd': "hd (ss' ! k) = hd (ss ! k)" if "k < length ss" for k
    using that j by (cases "k = j") (simp_all add: ss'_def scheme_assign_simps)
  have hds: "map (\<lambda>(j, w). hd (ss' ! j)) js = map (\<lambda>(j, w). hd (ss ! j)) js"
    "map (\<lambda>(j, w). (hd (ss' ! j), w)) js = map (\<lambda>(j, w). (hd (ss ! j), w)) js"
    using Cons.prems(1) hd' by auto
  have ne: "\<forall>s\<in>set ss'. s \<noteq> []"
    using Cons.prems(2) j scheme_assign_simps(3) [of w "ss ! j"]
    by (auto simp: ss'_def dest!: set_update_subset_insert [THEN subsetD])
  have head0: "scheme_assign w (ss ! j) ! 0 = hd (ss ! j)"
    using j(2) by (cases "ss ! j") (simp_all add: scheme_assign_def)
  have new: "dict_set (hd (ss ! j)) w named = named @ [(hd (ss ! j), w)]"
    using Cons.prems(4) by (intro dict_set_new) (auto simp: e)
  have "\<forall>(k, v)\<in>set js. \<not> dict_has (hd (ss' ! k)) (named @ [(hd (ss ! j), w)])"
  proof (clarify)
    fix k v assume kv: "(k, v) \<in> set js" "dict_has (hd (ss' ! k)) (named @ [(hd (ss ! j), w)])"
    then have "hd (ss' ! k) = hd (ss ! k)" "\<not> dict_has (hd (ss ! k)) named"
      using Cons.prems(1,4) hd' by (auto simp: e)
    moreover have "hd (ss ! k) \<noteq> hd (ss ! j)" using Cons.prems(3) kv(1) by (force simp: e)
    ultimately show False using kv(2) by (simp add: dict_has_def)
  qed
  then have "snd (route_loop ss' i (named @ [(hd (ss ! j), w)]) unnamed
      (concat (map (\<lambda>(j, w). [(Some j, hd (ss0 ! j), True), (None, w, False)]) js))) =
    ((named @ [(hd (ss ! j), w)]) @ map (\<lambda>(j, w). (hd (ss' ! j), w)) js, unnamed)"
  proof (intro Cons.IH)
    show "\<forall>(j, w)\<in>set js. j < length ss'" using Cons.prems(1) by (simp add: ss'_def)
    have "distinct (map (\<lambda>(j, w). hd (ss ! j)) js)" using Cons.prems(3) by simp
    then show "distinct (map (\<lambda>(j, w). hd (ss' ! j)) js)" by (simp only: hds)
  qed (rule ne)
  then show ?case
    using j(2) by (simp add: e Let_def scheme_assign_simps(2) head0 new hds flip: ss'_def)
qed simp

text \<open>C26. A path that is made of pairs of a name and a value routes to exactly these pairs, whatever defaults the
  schemes carry and in whatever order the names come, when the names are those of different schemes, no
  value is the name of a scheme, and no scheme has a regular expression.\<close>

theorem route_roundtrip:
  assumes "distinct (map hd ss)" "\<forall>s\<in>set ss. s \<noteq> [] \<and> length s \<noteq> 3"
    "\<forall>(n, v)\<in>set ps. n \<in> hd ` set ss \<and> v \<notin> hd ` set ss \<and> seg_ok n \<and> seg_ok v" "distinct (map fst ps)"
  shows "snd (route_api re_match (build_path (concat (map (\<lambda>(n, v). [n, v]) ps))) ss) = (ps, [])"
proof -
  define pos where "pos n = (SOME j. j < length ss \<and> hd (ss ! j) = n)" for n
  have pos: "pos n < length ss \<and> hd (ss ! pos n) = n" if "n \<in> hd ` set ss" for n
    using that unfolding pos_def by (intro someI_ex [of "\<lambda>j. j < length ss \<and> hd (ss ! j) = n"]) (auto simp: in_set_conv_nth)
  define js where "js = map (\<lambda>(n, v). (pos n, v)) ps"
  have n: "\<And>n v. (n, v) \<in> set ps \<Longrightarrow> hd (ss ! pos n) = n \<and> pos n < length ss" using pos assms(3) by fastforce
  have "map (in_schemes re_match 0 ss) (concat (map (\<lambda>(n, v). [n, v]) ps)) =
      concat (map (\<lambda>(j, w). [(Some j, hd (ss ! j), True), (None, w, False)]) js)"
  proof -
    have "map (in_schemes re_match 0 ss) [n, v] = [(Some (pos n), hd (ss ! pos n), True), (None, v, False)]"
      if "(n, v) \<in> set ps" for n v
      using in_schemes_head [of "pos n" ss re_match 0] in_schemes_none [of ss v re_match 0] n [OF that] assms that by fastforce
    then show ?thesis by (auto simp: js_def map_concat comp_def case_prod_beta intro!: arg_cong [of _ _ concat])
  qed
  moreover have "path_segments (build_path (concat (map (\<lambda>(n, v). [n, v]) ps))) = concat (map (\<lambda>(n, v). [n, v]) ps)"
    using assms(3) by (intro segments_build) auto
  moreover have "map (\<lambda>(j, w). hd (ss ! j)) js = map fst ps" "map (\<lambda>(j, w). (hd (ss ! j), w)) js = ps"
    using n by (auto simp: js_def intro!: map_idI)
  moreover have "\<forall>(j, w)\<in>set js. j < length ss" using n by (auto simp: js_def)
  ultimately show ?thesis
    using assms route_loop_pairs [of js ss "[]" 0 "[]" ss] by (auto simp: route_api_def)
qed

theorem route_roundtrip_witness:
  "snd (route_api (\<lambda>_ _. False) ''/sub/all/timeout/10'' [[''timeout'', ''5''], [''sub'']]) = ([(''sub'', ''all''), (''timeout'', ''10'')], [])"
proof -
  have "''/sub/all/timeout/10'' = build_path (concat (map (\<lambda>(n, v). [n, v]) [(''sub'', ''all''), (''timeout'', ''10'')]))"
    by (simp add: build_path_def)
  moreover have "snd (route_api (\<lambda>_ _. False) (build_path (concat (map (\<lambda>(n, v). [n, v]) [(''sub'', ''all''), (''timeout'', ''10'')])))
      [[''timeout'', ''5''], [''sub'']]) = ([(''sub'', ''all''), (''timeout'', ''10'')], [])"
    by (rule route_roundtrip) (simp_all add: seg_ok_def)
  ultimately show ?thesis by simp
qed

text \<open>A value that a request gives for a parameter becomes the default of the route: the next request that leaves
  the value out gets the one of the previous request.\<close>

theorem default_overwritten:
  assumes "seg_ok n" "seg_ok v" "v \<noteq> n"
  shows "\<exists>ss. route_api re_match (build_path [n, v]) [[n, d]] = (ss, [(n, v)], []) \<and>
    route_api re_match (build_path [n]) ss = (ss, [(n, v)], []) \<and>
    route_api re_match (build_path [n]) [[n, d]] = ([[n, d]], [(n, d)], [])"
proof -
  have s: "path_segments (build_path [n, v]) = [n, v]" "path_segments (build_path [n]) = [n]"
    using assms by (intro segments_build; simp)+
  show ?thesis
    using assms(3) by (simp del: build_path_simps add: route_api_def s scheme_assign_def scheme_value_def Let_def)
qed

text \<open>A scheme with a regular expression always answers its default, whether the segment matches or not.\<close>

theorem regex_value_ignored:
  assumes "path_segments path = [v]"
  shows "route_api re_match path [[n, d, rx]] = ([[n, d, rx]], [(n, d)], [])"
  using assms by (simp add: route_api_def scheme_value_def)

section \<open>Properties of the exchange\<close>

lemma split_first_Some: "split_first p xs = Some (a, b) \<Longrightarrow> xs = a @ p @ b"
proof (induction xs arbitrary: a)
  case (Cons x xs)
  then show ?case by (auto simp: py_startswith_iff split: if_splits)
qed simp

lemma py_startswith_append: "py_startswith p xs \<Longrightarrow> py_startswith p (xs @ ys)"
  by (auto simp: py_startswith_iff)

lemma split_first_append: "split_first p xs = Some (a, b) \<Longrightarrow> split_first p (xs @ ys) = Some (a, b @ ys)"
proof (induction xs arbitrary: a)
  case (Cons x xs)
  show ?case
  proof (cases "py_startswith p (x # xs)")
    case True
    then obtain r where "x # xs = p @ r" by (auto simp: py_startswith_iff)
    then have "length p \<le> length (x # xs)" by (metis length_append le_add1)
    with True py_startswith_append [OF True, of ys] Cons.prems show ?thesis by (cases p) auto
  next
    case False
    with Cons.prems obtain a' where a': "a = x # a'" "split_first p xs = Some (a', b)" by auto
    have "\<not> py_startswith p (x # xs @ ys)"
    proof
      assume "py_startswith p (x # xs @ ys)"
      then obtain r where r: "x # xs @ ys = p @ r" by (auto simp: py_startswith_iff)
      have "xs = a' @ p @ b" using split_first_Some a'(2) by blast
      then have "length p \<le> length (x # xs)" by simp
      moreover have "x # xs = take (length (x # xs)) (p @ r)" by (simp flip: r)
      ultimately have "\<exists>q. x # xs = p @ q" by simp
      with False show False unfolding py_startswith_iff by blast
    qed
    with Cons.IH a' show ?thesis by simp
  qed
qed simp

lemma split_first_None: "p \<noteq> [] \<Longrightarrow> split_first p xs = None \<longleftrightarrow> \<not> py_contains p xs"
  by (induction xs) auto

text \<open>The text in front of the announced length has neither an empty line nor another length.\<close>

lemma split_skip: "CHR 0x0D \<notin> set t \<Longrightarrow> split_first (crlf @ q) (t @ xs) = map_option (\<lambda>(a, b). (t @ a, b)) (split_first (crlf @ q) xs)"
proof (induction t)
  case (Cons c t)
  then have "\<not> py_startswith (crlf @ q) ((c # t) @ xs)" by (auto simp: crlf_def)
  with Cons show ?case by (cases "split_first (crlf @ q) xs") (auto simp: crlf_def)
qed (cases "split_first (crlf @ q) xs"; auto)

lemma cl_here_o: "cl_here (x # xs) = None" if "x \<notin> {CHR ''c'', CHR ''C''} \<or> xs = [] \<or> hd xs \<noteq> CHR ''o''"
  using that by (cases xs) (auto simp: cl_here_def cl_pattern_def)

lemma length_skip: "CHR ''o'' \<notin> set t \<Longrightarrow> content_length (t @ CHR 0x0D # xs) = content_length (CHR 0x0D # xs)"
proof (induction t)
  case (Cons c t)
  have "cl_here ((c # t) @ CHR 0x0D # xs) = None"
    using Cons.prems by (simp only: append_Cons, intro cl_here_o) (cases t; auto)
  with Cons show ?case by simp
qed simp

lemma show_nat_digits: "takeWhile is_digit (show_nat n @ CHR 0x0D # xs) = show_nat n"
  "dropWhile (\<lambda>c. c = CHR '' '') (show_nat n @ xs) = show_nat n @ xs"
proof -
  have "\<forall>c\<in>set (show_nat n). is_digit c" using show_nat_digit by (auto simp: is_digit_def)
  then show "takeWhile is_digit (show_nat n @ CHR 0x0D # xs) = show_nat n"
    by (subst takeWhile_append2) (auto simp: is_digit_def ord_c_def)
  have "show_nat n \<noteq> []" "hd (show_nat n) \<noteq> CHR '' ''"
    using show_nat_digit [of "hd (show_nat n)" n] by (auto simp: ord_c_def)
  then show "dropWhile (\<lambda>c. c = CHR '' '') (show_nat n @ xs) = show_nat n @ xs"
    by (cases "show_nat n") auto
qed

lemma announced: "content_length (''Content-Length: '' @ show_nat n @ CHR 0x0D # xs) = Some n"
  by (simp add: cl_here_def cl_pattern_def show_nat_digits)

definition tup_text :: "(string \<times> nat) option \<Rightarrow> string" where
  "tup_text t = (case t of Some (ip, port) \<Rightarrow> ip @ '':'' @ show_nat port | None \<Rightarrow> ''unknown'')"

lemma res_head_tup: "res_head m origin t =
     ''HTTP/1.1 200 OK'' @ crlf @ ''Access-Control-Allow-Origin: '' @ origin @ crlf @
     ''x-client-tup: '' @ tup_text t @ crlf @
     ''Content-Type: '' @ content_type m @ crlf @ ''Connection: close'' @ crlf @ ''Content-Length: ''"
  by (simp add: res_head_def tup_text_def)

lemma length_skip_tup:
  assumes "t = None \<or> (\<exists>ip port. t = Some (ip, port) \<and> CHR ''o'' \<notin> set ip)"
  shows "content_length (tup_text t @ CHR 0x0D # xs) = content_length (CHR 0x0D # xs)"
proof (cases t)
  case None
  then show ?thesis by (simp add: tup_text_def cl_here_o)
next
  case (Some p)
  with assms obtain ip port where t: "t = Some (ip, port)" "CHR ''o'' \<notin> set ip" by auto
  have "CHR ''o'' \<notin> set (show_nat port)" using show_nat_digit [of "CHR ''o''" port] by (auto simp: ord_c_def)
  with t have "CHR ''o'' \<notin> set (tup_text t)" by (simp add: tup_text_def)
  then show ?thesis by (rule length_skip)
qed

lemma res_length:
  assumes "origin \<in> set aionetiface_CORS" "t = None \<or> (\<exists>ip port. t = Some (ip, port) \<and> CHR ''o'' \<notin> set ip)"
  shows "content_length (res_head m origin t @ show_nat n @ crlf @ crlf @ xs) = Some n"
proof -
  have "content_length (''Content-Length: '' @ show_nat n @ crlf @ crlf @ xs) = Some n"
    using announced [of n "CHR 0x0A # crlf @ xs"] by (simp add: crlf_def)
  then have c: "content_length (crlf @ ''Content-Type: '' @ content_type m @ crlf @ ''Connection: close'' @ crlf @
      ''Content-Length: '' @ show_nat n @ crlf @ crlf @ xs) = Some n"
    by (cases m) (simp_all add: content_type_def crlf_def cl_here_o cl_here_def cl_pattern_def)
  then have "content_length (tup_text t @ crlf @ ''Content-Type: '' @ content_type m @ crlf @ ''Connection: close'' @ crlf @
      ''Content-Length: '' @ show_nat n @ crlf @ crlf @ xs) = Some n"
    using length_skip_tup [OF assms(2)] by (simp add: crlf_def)
  then have "content_length (crlf @ ''x-client-tup: '' @ tup_text t @ crlf @ ''Content-Type: '' @ content_type m @ crlf @
      ''Connection: close'' @ crlf @ ''Content-Length: '' @ show_nat n @ crlf @ crlf @ xs) = Some n"
    by (simp add: crlf_def cl_here_def cl_pattern_def)
  then show ?thesis
    using assms(1) by (auto simp: aionetiface_CORS_def res_head_tup crlf_def cl_here_def cl_pattern_def)
qed

lemma res_split:
  assumes "CHR 0x0D \<notin> set origin" "\<forall>ip port. t = Some (ip, port) \<longrightarrow> CHR 0x0D \<notin> set ip"
  shows "split_first (crlf @ crlf) (res_head m origin t @ show_nat n @ crlf @ crlf @ xs) = Some (res_head m origin t @ show_nat n, xs)"
proof -
  have d: "CHR 0x0D \<notin> set (show_nat k)" for k using show_nat_digit [of "CHR 0x0D" k] by (auto simp: ord_c_def)
  then have t: "CHR 0x0D \<notin> set (tup_text t)" using assms(2) by (auto simp: tup_text_def split: option.split)
  have skip: "split_first (crlf @ crlf) (u @ ys) = map_option (\<lambda>(a, b). (u @ a, b)) (split_first (crlf @ crlf) ys)"
    if "CHR 0x0D \<notin> set u" for u ys using split_skip [OF that] .
  have line: "split_first (crlf @ crlf) (u @ crlf @ c # ys) = map_option (\<lambda>(a, b). (u @ crlf @ a, b)) (split_first (crlf @ crlf) (c # ys))"
    if "CHR 0x0D \<notin> set u" "c \<noteq> CHR 0x0D" for u c ys
    using that(2) by (cases "split_first (crlf @ crlf) (c # ys)") (auto simp: skip [OF that(1)], auto simp: crlf_def)
  have last: "split_first (crlf @ crlf) (show_nat n @ crlf @ crlf @ xs) = Some (show_nat n, xs)"
    using skip [OF d, of n "crlf @ crlf @ xs"] by (simp add: crlf_def)
  have cl: "split_first (crlf @ crlf) (''Content-Length: '' @ show_nat n @ crlf @ crlf @ xs) = Some (''Content-Length: '' @ show_nat n, xs)"
    by (subst skip) (simp_all add: last)
  have ct: "CHR 0x0D \<notin> set (''Content-Type: '' @ content_type m)" by (cases m) (simp_all add: content_type_def)
  show ?thesis
    using line [of "''HTTP/1.1 200 OK''" "CHR ''A''"] line [of "''Access-Control-Allow-Origin: '' @ origin" "CHR ''x''"]
      line [of "''x-client-tup: '' @ tup_text t" "CHR ''C''"] line [OF ct, of "CHR ''C''"] line [of "''Connection: close''" "CHR ''C''"]
      cl assms(1) t
    by (simp add: res_head_tup)
qed

lemma crlf2_nonempty: "crlf @ crlf \<noteq> []" "crlf \<noteq> []"
  by (simp_all add: crlf_def)

text \<open>Reading a head that announces the length of what follows it, from any division into chunks.\<close>

lemma read_head_spec:
  assumes "split_first (crlf @ crlf) whole = Some (head, body)"
    "\<And>xs. content_length (head @ crlf @ crlf @ xs) = Some n"
  shows "out @ concat chunks = whole \<Longrightarrow> \<not> py_contains (crlf @ crlf) out \<Longrightarrow> [] \<notin> set chunks \<Longrightarrow>
    \<exists>b rest. read_head out ended chunks = (head @ crlf @ crlf @ b, True, n, rest) \<and> b @ concat rest = body \<and> [] \<notin> set rest"
proof (induction chunks arbitrary: out)
  case Nil
  then show ?case using assms(1) split_first_None [OF crlf2_nonempty(1), of whole] by simp
next
  case (Cons c cs)
  show ?case
  proof (cases "py_contains (crlf @ crlf) (out @ c)")
    case True
    then obtain a b where ab: "split_first (crlf @ crlf) (out @ c) = Some (a, b)"
      using split_first_None [OF crlf2_nonempty(1), of "out @ c"] by fastforce
    have "split_first (crlf @ crlf) ((out @ c) @ concat cs) = Some (a, b @ concat cs)"
      using split_first_append [OF ab] .
    with assms(1) Cons.prems(1) have "a = head" "b @ concat cs = body" by auto
    moreover have "out @ c = head @ crlf @ crlf @ b" using split_first_Some [OF ab] \<open>a = head\<close> by simp
    ultimately show ?thesis using Cons.prems(3) True assms(2) by auto
  next
    case False
    then show ?thesis using Cons.IH [of "out @ c"] Cons.prems by auto
  qed
qed

lemma read_body_spec: "b @ concat rest = body \<Longrightarrow> [] \<notin> set rest \<Longrightarrow> read_body b (length body) rest = body"
proof (induction rest arbitrary: b)
  case (Cons c cs)
  show ?case
  proof (cases "length b < length body")
    case True
    then show ?thesis using Cons by auto
  next
    case False
    then have "length (concat (c # cs)) = 0" using Cons.prems(1) [THEN arg_cong, of length] by (simp only: length_append)
    then show ?thesis using Cons.prems by simp
  qed
qed simp

text \<open>C12. What the server sends for a payload, the client reads back as exactly this payload, however the stream
  divides the response into chunks: for each type of content, an allowed origin and any peer address.\<close>

theorem http_exchange:
  assumes "origin \<in> set aionetiface_CORS" "payload \<noteq> []"
    "t = None \<or> (\<exists>ip port. t = Some (ip, port) \<and> CHR ''o'' \<notin> set ip \<and> CHR 0x0D \<notin> set ip)"
    "concat chunks = http_res payload m origin t" "[] \<notin> set chunks"
  shows "do_web_req True True chunks = Some (res_head m origin t @ show_nat (length payload), payload)"
proof -
  let ?h = "res_head m origin t @ show_nat (length payload)"
  have "CHR 0x0D \<notin> set origin" using assms(1) by (auto simp: aionetiface_CORS_def)
  then have s: "split_first (crlf @ crlf) (http_res payload m origin t) = Some (?h, payload)"
    using res_split assms(3) by (auto simp: http_res_def)
  have c: "content_length (?h @ crlf @ crlf @ xs) = Some (length payload)" for xs
    using res_length assms(1,3) by auto
  have "\<not> py_contains (crlf @ crlf) []" by (simp add: crlf_def)
  from read_head_spec [OF s c, of "[]" chunks False] this assms(4,5)
  obtain b rest where r: "read_head [] False chunks = (?h @ crlf @ crlf @ b, True, length payload, rest)"
    "b @ concat rest = payload" "[] \<notin> set rest" by auto
  have "py_contains (crlf @ crlf) (?h @ (crlf @ crlf) @ b)" unfolding py_contains_iff by blast
  then have "split_first (crlf @ crlf) (?h @ crlf @ crlf @ b) \<noteq> None"
    by (simp only: split_first_None [OF crlf2_nonempty(1)] append_assoc) simp
  then have "\<exists>a q. split_first (crlf @ crlf) (?h @ crlf @ crlf @ b) = Some (a, q)" by (simp only: not_None_eq split_paired_Ex)
  then obtain a q where aq: "split_first (crlf @ crlf) (?h @ crlf @ crlf @ b) = Some (a, q)" by blast
  have "split_first (crlf @ crlf) ((?h @ crlf @ crlf @ b) @ concat rest) = Some (a, q @ concat rest)"
    using split_first_append [OF aq] .
  then have "split_first (crlf @ crlf) (http_res payload m origin t) = Some (a, q @ concat rest)"
    by (simp add: http_res_def flip: r(2))
  with s have "a = ?h" by simp
  with split_first_Some [OF aq] have "q = b" by simp
  show ?thesis
    using aq r(1) read_body_spec [OF r(2,3)] assms(2) \<open>a = ?h\<close> \<open>q = b\<close> by (simp add: do_web_req_def)
qed

theorem http_exchange_witness:
  "do_web_req True True [take 30 (http_res ''hello'' MText ''null'' (Some (''10.0.0.5'', 9))), drop 30 (http_res ''hello'' MText ''null'' (Some (''10.0.0.5'', 9)))] =
   Some (res_head MText ''null'' (Some (''10.0.0.5'', 9)) @ show_nat 5, ''hello'')"
proof -
  let ?r = "http_res ''hello'' MText ''null'' (Some (''10.0.0.5'', 9))"
  have "30 < length ?r" by (simp add: http_res_def res_head_def)
  then have "[] \<notin> set [take 30 ?r, drop 30 ?r]" by auto
  with http_exchange [of "''null''" "''hello''" "Some (''10.0.0.5'', 9)" "[take 30 ?r, drop 30 ?r]" MText]
  show ?thesis by (simp add: aionetiface_CORS_def eval_nat_numeral)
qed

text \<open>The announced length is searched in everything that has arrived, so a body that mentions one in a response
  without that header cuts the content short.\<close>

theorem length_in_body:
  "do_web_req True True [''HTTP/1.0 200 OK'' @ crlf @ crlf @ ''content-length: 3'', '' and more''] =
     Some (''HTTP/1.0 200 OK'', ''content-length: 3'')"
  by code_simp

section \<open>Further properties\<close>

text \<open>A request whose body is a dictionary leaves its content type with the client, so the next request of any copy
  of it carries the type although its body is not JSON.\<close>

theorem json_header_stays:
  "let c = \<lparr>wc_host = ''host'', wc_af = IP4, wc_url_params = None, wc_hdrs = [], wc_body = BDict ''{}''\<rparr>;
       c' = snd (wc_api ''POST'' ''/'' [] c)
   in (''Content-Type'', ''application/json'') \<in> set (wc_hdrs c') \<and>
      py_contains ''Content-Type: application/json'' (fst (wc_api ''POST'' ''/'' [] (wc_vars None (BBytes ''raw'') c'))) \<and>
      \<not> py_contains ''Content-Type'' (fst (wc_api ''POST'' ''/'' [] (wc_vars None (BBytes ''raw'') c)))"
  by code_simp

text \<open>A request that the checks have answered themselves, and one that cannot be parsed, end in an
  \<open>AttributeError\<close>.\<close>

theorem answered_then_raises:
  assumes "rest_service parsed = Inr (out, None)"
  shows "msg_cb re_match loads exn_json parsed msg client apis = Inl AttributeError"
  using assms by (simp add: msg_cb_def)

text \<open>A preflight request is one of them.\<close>

theorem preflight_raises:
  assumes "origin_of req \<in> set aionetiface_CORS" "dict_has ''Access-Control-Request-Method'' (rq_hdrs req)"
    "dict_has ''Access-Control-Request-Headers'' (rq_hdrs req)"
  shows "msg_cb re_match loads exn_json (Inr req) msg client apis = Inl AttributeError"
  using assms by (simp add: msg_cb_def rest_service_def)

text \<open>A restricted origin is never served: the handlers are not called, and the only response is the error, after
  which the pipe is closed.\<close>

theorem origin_enforced:
  assumes "origin_of req \<notin> set aionetiface_CORS"
  shows "rest_service (Inr req) = Inr (\<lparr>po_sent = [http_res origin_error MJson (origin_of req) None], po_closed = True\<rparr>, None) \<and>
    (\<forall>apis. msg_cb re_match loads exn_json (Inr req) msg client apis = Inl AttributeError)"
  using assms by (simp add: msg_cb_def rest_service_def)

lemma header_lines_spec:
  "\<exists>ks. header_lines hs seen = concat (map (\<lambda>(n, v). n @ '': '' @ v @ crlf) ks) \<and> distinct (map fst ks) \<and>
     (\<forall>n v. (n, v) \<in> set ks \<longleftrightarrow> py_lower n \<noteq> ''host'' \<and> n \<notin> set seen \<and> map_of hs n = Some v)"
proof (induction hs seen rule: header_lines.induct)
  case (2 n v hs seen)
  show ?case
  proof (cases "py_lower n = ''host'' \<or> n \<in> set seen")
    case True
    then have "header_lines ((n, v) # hs) seen = header_lines hs seen" by auto
    moreover have "\<exists>ks. header_lines hs seen = concat (map (\<lambda>(n, v). n @ '': '' @ v @ crlf) ks) \<and> distinct (map fst ks) \<and>
        (\<forall>m w. (m, w) \<in> set ks \<longleftrightarrow> py_lower m \<noteq> ''host'' \<and> m \<notin> set seen \<and> map_of hs m = Some w)"
      using "2.IH"(1,2) True by blast
    ultimately show ?thesis using True by (elim exE, intro exI) auto
  next
    case False
    from "2.IH"(3) False obtain ks where
      ks: "header_lines hs (n # seen) = concat (map (\<lambda>(n, v). n @ '': '' @ v @ crlf) ks)" "distinct (map fst ks)"
      "\<forall>m w. (m, w) \<in> set ks \<longleftrightarrow> py_lower m \<noteq> ''host'' \<and> m \<notin> set (n # seen) \<and> map_of hs m = Some w" by auto
    with False show ?thesis by (intro exI [of _ "(n, v) # ks"]) auto
  qed
qed (intro exI [of _ "[]"], simp)

text \<open>The headers of a request: every name but the host appears once, with the first value it has in the list of
  the caller followed by the defaults, so the caller's value wins.\<close>

theorem request_headers:
  "\<exists>ks. fst (http_req_buf a host path method (Some payload) (Some headers)) =
     method @ '' '' @ path @ '' HTTP/1.0'' @ crlf @ ''Host: '' @ (if a = IP4 then host else ''['' @ host @ '']'') @ crlf @
     concat (map (\<lambda>(n, v). n @ '': '' @ v @ crlf) ks) @
     ''Content-Length: '' @ show_nat (length payload) @ crlf @ crlf @ payload \<and>
     distinct (map fst ks) \<and>
     (\<forall>n v. (n, v) \<in> set ks \<longleftrightarrow> py_lower n \<noteq> ''host'' \<and> map_of (headers @ HTTP_HEADERS) n = Some v)"
proof -
  from header_lines_spec [of "headers @ HTTP_HEADERS" "[]"] obtain ks where
    ks: "header_lines (headers @ HTTP_HEADERS) [] = concat (map (\<lambda>(n, v). n @ '': '' @ v @ crlf) ks)" "distinct (map fst ks)"
    "\<forall>n v. (n, v) \<in> set ks \<longleftrightarrow> py_lower n \<noteq> ''host'' \<and> map_of (headers @ HTTP_HEADERS) n = Some v" by auto
  have "butlast (butlast (u @ crlf)) = u" for u :: string by (simp add: crlf_def butlast_append)
  from this [of "method @ '' '' @ path @ '' HTTP/1.0'' @ crlf @ ''Host: '' @ (if a = IP4 then host else ''['' @ host @ '']'') @ crlf @
     concat (map (\<lambda>(n, v). n @ '': '' @ v @ crlf) ks) @ ''Content-Length: '' @ show_nat (length payload)"]
  have "fst (http_req_buf a host path method (Some payload) (Some headers)) =
     method @ '' '' @ path @ '' HTTP/1.0'' @ crlf @ ''Host: '' @ (if a = IP4 then host else ''['' @ host @ '']'') @ crlf @
     concat (map (\<lambda>(n, v). n @ '': '' @ v @ crlf) ks) @ ''Content-Length: '' @ show_nat (length payload) @ crlf @ crlf @ payload"
    by (simp add: http_req_buf_def Let_def ks(1) del: butlast.simps)
  with ks(2,3) show ?thesis by blast
qed

definition accepted :: "(string \<Rightarrow> string \<Rightarrow> bool) \<Rightarrow> string \<Rightarrow> bool \<Rightarrow> rest_api \<Rightarrow> bool" where
  "accepted re_match path single a \<longleftrightarrow> single \<or>
     length (fst (snd (route_api re_match path (api_args a)))) = length (fst (route_api re_match path (api_args a)))"

definition positional :: "(string \<Rightarrow> string \<Rightarrow> bool) \<Rightarrow> string \<Rightarrow> rest_api \<Rightarrow> nat" where
  "positional re_match path a = length (snd (snd (route_api re_match path (api_args a))))"

text \<open>The choice of the first best candidate, over an abstract measure.\<close>

definition best_choice ::
  "('a \<Rightarrow> bool) \<Rightarrow> ('a \<Rightarrow> nat) \<Rightarrow> ('a \<Rightarrow> 'r) \<Rightarrow> nat \<Rightarrow> 'a list \<Rightarrow> nat \<Rightarrow> (nat \<times> 'r) option \<Rightarrow> (nat \<times> 'r) option \<Rightarrow> bool" where
  "best_choice acc cnt f i xs bn best r \<longleftrightarrow>
     (r = best \<and> (\<forall>x\<in>set xs. acc x \<longrightarrow> bn \<le> cnt x)) \<or>
     (\<exists>k<length xs. r = Some (i + k, f (xs ! k)) \<and> acc (xs ! k) \<and> cnt (xs ! k) < bn \<and>
        (\<forall>x\<in>set xs. acc x \<longrightarrow> cnt (xs ! k) \<le> cnt x) \<and> (\<forall>l<k. acc (xs ! l) \<longrightarrow> cnt (xs ! k) < cnt (xs ! l)))"

lemma best_choice_take:
  assumes "best_choice acc cnt f (Suc i) xs (cnt a) (Some (i, f a)) r" "acc a" "cnt a < bn"
  shows "best_choice acc cnt f i (a # xs) bn best r"
  using assms(1) unfolding best_choice_def [of acc cnt f "Suc i"]
proof (elim disjE exE conjE)
  assume "r = Some (i, f a)" "\<forall>x\<in>set xs. acc x \<longrightarrow> cnt a \<le> cnt x"
  with assms show ?thesis unfolding best_choice_def by (intro disjI2 exI [of _ 0]) auto
next
  fix k assume "k < length xs" "r = Some (Suc i + k, f (xs ! k))" "acc (xs ! k)" "cnt (xs ! k) < cnt a"
    "\<forall>x\<in>set xs. acc x \<longrightarrow> cnt (xs ! k) \<le> cnt x" "\<forall>l<k. acc (xs ! l) \<longrightarrow> cnt (xs ! k) < cnt (xs ! l)"
  with assms show ?thesis unfolding best_choice_def
    by (intro disjI2 exI [of _ "Suc k"]) (auto simp: nth_Cons split: nat.split)
qed

lemma best_choice_skip:
  assumes "best_choice acc cnt f (Suc i) xs bn best r" "\<not> (acc a \<and> cnt a < bn)"
  shows "best_choice acc cnt f i (a # xs) bn best r"
  using assms(1) unfolding best_choice_def [of acc cnt f "Suc i"]
proof (elim disjE exE conjE)
  assume "r = best" "\<forall>x\<in>set xs. acc x \<longrightarrow> bn \<le> cnt x"
  with assms(2) show ?thesis unfolding best_choice_def by auto
next
  fix k assume "k < length xs" "r = Some (Suc i + k, f (xs ! k))" "acc (xs ! k)" "cnt (xs ! k) < bn"
    "\<forall>x\<in>set xs. acc x \<longrightarrow> cnt (xs ! k) \<le> cnt x" "\<forall>l<k. acc (xs ! l) \<longrightarrow> cnt (xs ! k) < cnt (xs ! l)"
  with assms(2) show ?thesis unfolding best_choice_def
    by (intro disjI2 exI [of _ "Suc k"]) (auto simp: nth_Cons split: nat.split)
qed

lemma find_api_choice:
  "best_choice (accepted re_match path single) (positional re_match path) (\<lambda>a. snd (route_api re_match path (api_args a)))
     i as bn best (snd (find_api re_match path single i as bn best))"
proof (induction "as" arbitrary: i bn best)
  case Nil
  then show ?case by (simp add: best_choice_def)
next
  case (Cons a as)
  obtain ss named unnamed where r: "route_api re_match path (api_args a) = (ss, named, unnamed)"
    by (cases "route_api re_match path (api_args a)") auto
  have c: "positional re_match path a = length unnamed"
    "accepted re_match path single a \<longleftrightarrow> single \<or> length named = length ss"
    by (simp_all add: positional_def accepted_def r)
  show ?case
  proof (cases "accepted re_match path single a \<and> positional re_match path a < bn")
    case True
    with Cons.IH [of "Suc i" "length unnamed" "Some (i, named, unnamed)"] c r show ?thesis
      by (auto simp: Let_def split: prod.split intro!: best_choice_take)
  next
    case False
    with Cons.IH [of "Suc i" bn best] c r show ?thesis
      by (auto simp: Let_def split: prod.split intro!: best_choice_skip)
  qed
qed

text \<open>A request goes to the handler whose schemes are all named by the path, or to the only one, and among these
  to the first with the fewest positional segments; with a hundred segments or more it goes to none.\<close>

theorem dispatch_best_match:
  assumes "snd (find_api re_match path single 0 as 100 None) = Some (k, named, unnamed)"
  shows "k < length as \<and> snd (route_api re_match path (api_args (as ! k))) = (named, unnamed) \<and>
    accepted re_match path single (as ! k) \<and> length unnamed < 100 \<and>
    (\<forall>a\<in>set as. accepted re_match path single a \<longrightarrow> length unnamed \<le> positional re_match path a) \<and>
    (\<forall>l<k. accepted re_match path single (as ! l) \<longrightarrow> length unnamed < positional re_match path (as ! l))"
proof -
  have b: "best_choice (accepted re_match path single) (positional re_match path)
      (\<lambda>a. snd (route_api re_match path (api_args a))) 0 as 100 None (Some (k, named, unnamed))"
    using find_api_choice [of re_match path single 0 "as" 100 None] assms by simp
  then have r: "snd (route_api re_match path (api_args (as ! k))) = (named, unnamed)" by (auto simp: best_choice_def)
  then have "positional re_match path (as ! k) = length unnamed" by (simp add: positional_def)
  with b r show ?thesis by (auto simp: best_choice_def)
qed

theorem dispatch_best_match_witness:
  "\<exists>k named unnamed. snd (find_api (\<lambda>_ _. False) ''/a/1/x'' False 0
       [\<lparr>api_args = [[''b'']], api_call = (\<lambda>_. Inr ROther)\<rparr>, \<lparr>api_args = [[''a'']], api_call = (\<lambda>_. Inr ROther)\<rparr>] 100 None) =
     Some (k, named, unnamed) \<and> k < 2 \<and> length unnamed < 100"
proof -
  let ?as = "[\<lparr>api_args = [[''b'']], api_call = (\<lambda>_. Inr ROther)\<rparr>, \<lparr>api_args = [[''a'']], api_call = (\<lambda>_. Inr ROther)\<rparr>]"
  have f: "snd (find_api (\<lambda>_ _. False) ''/a/1/x'' False 0 ?as 100 None) = Some (1, [(''a'', ''1'')], [(0, ''x'')])"
    by (simp add: route_api_def path_segments_def scheme_assign_def scheme_value_def Let_def)
  from dispatch_best_match [OF f] f show ?thesis by auto
qed

end
