(* ===== verification/Address.thy ===== *)
theory Address
  imports Binds
begin

text \<open>
  Resolving a destination (\<open>net/address.py\<close>): an address text or a name to at most one address per family, the
  tuple for the socket calls with the scope of IPv6 link-local addresses, and the choice by family. The route
  of the interface is the number it gives for a family, and the answers of the resolver and of
  \<open>if_nametoindex\<close> are arguments. The attribute \<open>is_loopback\<close> of a range is set from the same text that is stored
  with it, so only the test on the text is kept.
\<close>

section \<open>Destination tuples\<close>

datatype sock_tup = Tup2 string int | Tup4 string int int int

definition VALID_LOOPBACKS :: "string list" where
  "VALID_LOOPBACKS = [''127.0.0.1'', ''::1'']"

text \<open>The text before and after the last percent sign.\<close>

definition rsplit_scope :: "string \<Rightarrow> string \<times> string" where
  "rsplit_scope ip =
     (let r = rev ip in (rev (tl (dropWhile (\<lambda>c. c \<noteq> CHR ''%'') r)), rev (takeWhile (\<lambda>c. c \<noteq> CHR ''%'') r)))"

definition resolve_dest_tup :: "(string \<Rightarrow> int option) \<Rightarrow> af \<Rightarrow> string \<Rightarrow> int \<Rightarrow> sock_tup" where
  "resolve_dest_tup nametoindex a ip port =
     (if a = IP6 \<and> CHR ''%'' \<in> set ip
      then (case rsplit_scope ip of (host, scope) \<Rightarrow>
              (case py_int 10 scope of
                 Inr n \<Rightarrow> Tup4 host port 0 n
               | Inl e \<Rightarrow> (case nametoindex scope of Some n \<Rightarrow> Tup4 host port 0 n | None \<Rightarrow> Tup2 ip port)))
      else Tup2 ip port)"

record DestTup =
  dt_af :: af
  dt_ip :: string
  dt_port :: int
  dt_flow_id :: int
  dt_scope_id :: int
  dt_tup :: sock_tup
  dt_ipr :: "IPRange option"
  dt_private :: bool
  dt_public :: bool
  dt_loopback :: bool

definition make_dest_tup :: "af \<Rightarrow> string \<Rightarrow> int \<Rightarrow> int \<Rightarrow> int \<Rightarrow> IPRange option \<Rightarrow> DestTup" where
  "make_dest_tup a ip port flow_id scope_id ipr =
     \<lparr>dt_af = a, dt_ip = ip, dt_port = port, dt_flow_id = flow_id, dt_scope_id = scope_id,
      dt_tup = (if a = IP6 \<and> scope_id \<noteq> 0 then Tup4 (takeWhile (\<lambda>c. c \<noteq> CHR ''%'') ip) port flow_id scope_id else Tup2 ip port),
      dt_ipr = ipr,
      dt_private = (case ipr of None \<Rightarrow> False | Some r \<Rightarrow> ir_private r),
      dt_public = (case ipr of None \<Rightarrow> False | Some r \<Rightarrow> ir_public r),
      dt_loopback = (ip \<in> set VALID_LOOPBACKS)\<rparr>"

definition dest_supported :: "DestTup \<Rightarrow> af list" where
  "dest_supported d = [dt_af d]"

section \<open>Addresses\<close>

record Address =
  ad_host :: string
  ad_port :: int
  ad_IP4 :: "string option"
  ad_IP6 :: "string option"
  ad_v4_ipr :: "IPRange option"
  ad_v6_ipr :: "IPRange option"
  ad_v6_flow_id :: int
  ad_v6_scope_id :: int
  ad_resolved :: bool

definition address_init :: "string \<Rightarrow> int \<Rightarrow> Address" where
  "address_init host port =
     \<lparr>ad_host = host, ad_port = port, ad_IP4 = None, ad_IP6 = None, ad_v4_ipr = None, ad_v6_ipr = None,
      ad_v6_flow_id = 0, ad_v6_scope_id = 0, ad_resolved = False\<rparr>"

definition set_ip :: "IPRange \<Rightarrow> string \<Rightarrow> Address \<Rightarrow> Address" where
  "set_ip r ip a =
     (if ir_af r = IP4 then a\<lparr>ad_IP4 := Some ip, ad_v4_ipr := Some r\<rparr> else a\<lparr>ad_IP6 := Some ip, ad_v6_ipr := Some r\<rparr>)"

text \<open>What a resolution depends on: the table of private networks, the platform, the route of the interface by
  family when there is one, interface names, and the resolver with the family of each result, when it is a
  known one, its text, and flow and scope when the result has them.\<close>

record addr_env =
  ae_priv :: "af \<Rightarrow> int \<Rightarrow> bool"
  ae_plat :: string
  ae_route :: "(af \<Rightarrow> tval result) option"
  ae_nametoindex :: "string \<Rightarrow> int option"
  ae_lookup :: "string \<Rightarrow> (af option \<times> string \<times> (int \<times> int) option) list result"

definition sock_res_domain :: "addr_env \<Rightarrow> string \<Rightarrow> (af \<times> string \<times> (int \<times> int) option) list result" where
  "sock_res_domain env host =
     bindr (ae_lookup env host) (\<lambda>infos.
       mapr (\<lambda>(a, ip, fs). bindr (ip_norm ip) (\<lambda>t. Inr (a, t, fs)))
         (List.map_filter (\<lambda>(a, ip, fs). map_option (\<lambda>f. (f, ip, fs)) a) infos))"

definition scope_of :: "addr_env \<Rightarrow> tval \<Rightarrow> int option" where
  "scope_of env nic_id =
     (case nic_id of
        VNone \<Rightarrow> None
      | VInt n \<Rightarrow> Some n
      | VStr s \<Rightarrow> (case py_int 10 s of Inr n \<Rightarrow> Some n | Inl e \<Rightarrow> ae_nametoindex env s))"

text \<open>The interface number of the route that is used; None when the interface has no route for the family.\<close>

definition route_nic_id :: "addr_env \<Rightarrow> tval option \<Rightarrow> af \<Rightarrow> tval option result" where
  "route_nic_id env route f =
     (case route of
        Some i \<Rightarrow> Inr (Some i)
      | None \<Rightarrow>
          (case ae_route env of
             None \<Rightarrow> Inr (Some VNone)
           | Some g \<Rightarrow> (case g f of Inr i \<Rightarrow> Inr (Some i) | Inl e \<Rightarrow> if e \<in> {KeyError, ValueError} then Inr None else Inl e)))"

text \<open>An address text. Without a route for its family only the text is kept.\<close>

definition res_literal :: "addr_env \<Rightarrow> tval option \<Rightarrow> IPRange \<Rightarrow> Address \<Rightarrow> Address result" where
  "res_literal env route r a =
     bindr (route_nic_id env route (ir_af r)) (\<lambda>i.
     bindr (ipr_norm r) (\<lambda>t.
       case i of
         None \<Rightarrow> Inr ((set_ip r t a)\<lparr>ad_resolved := True\<rparr>)
       | Some nic_id \<Rightarrow>
           bindr (patch_connect_ip (ae_priv env) (ae_plat env) t nic_id (Some r)) (\<lambda>ip.
             let a1 = set_ip r ip a in
             Inr ((if ir_af r = IP6 \<and> nic_id \<noteq> VNone \<and> ad_v6_scope_id a1 = 0 \<and> ir_private r
                   then (case scope_of env nic_id of Some n \<Rightarrow> a1\<lparr>ad_v6_scope_id := n\<rparr> | None \<Rightarrow> a1)
                   else a1)\<lparr>ad_resolved := True\<rparr>))))"

fun foldr_res :: "('x \<Rightarrow> 's \<Rightarrow> 's result) \<Rightarrow> 'x list \<Rightarrow> 's \<Rightarrow> 's result" where
  "foldr_res f [] s = Inr s"
| "foldr_res f (x # xs) s = bindr (f x s) (foldr_res f xs)"

text \<open>\<open>res\<close>, with the calls of itself that are left; Python's own limit raises a \<open>RecursionError\<close>.\<close>

fun res :: "addr_env \<Rightarrow> nat \<Rightarrow> tval option \<Rightarrow> string \<Rightarrow> Address \<Rightarrow> Address result" where
  "res env 0 route host a = Inl RuntimeError"
| "res env (Suc k) route host a =
     (case ip_range (ae_priv env) (IpStr host) None None of
        Inr r \<Rightarrow> res_literal env route r a
      | Inl e \<Rightarrow>
          if e \<notin> {ValueError, OSError} then Inl e
          else bindr (sock_res_domain env host) (\<lambda>results.
            if results = [] then Inl LookupError
            else bindr (foldr_res (\<lambda>(f, ip, fs) a.
                   res env k route ip
                     (case (f, fs) of (IP6, Some (flow, scope)) \<Rightarrow> a\<lparr>ad_v6_flow_id := flow, ad_v6_scope_id := scope\<rparr> | _ \<Rightarrow> a)) results a)
              (\<lambda>a'. Inr (a'\<lparr>ad_resolved := True\<rparr>))))"

definition select_ip :: "Address \<Rightarrow> af \<Rightarrow> DestTup result" where
  "select_ip a f =
     (if f = IP4
      then (case ad_IP4 a of None \<Rightarrow> Inl KeyError | Some ip \<Rightarrow> Inr (make_dest_tup f ip (ad_port a) 0 0 (ad_v4_ipr a)))
      else (case ad_IP6 a of
              None \<Rightarrow> Inl KeyError
            | Some ip \<Rightarrow> Inr (make_dest_tup f ip (ad_port a) (ad_v6_flow_id a) (ad_v6_scope_id a) (ad_v6_ipr a))))"

text \<open>What \<open>resolv_dest\<close> is given: a tuple, an address that is not resolved here, or a destination.\<close>

datatype dest_arg = DTuple string int | DAddress Address | DDest DestTup

definition resolv_dest :: "addr_env \<Rightarrow> nat \<Rightarrow> af \<Rightarrow> dest_arg \<Rightarrow> sock_tup result" where
  "resolv_dest env k f dest =
     (case dest of
        DDest d \<Rightarrow> Inr (dt_tup d)
      | DAddress a \<Rightarrow> bindr (select_ip a f) (\<lambda>d. Inr (dt_tup d))
      | DTuple host port \<Rightarrow>
          (case ip_range (ae_priv env) (IpStr host) None (Some 0) of
             Inr r \<Rightarrow> Inr (Tup2 host port)
           | Inl e \<Rightarrow>
               if e = ValueError
               then bindr (res env k None host (address_init host port)) (\<lambda>a. bindr (select_ip a f) (\<lambda>d. Inr (dt_tup d)))
               else Inl e))"

section \<open>Properties\<close>

lemma foldr_res_cong:
  "(\<And>x s. x \<in> set xs \<Longrightarrow> f x s = g x s) \<Longrightarrow> foldr_res f xs s = foldr_res g xs s"
proof (induction xs arbitrary: s)
  case (Cons x xs)
  then show ?case by (cases "g x s") auto
qed simp

lemma sock_res_domain_norm:
  assumes "sock_res_domain env host = Inr results" "(f, t, fs) \<in> set results"
  shows "\<exists>ip. ip_norm ip = Inr t"
proof -
  obtain infos where i: "mapr (\<lambda>(a, ip, fs). bindr (ip_norm ip) (\<lambda>t. Inr (a, t, fs))) infos = Inr results"
    using assms(1) by (auto simp: sock_res_domain_def bindr_eq_Inr)
  then have "(f, t, fs) \<in> set results \<Longrightarrow> \<exists>ip. ip_norm ip = Inr t"
    by (induction infos arbitrary: results) (auto simp: bindr_eq_Inr)
  then show ?thesis using assms(2) by blast
qed

lemma ip_range_of_norm: "ip_norm s = Inr t \<Longrightarrow> \<exists>r. ip_range priv (IpStr t) None None = Inr r"
proof -
  assume "ip_norm s = Inr t"
  then obtain a where "t = ipa_text a" "ipa_ok a" by (rule ip_norm_Inr) (rule that)
  then show ?thesis using ip_range_of_text by blast
qed

text \<open>C37. Resolving a host calls itself at most once below the first call: with room for two calls the result does
  not depend on how deep the recursion may go, whatever the resolver answers.\<close>

theorem res_depth: "res env (Suc (Suc k)) route host a = res env 2 route host a"
proof -
  have "foldr_res (\<lambda>(f, ip, fs) a. res env (Suc k) route ip
        (case (f, fs) of (IP6, Some (flow, scope)) \<Rightarrow> a\<lparr>ad_v6_flow_id := flow, ad_v6_scope_id := scope\<rparr> | _ \<Rightarrow> a)) results a =
      foldr_res (\<lambda>(f, ip, fs) a. res env (Suc 0) route ip
        (case (f, fs) of (IP6, Some (flow, scope)) \<Rightarrow> a\<lparr>ad_v6_flow_id := flow, ad_v6_scope_id := scope\<rparr> | _ \<Rightarrow> a)) results a"
    if lk: "sock_res_domain env host = Inr results" for results a
  proof (rule foldr_res_cong)
    fix x s assume x: "x \<in> set results"
    obtain f t fs where e: "x = (f, t, fs)" by (cases x) auto
    obtain r where "ip_range (ae_priv env) (IpStr t) None None = Inr r"
      using sock_res_domain_norm [OF lk] x ip_range_of_norm by (metis e)
    then show "(case x of (f, ip, fs) \<Rightarrow> \<lambda>a. res env (Suc k) route ip
        (case (f, fs) of (IP6, Some (flow, scope)) \<Rightarrow> a\<lparr>ad_v6_flow_id := flow, ad_v6_scope_id := scope\<rparr> | _ \<Rightarrow> a)) s =
      (case x of (f, ip, fs) \<Rightarrow> \<lambda>a. res env (Suc 0) route ip
        (case (f, fs) of (IP6, Some (flow, scope)) \<Rightarrow> a\<lparr>ad_v6_flow_id := flow, ad_v6_scope_id := scope\<rparr> | _ \<Rightarrow> a)) s"
      by (simp add: e)
  qed
  then show ?thesis
    by (cases "sock_res_domain env host") (simp_all add: numeral_2_eq_2 split: sum.split)
qed

lemma res_literal_v6:
  assumes "res_literal env route r a = Inr a'" "ir_af r = IP6"
  shows "\<exists>t ip scope. ipr_norm r = Inr t \<and>
    (ip = t \<or> (\<exists>nic_id. patch_connect_ip (ae_priv env) (ae_plat env) t nic_id (Some r) = Inr ip)) \<and>
    a' = a\<lparr>ad_IP6 := Some ip, ad_v6_ipr := Some r, ad_v6_scope_id := scope, ad_resolved := True\<rparr> \<and>
    (\<not> ir_private r \<longrightarrow> scope = ad_v6_scope_id a)"
proof -
  from assms(1) obtain i t where i: "route_nic_id env route (ir_af r) = Inr i" "ipr_norm r = Inr t"
    by (auto simp: res_literal_def bindr_eq_Inr)
  show ?thesis
  proof (cases i)
    case None
    with i assms show ?thesis
      by (intro exI [of _ t] exI [of _ "ad_v6_scope_id a"]) (auto simp: res_literal_def set_ip_def)
  next
    case (Some n)
    with i assms obtain ip where p: "patch_connect_ip (ae_priv env) (ae_plat env) t n (Some r) = Inr ip"
      by (auto simp: res_literal_def bindr_eq_Inr)
    have "\<exists>scope. a' = a\<lparr>ad_IP6 := Some ip, ad_v6_ipr := Some r, ad_v6_scope_id := scope, ad_resolved := True\<rparr> \<and>
        (\<not> ir_private r \<longrightarrow> scope = ad_v6_scope_id a)"
    proof (cases "n \<noteq> VNone \<and> ad_v6_scope_id a = 0 \<and> ir_private r \<and> scope_of env n \<noteq> None")
      case True
      with Some i p assms show ?thesis
        by (intro exI [of _ "the (scope_of env n)"]) (auto simp: res_literal_def set_ip_def)
    next
      case False
      with Some i p assms show ?thesis
        by (intro exI [of _ "ad_v6_scope_id a"]) (auto simp: res_literal_def set_ip_def Let_def split: option.splits)
    qed
    with i p show ?thesis by blast
  qed
qed

text \<open>A global IPv6 address that is given as text is reached without a scope, whatever interface the route
  belongs to: the tuple for the socket has two fields.\<close>

theorem global_v6_unscoped:
  assumes "ip_range (ae_priv env) (IpStr host) None None = Inr r" "ir_af r = IP6" "\<not> ir_private r"
    "res env (Suc k) route host (address_init host port) = Inr a" "select_ip a IP6 = Inr d"
  shows "\<exists>ip. dt_tup d = Tup2 ip port \<and> ad_IP6 a = Some ip \<and> dt_public d = ir_public r"
proof -
  have "res_literal env route r (address_init host port) = Inr a" using assms(1,4) by simp
  from res_literal_v6 [OF this assms(2)] assms(3,5) show ?thesis
    by (auto simp: address_init_def select_ip_def make_dest_tup_def)
qed

lemma v6_text_long:
  assumes "ip_range priv (IpStr host) None None = Inr r" "ir_af r = IP6"
  shows "\<exists>t. ir_ip r = IpStr t \<and> length t = 39"
proof -
  obtain ip1 x nm p b where x: "base_addr (IpStr host) None = Inr (ip1, x)" "r = built p ip1 x nm b"
    using assms(1) by (rule ip_range_built)
  obtain t where t: "ip_norm host = Inr t" "ip1 = IpStr t" "ipa_of_str t = Inr x"
    using x(1) by (cases "ip_norm host") (auto simp: base_addr_def norm_arg_def bindr_eq_Inr)
  obtain a where "t = ipa_text a" "ipa_of_str t = Inr a"
    by (rule ip_norm_Inr [OF t(1)]) (rule that)
  then have "t = ipa_text x" using t(3) by (metis sum.inject(2))
  moreover have "fst x = IP6" using assms(2) unfolding x(2) by simp
  ultimately show ?thesis using length_ipa_text6 [of "snd x"] t(2) x(2) by (cases x) (simp add: built_def Let_def)
qed

lemma ipr_norm_v6:
  assumes "ipr_norm r = Inr t" "ir_af r = IP6"
  shows "length t = 39"
proof -
  obtain x where x: "get_value r 0 = Inr x" "ip_norm (ipa_text x) = Inr t" using assms(1) by (auto simp: ipr_norm_def bindr_eq_Inr)
  then have "fst x = IP6" "ipa_ok x" using assms(2) by (auto simp: get_value_def Let_def ipa_of_def ipa_ok_def split: if_splits)
  then show ?thesis using x(2) length_ipa_text6 [of "snd x"] by (cases x) (simp add: ip_norm_plain)
qed

text \<open>An IPv6 address that is given as text is never recognised as the loopback one: its text is written out in
  full before it is compared with \<open>::1\<close>.\<close>

theorem v6_loopback_missed:
  assumes "ip_range (ae_priv env) (IpStr host) None None = Inr r" "ir_af r = IP6"
    "res env (Suc k) route host (address_init host port) = Inr a" "select_ip a IP6 = Inr d"
  shows "\<not> dt_loopback d"
proof -
  have l: "res_literal env route r (address_init host port) = Inr a" using assms(1,3) by simp
  obtain u where u: "ir_ip r = IpStr u" "length u = 39" using v6_text_long [OF assms(1,2)] by blast
  then have any: "u \<notin> set VALID_ANY_ADDR" by (auto simp: VALID_ANY_ADDR_def)
  have long: "39 \<le> length ip'" if "ipr_norm r = Inr t" "ip' = t \<or> patch_connect_ip priv plat t nic_id (Some r) = Inr ip'" for t ip' priv plat nic_id
    using that ipr_norm_v6 [OF that(1) assms(2)] any u(1)
    by (auto simp: patch_connect_ip_def ip6_patch_bind_ip_def assms(2) split: if_splits)
  obtain t ip scope where t: "ipr_norm r = Inr t"
    "ip = t \<or> (\<exists>nic_id. patch_connect_ip (ae_priv env) (ae_plat env) t nic_id (Some r) = Inr ip)"
    "a = (address_init host port)\<lparr>ad_IP6 := Some ip, ad_v6_ipr := Some r, ad_v6_scope_id := scope, ad_resolved := True\<rparr>"
    using res_literal_v6 [OF l assms(2)] by blast
  have "39 \<le> length ip" using t(2) long [OF t(1)] by blast
  then have "\<exists>ip. 39 \<le> length ip \<and> ad_IP6 a = Some ip" by (simp add: t(3))
  with assms(4) show ?thesis by (auto simp: select_ip_def make_dest_tup_def VALID_LOOPBACKS_def)
qed

end
