(* ===== verification/Iface.thy ===== *)
theory Iface
  imports RouteBuild NatUtils Address "HOL-Library.List_Lexorder" "HOL-Library.Char_ord" "HOL-Library.Sublist"
begin

text \<open>
  Network interfaces: what the backend \<open>netifaces\<close> reports (\<open>nic/netifaces/netiface_extra.py\<close>), the helpers of
  \<open>nic/interface_utils.py\<close> with the loading of several interfaces, the accessors of \<open>nic/interface.py\<close>, the end of
  \<open>nic/load_interface.py\<close>, the group of interfaces by family (\<open>nic/af_group.py\<close>) and the choice of an interface
  (\<open>nic/select_interface.py\<close>). The backend, the addresses that the system prefers and the outcome of the network
  tests are arguments.
\<close>

section \<open>The backend\<close>

record addr_info =
  ai_addr :: "string option"
  ai_netmask :: "string option"

text \<open>The names of the interfaces, and the addresses of one by family, if it has an entry.\<close>

record netifaces =
  nf_interfaces :: "string list"
  nf_ifaddresses :: "string \<Rightarrow> af \<Rightarrow> addr_info list option"
  nf_mac :: "string \<Rightarrow> string option"

definition VALID_AFS :: "af list" where
  "VALID_AFS = [IP4, IP6]"

datatype stack = Stack af | DUEL_STACK | UNKNOWN_STACK

definition get_interface_af :: "netifaces \<Rightarrow> string \<Rightarrow> stack" where
  "get_interface_af nf name =
     (case filter (\<lambda>a. case nf_ifaddresses nf name a of None \<Rightarrow> False | Some l \<Rightarrow> l \<noteq> []) [IP4, IP6] of
        [x, y] \<Rightarrow> DUEL_STACK | [x] \<Rightarrow> Stack x | _ \<Rightarrow> UNKNOWN_STACK)"

text \<open>The name of the interface with the address that the system prefers, the empty text when there is none.\<close>

fun has_addr :: "string \<Rightarrow> addr_info list \<Rightarrow> bool result" where
  "has_addr ip [] = Inr False"
| "has_addr ip (i # is) = (case ai_addr i of None \<Rightarrow> Inl KeyError | Some t \<Rightarrow> if t = ip then Inr True else has_addr ip is)"

fun default_name :: "netifaces \<Rightarrow> af \<Rightarrow> string \<Rightarrow> string list \<Rightarrow> string option result" where
  "default_name nf a ip [] = Inr None"
| "default_name nf a ip (n # ns) =
     bindr (case nf_ifaddresses nf n a of None \<Rightarrow> Inr False | Some l \<Rightarrow> has_addr ip l) (\<lambda>b.
       if b then Inr (Some n) else default_name nf a ip ns)"

fun get_default_iface :: "netifaces \<Rightarrow> (af \<Rightarrow> string) \<Rightarrow> af list \<Rightarrow> string result" where
  "get_default_iface nf default_ip [] = Inr []"
| "get_default_iface nf default_ip (a # afs) =
     bindr (default_name nf a (default_ip a) (nf_interfaces nf)) (\<lambda>n.
       case n of Some name \<Rightarrow> Inr name | None \<Rightarrow> get_default_iface nf default_ip afs)"

datatype iface_type = INTERFACE_UNKNOWN | INTERFACE_ETHERNET | INTERFACE_WIRELESS

definition is_digit_c :: "char \<Rightarrow> bool" where
  "is_digit_c c = (48 \<le> ord_c c \<and> ord_c c \<le> 57)"

definition get_interface_type :: "string \<Rightarrow> iface_type" where
  "get_interface_type name0 =
     (let name = py_lower name0 in
      if take 2 name = ''en'' \<and> length name > 2 \<and> is_digit_c (name ! 2) then INTERFACE_ETHERNET
      else if list_ex (\<lambda>e. py_contains e name) [''eth'', ''eno'', ''ens'', ''enp'', ''enx'', ''ethernet'', ''local area connection'']
        then INTERFACE_ETHERNET
      else if list_ex (\<lambda>w. py_contains w name) [''wlx'', ''wlp'', ''wireless'', ''wlan'', ''wifi'', ''wireless network connection'']
        then INTERFACE_WIRELESS
      else if take 2 name = ''wl'' then INTERFACE_WIRELESS
      else INTERFACE_UNKNOWN)"

definition clean_if_list :: "string list \<Rightarrow> string list" where
  "clean_if_list ifs = filter (\<lambda>n. get_interface_type n \<noteq> INTERFACE_UNKNOWN) ifs"

text \<open>An address of an interface as a range. The test bind leaves its loop after the first address and never marks
  the subnet as invalid; only an error that is not an \<open>OSError\<close> gets out of it.\<close>

definition bind_test :: "unit result \<Rightarrow> IPRange \<Rightarrow> IPRange result" where
  "bind_test outcome r =
     (if ir_host r \<noteq> 0 then Inr r
      else (case bindr (get_value r 0) (\<lambda>_. outcome) of
              Inr _ \<Rightarrow> Inr r
            | Inl e \<Rightarrow> if e = OSError then Inr r else Inl e))"

definition netiface_addr_to_ipr ::
  "(af \<Rightarrow> int \<Rightarrow> bool) \<Rightarrow> af \<Rightarrow> unit result \<Rightarrow> addr_info \<Rightarrow> IPRange option result" where
  "netiface_addr_to_ipr priv a outcome info =
     (case (ai_addr info, ai_netmask info) of
        (Some addr, Some netmask) \<Rightarrow>
          (let len = int (af_bitlen a) in
           bindr (case ip_range priv (IpStr addr) (Some (IpStr netmask)) None of
                    Inr probe \<Rightarrow>
                      if ir_host probe = 0 then Inr (probe\<lparr>ir_subnet := Some (len - int (ir_bitlen probe))\<rparr>)
                      else bindr (ip_range priv (IpStr addr) None (Some 0)) (\<lambda>r. Inr (r\<lparr>ir_subnet := Some (len - int (ir_bitlen probe))\<rparr>))
                  | Inl e \<Rightarrow>
                      if e \<noteq> ValueError then Inl e
                      else bindr (ip_range priv (IpStr addr) None (Some 0)) (\<lambda>r. Inr (r\<lparr>ir_subnet := Some len\<rparr>)))
             (\<lambda>r. bindr (bind_test outcome r) (\<lambda>r. Inr (Some r))))
      | _ \<Rightarrow> Inr None)"

text \<open>\<open>get_nic_iprs\<close>: what cannot be read is left out.\<close>

definition get_nic_iprs :: "(af \<Rightarrow> int \<Rightarrow> bool) \<Rightarrow> af \<Rightarrow> (addr_info \<Rightarrow> unit result) \<Rightarrow> netifaces option \<Rightarrow> string \<Rightarrow> IPRange list" where
  "get_nic_iprs priv a outcome nf name =
     (case nf of
        None \<Rightarrow> []
      | Some f \<Rightarrow>
          (case nf_ifaddresses f name a of
             None \<Rightarrow> []
           | Some infos \<Rightarrow>
               List.map_filter (\<lambda>i. case netiface_addr_to_ipr priv a (outcome i) i of Inr r \<Rightarrow> r | Inl e \<Rightarrow> None) infos))"

text \<open>The address of the link layer, or what the commands of the system find.\<close>

definition get_mac_address :: "netifaces \<Rightarrow> string option result \<Rightarrow> string \<Rightarrow> string option result" where
  "get_mac_address nf mixed name =
     (case nf_mac nf name of
        Some m \<Rightarrow> Inr (Some (mac_norm m))
      | None \<Rightarrow>
          (case mixed of
             Inl e \<Rightarrow> if e \<in> {OSError, TimeoutError} then Inr None else Inl e
           | Inr m \<Rightarrow> Inr (map_option mac_norm m)))"

text \<open>Gateways by family, each with the address, the name of the interface and whether it is the default one; and
  the default entries, patched in when there are none.\<close>

type_synonym gateway = "string \<times> string \<times> bool"

text \<open>The loop over the gateways of one family: it goes on past unknown interfaces and stops at the first other.\<close>

fun first_known_gw :: "gateway list \<Rightarrow> gateway option" where
  "first_known_gw [] = None"
| "first_known_gw (g # gs) =
     (if get_interface_type (fst (snd g)) = INTERFACE_UNKNOWN then first_known_gw gs
      else if snd (snd g) then Some g else None)"

definition netiface_gateways ::
  "(af \<Rightarrow> gateway list option) \<Rightarrow> (af \<times> gateway) list \<Rightarrow> af option \<Rightarrow> (af \<times> gateway) list" where
  "netiface_gateways gws dflt preference =
     (if dflt \<noteq> [] then dflt
      else fold (\<lambda>a d. case gws a of
              None \<Rightarrow> d
            | Some l \<Rightarrow> (case first_known_gw l of None \<Rightarrow> d | Some g \<Rightarrow> dict_set a g d))
           (case preference of None \<Rightarrow> VALID_AFS | Some a \<Rightarrow> [a]) [])"

section \<open>Interfaces\<close>

record Interface =
  ni_name :: string
  ni_stack :: stack
  ni_rp :: "af \<Rightarrow> RoutePool"
  ni_resolved :: bool
  ni_mac :: string
  ni_id :: tval
  ni_no :: int
  ni_index :: int
  ni_nat :: "nat_desc option"

definition get_interface_stack :: "(af \<Rightarrow> RoutePool) \<Rightarrow> stack" where
  "get_interface_stack rp =
     (case filter (\<lambda>a. rp_routes (rp a) \<noteq> []) [IP4, IP6] of
        [x, y] \<Rightarrow> DUEL_STACK | [x] \<Rightarrow> Stack x | _ \<Rightarrow> UNKNOWN_STACK)"

text \<open>The families are sorted by their number, which puts IPv4 first.\<close>

definition iface_supported :: "Interface \<Rightarrow> bool \<Rightarrow> af list result" where
  "iface_supported i skip_resolve =
     (if \<not> skip_resolve \<and> \<not> ni_resolved i then Inl ValueError
      else (case ni_stack i of UNKNOWN_STACK \<Rightarrow> Inl ValueError | DUEL_STACK \<Rightarrow> Inr [IP4, IP6] | Stack a \<Rightarrow> Inr [a]))"

definition what_afs :: "Interface \<Rightarrow> af list result" where
  "what_afs i = (if \<not> ni_resolved i then Inl ValueError else iface_supported i False)"

definition iface_route :: "(af \<Rightarrow> int \<Rightarrow> bool) \<Rightarrow> Interface \<Rightarrow> af option \<Rightarrow> Route result" where
  "iface_route priv i a =
     bindr (if \<not> ni_resolved i then (case a of None \<Rightarrow> Inl ValueError | Some f \<Rightarrow> Inr f)
            else bindr (case a of Some f \<Rightarrow> Inr f | None \<Rightarrow> bindr (iface_supported i False) (\<lambda>l. Inr (hd l))) (\<lambda>f.
              bindr (what_afs i) (\<lambda>l. if f \<in> set l then Inr f else Inl ValueError)))
       (\<lambda>f. case rp_routes (ni_rp i f) of [] \<Rightarrow> Inl LookupError | r # _ \<Rightarrow> route_deepcopy priv r)"

definition iface_nic :: "(af \<Rightarrow> int \<Rightarrow> bool) \<Rightarrow> Interface \<Rightarrow> af \<Rightarrow> string option result" where
  "iface_nic priv i a =
     bindr (if ni_resolved i then bindr (what_afs i) (\<lambda>l. if a \<in> set l then Inr () else Inl ValueError) else Inr ()) (\<lambda>_.
       if rp_routes (ni_rp i a) = [] then Inr None
       else bindr (iface_route priv i (Some a)) (\<lambda>r. bindr (ro_nic r) (\<lambda>t. Inr (Some t))))"

text \<open>The families with the most interfaces; what \<open>iface_supported\<close> raises goes out.\<close>

definition get_ifs_by_af_intersect :: "Interface list \<Rightarrow> (Interface list \<times> af option) result" where
  "get_ifs_by_af_intersect if_list =
     bindr (mapr (\<lambda>i. bindr (iface_supported i False) (\<lambda>l. Inr (i, l))) if_list) (\<lambda>ils.
       Inr (fold (\<lambda>a (largest, used).
              let hay = map fst (filter (\<lambda>(i, l). a \<in> set l) ils) in
              if length hay > length largest then (hay, Some a) else (largest, used)) VALID_AFS ([], None)))"

definition get_nic_for_af :: "Interface list \<Rightarrow> (af \<Rightarrow> Interface option) result" where
  "get_nic_for_af nics =
     bindr (mapr (\<lambda>i. bindr (iface_supported i False) (\<lambda>l. Inr (i, l))) nics) (\<lambda>ils.
       Inr (\<lambda>a. map_option fst (find (\<lambda>(i, l). a \<in> set l) ils)))"

text \<open>\<open>is_nic_default\<close>: whether the interface has the local address of the default route.\<close>

definition is_nic_default :: "(af \<Rightarrow> string result) \<Rightarrow> netifaces \<Rightarrow> string \<Rightarrow> af \<Rightarrow> bool result" where
  "is_nic_default default_nic nf name a =
     (case default_nic a of
        Inl e \<Rightarrow> if e \<in> {KeyError, IndexError, AttributeError, LookupError} then Inr False else Inl e
      | Inr ip \<Rightarrow>
          Inr (name \<noteq> [] \<and> (case nf_ifaddresses nf name a of
                 None \<Rightarrow> False
               | Some l \<Rightarrow> list_ex (\<lambda>i. case ai_addr i of
                     None \<Rightarrow> False
                   | Some t \<Rightarrow> t \<noteq> [] \<and> takeWhile (\<lambda>c. c \<noteq> CHR ''%'') t = ip) l)))"

text \<open>The number of the interface in the kernel: from the backend when it knows, from the system, or for IPv6 from
  the scope of a link-local address, and otherwise the name.\<close>

definition get_nic_id ::
  "netifaces option \<Rightarrow> (af option \<Rightarrow> string \<Rightarrow> tval) option \<Rightarrow> (string \<Rightarrow> int option) \<Rightarrow> Interface \<Rightarrow> af option \<Rightarrow> tval" where
  "get_nic_id nf backend nametoindex i a =
     (case nf of
        None \<Rightarrow> ni_id i
      | Some f \<Rightarrow>
          (case backend of
             Some g \<Rightarrow> g a (ni_name i)
           | None \<Rightarrow>
               (case nametoindex (ni_name i) of
                  Some n \<Rightarrow> VInt n
                | None \<Rightarrow>
                    if a = Some IP6
                    then (case find (\<lambda>t. CHR ''%'' \<in> set t)
                                 (map (\<lambda>e. case ai_addr e of None \<Rightarrow> [] | Some t \<Rightarrow> t)
                                   (case nf_ifaddresses f (ni_name i) IP6 of None \<Rightarrow> [] | Some l \<Rightarrow> l)) of
                            Some t \<Rightarrow> VStr (snd (rsplit_scope t))
                          | None \<Rightarrow> VStr (ni_name i))
                    else VStr (ni_name i))))"

subsection \<open>Dictionary form\<close>

text \<open>The texts that describe the kind of NAT and delta, which reading ignores, are left out. Reading answers the
  interface with the test for being the default one, which is then what the dictionary says.\<close>

record nic_dict =
  nd_name :: string
  nd_index :: int
  nd_no :: int
  nd_id :: tval
  nd_mac :: string
  nd_is_default :: "af \<Rightarrow> bool"
  nd_nat :: "(int \<times> delta) option"
  nd_rp :: "af \<Rightarrow> route_dict list"

definition nic_to_dict :: "(af \<Rightarrow> bool) \<Rightarrow> Interface \<Rightarrow> nic_dict" where
  "nic_to_dict is_default i =
     \<lparr>nd_name = ni_name i, nd_index = ni_index i, nd_no = ni_no i, nd_id = ni_id i, nd_mac = ni_mac i,
      nd_is_default = is_default,
      nd_nat = map_option (\<lambda>n. (nt_type n, nt_delta n)) (ni_nat i), nd_rp = (\<lambda>a. pool_to_dict (ni_rp i a))\<rparr>"

definition nic_from_dict :: "(af \<Rightarrow> int \<Rightarrow> bool) \<Rightarrow> nic_dict \<Rightarrow> (Interface \<times> (af \<Rightarrow> bool)) result" where
  "nic_from_dict priv d =
     bindr (pool_from_dict priv (nd_rp d IP4)) (\<lambda>p4.
     bindr (pool_from_dict priv (nd_rp d IP6)) (\<lambda>p6.
       let rp = (\<lambda>a. if a = IP4 then p4 else p6) in
       Inr (\<lparr>ni_name = nd_name d, ni_stack = get_interface_stack rp, ni_rp = rp, ni_resolved = True, ni_mac = nd_mac d,
             ni_id = nd_id d, ni_no = nd_no d, ni_index = nd_index d,
             ni_nat = map_option (\<lambda>(t, dl). nat_info (Some t) (Some dl) None) (nd_nat d)\<rparr>, nd_is_default d)))"

section \<open>Loading\<close>

text \<open>The pools from what the discovery found by family (None is a discovery that failed), and the interface when
  one of them has a route (otherwise \<open>InterfaceNotFound\<close>, here the generic exception). The second result tells whether it counts as the default one.\<close>

definition load_pools ::
  "(af \<Rightarrow> int \<Rightarrow> bool) \<Rightarrow> (af \<Rightarrow> (Route list \<times> IPRange list) option) \<Rightarrow> (af \<Rightarrow> RoutePool) result" where
  "load_pools priv found =
     (let pool = (\<lambda>a. case found a of Some (rs, ll) \<Rightarrow> make_pool priv rs ll | None \<Rightarrow> make_pool priv [] []) in
      bindr (pool IP4) (\<lambda>p4. bindr (pool IP6) (\<lambda>p6. Inr (\<lambda>a. if a = IP4 then p4 else p6))))"

definition load_interface ::
  "(af \<Rightarrow> int \<Rightarrow> bool) \<Rightarrow> (af \<Rightarrow> (Route list \<times> IPRange list) option) \<Rightarrow> string option \<Rightarrow> netifaces \<Rightarrow>
   Interface \<Rightarrow> (Interface \<times> bool) result" where
  "load_interface priv found mac nf i =
     bindr (load_pools priv found) (\<lambda>rp.
       if get_interface_stack rp = UNKNOWN_STACK then Inl GenericException
       else Inr (i\<lparr>ni_rp := rp, ni_stack := get_interface_stack rp, ni_resolved := True,
                   ni_mac := (case mac of None \<Rightarrow> [] | Some m \<Rightarrow> m)\<rparr>,
                 length (clean_if_list (nf_interfaces nf)) = 1))"

text \<open>One interface of \<open>load_interfaces\<close>: its start, and the outcome of the test of the NAT.\<close>

datatype nat_outcome = NatLoaded nat_desc | NatTimeout | NatCantLoad | NatOSError | NatOther

definition load_one :: "Interface result \<Rightarrow> bool \<Rightarrow> nat_outcome \<Rightarrow> Interface option" where
  "load_one start skip_nat outcome =
     (case start of
        Inl e \<Rightarrow> None
      | Inr i \<Rightarrow>
          if skip_nat then Some i
          else (case outcome of NatLoaded n \<Rightarrow> Some (i\<lparr>ni_nat := Some n\<rparr>) | NatOther \<Rightarrow> None | _ \<Rightarrow> Some i))"

fun dedup_macs :: "Interface list \<Rightarrow> string list \<Rightarrow> Interface list" where
  "dedup_macs [] seen = []"
| "dedup_macs (i # is) seen =
     (if ni_mac i \<noteq> [] \<and> ni_mac i \<in> set seen then dedup_macs is seen
      else i # dedup_macs is (if ni_mac i \<noteq> [] then ni_mac i # seen else seen))"

definition load_interfaces :: "(Interface result \<times> nat_outcome) list \<Rightarrow> bool \<Rightarrow> Interface list" where
  "load_interfaces nics skip_nat = dedup_macs (List.map_filter (\<lambda>(s, n). load_one s skip_nat n) nics) []"

text \<open>The pseudo-interface for the default routes: a local address by family, if a socket could be connected.\<close>

definition default_dest :: "af \<Rightarrow> string" where
  "default_dest a = (if a = IP4 then ''8.8.8.8'' else ''2001:4860:4860::8888'')"

definition get_default_route :: "(af \<Rightarrow> int \<Rightarrow> bool) \<Rightarrow> bind_iface option \<Rightarrow> (af \<Rightarrow> string result) \<Rightarrow> af \<Rightarrow> Route option result" where
  "get_default_route priv iface local a =
     (case local a of
        Inl e \<Rightarrow> if e = OSError then Inr None else Inl e
      | Inr ip \<Rightarrow>
          bindr (ip_norm ip) (\<lambda>t. bindr (IPR priv t 0) (\<lambda>n. bindr (IPR priv (default_dest a) 0) (\<lambda>e.
            bindr (make_route a [n] [e] iface True) (\<lambda>r. Inr (Some r))))))"

definition use_default_interface ::
  "(af \<Rightarrow> int \<Rightarrow> bool) \<Rightarrow> bind_iface option \<Rightarrow> (af \<Rightarrow> string result) \<Rightarrow> Interface result" where
  "use_default_interface priv iface local =
     bindr (get_default_route priv iface local IP4) (\<lambda>r4.
     bindr (get_default_route priv iface local IP6) (\<lambda>r6.
     bindr (make_pool priv (case r4 of None \<Rightarrow> [] | Some r \<Rightarrow> [r]) []) (\<lambda>p4.
     bindr (make_pool priv (case r6 of None \<Rightarrow> [] | Some r \<Rightarrow> [r]) []) (\<lambda>p6.
       let rp = (\<lambda>a. if a = IP4 then p4 else p6) in
       Inr \<lparr>ni_name = ''default'', ni_stack = get_interface_stack rp, ni_rp = rp, ni_resolved = True, ni_mac = [],
            ni_id = VNone, ni_no = 0, ni_index = 0, ni_nat = Some (nat_info None None None)\<rparr>))))"

section \<open>Interfaces by family\<close>

text \<open>What \<open>AFGroup\<close> is built from, over any kind of interface with the families it supports.\<close>

datatype 'i group_arg = FromGroup "(af \<times> 'i) list" | FromDict "(af \<times> 'i option) list" | FromIface 'i | FromOther

fun check_group :: "('i \<Rightarrow> af list result) \<Rightarrow> (af \<times> 'i option) list \<Rightarrow> (af \<times> 'i) list \<Rightarrow> (af \<times> 'i) list result" where
  "check_group afs [] g = Inr g"
| "check_group afs ((a, i) # d) g =
     (case i of
        None \<Rightarrow> Inl ValueError
      | Some x \<Rightarrow> bindr (afs x) (\<lambda>l. if a \<notin> set l then Inl ValueError else check_group afs d (dict_set a x g)))"

definition AFGroup :: "('i \<Rightarrow> af list result) \<Rightarrow> 'i group_arg \<Rightarrow> (af \<times> 'i) list result" where
  "AFGroup afs x =
     (case x of
        FromGroup g \<Rightarrow> Inr g
      | FromDict d \<Rightarrow> check_group afs d []
      | FromIface i \<Rightarrow> bindr (afs i) (\<lambda>l. Inr (fold (\<lambda>a g. dict_set a i g) l []))
      | FromOther \<Rightarrow> Inl TypeError)"

definition for_af :: "(af \<times> 'i) list \<Rightarrow> af \<Rightarrow> 'i result" where
  "for_af g a = (case map_of g a of None \<Rightarrow> Inl KeyError | Some i \<Rightarrow> Inr i)"

definition group_supports :: "(af \<times> 'i) list \<Rightarrow> af \<Rightarrow> bool" where
  "group_supports g a = dict_has a g"

definition group_afs :: "(af \<times> 'i) list \<Rightarrow> af list" where
  "group_afs g = map fst g"

fun first_per_af :: "('i \<Rightarrow> af list result) \<Rightarrow> 'i list \<Rightarrow> (af \<times> 'i) list \<Rightarrow> (af \<times> 'i) list result" where
  "first_per_af afs [] g = Inr g"
| "first_per_af afs (i # is) g =
     bindr (afs i) (\<lambda>l. first_per_af afs is (fold (\<lambda>a g. if dict_has a g then g else dict_set a i g) l g))"

definition from_interfaces :: "('i \<Rightarrow> af list result) \<Rightarrow> 'i list \<Rightarrow> (af \<times> 'i) list result" where
  "from_interfaces afs is =
     (if is = [] then Inl ValueError
      else bindr (first_per_af afs is []) (\<lambda>g.
        if g = [] then Inl ValueError else AFGroup afs (FromDict (map (\<lambda>(a, i). (a, Some i)) g))))"

definition group_interfaces :: "(af \<times> 'i) list \<Rightarrow> 'i list" where
  "group_interfaces g = fold (\<lambda>(a, i) seen. if i \<in> set seen then seen else seen @ [i]) g []"

section \<open>Choosing an interface\<close>

text \<open>The name of the first interface with an address that meets a range.\<close>

fun addrs_meet :: "(af \<Rightarrow> int \<Rightarrow> bool) \<Rightarrow> IPRange \<Rightarrow> addr_info list \<Rightarrow> bool result" where
  "addrs_meet priv r [] = Inr False"
| "addrs_meet priv r (i # is) =
     (case ai_addr i of
        None \<Rightarrow> Inl KeyError
      | Some t \<Rightarrow> bindr (ip_range priv (IpStr t) None (Some 0)) (\<lambda>x. if ir_eq x r then Inr True else addrs_meet priv r is))"

fun get_if_by_nic_ipr :: "(af \<Rightarrow> int \<Rightarrow> bool) \<Rightarrow> IPRange \<Rightarrow> netifaces \<Rightarrow> string list \<Rightarrow> string option result" where
  "get_if_by_nic_ipr priv r nf [] = Inr None"
| "get_if_by_nic_ipr priv r nf (n # ns) =
     bindr (addrs_meet priv r (concat (map (\<lambda>a. case nf_ifaddresses nf n a of None \<Rightarrow> [] | Some l \<Rightarrow> l) [IP4, IP6]))) (\<lambda>b.
       if b then Inr (Some n) else get_if_by_nic_ipr priv r nf ns)"

text \<open>The interface and its place for a destination; \<open>path\<close> is the local address that the system would use.\<close>

definition select_if_by_dest ::
  "(af \<Rightarrow> int \<Rightarrow> bool) \<Rightarrow> netifaces \<Rightarrow> string result \<Rightarrow> nat \<Rightarrow> string \<Rightarrow> Interface \<Rightarrow> Interface list \<Rightarrow> (Interface \<times> nat) result" where
  "select_if_by_dest priv nf path src_index dest_ip i ifs =
     bindr (ip_range priv (IpStr dest_ip) None (Some 0)) (\<lambda>dest.
       if ir_public dest then Inr (i, src_index)
       else bindr path (\<lambda>bind_ip. bindr (ip_range priv (IpStr bind_ip) None (Some 0)) (\<lambda>b.
         bindr (get_if_by_nic_ipr priv b nf (nf_interfaces nf)) (\<lambda>n.
           Inr (case n of
                  None \<Rightarrow> (i, src_index)
                | Some name \<Rightarrow>
                    if name = ni_name i then (i, src_index)
                    else (case filter (\<lambda>(k, x). ni_name x = name) (enumerate 0 ifs) of
                            [] \<Rightarrow> (i, src_index) | (k, x) # _ \<Rightarrow> (x, k)))))))"

definition filter_trash_interfaces :: "string \<Rightarrow> netifaces \<Rightarrow> string list" where
  "filter_trash_interfaces plat nf = (if plat = ''Windows'' then nf_interfaces nf else clean_if_list (nf_interfaces nf))"

definition list_interfaces :: "string \<Rightarrow> netifaces \<Rightarrow> string list" where
  "list_interfaces plat nf =
     (let ifs = to_unique (filter_trash_interfaces plat nf) in sort (if ifs = [] then nf_interfaces nf else ifs))"

section \<open>Properties\<close>

lemma dedup_macs_subseq: "subseq (dedup_macs is seen) is"
  by (induction "is" seen rule: dedup_macs.induct) auto

lemma dedup_macs_fresh: "i \<in> set (dedup_macs is seen) \<Longrightarrow> ni_mac i = [] \<or> ni_mac i \<notin> set seen"
  by (induction "is" seen rule: dedup_macs.induct) (auto split: if_splits)

lemma dedup_macs_distinct: "distinct (filter (\<lambda>m. m \<noteq> []) (map ni_mac (dedup_macs is seen)))"
proof (induction "is" seen rule: dedup_macs.induct)
  case (2 i "is" seen)
  show ?case
  proof (cases "ni_mac i \<noteq> [] \<and> ni_mac i \<in> set seen")
    case True
    with 2 show ?thesis by simp
  next
    case False
    have "ni_mac i \<notin> set (filter (\<lambda>m. m \<noteq> []) (map ni_mac (dedup_macs is (ni_mac i # seen))))"
      using dedup_macs_fresh [of _ "is" "ni_mac i # seen"] by (fastforce simp del: disj_not1)
    with False show ?thesis using 2(2) [OF False] by (cases "ni_mac i = []") (simp_all del: set_filter)
  qed
qed simp

lemma dedup_macs_dropped:
  "i \<in> set is \<Longrightarrow> i \<notin> set (dedup_macs is seen) \<Longrightarrow>
   ni_mac i \<noteq> [] \<and> ni_mac i \<in> set seen \<union> ni_mac ` set (dedup_macs is seen)"
  by (induction "is" seen rule: dedup_macs.induct) (auto split: if_splits)

text \<open>Loading several interfaces keeps the order, never keeps two with the same hardware address, and drops an
  interface that loaded only when its address is that of one that is kept; interfaces without an address are
  all kept.\<close>

theorem load_interfaces_dedup:
  defines "loaded \<equiv> \<lambda>nics skip_nat. List.map_filter (\<lambda>(s, n). load_one s skip_nat n) nics"
  shows "subseq (load_interfaces nics skip_nat) (loaded nics skip_nat) \<and>
    distinct (filter (\<lambda>m. m \<noteq> []) (map ni_mac (load_interfaces nics skip_nat))) \<and>
    (\<forall>i\<in>set (loaded nics skip_nat) - set (load_interfaces nics skip_nat).
       ni_mac i \<noteq> [] \<and> ni_mac i \<in> ni_mac ` set (load_interfaces nics skip_nat))"
proof -
  let ?l = "loaded nics skip_nat"
  have d: "load_interfaces nics skip_nat = dedup_macs ?l []" by (simp add: load_interfaces_def loaded_def)
  show ?thesis unfolding d
    using dedup_macs_subseq [of ?l "[]"] dedup_macs_distinct [of ?l "[]"] dedup_macs_dropped [of _ ?l "[]"] by auto
qed

text \<open>A loaded interface supports exactly the families for which it has a route, and asking it for its route of
  a family it supports never fails for want of one.\<close>

theorem loaded_supports:
  assumes "load_interface priv found mac nf i = Inr (j, d)"
  shows "\<exists>l. iface_supported j False = Inr l \<and> what_afs j = Inr l \<and> set l = {a. rp_routes (ni_rp j a) \<noteq> []} \<and> l \<noteq> [] \<and>
    (\<forall>a. iface_route priv j (Some a) = (if a \<in> set l then route_deepcopy priv (hd (rp_routes (ni_rp j a))) else Inl ValueError))"
proof -
  have u: "{a. P a} = set (filter P [IP4, IP6])" for P :: "af \<Rightarrow> bool"
  proof (rule set_eqI)
    show "a \<in> {a. P a} \<longleftrightarrow> a \<in> set (filter P [IP4, IP6])" for a by (cases a) simp_all
  qed
  from assms obtain rp where j: "get_interface_stack rp \<noteq> UNKNOWN_STACK" "ni_resolved j" "ni_rp j = rp"
    "ni_stack j = get_interface_stack rp"
    by (auto simp: load_interface_def bindr_eq_Inr split: if_splits)
  obtain l where l: "iface_supported j False = Inr l" "set l = {a. rp_routes (rp a) \<noteq> []}" "l \<noteq> []"
    using j unfolding u by (auto simp: iface_supported_def get_interface_stack_def split: if_splits)
  have w: "what_afs j = Inr l" using j(2) l(1) by (simp add: what_afs_def)
  have "iface_route priv j (Some a) = (if a \<in> set l then route_deepcopy priv (hd (rp_routes (ni_rp j a))) else Inl ValueError)" for a
    using l(2) j(2,3) by (cases "rp_routes (rp a)") (simp_all add: iface_route_def w)
  with l w j(3) show ?thesis by auto
qed

lemma fold_first:
  "dict_ok g \<Longrightarrow> dict_ok (fold (\<lambda>a g. if dict_has a g then g else dict_set a i g) l g) \<and>
   map_of (fold (\<lambda>a g. if dict_has a g then g else dict_set a i g) l g) =
     (\<lambda>a. case map_of g a of Some x \<Rightarrow> Some x | None \<Rightarrow> if a \<in> set l then Some i else None)"
proof (induction l arbitrary: g)
  case Nil
  then show ?case by (auto split: option.splits)
next
  case (Cons a l)
  then show ?case by (auto simp: fun_eq_iff dict_has_map_of split: option.splits)
qed

lemma first_per_af_map:
  "first_per_af afs is g = Inr g' \<Longrightarrow> dict_ok g \<Longrightarrow> dict_ok g' \<and>
   (\<forall>a. map_of g' a = (case map_of g a of Some x \<Rightarrow> Some x | None \<Rightarrow> find (\<lambda>i. a \<in> set (projr (afs i))) is))"
proof (induction "is" arbitrary: g)
  case Nil
  then show ?case by (auto split: option.splits)
next
  case (Cons i "is")
  from Cons.prems(1) obtain l where l: "afs i = Inr l"
    and r: "first_per_af afs is (fold (\<lambda>a g. if dict_has a g then g else dict_set a i g) l g) = Inr g'"
    by (auto simp: bindr_eq_Inr)
  note f = fold_first [OF Cons.prems(2), of i l]
  from Cons.IH [OF r] f l show ?case by (auto split: option.splits)
qed

lemma check_group_ok:
  "dict_ok g \<Longrightarrow> \<forall>(a, i)\<in>set d. \<exists>l. afs i = Inr l \<and> a \<in> set l \<Longrightarrow>
   check_group afs (map (\<lambda>(a, i). (a, Some i)) d) g = Inr (fold (\<lambda>(a, i) g. dict_set a i g) d g)"
  by (induction d arbitrary: g) auto

lemma fold_dict_set_fresh: "dict_ok (g @ d) \<Longrightarrow> fold (\<lambda>(a, i) g. dict_set a i g) d g = g @ d"
proof (induction d arbitrary: g)
  case (Cons e d)
  then have "\<not> dict_has (fst e) g" by (auto simp: dict_ok_def dict_has_def)
  with Cons show ?case by (auto simp: case_prod_beta dict_set_new)
qed simp

text \<open>C33. A group made from a list of interfaces gives for each family the first interface of the list that supports
  it; it covers exactly the families that some interface supports.\<close>

theorem group_first_match:
  assumes "from_interfaces afs is = Inr g"
  shows "for_af g a = (case find (\<lambda>i. a \<in> set (projr (afs i))) is of None \<Rightarrow> Inl KeyError | Some i \<Rightarrow> Inr i) \<and>
    (group_supports g a \<longleftrightarrow> (\<exists>i\<in>set is. a \<in> set (projr (afs i))))"
proof -
  from assms obtain d where d: "first_per_af afs is [] = Inr d"
    and g: "check_group afs (map (\<lambda>(a, i). (a, Some i)) d) [] = Inr g"
    by (auto simp: from_interfaces_def AFGroup_def bindr_eq_Inr split: if_splits)
  have m: "dict_ok d" "\<And>a. map_of d a = find (\<lambda>i. a \<in> set (projr (afs i))) is"
    using first_per_af_map [OF d] by auto
  have "g = d"
  proof -
    have "check_group afs (map (\<lambda>(a, i). (a, Some i)) d) g0 = Inr g \<Longrightarrow> g = fold (\<lambda>(a, i) g. dict_set a i g) d g0" for g0 d
      by (induction d arbitrary: g0) (auto simp: bindr_eq_Inr split: if_splits)
    from this [OF g] fold_dict_set_fresh [of "[]" d] m(1) show ?thesis by simp
  qed
  then show ?thesis
    using m(2) [of a] by (auto simp: for_af_def group_supports_def dict_has_map_of find_None_iff find_Some_iff)
qed

theorem group_first_match_witness:
  "\<forall>i :: Interface. let v4 = i\<lparr>ni_stack := Stack IP4, ni_resolved := True\<rparr>; dual = i\<lparr>ni_stack := DUEL_STACK, ni_resolved := True\<rparr> in
     \<exists>g. from_interfaces what_afs [v4, dual] = Inr g \<and> for_af g IP4 = Inr v4 \<and> for_af g IP6 = Inr dual \<and> group_supports g IP6"
proof -
  have "\<exists>g. from_interfaces what_afs [v4, dual] = Inr g \<and> for_af g IP4 = Inr v4 \<and> for_af g IP6 = Inr dual \<and> group_supports g IP6"
    if d: "v4 = i\<lparr>ni_stack := Stack IP4, ni_resolved := True\<rparr>" "dual = i\<lparr>ni_stack := DUEL_STACK, ni_resolved := True\<rparr>"
    for i v4 dual :: Interface
  proof -
    have a: "what_afs v4 = Inr [IP4]" "what_afs dual = Inr [IP4, IP6]"
      by (simp_all add: d what_afs_def iface_supported_def)
    then obtain g where g: "from_interfaces what_afs [v4, dual] = Inr g"
      by (simp add: from_interfaces_def AFGroup_def)
    show ?thesis
      using g group_first_match [OF g, of IP4] group_first_match [OF g, of IP6] by (simp add: a)
  qed
  then show ?thesis by (simp add: Let_def)
qed

text \<open>Reading a written interface gives back its names, numbers, address and the test for the default one, and
  derives the stack from the routes; the local addresses of the pools are lost, and of the NAT only type and
  delta are kept, so a narrowed range of ports comes back as the full one.\<close>

theorem nic_dict_restores:
  assumes "nic_from_dict priv (nic_to_dict is_default i) = Inr (j, d)"
  shows "ni_name j = ni_name i \<and> ni_index j = ni_index i \<and> ni_no j = ni_no i \<and> ni_id j = ni_id i \<and> ni_mac j = ni_mac i \<and>
    d = is_default \<and> ni_resolved j \<and> ni_stack j = get_interface_stack (ni_rp j) \<and>
    (\<forall>a. pool_from_dict priv (pool_to_dict (ni_rp i a)) = Inr (ni_rp j a) \<and> rp_link_locals (ni_rp j a) = []) \<and>
    (\<forall>n. ni_nat i = Some n \<longrightarrow> (\<exists>m. ni_nat j = Some m \<and> nt_delta m = nt_delta n \<and> nt_range m = (1, MAX_PORT)))"
proof -
  obtain p4 p6 where p: "pool_from_dict priv (pool_to_dict (ni_rp i IP4)) = Inr p4"
    "pool_from_dict priv (pool_to_dict (ni_rp i IP6)) = Inr p6"
    "j = \<lparr>ni_name = ni_name i, ni_stack = get_interface_stack (\<lambda>a. if a = IP4 then p4 else p6),
          ni_rp = (\<lambda>a. if a = IP4 then p4 else p6), ni_resolved = True, ni_mac = ni_mac i, ni_id = ni_id i, ni_no = ni_no i,
          ni_index = ni_index i, ni_nat = map_option (\<lambda>n. nat_info (Some (nt_type n)) (Some (nt_delta n)) None) (ni_nat i)\<rparr>"
    "d = is_default"
    using assms by (auto simp: nic_from_dict_def nic_to_dict_def bindr_eq_Inr option.map_comp comp_def Let_def)
  have l: "rp_link_locals p = []" if "pool_from_dict priv ds = Inr p" for p ds
    using that by (auto simp: pool_from_dict_def make_pool_def bindr_eq_Inr)
  have "pool_from_dict priv (pool_to_dict (ni_rp i a)) = Inr (if a = IP4 then p4 else p6)" for a
    using p(1,2) by (cases a) simp_all
  with l [OF p(1)] l [OF p(2)] show ?thesis by (auto simp: p(3,4) nat_info_def Let_def)
qed

text \<open>The test bind of a block does not decide anything: an address that cannot be bound gives the same range as one
  that can.\<close>

theorem bind_test_ignored: "netiface_addr_to_ipr priv a (Inl OSError) info = netiface_addr_to_ipr priv a (Inr ()) info"
proof -
  have b: "bind_test (Inl OSError) = bind_test (Inr ())"
  proof (rule ext)
    show "bind_test (Inl OSError) r = bind_test (Inr ()) r" for r
      by (cases "get_value r 0") (simp_all add: bind_test_def)
  qed
  show ?thesis unfolding netiface_addr_to_ipr_def b by (rule refl)
qed

end
