(* ===== verification/Bridge.thy ===== *)
theory Bridge
  imports Prelude "HOL-Library.Sublist"
begin

text \<open>
  The bridge between a connected socket \<open>P\<close> and a second socket \<open>R\<close> (\<open>net/selector_proxy.py\<close>): one loop copies what
  it reads from either socket to the other, as a byte stream for TCP and datagram by datagram for UDP. The state
  holds the buffers, what the selector waits for, and, as the effects of the loop, what was read from each socket
  and what each socket took. What the system answers to a call is part of the event that is handled. Changing what
  the selector waits for is taken to succeed where the code does not expect it to fail.
\<close>

section \<open>State\<close>

datatype bridge_side = P | R

definition peer :: "bridge_side \<Rightarrow> bridge_side" where
  "peer s = (case s of P \<Rightarrow> R | R \<Rightarrow> P)"

datatype sock_proto = STREAM | DGRAM

record bridge =
  br_peers :: bool
  br_stream :: "bridge_side \<Rightarrow> bytes"
  br_queue :: "bridge_side \<Rightarrow> bytes list"
  br_armed :: "bridge_side \<Rightarrow> bool"
  br_streak :: "bridge_side \<Rightarrow> nat"
  br_got :: "bridge_side \<Rightarrow> bytes list"
  br_sent :: "bridge_side \<Rightarrow> bytes list"

definition UDP_ECONNREFUSED_LIMIT :: nat where
  "UDP_ECONNREFUSED_LIMIT = 8"

definition bridge_start :: bridge where
  "bridge_start =
     \<lparr>br_peers = True, br_stream = (\<lambda>_. []), br_queue = (\<lambda>_. []), br_armed = (\<lambda>_. False), br_streak = (\<lambda>_. 0),
      br_got = (\<lambda>_. []), br_sent = (\<lambda>_. [])\<rparr>"

text \<open>Both sockets leave the selector, are closed and lose their buffers.\<close>

definition close_pair :: "bridge \<Rightarrow> bridge" where
  "close_pair b = b\<lparr>br_peers := False, br_stream := (\<lambda>_. []), br_queue := (\<lambda>_. []), br_armed := (\<lambda>_. False)\<rparr>"

definition enqueue :: "sock_proto \<Rightarrow> bridge_side \<Rightarrow> bytes \<Rightarrow> bridge \<Rightarrow> bridge" where
  "enqueue proto s data b =
     (case proto of
        STREAM \<Rightarrow> b\<lparr>br_stream := (br_stream b)(s := br_stream b s @ data)\<rparr>
      | DGRAM \<Rightarrow> b\<lparr>br_queue := (br_queue b)(s := br_queue b s @ [data])\<rparr>)"

definition has_pending :: "sock_proto \<Rightarrow> bridge_side \<Rightarrow> bridge \<Rightarrow> bool" where
  "has_pending proto s b = (case proto of STREAM \<Rightarrow> br_stream b s \<noteq> [] | DGRAM \<Rightarrow> br_queue b s \<noteq> [])"

section \<open>Writing\<close>

text \<open>What \<open>send\<close> answers: how many bytes it took (a datagram is taken whole), that it would block, or another
  \<open>OSError\<close>.\<close>

datatype send_outcome = Took nat | SendWouldBlock | SendFailed

definition took :: "bridge_side \<Rightarrow> bytes \<Rightarrow> bridge \<Rightarrow> bridge" where
  "took s data b = b\<lparr>br_sent := (br_sent b)(s := br_sent b s @ [data])\<rparr>"

text \<open>None is an exception that leaves \<open>write_chunk\<close>, which for TCP includes that the call would block.\<close>

definition write_chunk :: "sock_proto \<Rightarrow> bridge_side \<Rightarrow> send_outcome \<Rightarrow> bridge \<Rightarrow> bridge option" where
  "write_chunk proto s out b =
     (case proto of
        STREAM \<Rightarrow>
          (if br_stream b s = [] then Some b
           else (case out of
                   Took n \<Rightarrow> Some (took s (take n (br_stream b s)) (b\<lparr>br_stream := (br_stream b)(s := drop n (br_stream b s))\<rparr>))
                 | _ \<Rightarrow> None))
      | DGRAM \<Rightarrow>
          (case br_queue b s of
             [] \<Rightarrow> Some b
           | d # ds \<Rightarrow>
               (case out of
                  Took n \<Rightarrow> Some (took s d (b\<lparr>br_queue := (br_queue b)(s := ds)\<rparr>))
                | _ \<Rightarrow> Some b)))"

definition disarm :: "bridge_side \<Rightarrow> bridge \<Rightarrow> bridge" where
  "disarm s b = b\<lparr>br_armed := (br_armed b)(s := False)\<rparr>"

definition handle_write :: "sock_proto \<Rightarrow> bridge_side \<Rightarrow> send_outcome \<Rightarrow> bridge \<Rightarrow> bridge" where
  "handle_write proto s out b =
     (if \<not> has_pending proto s b then disarm s b
      else (case write_chunk proto s out b of
              None \<Rightarrow> close_pair b
            | Some b' \<Rightarrow> if has_pending proto s b' then b' else disarm s b'))"

section \<open>Reading\<close>

datatype read_outcome = Data bytes | RecvWouldBlock | RecvFailed

text \<open>The last attempt to write what is left when the other side has closed: all of it, or so many bytes before an
  \<open>OSError\<close>.\<close>

datatype drain_outcome = Drained | DrainFailed nat

definition drain :: "bridge_side \<Rightarrow> drain_outcome \<Rightarrow> bridge \<Rightarrow> bridge" where
  "drain s out b =
     (if br_stream b s = [] then b
      else took s (case out of Drained \<Rightarrow> br_stream b s | DrainFailed n \<Rightarrow> take n (br_stream b s))
             (b\<lparr>br_stream := (br_stream b)(s := [])\<rparr>))"

record bridge_event =
  ev_sock :: bridge_side
  ev_read :: "read_outcome option"
  ev_write :: "send_outcome option"
  ev_drain :: drain_outcome
  ev_arm :: bool

definition got :: "bridge_side \<Rightarrow> bytes \<Rightarrow> bridge \<Rightarrow> bridge" where
  "got s data b = b\<lparr>br_got := (br_got b)(s := br_got b s @ [data])\<rparr>"

text \<open>The second result tells whether the handling of the event goes on to the write.\<close>

definition handle_read :: "sock_proto \<Rightarrow> bridge_event \<Rightarrow> read_outcome \<Rightarrow> bridge \<Rightarrow> bridge \<times> bool" where
  "handle_read proto e out b =
     (let s = ev_sock e in
      case out of
        Data data \<Rightarrow>
          if proto = STREAM \<and> data = [] then (close_pair (drain (peer s) (ev_drain e) b), False)
          else
            (let b1 = (if proto = DGRAM then b\<lparr>br_streak := (br_streak b)(s := 0)\<rparr> else b);
                 b2 = enqueue proto (peer s) data (got s data b1)
             in (if ev_arm e then b2\<lparr>br_armed := (br_armed b2)(peer s := True)\<rparr> else b2, True))
      | RecvWouldBlock \<Rightarrow> (b, True)
      | RecvFailed \<Rightarrow>
          (case proto of
             DGRAM \<Rightarrow>
               (let b1 = b\<lparr>br_streak := (br_streak b)(s := br_streak b s + 1)\<rparr>
                in (if br_streak b1 s \<ge> UDP_ECONNREFUSED_LIMIT then close_pair b1 else b1, False))
           | STREAM \<Rightarrow> (close_pair b, False)))"

section \<open>The loop\<close>

definition handle_event :: "sock_proto \<Rightarrow> bridge_event \<Rightarrow> bridge \<Rightarrow> bridge" where
  "handle_event proto e b =
     (if \<not> br_peers b then b
      else
        (case (case ev_read e of None \<Rightarrow> (b, True) | Some out \<Rightarrow> handle_read proto e out b) of
           (b1, go_on) \<Rightarrow>
             if \<not> go_on then b1
             else (case ev_write e of None \<Rightarrow> b1 | Some out \<Rightarrow> handle_write proto (ev_sock e) out b1)))"

fun handle_events :: "sock_proto \<Rightarrow> bridge_event list \<Rightarrow> bridge \<Rightarrow> bridge" where
  "handle_events proto [] b = b"
| "handle_events proto (e # es) b =
     (let b' = handle_event proto e b in if br_peers b' then handle_events proto es b' else b')"

text \<open>A round: the stop signal, or what the selector reports (possibly nothing), or an \<open>OSError\<close> that leaves the loop.\<close>

datatype round = Stop | Events "bridge_event list" | LoopError

fun bridge_loop :: "sock_proto \<Rightarrow> round list \<Rightarrow> bridge \<Rightarrow> bridge" where
  "bridge_loop proto [] b = b"
| "bridge_loop proto (r # rs) b =
     (if \<not> br_peers b then b
      else (case r of Stop \<Rightarrow> b | LoopError \<Rightarrow> b | Events es \<Rightarrow> bridge_loop proto rs (handle_events proto es b)))"

text \<open>The whole call; the sockets are closed in the end whatever happened. The first result tells whether the second
  socket was there.\<close>

definition reverse_family :: "string \<Rightarrow> bool" where
  "reverse_family host = (CHR '':'' \<in> set host)"

definition selector_proxy :: "sock_proto \<Rightarrow> bool \<Rightarrow> round list \<Rightarrow> bool \<times> bridge" where
  "selector_proxy proto connected rounds =
     (if \<not> connected then (False, bridge_start\<lparr>br_peers := False\<rparr>)
      else (True, close_pair (bridge_loop proto rounds bridge_start)))"

section \<open>Properties\<close>

text \<open>While the pair is there, what a socket took and what waits for it is what the other one gave, and no streak has
  reached its limit; afterwards a socket has taken the beginning of what the other one gave.\<close>

definition bridge_flow_ok :: "sock_proto \<Rightarrow> bridge \<Rightarrow> bool" where
  "bridge_flow_ok proto b \<longleftrightarrow>
     (\<forall>s. case proto of
        STREAM \<Rightarrow> (if br_peers b then concat (br_sent b s) @ br_stream b s = concat (br_got b (peer s))
                   else prefix (concat (br_sent b s)) (concat (br_got b (peer s))))
      | DGRAM \<Rightarrow> (if br_peers b then br_sent b s @ br_queue b s = br_got b (peer s)
                  else prefix (br_sent b s) (br_got b (peer s))))"

definition streaks_ok :: "bridge \<Rightarrow> bool" where
  "streaks_ok b \<longleftrightarrow> (br_peers b \<longrightarrow> (\<forall>s. br_streak b s < UDP_ECONNREFUSED_LIMIT))"

lemma peer_simps [simp]: "peer (peer s) = s" "peer s \<noteq> s" "s \<noteq> peer s"
  by (cases s; simp add: peer_def)+

lemma peer_eq: "t = peer s \<longleftrightarrow> t \<noteq> s"
  by (cases s; cases t; simp add: peer_def)

lemma flow_start: "bridge_flow_ok proto bridge_start" "streaks_ok bridge_start"
  by (simp_all add: bridge_flow_ok_def bridge_start_def streaks_ok_def UDP_ECONNREFUSED_LIMIT_def split: sock_proto.split)

lemma prefix_of_eq: "a @ r = c \<Longrightarrow> prefix a c"
  by (auto simp: prefix_def)

lemma flow_close: "bridge_flow_ok proto b \<Longrightarrow> bridge_flow_ok proto (close_pair b)"
  by (auto simp: bridge_flow_ok_def close_pair_def split: sock_proto.splits if_splits dest: prefix_of_eq)

lemma flow_disarm: "bridge_flow_ok proto (disarm s b) = bridge_flow_ok proto b"
  by (cases proto) (simp_all add: bridge_flow_ok_def disarm_def)

lemma peers_fields [simp]:
  "br_peers (disarm s b) = br_peers b" "br_peers (took s d b) = br_peers b" "br_peers (got s d b) = br_peers b"
  "br_peers (enqueue proto s d b) = br_peers b" "br_peers (close_pair b) = False"
  "br_streak (disarm s b) = br_streak b" "br_streak (took s d b) = br_streak b" "br_streak (got s d b) = br_streak b"
  "br_streak (enqueue proto s d b) = br_streak b"
  by (simp_all add: disarm_def took_def got_def enqueue_def close_pair_def split: sock_proto.split)

lemma write_chunk_peers: "write_chunk proto s out b = Some b' \<Longrightarrow> br_peers b' = br_peers b \<and> br_streak b' = br_streak b"
  by (auto simp: write_chunk_def split: sock_proto.splits send_outcome.splits list.splits if_splits)

lemma flow_chunk:
  assumes "write_chunk proto s out b = Some b'" "bridge_flow_ok proto b" "br_peers b"
  shows "bridge_flow_ok proto b'"
proof (cases proto)
  case STREAM
  with assms show ?thesis
    by (auto simp: write_chunk_def took_def bridge_flow_ok_def split: send_outcome.splits if_splits)
next
  case DGRAM
  with assms have e: "br_sent b t @ br_queue b t = br_got b (peer t)" for t by (simp add: bridge_flow_ok_def)
  show ?thesis
  proof (cases "br_queue b s")
    case Nil
    with DGRAM assms show ?thesis by (simp add: write_chunk_def)
  next
    case (Cons d ds)
    show ?thesis
    proof (cases out)
      case (Took n)
      with DGRAM Cons assms(1) have b: "b' = took s d (b\<lparr>br_queue := (br_queue b)(s := ds)\<rparr>)"
        by (simp add: write_chunk_def)
      have "br_sent b' t @ br_queue b' t = br_got b' (peer t)" for t
        using e [of t] Cons by (cases "t = s") (simp_all add: b took_def)
      then show ?thesis using DGRAM assms(3) b by (simp add: bridge_flow_ok_def)
    qed (use DGRAM Cons assms in \<open>simp_all add: write_chunk_def\<close>)
  qed
qed

lemma flow_write:
  assumes "bridge_flow_ok proto b" "br_peers b"
  shows "bridge_flow_ok proto (handle_write proto s out b)"
  using assms flow_chunk [of proto s out b] by (cases "write_chunk proto s out b") (simp_all add: handle_write_def flow_disarm flow_close)

lemma flow_waits: "bridge_flow_ok proto (b\<lparr>br_streak := x\<rparr>) = bridge_flow_ok proto b" "bridge_flow_ok proto (b\<lparr>br_armed := y\<rparr>) = bridge_flow_ok proto b"
  by (cases proto; simp add: bridge_flow_ok_def)+

lemma flow_enqueue:
  assumes "bridge_flow_ok proto b" "br_peers b"
  shows "bridge_flow_ok proto (enqueue proto (peer s) data (got s data b))"
proof -
  have all: "(\<forall>t. Q t) \<longleftrightarrow> Q P \<and> Q R" for Q by (metis bridge_side.exhaust)
  show ?thesis using assms by (cases proto; cases s) (simp_all add: bridge_flow_ok_def enqueue_def got_def all peer_def flip: append_assoc)
qed

lemma flow_read:
  assumes "bridge_flow_ok proto b" "br_peers b"
  shows "bridge_flow_ok proto (fst (handle_read proto e out b))"
proof (cases out)
  case (Data data)
  let ?s = "ev_sock e"
  show ?thesis
  proof (cases "proto = STREAM \<and> data = []")
    case True
    then have "concat (br_got b t) = concat (br_sent b (peer t)) @ br_stream b (peer t)" for t
      using assms by (simp add: bridge_flow_ok_def)
    then have "bridge_flow_ok proto (close_pair (drain (peer ?s) (ev_drain e) b))"
      using True by (cases "ev_drain e") (auto simp: bridge_flow_ok_def close_pair_def drain_def took_def take_is_prefix)
    with True Data show ?thesis by (simp add: handle_read_def)
  next
    case False
    then show ?thesis using Data assms flow_enqueue [of proto b ?s data]
        flow_enqueue [of proto "b\<lparr>br_streak := (br_streak b)(?s := 0)\<rparr>" ?s data]
      by (cases proto) (simp_all add: handle_read_def Let_def flow_waits)
  qed
next
  case RecvWouldBlock
  with assms show ?thesis by (simp add: handle_read_def)
next
  case RecvFailed
  then show ?thesis
    using assms flow_close [OF assms(1)] flow_close [of proto "b\<lparr>br_streak := (br_streak b)(ev_sock e := br_streak b (ev_sock e) + 1)\<rparr>"]
    by (cases proto) (auto simp: handle_read_def Let_def bridge_flow_ok_def)
qed

lemma read_goes_on: "snd (handle_read proto e out b) \<Longrightarrow> br_peers b \<Longrightarrow> br_peers (fst (handle_read proto e out b))"
  by (cases out; cases proto) (simp_all add: handle_read_def Let_def split: if_splits)

lemma flow_event: "bridge_flow_ok proto b \<Longrightarrow> bridge_flow_ok proto (handle_event proto e b)"
proof (cases "br_peers b")
  case True
  assume f: "bridge_flow_ok proto b"
  obtain b1 go_on where c: "(case ev_read e of None \<Rightarrow> (b, True) | Some out \<Rightarrow> handle_read proto e out b) = (b1, go_on)"
    by fastforce
  have "bridge_flow_ok proto b1 \<and> (go_on \<longrightarrow> br_peers b1)"
  proof (cases "ev_read e")
    case (Some out)
    with c have "handle_read proto e out b = (b1, go_on)" by simp
    then show ?thesis using flow_read [OF f True, of e out] read_goes_on [of proto e out b] True by simp
  qed (use c f True in simp)
  then show ?thesis using flow_write [of proto b1] by (cases "ev_write e") (simp_all add: handle_event_def True c)
qed (simp add: handle_event_def)

lemma streaks_read: "streaks_ok b \<Longrightarrow> br_peers b \<Longrightarrow> streaks_ok (fst (handle_read proto e out b))"
  by (cases proto; cases out) (auto simp: handle_read_def streaks_ok_def Let_def UDP_ECONNREFUSED_LIMIT_def)

lemma streaks_write: "streaks_ok b \<Longrightarrow> streaks_ok (handle_write proto s out b)"
proof (cases "write_chunk proto s out b")
  case (Some b')
  with write_chunk_peers [OF Some] show "streaks_ok b \<Longrightarrow> ?thesis" by (simp add: handle_write_def streaks_ok_def)
qed (simp add: handle_write_def streaks_ok_def)

lemma streaks_event: "streaks_ok b \<Longrightarrow> streaks_ok (handle_event proto e b)"
  by (cases "ev_read e"; cases "ev_write e") (simp_all add: handle_event_def case_prod_beta streaks_read streaks_write)

lemma bridge_events:
  "bridge_flow_ok proto b \<Longrightarrow> streaks_ok b \<Longrightarrow> bridge_flow_ok proto (handle_events proto es b) \<and> streaks_ok (handle_events proto es b)"
  by (induction proto es b rule: handle_events.induct) (simp_all add: Let_def flow_event streaks_event)

lemma bridge_rounds:
  "bridge_flow_ok proto b \<Longrightarrow> streaks_ok b \<Longrightarrow> bridge_flow_ok proto (bridge_loop proto rs b) \<and> streaks_ok (bridge_loop proto rs b)"
  by (induction proto rs b rule: bridge_loop.induct) (simp_all add: bridge_events split: round.split)

text \<open>C13. Whatever happens, each socket has taken a beginning of what was read from the other one: the same bytes for
  TCP, the same datagrams one by one for UDP. While the pair is there, what is missing waits in the buffer, and
  fewer than eight reads in a row have failed on either socket.\<close>

theorem bridge_integrity:
  defines "state \<equiv> \<lambda>proto rs. bridge_loop proto rs bridge_start"
  shows "case proto of
      STREAM \<Rightarrow> \<exists>rest. concat (br_sent (state proto rs) s) @ rest = concat (br_got (state proto rs) (peer s)) \<and>
        (if br_peers (state proto rs) then rest = br_stream (state proto rs) s \<and> br_streak (state proto rs) s < 8 else True)
    | DGRAM \<Rightarrow> \<exists>rest. br_sent (state proto rs) s @ rest = br_got (state proto rs) (peer s) \<and>
        (if br_peers (state proto rs) then rest = br_queue (state proto rs) s \<and> br_streak (state proto rs) s < 8 else True)"
proof -
  have "bridge_flow_ok proto (state proto rs)" "streaks_ok (state proto rs)"
    using bridge_rounds [OF flow_start, of proto rs] by (simp_all add: state_def)
  then show ?thesis
    by (cases proto; cases "br_peers (state proto rs)")
      (auto simp: bridge_flow_ok_def streaks_ok_def UDP_ECONNREFUSED_LIMIT_def elim!: prefixE dest: spec [of _ s])
qed

text \<open>When one side of a TCP bridge ends its stream and the last write to the other side succeeds, the other
  side has taken all that was read before.\<close>

theorem bridge_drains:
  assumes "br_peers (bridge_loop STREAM rs bridge_start)" "ev_read e = Some (Data [])" "ev_drain e = Drained"
  shows "concat (br_sent (handle_event STREAM e (bridge_loop STREAM rs bridge_start)) (peer (ev_sock e))) =
    concat (br_got (bridge_loop STREAM rs bridge_start) (ev_sock e))"
proof -
  have "bridge_flow_ok STREAM (bridge_loop STREAM rs bridge_start)" using bridge_rounds [OF flow_start] by blast
  then have "concat (br_got (bridge_loop STREAM rs bridge_start) (ev_sock e)) =
      concat (br_sent (bridge_loop STREAM rs bridge_start) (peer (ev_sock e))) @ br_stream (bridge_loop STREAM rs bridge_start) (peer (ev_sock e))"
    using assms(1) by (simp add: bridge_flow_ok_def)
  with assms show ?thesis by (simp add: handle_event_def handle_read_def close_pair_def drain_def took_def Let_def)
qed

theorem bridge_drains_witness:
  "concat (br_sent (handle_event STREAM \<lparr>ev_sock = P, ev_read = Some (Data []), ev_write = None, ev_drain = Drained, ev_arm = True\<rparr>
     (bridge_loop STREAM [Events [\<lparr>ev_sock = P, ev_read = Some (Data [1, 2, 3]), ev_write = None, ev_drain = Drained, ev_arm = True\<rparr>,
        \<lparr>ev_sock = R, ev_read = None, ev_write = Some (Took 1), ev_drain = Drained, ev_arm = True\<rparr>]] bridge_start)) R) = [1, 2, 3]"
proof -
  let ?d = "\<lparr>ev_sock = P, ev_read = Some (Data [1, 2, 3]), ev_write = None, ev_drain = Drained, ev_arm = True\<rparr>"
  let ?w = "\<lparr>ev_sock = R, ev_read = None, ev_write = Some (Took 1), ev_drain = Drained, ev_arm = True\<rparr>"
  let ?e = "\<lparr>ev_sock = P, ev_read = Some (Data []), ev_write = None, ev_drain = Drained, ev_arm = True\<rparr>"
  let ?b = "bridge_loop STREAM [Events [?d, ?w]] bridge_start"
  have s: "br_peers ?b" "br_got ?b P = [[1, 2, 3]]" by code_simp+
  have "concat (br_sent (handle_event STREAM ?e ?b) (peer (ev_sock ?e))) = concat (br_got ?b (ev_sock ?e))"
    by (rule bridge_drains [OF s(1)]) simp_all
  with s(2) show ?thesis by (simp add: peer_def)
qed

text \<open>A write that would block, which is an \<open>OSError\<close> too, closes a TCP bridge and drops what was to be written; for
  UDP it is tried again.\<close>

theorem would_block_closes:
  assumes "br_stream b s \<noteq> []"
  shows "handle_write STREAM s SendWouldBlock b = close_pair b" "\<not> br_peers (handle_write STREAM s SendWouldBlock b)"
    "br_queue b s \<noteq> [] \<Longrightarrow> handle_write DGRAM s SendWouldBlock b = b"
  using assms by (auto simp: handle_write_def write_chunk_def has_pending_def split: list.split)

text \<open>The end of the stream of one side closes both: what was still waiting for that side, which may have closed only
  its own direction, is dropped.\<close>

theorem half_close_drops:
  assumes "br_peers b" "ev_read e = Some (Data [])"
  shows "\<not> br_peers (handle_event STREAM e b)" "br_sent (handle_event STREAM e b) (ev_sock e) = br_sent b (ev_sock e)"
  using assms by (auto simp: handle_event_def handle_read_def drain_def took_def close_pair_def Let_def)

end
