(* ===== verification/Updater.thy ===== *)
theory Updater
  imports IpAddr PyDict Complex_Main "HOL-Library.List_Lexorder" "HOL-Library.Char_ord" "HOL-Library.Multiset"
begin

text \<open>
  The list of servers: keeping the file on disk fresh (\<open>updater.py\<close>) and looking servers up (\<open>servers.py\<close>). JSON
  texts are the values they encode; the hash, the packaged list, the answer of the dealer, the clock and the
  outcome of each write are arguments, as are the seeded permutations of the random generator. The state is the
  file with the time of its last change and the backoff file next to it.
\<close>

section \<open>JSON values\<close>

datatype json = JNull | JBool bool | JNum rat | JStr string | JList "json list" | JDict "(string \<times> json) list"

type_synonym infra = "(string \<times> json) list"

section \<open>Checksum\<close>

text \<open>The hash is taken of the other entries, written with sorted keys.\<close>

definition compute_server_list_checksum :: "(infra \<Rightarrow> string) \<Rightarrow> infra \<Rightarrow> string" where
  "compute_server_list_checksum hash infra =
     hash (sort_key fst (filter (\<lambda>(k, v). k \<notin> {''checksum'', ''timestamp''}) infra))"

definition stamp_checksum :: "(infra \<Rightarrow> string) \<Rightarrow> infra \<Rightarrow> infra" where
  "stamp_checksum hash infra = dict_set ''checksum'' (JStr (compute_server_list_checksum hash infra)) infra"

section \<open>Backoff\<close>

definition ONE_MONTH_SEC :: int where "ONE_MONTH_SEC = 2592000"
definition MAX_BACKOFF_SEC :: int where "MAX_BACKOFF_SEC = 6 * ONE_MONTH_SEC"

definition next_check_after_failure :: "rat \<Rightarrow> int \<Rightarrow> int" where
  "next_check_after_failure now fail_count =
     \<lfloor>now + of_int (min (ONE_MONTH_SEC * 2 ^ nat (max (fail_count - 1) 0)) MAX_BACKOFF_SEC)\<rfloor>"

section \<open>State\<close>

text \<open>A file that exists holds a JSON value or something that cannot be read. The entries of the backoff file may be
  missing; one that is not there or is not a dictionary counts as zeros.\<close>

record dealer_state =
  ds_next_check :: "int option"
  ds_fail_count :: "int option"

record upd_fs =
  fs_servers :: "json option option"
  fs_mtime :: rat
  fs_dealer :: "dealer_state option"

record upd_env =
  ue_hash :: "infra \<Rightarrow> string"
  ue_bundled :: "infra option"
  ue_seed_ok :: bool
  ue_fetch :: "json result"
  ue_write_ok :: bool
  ue_state_ok :: bool
  ue_touch_ok :: bool
  ue_now :: rat

definition read_dealer_state :: "upd_fs \<Rightarrow> dealer_state" where
  "read_dealer_state fs =
     (case fs_dealer fs of None \<Rightarrow> \<lparr>ds_next_check = Some 0, ds_fail_count = Some 0\<rparr> | Some d \<Rightarrow> d)"

definition write_dealer_state :: "upd_env \<Rightarrow> int \<Rightarrow> int \<Rightarrow> upd_fs \<Rightarrow> upd_fs" where
  "write_dealer_state env next_check fail_count fs =
     (if ue_state_ok env
      then fs\<lparr>fs_dealer := Some \<lparr>ds_next_check = Some next_check, ds_fail_count = Some fail_count\<rparr>\<rparr> else fs)"

definition touch :: "upd_env \<Rightarrow> upd_fs \<Rightarrow> upd_fs" where
  "touch env fs = (if ue_touch_ok env \<and> fs_servers fs \<noteq> None then fs\<lparr>fs_mtime := ue_now env\<rparr> else fs)"

definition write_servers :: "upd_env \<Rightarrow> json \<Rightarrow> upd_fs \<Rightarrow> upd_fs" where
  "write_servers env j fs = fs\<lparr>fs_servers := Some (Some j), fs_mtime := ue_now env\<rparr>"

section \<open>Updating\<close>

definition seed :: "upd_env \<Rightarrow> upd_fs \<Rightarrow> bool \<times> upd_fs" where
  "seed env fs =
     (if fs_servers fs \<noteq> None then (False, fs)
      else (case ue_bundled env of
              None \<Rightarrow> (False, fs)
            | Some d \<Rightarrow>
                if ue_seed_ok env then (True, write_servers env (JDict (stamp_checksum (ue_hash env) d)) fs) else (False, fs)))"

definition required_sections :: "string list" where
  "required_sections = [''STUN(see_ip)'', ''STUN(test_nat)'', ''MQTT'', ''TURN'', ''NTP'']"

definition usable :: "json \<Rightarrow> infra option" where
  "usable j =
     (case j of
        JDict d \<Rightarrow>
          if dict_has ''timestamp'' d \<and>
             list_ex (\<lambda>k. case map_of d k of Some (JDict s) \<Rightarrow> True | _ \<Rightarrow> False) required_sections
          then Some d else None
      | _ \<Rightarrow> None)"

definition fetch_due :: "rat \<Rightarrow> upd_fs \<Rightarrow> bool" where
  "fetch_due now fs =
     (now - (if fs_servers fs = None then 0 else fs_mtime fs) \<ge> of_int ONE_MONTH_SEC \<and>
      now \<ge> of_int (case ds_next_check (read_dealer_state fs) of None \<Rightarrow> 0 | Some n \<Rightarrow> n))"

definition fetch_failed :: "upd_env \<Rightarrow> upd_fs \<Rightarrow> upd_fs" where
  "fetch_failed env fs =
     (let fail_count = (case ds_fail_count (read_dealer_state fs) of None \<Rightarrow> 0 | Some n \<Rightarrow> n) + 1
      in touch env (write_dealer_state env (next_check_after_failure (ue_now env) fail_count) fail_count fs))"

text \<open>The result tells whether the list is new, the text and the value that are returned, and the files.\<close>

definition refresh :: "upd_env \<Rightarrow> bool \<Rightarrow> json option \<Rightarrow> json option \<Rightarrow> upd_fs \<Rightarrow> (bool \<times> json option \<times> json option \<times> upd_fs) result" where
  "refresh env req buf infra fs =
     (if \<not> fetch_due (ue_now env) fs then Inr (req, buf, infra, fs)
      else
        (let later = \<lfloor>ue_now env + of_int ONE_MONTH_SEC\<rfloor> in
         case ue_fetch env of
           Inl e \<Rightarrow> if e \<in> {OSError, ValueError, TimeoutError} then Inr (req, buf, infra, fetch_failed env fs) else Inl e
         | Inr j \<Rightarrow>
             (case usable j of
                None \<Rightarrow> Inr (req, buf, infra, write_dealer_state env later 0 (touch env fs))
              | Some d \<Rightarrow>
                  if \<not> ue_write_ok env then Inr (req, buf, infra, fetch_failed env fs)
                  else (let j' = JDict (stamp_checksum (ue_hash env) d) in
                        Inr (True, Some j', Some j', write_dealer_state env later 0 (write_servers env j' fs))))))"

definition update_server_list :: "upd_env \<Rightarrow> upd_fs \<Rightarrow> (bool \<times> json option \<times> json option \<times> upd_fs) result" where
  "update_server_list env fs =
     (case seed env fs of
        (req, fs0) \<Rightarrow>
          (let buf = (case fs_servers fs0 of Some (Some j) \<Rightarrow> Some j | _ \<Rightarrow> None) in
           case buf of
             None \<Rightarrow> refresh env req buf None fs0
           | Some JNull \<Rightarrow> refresh env req buf None fs0
           | Some (JDict d) \<Rightarrow>
               (let stored = (case map_of d ''checksum'' of None \<Rightarrow> JNull | Some c \<Rightarrow> c) in
                if stored = JNull \<or> stored \<noteq> JStr (compute_server_list_checksum (ue_hash env) d)
                then Inr (req, buf, buf, fs0)
                else refresh env req buf buf fs0)
           | Some _ \<Rightarrow> Inl AttributeError))"

section \<open>Looking servers up\<close>

type_synonym server = "(string \<times> json) list"

definition score_of :: "server \<Rightarrow> rat result" where
  "score_of item = (case map_of item ''score'' of None \<Rightarrow> Inr 0 | Some (JNum r) \<Rightarrow> Inr r | Some _ \<Rightarrow> Inl TypeError)"

fun filter_by_score :: "server list list \<Rightarrow> rat \<Rightarrow> server list list result" where
  "filter_by_score [] threshold = Inr []"
| "filter_by_score (g # gs) threshold =
     (if g = [] then filter_by_score gs threshold
      else bindr (mapr score_of g) (\<lambda>scores. bindr (filter_by_score gs threshold) (\<lambda>rest.
             Inr (if Min (set scores) \<ge> threshold then g # rest else rest))))"

definition as_server :: "json \<Rightarrow> server result" where
  "as_server j = (case j of JDict d \<Rightarrow> Inr d | _ \<Rightarrow> Inl AttributeError)"

definition as_group :: "json \<Rightarrow> server list result" where
  "as_group j = (case j of JList l \<Rightarrow> mapr as_server l | _ \<Rightarrow> Inl TypeError)"

fun getitems :: "json \<Rightarrow> string list \<Rightarrow> json result" where
  "getitems j [] = Inr j"
| "getitems j (k # ks) =
     (case j of JDict d \<Rightarrow> (case map_of d k of None \<Rightarrow> Inl KeyError | Some v \<Rightarrow> getitems v ks) | _ \<Rightarrow> Inl TypeError)"

text \<open>\<open>shuffled\<close> and \<open>sampled\<close> are what the generator for the attempt does with a list.\<close>

definition get_infra ::
  "infra \<Rightarrow> (server list list \<Rightarrow> server list list) \<Rightarrow> (server list list \<Rightarrow> nat \<Rightarrow> server list list) \<Rightarrow>
   af \<Rightarrow> bool \<Rightarrow> string \<Rightarrow> nat \<Rightarrow> bool \<Rightarrow> server list list result" where
  "get_infra INFRA shuffled sampled a udp name no sample =
     bindr (getitems (JDict INFRA) (py_split (CHR ''.'')
        (name @ (if a = IP4 then ''.IPv4'' else ''.IPv6'') @ (if udp then ''.UDP'' else ''.TCP'')))) (\<lambda>j.
     bindr (case j of JList l \<Rightarrow> mapr as_group l | _ \<Rightarrow> Inl TypeError) (\<lambda>groups.
     bindr (filter_by_score groups (8 / 10)) (\<lambda>parent.
       Inr (if sample then sampled parent (min no (length parent)) else take no (shuffled parent)))))"

section \<open>Properties\<close>

text \<open>A list that the updater looks after: its checksum is that of its content.\<close>

definition managed :: "(infra \<Rightarrow> string) \<Rightarrow> infra \<Rightarrow> bool" where
  "managed hash d \<longleftrightarrow> map_of d ''checksum'' = Some (JStr (compute_server_list_checksum hash d))"

lemma filter_dict_set: "\<not> Q k \<Longrightarrow> filter (\<lambda>(k, v). Q k) (dict_set k v d) = filter (\<lambda>(k, v). Q k) d"
  by (induction d) auto

lemma managed_stamp: "managed hash (stamp_checksum hash d)"
  by (simp add: managed_def stamp_checksum_def compute_server_list_checksum_def filter_dict_set)

lemma file_fields [simp]:
  "fs_servers (touch env fs) = fs_servers fs" "fs_servers (write_dealer_state env n c fs) = fs_servers fs"
  "fs_dealer (touch env fs) = fs_dealer fs" "fs_dealer (write_servers env j fs) = fs_dealer fs"
  "fs_servers (write_servers env j fs) = Some (Some j)" "fs_servers (fetch_failed env fs) = fs_servers fs"
  by (simp_all add: touch_def write_dealer_state_def write_servers_def fetch_failed_def Let_def)

text \<open>What counts as a list of servers: a time stamp and one of the five sections in the shape of a dictionary.\<close>

definition has_section :: "infra \<Rightarrow> string \<Rightarrow> bool" where
  "has_section d k = (case map_of d k of Some (JDict s) \<Rightarrow> True | _ \<Rightarrow> False)"

definition server_list_like :: "infra \<Rightarrow> bool" where
  "server_list_like d \<longleftrightarrow> map_of d ''timestamp'' \<noteq> None \<and>
     (has_section d ''STUN(see_ip)'' \<or> has_section d ''STUN(test_nat)'' \<or> has_section d ''MQTT'' \<or>
      has_section d ''TURN'' \<or> has_section d ''NTP'')"

lemma usable_like: "usable j = Some d \<longleftrightarrow> j = JDict d \<and> server_list_like d"
  by (cases j) (auto simp: usable_def server_list_like_def has_section_def required_sections_def dict_has_map_of)

definition fetched_list :: "upd_env \<Rightarrow> infra \<Rightarrow> bool" where
  "fetched_list env d \<longleftrightarrow>
     (case ue_fetch env of Inr (JDict b) \<Rightarrow> server_list_like b \<and> d = stamp_checksum (ue_hash env) b | _ \<Rightarrow> False)"

definition packaged_list :: "upd_env \<Rightarrow> infra \<Rightarrow> bool" where
  "packaged_list env d \<longleftrightarrow> (case ue_bundled env of Some b \<Rightarrow> d = stamp_checksum (ue_hash env) b | None \<Rightarrow> False)"

lemma refresh_files:
  assumes "refresh env req buf infra fs = Inr (req', buf', infra', fs')"
  shows "req' = req \<and> buf' = buf \<and> infra' = infra \<and> fs_servers fs' = fs_servers fs \<or>
    req' \<and> (\<exists>d. fs_servers fs' = Some (Some (JDict d)) \<and> fetched_list env d \<and> infra' = Some (JDict d) \<and> buf' = infra')"
  using assms
  by (auto simp: refresh_def Let_def fetched_list_def usable_like split: if_splits sum.splits option.splits)

text \<open>C15. An update either leaves the list on disk as it was or replaces it, and then answers the new one. The new list is
  the answer of the dealer, when that has a time stamp and at least one of the five known sections in the shape of
  a dictionary, or, when there was no list, the one that came with the package, which is not checked; in both cases
  with its checksum added, so that it counts as managed. A list that the user has changed (its checksum is missing
  or wrong) is never touched, and nothing else is then.\<close>

theorem server_list_update:
  assumes "update_server_list env fs = Inr (req, buf, infra, fs')"
  shows "if req
      then \<exists>d. fs_servers fs' = Some (Some (JDict d)) \<and> managed (ue_hash env) d \<and> infra = Some (JDict d) \<and> buf = infra \<and>
        (fetched_list env d \<or> packaged_list env d \<and> fs_servers fs = None) \<and>
        (\<forall>e. fs_servers fs = Some (Some (JDict e)) \<longrightarrow> managed (ue_hash env) e)
      else fs_servers fs' = fs_servers fs \<and>
        (\<forall>e. fs_servers fs = Some (Some (JDict e)) \<and> \<not> managed (ue_hash env) e \<longrightarrow> fs' = fs \<and> infra = Some (JDict e))"
proof -
  obtain r0 fs0 where s: "seed env fs = (r0, fs0)" by fastforce
  have s0: "if r0 then fs_servers fs = None \<and> (\<exists>d. fs_servers fs0 = Some (Some (JDict d)) \<and> packaged_list env d)
    else fs0 = fs"
    using s by (auto simp: seed_def packaged_list_def split: if_splits option.splits)
  have m: "fetched_list env d \<or> packaged_list env d \<Longrightarrow> managed (ue_hash env) d" for d
    using managed_stamp by (auto simp: fetched_list_def packaged_list_def split: sum.splits json.splits option.splits)
  note u = assms [unfolded update_server_list_def s, simplified]
  show ?thesis
  proof (cases "\<exists>d. fs_servers fs0 = Some (Some (JDict d))")
    case True
    then obtain d where d: "fs_servers fs0 = Some (Some (JDict d))" by blast
    show ?thesis
    proof (cases "managed (ue_hash env) d")
      case True
      then have "refresh env r0 (Some (JDict d)) (Some (JDict d)) fs0 = Inr (req, buf, infra, fs')"
        using u d by (simp add: managed_def Let_def)
      from refresh_files [OF this] s0 d True m show ?thesis by (auto split: if_splits)
    next
      case False
      then have "Inr (r0, Some (JDict d), Some (JDict d), fs0) = (Inr (req, buf, infra, fs') :: _ result)"
        using u d by (auto simp: managed_def Let_def split: option.splits if_splits)
      with s0 d False m show ?thesis by (auto split: if_splits)
    qed
  next
    case False
    then have r: "\<not> r0" using s0 by auto
    with s0 have f: "fs0 = fs" by simp
    have "\<exists>b. refresh env r0 b None fs0 = Inr (req, buf, infra, fs')"
      using u False by (auto simp: Let_def split: option.splits json.splits)
    then obtain b where "refresh env r0 b None fs0 = Inr (req, buf, infra, fs')" by blast
    from refresh_files [OF this] False r f m show ?thesis by auto
  qed
qed

theorem server_list_update_witness:
  "\<exists>env :: upd_env. \<exists>fs fs' d. update_server_list env fs = Inr (True, Some (JDict d), Some (JDict d), fs') \<and>
     fs_servers fs' = Some (Some (JDict d)) \<and> managed (ue_hash env) d \<and> fetched_list env d \<and>
     map_of d ''NTP'' = Some (JDict [])"
proof -
  let ?env = "\<lparr>ue_hash = (\<lambda>d. map (\<lambda>_. CHR ''x'') d), ue_bundled = None, ue_seed_ok = True,
    ue_fetch = Inr (JDict [(''NTP'', JDict []), (''timestamp'', JNum 1)]), ue_write_ok = True, ue_state_ok = True,
    ue_touch_ok = True, ue_now = 3000000\<rparr>"
  let ?fs = "\<lparr>fs_servers = Some (Some (JDict [(''checksum'', JStr [])])), fs_mtime = 0, fs_dealer = None\<rparr>"
  let ?d = "[(''NTP'', JDict []), (''timestamp'', JNum 1), (''checksum'', JStr ''x'')]"
  obtain fs' where u: "update_server_list ?env ?fs = Inr (True, Some (JDict ?d), Some (JDict ?d), fs')"
    by (simp add: update_server_list_def seed_def refresh_def fetch_due_def read_dealer_state_def ONE_MONTH_SEC_def
        usable_def required_sections_def dict_has_def stamp_checksum_def compute_server_list_checksum_def Let_def)
  from server_list_update [OF u] have "fs_servers fs' = Some (Some (JDict ?d)) \<and> managed (ue_hash ?env) ?d \<and> fetched_list ?env ?d"
    by (simp add: packaged_list_def)
  with u show ?thesis by (intro exI [of _ ?env] exI [of _ ?fs] exI [of _ fs'] exI [of _ ?d]) simp
qed

lemma next_check_bounds:
  "now + of_int ONE_MONTH_SEC \<le> of_int (next_check_after_failure now c) + 1 \<and>
   of_int (next_check_after_failure now c) \<le> now + of_int MAX_BACKOFF_SEC \<and>
   \<lfloor>now + of_int ONE_MONTH_SEC\<rfloor> \<le> next_check_after_failure now c"
proof -
  let ?b = "min (ONE_MONTH_SEC * 2 ^ nat (max (c - 1) 0)) MAX_BACKOFF_SEC"
  have "ONE_MONTH_SEC * 1 \<le> ONE_MONTH_SEC * 2 ^ nat (max (c - 1) 0)"
    by (rule mult_left_mono) (simp_all add: ONE_MONTH_SEC_def)
  then have b: "ONE_MONTH_SEC \<le> ?b" "?b \<le> MAX_BACKOFF_SEC" by (simp_all add: MAX_BACKOFF_SEC_def ONE_MONTH_SEC_def)
  then have "\<lfloor>now + of_int ONE_MONTH_SEC\<rfloor> \<le> next_check_after_failure now c"
    unfolding next_check_after_failure_def by (intro floor_mono) simp
  moreover have "of_int (next_check_after_failure now c) \<le> now + of_int MAX_BACKOFF_SEC"
    unfolding next_check_after_failure_def using b(2) by (metis add_left_mono of_int_floor_le of_int_le_iff order_trans)
  moreover have "now + of_int ONE_MONTH_SEC \<le> of_int (next_check_after_failure now c) + 1"
    using calculation(1) by linarith
  ultimately show ?thesis by blast
qed

text \<open>Whether a run asks the dealer: what it would answer matters.\<close>

definition asks_dealer :: "upd_env \<Rightarrow> upd_fs \<Rightarrow> bool" where
  "asks_dealer env fs \<longleftrightarrow> (\<exists>f. update_server_list (env\<lparr>ue_fetch := f\<rparr>) fs \<noteq> update_server_list env fs)"

lemma refresh_not_due: "\<not> fetch_due (ue_now env) fs \<Longrightarrow> refresh env req buf infra fs = Inr (req, buf, infra, fs)"
  by (simp add: refresh_def)

lemma seed_fetch: "seed (env\<lparr>ue_fetch := f\<rparr>) fs = seed env fs"
  by (simp add: seed_def write_servers_def split: option.split)

lemma update_cases:
  "(\<exists>req buf infra. \<forall>f. update_server_list (env\<lparr>ue_fetch := f\<rparr>) fs = refresh (env\<lparr>ue_fetch := f\<rparr>) req buf infra (snd (seed env fs))) \<or>
   (\<exists>r. \<forall>f. update_server_list (env\<lparr>ue_fetch := f\<rparr>) fs = r)"
proof -
  obtain req fs0 where s: "seed env fs = (req, fs0)" by fastforce
  note u = update_server_list_def seed_fetch s Let_def
  show ?thesis
  proof (cases "fs_servers fs0")
    case None
    then show ?thesis by (simp add: u) blast
  next
    case (Some x)
    show ?thesis
    proof (cases x)
      case None
      with Some show ?thesis by (simp add: u) blast
    next
      case (Some j)
      with \<open>fs_servers fs0 = Some x\<close> show ?thesis by (cases j) (simp_all add: u, blast+)
    qed
  qed
qed

lemma asks_reaches:
  assumes "asks_dealer env fs"
  obtains req buf infra where "update_server_list env fs = refresh env req buf infra (snd (seed env fs))"
    "fetch_due (ue_now env) (snd (seed env fs))"
proof -
  have e: "env\<lparr>ue_fetch := ue_fetch env\<rparr> = env" by simp
  obtain f where f: "update_server_list (env\<lparr>ue_fetch := f\<rparr>) fs \<noteq> update_server_list (env\<lparr>ue_fetch := ue_fetch env\<rparr>) fs"
    using assms by (auto simp: asks_dealer_def)
  with update_cases [of env fs] obtain req buf infra where
    r: "\<And>f. update_server_list (env\<lparr>ue_fetch := f\<rparr>) fs = refresh (env\<lparr>ue_fetch := f\<rparr>) req buf infra (snd (seed env fs))"
    by metis
  have "fetch_due (ue_now env) (snd (seed env fs))"
  proof (rule ccontr)
    assume "\<not> ?thesis"
    then have "refresh (env\<lparr>ue_fetch := g\<rparr>) req buf infra (snd (seed env fs)) = Inr (req, buf, infra, snd (seed env fs))" for g
      by (intro refresh_not_due) simp
    with f r show False by metis
  qed
  with r [of "ue_fetch env"] e that show ?thesis by simp
qed

lemma refresh_dealer:
  assumes "refresh env req buf infra fs = Inr (req', buf', infra', fs')" "fetch_due (ue_now env) fs" "ue_state_ok env"
  shows "\<exists>n. ds_next_check (read_dealer_state fs') = Some n \<and> \<lfloor>ue_now env + of_int ONE_MONTH_SEC\<rfloor> \<le> n \<and>
    of_int n \<le> ue_now env + of_int MAX_BACKOFF_SEC"
proof -
  have m: "of_int \<lfloor>ue_now env + of_int ONE_MONTH_SEC\<rfloor> \<le> ue_now env + of_int MAX_BACKOFF_SEC"
    by (rule order_trans [OF of_int_floor_le]) (simp add: MAX_BACKOFF_SEC_def ONE_MONTH_SEC_def)
  show ?thesis using assms m next_check_bounds [of "ue_now env"]
    by (auto simp: refresh_def Let_def fetch_failed_def write_dealer_state_def read_dealer_state_def touch_def write_servers_def
        split: if_splits sum.splits option.splits)
qed

text \<open>After a run that asked the dealer, whatever it answered, the dealer is not asked again for a month; and the
  wait never exceeds six months.\<close>

theorem dealer_left_alone:
  assumes "update_server_list env fs = Inr (req, buf, infra, fs')" "asks_dealer env fs" "ue_state_ok env"
  shows "(if ue_now env' < of_int \<lfloor>ue_now env + of_int ONE_MONTH_SEC\<rfloor> then \<not> asks_dealer env' fs' else True) \<and>
    (\<exists>n. ds_next_check (read_dealer_state fs') = Some n \<and> of_int n \<le> ue_now env + of_int MAX_BACKOFF_SEC)"
proof -
  obtain r b i where u: "update_server_list env fs = refresh env r b i (snd (seed env fs))"
    and d: "fetch_due (ue_now env) (snd (seed env fs))" using assms(2) by (rule asks_reaches)
  obtain n where n: "ds_next_check (read_dealer_state fs') = Some n" "\<lfloor>ue_now env + of_int ONE_MONTH_SEC\<rfloor> \<le> n"
    "of_int n \<le> ue_now env + of_int MAX_BACKOFF_SEC"
    using refresh_dealer [OF assms(1) [unfolded u] d assms(3)] by blast
  have "\<not> asks_dealer env' fs'" if "ue_now env' < of_int \<lfloor>ue_now env + of_int ONE_MONTH_SEC\<rfloor>"
  proof
    assume "asks_dealer env' fs'"
    then have "fetch_due (ue_now env') (snd (seed env' fs'))" by (rule asks_reaches)
    moreover have "fs_dealer (snd (seed env' fs')) = fs_dealer fs'" by (simp add: seed_def split: option.split)
    ultimately have "of_int n \<le> ue_now env'" using n(1) by (simp add: fetch_due_def read_dealer_state_def)
    moreover have "(of_int \<lfloor>ue_now env + of_int ONE_MONTH_SEC\<rfloor> :: rat) \<le> of_int n" using n(2) by simp
    ultimately show False using that by linarith
  qed
  with n show ?thesis by auto
qed

theorem dealer_left_alone_witness:
  "\<exists>env :: upd_env. \<exists>fs fs'. update_server_list env fs = Inr (False, None, None, fs') \<and> asks_dealer env fs \<and>
     \<not> asks_dealer (env\<lparr>ue_now := ue_now env + 2591999\<rparr>) fs'"
proof -
  let ?env = "\<lparr>ue_hash = (\<lambda>d. []), ue_bundled = None, ue_seed_ok = True, ue_fetch = Inl TimeoutError, ue_write_ok = True,
    ue_state_ok = True, ue_touch_ok = True, ue_now = 3000000\<rparr>"
  let ?fs = "\<lparr>fs_servers = None, fs_mtime = 0, fs_dealer = None\<rparr>"
  have due: "fetch_due 3000000 ?fs" by (simp add: fetch_due_def read_dealer_state_def ONE_MONTH_SEC_def)
  obtain fs' where u: "update_server_list ?env ?fs = Inr (False, None, None, fs')"
    using due by (simp add: update_server_list_def seed_def refresh_def Let_def)
  have "update_server_list (?env\<lparr>ue_fetch := Inl KeyError\<rparr>) ?fs = Inl KeyError"
    using due by (simp add: update_server_list_def seed_def refresh_def Let_def)
  then have a: "asks_dealer ?env ?fs" unfolding asks_dealer_def u by (intro exI [of _ "Inl KeyError"]) simp
  have "ue_now (?env\<lparr>ue_now := ue_now ?env + 2591999\<rparr>) < of_int \<lfloor>ue_now ?env + of_int ONE_MONTH_SEC\<rfloor>"
    by (simp add: ONE_MONTH_SEC_def)
  with dealer_left_alone [OF u a, of "?env\<lparr>ue_now := ue_now ?env + 2591999\<rparr>"]
  have "\<not> asks_dealer (?env\<lparr>ue_now := ue_now ?env + 2591999\<rparr>) fs'" by simp
  with u a show ?thesis by blast
qed

text \<open>A file that holds JSON but not a dictionary makes every update fail, and with it the loading of interfaces.\<close>

theorem list_file_raises: "fs_servers fs = Some (Some (JList l)) \<Longrightarrow> update_server_list env fs = Inl AttributeError"
  by (simp add: update_server_list_def seed_def)

lemma filter_by_score_spec:
  "filter_by_score gs t = Inr hs \<Longrightarrow>
   mset hs \<subseteq># mset gs \<and> (\<forall>g\<in>set hs. g \<noteq> [] \<and> (\<forall>s\<in>set g. \<exists>r. score_of s = Inr r \<and> t \<le> r))"
proof (induction gs t arbitrary: hs rule: filter_by_score.induct)
  case (2 g gs t)
  show ?case
  proof (cases "g = []")
    case True
    with 2 show ?thesis by (auto intro: subset_mset.order_trans)
  next
    case False
    with 2(3) obtain scores rest where s: "mapr score_of g = Inr scores" "filter_by_score gs t = Inr rest"
      "hs = (if Min (set scores) \<ge> t then g # rest else rest)" by (auto simp: bindr_eq_Inr)
    have ih: "mset rest \<subseteq># mset gs \<and> (\<forall>g\<in>set rest. g \<noteq> [] \<and> (\<forall>s\<in>set g. \<exists>r. score_of s = Inr r \<and> t \<le> r))"
      using 2(2) [OF False s(2)] .
    have "mapr score_of g = Inr scores \<Longrightarrow> s \<in> set g \<Longrightarrow> \<exists>r\<in>set scores. score_of s = Inr r" for s g scores
      by (induction g arbitrary: scores) (force simp: bindr_eq_Inr)+
    with s(1) have "\<forall>s\<in>set g. \<exists>r. score_of s = Inr r \<and> Min (set scores) \<le> r" by (meson List.finite_set Min_le)
    moreover have "mset rest \<subseteq># mset (g # gs)" using ih subset_mset.order_trans [of "mset rest" "mset gs" "mset gs + {#g#}"] by simp
    ultimately show ?thesis using ih s(3) False by (auto intro: order_trans)
  qed
qed simp

text \<open>Looking servers up answers at most the given number of groups, all from the list of that name, protocol and
  family, without repeating one, and every server in them has a score of at least 0.8.\<close>

theorem get_infra_result:
  assumes "get_infra INFRA shuffled sampled a udp name no False = Inr out" "\<And>xs. mset (shuffled xs) = mset xs"
  shows "\<exists>l groups. getitems (JDict INFRA) (py_split (CHR ''.'')
      (name @ (if a = IP4 then ''.IPv4'' else ''.IPv6'') @ (if udp then ''.UDP'' else ''.TCP''))) = Inr (JList l) \<and>
    mapr as_group l = Inr groups \<and> mset out \<subseteq># mset groups \<and> length out \<le> no \<and>
    (\<forall>g\<in>set out. g \<noteq> [] \<and> (\<forall>s\<in>set g. \<exists>r. score_of s = Inr r \<and> 8 / 10 \<le> r))"
proof -
  obtain j groups parent where j: "getitems (JDict INFRA) (py_split (CHR ''.'')
      (name @ (if a = IP4 then ''.IPv4'' else ''.IPv6'') @ (if udp then ''.UDP'' else ''.TCP''))) = Inr j"
    "(case j of JList l \<Rightarrow> mapr as_group l | _ \<Rightarrow> Inl TypeError) = Inr groups"
    "filter_by_score groups (8 / 10) = Inr parent" "out = take no (shuffled parent)"
    using assms(1) by (auto simp: get_infra_def bindr_eq_Inr simp del: append_assoc)
  obtain l where l: "j = JList l" "mapr as_group l = Inr groups" using j(2) by (cases j) auto
  have m: "mset out \<subseteq># mset parent" unfolding j(4) using assms(2) [of parent]
    by (metis append_take_drop_id mset_append mset_subset_eq_add_left)
  from filter_by_score_spec [OF j(3)] m have "mset out \<subseteq># mset groups" "set out \<subseteq> set parent"
    using set_mset_mono [OF m] by (auto intro: subset_mset.order_trans)
  with j l filter_by_score_spec [OF j(3)] show ?thesis by (intro exI [of _ l] exI [of _ groups]) auto
qed

theorem get_infra_result_witness:
  "get_infra [(''NTP'', JDict [(''IPv4'', JDict [(''UDP'', JList [JList [JDict [(''score'', JNum (9 / 10))]], JList [JDict []]])])])]
     (\<lambda>xs. xs) (\<lambda>xs n. take n xs) IP4 True ''NTP'' 3 False = Inr [[[(''score'', JNum (9 / 10))]]] \<and>
   mset [[[(''score'', JNum (9 / 10))]]] \<subseteq># mset [[[(''score'', JNum (9 / 10))]], [[]]]"
proof -
  have g: "get_infra [(''NTP'', JDict [(''IPv4'', JDict [(''UDP'', JList [JList [JDict [(''score'', JNum (9 / 10))]], JList [JDict []]])])])]
     (\<lambda>xs. xs) (\<lambda>xs n. take n xs) IP4 True ''NTP'' 3 False = Inr [[[(''score'', JNum (9 / 10))]]]"
    by (simp add: get_infra_def as_group_def as_server_def score_of_def)
  from get_infra_result [OF g] g show ?thesis by (auto simp: as_group_def as_server_def)
qed

end
