(* ===== verification/PipeLife.thy ===== *)
theory PipeLife
  imports Prelude
begin

text \<open>
  The life of a pipe: opening it and cleaning up after an error (\<open>net/pipe/pipe.py\<close>), and of \<open>net/pipe/pipe_events.py\<close>
  the table from which a server hands out its clients, the links that relay what is received, and the callbacks for
  connections that come and go. Sockets, clients, pipes and handlers are numbers. What the system answers in each
  stage of opening is an argument.
\<close>

section \<open>Opening a pipe\<close>

datatype pipe_proto = PTCP | PUDP | PRUDP

text \<open>A destination is missing, given by the caller, or the \<open>DestTup\<close> that an earlier attempt has stored.\<close>

datatype pipe_dest = NoDest | GivenDest | ResolvedDest

definition TYPE_UDP_CON :: int where "TYPE_UDP_CON = 1"
definition TYPE_UDP_SERVER :: int where "TYPE_UDP_SERVER = 2"
definition TYPE_TCP_CON :: int where "TYPE_TCP_CON = 3"
definition TYPE_TCP_SERVER :: int where "TYPE_TCP_SERVER = 4"

record pipe =
  pp_proto :: pipe_proto
  pp_dest :: pipe_dest
  pp_sock :: "nat option"
  pp_owns_socket :: bool
  pp_events :: bool
  pp_endpoint :: "int option"
  pp_bind_port :: "int option"
  pp_opened :: bool
  pp_closed :: bool

text \<open>The sockets that are open in the process, and those in \<open>aionetiface_fds\<close>.\<close>

record sockets =
  so_open :: "nat list"
  so_fds :: "nat list"

text \<open>How the stages end: the route, the destination, the socket (None when there is none to be had), the local port
  of the socket, the TCP connection, the set-up of the transport.\<close>

record open_env =
  oe_route :: "unit result"
  oe_dest :: "unit result"
  oe_socket :: "nat option result"
  oe_sockname :: "int result"
  oe_connect :: "unit result"
  oe_setup :: "unit result"
  oe_sock_only :: bool

definition pipe_init :: "pipe_proto \<Rightarrow> bool \<Rightarrow> nat option \<Rightarrow> pipe" where
  "pipe_init proto has_dest sock =
     \<lparr>pp_proto = proto, pp_dest = (if has_dest then GivenDest else NoDest), pp_sock = sock, pp_owns_socket = (sock = None),
      pp_events = False, pp_endpoint = None, pp_bind_port = None, pp_opened = False, pp_closed = False\<rparr>"

type_synonym 'a step = "pipe \<times> sockets \<Rightarrow> 'a result \<times> pipe \<times> sockets"

definition seq :: "unit step \<Rightarrow> unit step \<Rightarrow> unit step" where
  "seq f g s = (case f s of (Inl e, s') \<Rightarrow> (Inl e, s') | (Inr u, s') \<Rightarrow> g s')"

text \<open>\<open>resolve_dest\<close> knows tuples and addresses; anything else falls through to the error at its end.\<close>

definition resolve_route_and_dest :: "open_env \<Rightarrow> unit step" where
  "resolve_route_and_dest env s =
     (case s of (p, k) \<Rightarrow>
        (case oe_route env of
           Inl e \<Rightarrow> (Inl e, p, k)
         | Inr _ \<Rightarrow>
             (case pp_dest p of
                NoDest \<Rightarrow> (Inr (), p, k)
              | GivenDest \<Rightarrow> (case oe_dest env of Inl e \<Rightarrow> (Inl e, p, k) | Inr _ \<Rightarrow> (Inr (), p\<lparr>pp_dest := ResolvedDest\<rparr>, k))
              | ResolvedDest \<Rightarrow> (Inl ValueError, p, k))))"

text \<open>The port that the socket ended up on goes to the route; reading it can fail with the socket in place.\<close>

definition record_bind_port :: "open_env \<Rightarrow> unit step" where
  "record_bind_port env s =
     (case s of (p, k) \<Rightarrow>
        (case oe_sockname env of Inl e \<Rightarrow> (Inl e, p, k) | Inr port \<Rightarrow> (Inr (), p\<lparr>pp_bind_port := Some port\<rparr>, k)))"

definition create_or_use_socket :: "open_env \<Rightarrow> unit step" where
  "create_or_use_socket env s =
     (case s of (p, k) \<Rightarrow>
        if pp_sock p \<noteq> None then record_bind_port env (p, k)
        else (case oe_socket env of
                Inl e \<Rightarrow> (Inl e, p, k)
              | Inr None \<Rightarrow> (Inl OSError, p, k)
              | Inr (Some n) \<Rightarrow>
                  record_bind_port env
                    (p\<lparr>pp_sock := Some n, pp_owns_socket := True\<rparr>, k\<lparr>so_open := n # so_open k, so_fds := n # so_fds k\<rparr>)))"

definition tcp_client_connect_if_needed :: "open_env \<Rightarrow> unit step" where
  "tcp_client_connect_if_needed env s =
     (case s of (p, k) \<Rightarrow>
        if pp_proto p = PTCP \<and> pp_dest p \<noteq> NoDest
        then ((case oe_connect env of Inl e \<Rightarrow> Inl (if e = TimeoutError then OSError else e) | Inr u \<Rightarrow> Inr u), p, k)
        else (Inr (), p, k))"

definition setup_pipe_events :: "open_env \<Rightarrow> unit step" where
  "setup_pipe_events env s =
     (case s of (p, k) \<Rightarrow>
        if oe_sock_only env then (Inr (), p, k)
        else (case oe_setup env of
                Inl e \<Rightarrow> (Inl e, p\<lparr>pp_events := True\<rparr>, k)
              | Inr _ \<Rightarrow>
                  (Inr (), p\<lparr>pp_events := True, pp_endpoint := Some
                     (if pp_proto p = PTCP then (if pp_dest p = NoDest then TYPE_TCP_SERVER else TYPE_TCP_CON)
                      else (if pp_dest p = NoDest then TYPE_UDP_SERVER else TYPE_UDP_CON))\<rparr>, k)))"

definition cleanup_on_error :: "pipe \<times> sockets \<Rightarrow> pipe \<times> sockets" where
  "cleanup_on_error s =
     (case s of (p, k) \<Rightarrow>
        if pp_closed p then (p, k)
        else
          (p\<lparr>pp_sock := None, pp_owns_socket := False, pp_closed := True\<rparr>,
           case pp_sock p of
             Some n \<Rightarrow> if pp_owns_socket p then \<lparr>so_open = remove1 n (so_open k), so_fds = removeAll n (so_fds k)\<rparr> else k
           | None \<Rightarrow> k))"

definition connect :: "open_env \<Rightarrow> unit step" where
  "connect env s =
     (case s of (p, k) \<Rightarrow>
        if pp_opened p then (Inr (), p, k)
        else
          (case seq (resolve_route_and_dest env) (seq (create_or_use_socket env)
                  (seq (if pp_sock p = None then tcp_client_connect_if_needed env else (\<lambda>s. (Inr (), s)))
                    (setup_pipe_events env))) (p, k) of
             (Inl e, s') \<Rightarrow> (Inl e, cleanup_on_error s')
           | (Inr u, p', k') \<Rightarrow> (Inr u, p'\<lparr>pp_opened := True\<rparr>, k')))"

section \<open>Handing out the clients of a server\<close>

datatype fut = Pending | Done nat | Cancelled

definition MAXSIZE :: nat where "MAXSIZE = 2 ^ 63 - 1"

record acceptor =
  pa_insert :: nat
  pa_get :: nat
  pa_futures :: "nat \<Rightarrow> fut option"
  pa_clients :: "nat list"
  pa_entry :: "nat \<Rightarrow> nat"

definition acceptor_init :: acceptor where
  "acceptor_init = \<lparr>pa_insert = 0, pa_get = 0, pa_futures = [0 \<mapsto> Pending], pa_clients = [], pa_entry = (\<lambda>_. 0)\<rparr>"

text \<open>None is the normal end. Setting the result of a future that is done raises an \<open>InvalidStateError\<close>, here the
  generic exception.\<close>

definition add_tcp_client :: "nat \<Rightarrow> acceptor \<Rightarrow> py_exn option \<times> acceptor" where
  "add_tcp_client c s =
     (let entry = pa_insert s;
          i = (entry + 1) mod MAXSIZE;
          s1 = s\<lparr>pa_entry := (pa_entry s)(c := entry), pa_insert := i, pa_futures := (pa_futures s)(i \<mapsto> Pending),
                 pa_clients := pa_clients s @ [c]\<rparr>
      in case pa_futures s1 entry of
           None \<Rightarrow> (Some KeyError, s1)
         | Some f \<Rightarrow> if f = Pending then (None, s1\<lparr>pa_futures := (pa_futures s1)(entry \<mapsto> Done c)\<rparr>) else (Some GenericException, s1))"

text \<open>The entry is deleted when its client is gone.\<close>

definition client_lost :: "nat \<Rightarrow> acceptor \<Rightarrow> acceptor" where
  "client_lost c s =
     (case pa_futures s (pa_entry s c) of
        None \<Rightarrow> s
      | Some f \<Rightarrow> if f = Pending then s else s\<lparr>pa_futures := (pa_futures s)(pa_entry s c := None)\<rparr>)"

text \<open>\<open>make_awaitable\<close> of a server: the client, the entry that the caller waits on, or what is raised. A table holds no
  empty entries, so the loop ends in its first round.\<close>

datatype accept_result = Accepted nat | WaitsOn nat | AcceptRaised py_exn | AcceptCancelled

definition make_awaitable :: "acceptor \<Rightarrow> accept_result \<times> acceptor" where
  "make_awaitable s =
     (let bound = pa_insert s + 1; cur = pa_get s mod bound in
      case pa_futures s cur of
        None \<Rightarrow> (AcceptRaised KeyError, s)
      | Some Pending \<Rightarrow> (WaitsOn cur, s)
      | Some (Done c) \<Rightarrow> (Accepted c, s\<lparr>pa_get := (cur + 1) mod bound\<rparr>)
      | Some Cancelled \<Rightarrow> (AcceptCancelled, s\<lparr>pa_get := (cur + 1) mod bound\<rparr>))"

text \<open>What a caller that waits on an entry gets, once it is there; and the end of its wait by a timeout, which cancels
  the future it waits on.\<close>

definition waiter_gets :: "nat \<Rightarrow> acceptor \<Rightarrow> nat option" where
  "waiter_gets n s = (case pa_futures s n of Some (Done c) \<Rightarrow> Some c | _ \<Rightarrow> None)"

definition cancel_wait :: "nat \<Rightarrow> acceptor \<Rightarrow> acceptor" where
  "cancel_wait n s = (if pa_futures s n = Some Pending then s\<lparr>pa_futures := (pa_futures s)(n \<mapsto> Cancelled)\<rparr> else s)"

fun add_clients :: "nat list \<Rightarrow> acceptor \<Rightarrow> acceptor" where
  "add_clients [] s = s"
| "add_clients (c # cs) s = add_clients cs (snd (add_tcp_client c s))"

fun accepts :: "nat \<Rightarrow> acceptor \<Rightarrow> accept_result list" where
  "accepts 0 s = []"
| "accepts (Suc n) s = (case make_awaitable s of (a, s') \<Rightarrow> a # accepts n s')"

text \<open>Clients that come and calls that ask for one, in any order.\<close>

datatype serve_op = Comes nat | Asks

fun serve :: "serve_op list \<Rightarrow> acceptor \<Rightarrow> accept_result list" where
  "serve [] s = []"
| "serve (Comes c # os) s = serve os (snd (add_tcp_client c s))"
| "serve (Asks # os) s = (case make_awaitable s of (a, s') \<Rightarrow> a # serve os s')"

section \<open>Links between pipes\<close>

text \<open>What a pipe relays to, and the pipes that relay to it.\<close>

record links =
  ln_pipes :: "nat \<Rightarrow> nat list"
  ln_parents :: "nat \<Rightarrow> nat list"

definition no_links :: links where
  "no_links = \<lparr>ln_pipes = (\<lambda>_. []), ln_parents = (\<lambda>_. [])\<rparr>"

definition add_pipe :: "nat \<Rightarrow> nat \<Rightarrow> links \<Rightarrow> links" where
  "add_pipe a b s =
     s\<lparr>ln_pipes := (ln_pipes s)(a := ln_pipes s a @ [b]), ln_parents := (ln_parents s)(b := ln_parents s b @ [a])\<rparr>"

definition del_pipe :: "nat \<Rightarrow> nat \<Rightarrow> links \<Rightarrow> links" where
  "del_pipe a b s = s\<lparr>ln_pipes := (ln_pipes s)(a := remove1 b (ln_pipes s a))\<rparr>"

definition unlink_lost :: "nat \<Rightarrow> links \<Rightarrow> links" where
  "unlink_lost b s = fold (\<lambda>a. del_pipe a b) (ln_parents s b) s"

datatype link_op = AddPipe nat nat | DelPipe nat nat | LostPipe nat

fun link_do :: "link_op \<Rightarrow> links \<Rightarrow> links" where
  "link_do (AddPipe a b) s = add_pipe a b s"
| "link_do (DelPipe a b) s = del_pipe a b s"
| "link_do (LostPipe b) s = unlink_lost b s"

section \<open>Callbacks\<close>

text \<open>The callbacks are sets, kept as lists without duplicates whose order has no meaning; \<open>pk_runs\<close> records each
  handler that is started.\<close>

record callbacks =
  pk_running :: bool
  pk_msg_cbs :: "nat list"
  pk_up_cbs :: "nat list"
  pk_end_cbs :: "nat list"
  pk_stream :: bool
  pk_on_close :: bool
  pk_runs :: "nat list"

definition callbacks_init :: callbacks where
  "callbacks_init =
     \<lparr>pk_running = True, pk_msg_cbs = [], pk_up_cbs = [], pk_end_cbs = [], pk_stream = False, pk_on_close = False, pk_runs = []\<rparr>"

definition set_add :: "nat \<Rightarrow> nat list \<Rightarrow> nat list" where
  "set_add h hs = (if h \<in> set hs then hs else hs @ [h])"

definition run_cbs :: "nat list \<Rightarrow> callbacks \<Rightarrow> callbacks" where
  "run_cbs hs c = (if pk_running c then c\<lparr>pk_runs := pk_runs c @ hs\<rparr> else c)"

definition add_msg_cb :: "nat \<Rightarrow> callbacks \<Rightarrow> callbacks" where
  "add_msg_cb h c = c\<lparr>pk_msg_cbs := set_add h (pk_msg_cbs c)\<rparr>"

definition del_msg_cb :: "nat \<Rightarrow> callbacks \<Rightarrow> callbacks" where
  "del_msg_cb h c = c\<lparr>pk_msg_cbs := removeAll h (pk_msg_cbs c)\<rparr>"

definition add_up_cb :: "nat \<Rightarrow> callbacks \<Rightarrow> callbacks" where
  "add_up_cb h c = c\<lparr>pk_up_cbs := set_add h (pk_up_cbs c)\<rparr>"

definition del_up_cb_cb :: "nat \<Rightarrow> callbacks \<Rightarrow> callbacks" where
  "del_up_cb_cb h c = c\<lparr>pk_up_cbs := removeAll h (pk_up_cbs c)\<rparr>"

definition add_end_cb :: "nat \<Rightarrow> callbacks \<Rightarrow> callbacks" where
  "add_end_cb h c =
     (let was_present = (h \<in> set (pk_end_cbs c)); c1 = c\<lparr>pk_end_cbs := set_add h (pk_end_cbs c)\<rparr> in
      if \<not> pk_running c1 \<and> \<not> was_present then run_cbs [h] c1 else c1)"

definition del_end_cb :: "nat \<Rightarrow> callbacks \<Rightarrow> callbacks" where
  "del_end_cb h c = c\<lparr>pk_end_cbs := removeAll h (pk_end_cbs c)\<rparr>"

definition connection_made :: "callbacks \<Rightarrow> callbacks" where
  "connection_made c = run_cbs (pk_up_cbs c) (c\<lparr>pk_stream := True\<rparr>)"

definition connection_lost :: "callbacks \<Rightarrow> callbacks" where
  "connection_lost c = (run_cbs (pk_end_cbs c) c)\<lparr>pk_on_close := True\<rparr>"

definition stop_running :: "callbacks \<Rightarrow> callbacks" where
  "stop_running c = c\<lparr>pk_running := False\<rparr>"

section \<open>Properties\<close>

text \<open>C25. Opening a new pipe either ends with an error and leaves the sockets of the process as they were, or gives an
  open pipe over the socket of the caller, which stays the caller's, or over a new one that the pipe owns; the
  route then has the port of that socket.\<close>

theorem connect_owns_socket:
  assumes "connect env (pipe_init proto has_dest sock, k) = (r, p, k')"
    "oe_socket env = Inr (Some n)" "n \<notin> set (so_fds k)"
  shows "case r of
      Inl e \<Rightarrow> k' = k \<and> \<not> pp_opened p \<and> pp_sock p = None
    | Inr _ \<Rightarrow> pp_opened p \<and> oe_sockname env = Inr (the (pp_bind_port p)) \<and> (case sock of
          Some m \<Rightarrow> k' = k \<and> pp_sock p = Some m \<and> \<not> pp_owns_socket p
        | None \<Rightarrow> k' = k\<lparr>so_open := n # so_open k, so_fds := n # so_fds k\<rparr> \<and> pp_sock p = Some n \<and> pp_owns_socket p)"
  using assms
  by (auto simp: connect_def pipe_init_def seq_def resolve_route_and_dest_def create_or_use_socket_def record_bind_port_def
      tcp_client_connect_if_needed_def setup_pipe_events_def cleanup_on_error_def removeAll_id
      split: sum.splits if_splits option.splits)

theorem connect_owns_socket_witness:
  "\<exists>p k'. connect \<lparr>oe_route = Inr (), oe_dest = Inr (), oe_socket = Inr (Some 7), oe_sockname = Inr 80, oe_connect = Inl TimeoutError,
      oe_setup = Inr (), oe_sock_only = False\<rparr> (pipe_init PTCP True None, \<lparr>so_open = [3], so_fds = [3]\<rparr>) = (Inl OSError, p, k') \<and>
    so_open k' = [3]"
proof -
  let ?env = "\<lparr>oe_route = Inr (), oe_dest = Inr (), oe_socket = Inr (Some 7), oe_sockname = Inr 80, oe_connect = Inl TimeoutError,
      oe_setup = Inr (), oe_sock_only = False\<rparr> :: open_env"
  obtain p k' where c: "connect ?env (pipe_init PTCP True None, \<lparr>so_open = [3], so_fds = [3]\<rparr>) = (Inl OSError, p, k')"
    by (simp add: connect_def pipe_init_def seq_def resolve_route_and_dest_def create_or_use_socket_def record_bind_port_def
        tcp_client_connect_if_needed_def cleanup_on_error_def)
  with connect_owns_socket [OF c, of 7] show ?thesis by auto
qed

text \<open>The mark that the clean-up leaves is never taken back, so when a server pipe is opened again and that fails too,
  its second socket stays open.\<close>

theorem second_failure_leaks:
  "\<exists>env1 env2 p1 k1. connect env1 (pipe_init PTCP False None, \<lparr>so_open = [], so_fds = []\<rparr>) = (Inl OSError, p1, k1) \<and>
     so_open k1 = [] \<and> fst (connect env2 (p1, k1)) = Inl OSError \<and> so_open (snd (snd (connect env2 (p1, k1)))) = [8]"
proof -
  let ?e = "\<lambda>n. \<lparr>oe_route = Inr (), oe_dest = Inr (), oe_socket = Inr (Some n), oe_sockname = Inr 80, oe_connect = Inr (), oe_setup = Inl OSError,
      oe_sock_only = False\<rparr> :: open_env"
  show ?thesis
    by (rule exI [of _ "?e 7"], rule exI [of _ "?e 8"])
      (simp add: connect_def pipe_init_def seq_def resolve_route_and_dest_def create_or_use_socket_def record_bind_port_def
        tcp_client_connect_if_needed_def setup_pipe_events_def cleanup_on_error_def)
qed

text \<open>A pipe with a destination cannot be opened again after an attempt that came past the resolution of its address.\<close>

theorem client_retry_fails:
  assumes "connect env (pipe_init proto True None, k) = (Inl e, p, k')" "oe_route env = Inr ()" "oe_dest env = Inr ()"
    "oe_route env2 = Inr ()"
  shows "fst (connect env2 (p, k')) = Inl ValueError"
  using assms
  by (auto simp: connect_def pipe_init_def seq_def resolve_route_and_dest_def create_or_use_socket_def record_bind_port_def
      tcp_client_connect_if_needed_def setup_pipe_events_def cleanup_on_error_def
      split: sum.splits if_splits option.splits)

lemmas accept_defs = add_tcp_client_def make_awaitable_def acceptor_init_def MAXSIZE_def Let_def

fun comers :: "serve_op list \<Rightarrow> nat list" where
  "comers [] = []"
| "comers (Comes c # os) = c # comers os"
| "comers (Asks # os) = comers os"

text \<open>With \<open>w\<close> clients waiting, every call finds one.\<close>

fun on_time :: "nat \<Rightarrow> serve_op list \<Rightarrow> bool" where
  "on_time w [] = True"
| "on_time w (Comes c # os) = on_time (Suc w) os"
| "on_time w (Asks # os) = (0 < w \<and> on_time (w - 1) os)"

lemma serve_from:
  assumes "pa_insert s = length cs" "pa_futures s (length cs) = Some Pending"
    "\<And>i. i < length cs \<Longrightarrow> pa_futures s i = Some (Done (cs ! i))"
    "pa_get s = j" "j \<le> length cs" "on_time (length cs - j) os" "length cs + length (comers os) < MAXSIZE"
  shows "serve os s = map (\<lambda>i. Accepted ((cs @ comers os) ! i)) [j..<j + count_list os Asks]"
  using assms
proof (induction os arbitrary: s cs j)
  case (Cons x os)
  show ?case
  proof (cases x)
    case (Comes c)
    have "(length cs + 1) mod MAXSIZE = length cs + 1" using Cons.prems(7) Comes by simp
    then have f: "pa_futures (snd (add_tcp_client c s)) = (pa_futures s)(length cs + 1 \<mapsto> Pending, length cs \<mapsto> Done c)"
      "pa_insert (snd (add_tcp_client c s)) = length cs + 1" "pa_get (snd (add_tcp_client c s)) = j"
      using Cons.prems(1,2,4) by (simp_all add: add_tcp_client_def Let_def)
    have "serve os (snd (add_tcp_client c s)) =
        map (\<lambda>i. Accepted (((cs @ [c]) @ comers os) ! i)) [j..<j + count_list os Asks]"
      using Cons.prems f Comes
      by (intro Cons.IH) (auto simp: nth_append Suc_diff_le less_Suc_eq)
    then show ?thesis by (simp add: Comes)
  next
    case Asks
    then have j: "j < length cs" "on_time (length cs - (j + 1)) os" using Cons.prems(6) by auto
    then have m: "make_awaitable s = (Accepted (cs ! j), s\<lparr>pa_get := j + 1\<rparr>)"
      using Cons.prems(1,3,4) by (simp add: make_awaitable_def)
    have "serve os (s\<lparr>pa_get := j + 1\<rparr>) =
        map (\<lambda>i. Accepted ((cs @ comers os) ! i)) [j + 1..<(j + 1) + count_list os Asks]"
      using Cons.prems j Asks by (intro Cons.IH) auto
    moreover have "[j..<j + Suc n] = j # [j + 1..<(j + 1) + n]" for n by (simp add: upt_conv_Cons del: upt_Suc)
    ultimately show ?thesis using j(1) by (simp add: Asks m nth_append del: upt_Suc)
  qed
qed simp

lemma on_time_count: "on_time w os \<Longrightarrow> count_list os Asks \<le> w + length (comers os)"
  by (induction w os rule: on_time.induct) auto

text \<open>C27. Clients are handed out in the order in which they came, each once, however clients that come and calls that ask
  for one are interleaved, under two conditions: a client has come and waits whenever a call asks for one, and no
  client leaves meanwhile. Without them this fails (\<open>client_accepted_twice\<close>, \<open>accept_after_loss_raises\<close>).\<close>

theorem accepts_in_order:
  assumes "on_time 0 os" "length (comers os) < MAXSIZE"
  shows "serve os acceptor_init = map Accepted (take (count_list os Asks) (comers os))"
proof -
  have "serve os acceptor_init = map (\<lambda>i. Accepted (([] @ comers os) ! i)) [0..<0 + count_list os Asks]"
    using assms by (intro serve_from) (simp_all add: acceptor_init_def)
  also have "\<dots> = map Accepted (take (count_list os Asks) (comers os))"
    using on_time_count [OF assms(1)] by (intro nth_equalityI) simp_all
  finally show ?thesis .
qed

lemma accepts_two: "accepts 2 s = (case make_awaitable s of (a, s') \<Rightarrow> [a, fst (make_awaitable s')])"
  by (simp add: numeral_2_eq_2 case_prod_beta)

theorem accepts_in_order_witness:
  "serve [Comes 5, Asks, Comes 9, Comes 5, Asks] acceptor_init = [Accepted 5, Accepted 9]"
  using accepts_in_order [of "[Comes 5, Asks, Comes 9, Comes 5, Asks]"]
  by (simp add: MAXSIZE_def del: serve.simps)

text \<open>The entry of a client that has left is deleted, not emptied, so the server raises a \<open>KeyError\<close> where it means to
  skip it.\<close>

theorem accept_after_loss_raises:
  "fst (make_awaitable (client_lost 5 (add_clients [5, 9] acceptor_init))) = AcceptRaised KeyError"
  by (simp add: accept_defs client_lost_def)

text \<open>A caller that waits before the client comes gets it, and so does the next one.\<close>

theorem client_accepted_twice:
  "fst (make_awaitable acceptor_init) = WaitsOn 0" "waiter_gets 0 (add_clients [5] acceptor_init) = Some 5"
  "accepts 2 (add_clients [5] (snd (make_awaitable acceptor_init))) = [Accepted 5, WaitsOn 1]"
  by (simp_all add: accept_defs waiter_gets_def accepts_two)

text \<open>A wait that is cut short by a timeout cancels the entry, and the next client fails to be registered.\<close>

theorem accept_timeout_breaks_next: "fst (add_tcp_client 5 (cancel_wait 0 acceptor_init)) = Some GenericException"
  by (simp add: accept_defs cancel_wait_def)

definition links_ok :: "links \<Rightarrow> bool" where
  "links_ok s \<longleftrightarrow> (\<forall>a b. count_list (ln_pipes s a) b \<le> count_list (ln_parents s b) a)"

lemma count_remove1: "count_list (remove1 x xs) y = count_list xs y - (if x = y then 1 else 0)"
  by (induction xs) auto

lemma count_append: "count_list (xs @ [x]) y = count_list xs y + (if x = y then 1 else 0)"
  by (induction xs) auto

lemma unlink_fold:
  "count_list (ln_pipes (fold (\<lambda>a. del_pipe a b) ps s) a) c =
   count_list (ln_pipes s a) c - (if c = b then count_list ps a else 0) \<and>
   ln_parents (fold (\<lambda>a. del_pipe a b) ps s) = ln_parents s"
  by (induction ps arbitrary: s) (auto simp: del_pipe_def count_remove1)

lemma links_do: "links_ok s \<Longrightarrow> links_ok (link_do op s)"
proof (cases op)
  case (LostPipe b)
  assume "links_ok s"
  with LostPipe show ?thesis
    using unlink_fold [of b "ln_parents s b" s] by (auto simp: links_ok_def unlink_lost_def intro: order_trans [OF diff_le_self])
qed (auto simp: links_ok_def add_pipe_def del_pipe_def count_append count_remove1 intro: order_trans [OF diff_le_self])

text \<open>After a pipe is lost no other pipe relays to it, whatever links were made and removed before, also when it was
  linked several times.\<close>

theorem lost_pipe_unlinked: "b \<notin> set (ln_pipes (unlink_lost b (fold link_do ops no_links)) a)"
proof -
  have "links_ok s \<Longrightarrow> links_ok (fold link_do ops s)" for s
    by (induction ops arbitrary: s) (simp_all add: links_do)
  moreover have "links_ok no_links" by (simp add: links_ok_def no_links_def)
  ultimately have "links_ok (fold link_do ops no_links)" by blast
  then have "count_list (ln_pipes (unlink_lost b (fold link_do ops no_links)) a) b = 0"
    using unlink_fold by (simp add: unlink_lost_def links_ok_def)
  then show ?thesis by (simp add: count_list_0_iff)
qed

text \<open>A callback that is registered after the end is meant to run at once, but nothing runs any more.\<close>

theorem late_end_cb_ignored: "\<not> pk_running c \<Longrightarrow> pk_runs (add_end_cb h c) = pk_runs c"
  by (simp add: add_end_cb_def run_cbs_def Let_def)

text \<open>For the same reason no callback for the end runs when the pipe is closed from this side.\<close>

theorem close_skips_end_cbs: "pk_runs (connection_lost (stop_running c)) = pk_runs c"
  by (simp add: connection_lost_def stop_running_def run_cbs_def)

end
