(* ===== verification/StunProbe.thy ===== *)
theory StunProbe
  imports NatTest "HOL-Library.Multiset"
begin

text \<open>
  Who closes the pipe of a request to a STUN server (\<open>protocol/stun/stun_client.py\<close>), the choice of the servers that
  answer, and the agreement of several results (\<open>utility/pattern_factory.py\<close>). The opening of a pipe and the end of a
  request are arguments; each operation answers its result with the number of pipes that it opened and that are
  still open after it.
\<close>

section \<open>Requests and their pipes\<close>

text \<open>The exceptions that the code tells apart: no reply, \<open>OSError\<close> with its subclasses and timeouts, a cancelled task, any
  other.\<close>

datatype exc = ExNoReply | ExOS | ExCancelled | ExOther

datatype 'r ended = Ret 'r | Exc exc

text \<open>The pattern of \<open>get_stun_reply\<close>, \<open>get_change_port_reply\<close>, \<open>get_change_tup_reply\<close> and \<open>get_wan_ip\<close>: a pipe is opened unless
  the caller gives one, and the \<open>finally\<close> clause closes what was opened.\<close>

definition get_dest_pipe :: "bool \<Rightarrow> exc option \<Rightarrow> nat ended" where
  "get_dest_pipe supplied opening =
     (if supplied then Ret 0 else case opening of Some e \<Rightarrow> Exc e | None \<Rightarrow> Ret 1)"

definition with_dest_pipe :: "bool \<Rightarrow> exc option \<Rightarrow> 'r ended \<Rightarrow> 'r ended \<times> nat" where
  "with_dest_pipe supplied opening act =
     (case get_dest_pipe supplied opening of
        Exc e \<Rightarrow> (Exc e, 0)
      | Ret opened \<Rightarrow> (act, opened - (if supplied then 0 else 1)))"

text \<open>The mapped address of a reply, when it has one, and the local port (None when the socket is gone).\<close>

record probe_reply =
  pr_local :: "int option"
  pr_mapped :: "(string \<times> int) option"

definition get_wan_ip :: "bool \<Rightarrow> exc option \<Rightarrow> probe_reply ended \<Rightarrow> string result option ended \<times> nat" where
  "get_wan_ip supplied opening reply =
     with_dest_pipe supplied opening
       (case reply of Exc e \<Rightarrow> Exc e | Ret r \<Rightarrow> Ret (map_option (\<lambda>t. ip_norm (fst t)) (pr_mapped r)))"

text \<open>\<open>get_mapping\<close>: the pipe stays open for the caller on success.\<close>

definition mapping_pipe :: "bool \<Rightarrow> exc option \<Rightarrow> probe_reply ended \<Rightarrow> (int \<times> int) option ended \<times> nat" where
  "mapping_pipe supplied opening reply =
     (case get_dest_pipe supplied opening of
        Exc e \<Rightarrow> (Exc e, 0)
      | Ret opened \<Rightarrow>
          (let failed = (\<lambda>e. (Exc e, if e = ExOS \<and> \<not> supplied then opened - 1 else opened)) in
           case reply of
             Exc e \<Rightarrow> failed e
           | Ret r \<Rightarrow>
               (case pr_local r of
                  None \<Rightarrow> failed ExOS
                | Some lport \<Rightarrow>
                    (case pr_mapped r of
                       Some t \<Rightarrow> (Ret (Some (lport, snd t)), opened)
                     | None \<Rightarrow> (Ret None, if supplied then opened else opened - 1)))))"

section \<open>Probing several servers\<close>

text \<open>One probe: the client when it got a mapping, whose pipe it then closes.\<close>

definition try_one :: "'c \<Rightarrow> exc option \<Rightarrow> probe_reply ended \<Rightarrow> 'c option ended \<times> nat" where
  "try_one stun opening reply =
     (case mapping_pipe False opening reply of
        (Ret (Some m), n) \<Rightarrow> (Ret (Some stun), n - 1)
      | (Ret None, n) \<Rightarrow> (Ret None, n)
      | (Exc e, n) \<Rightarrow> (if e = ExOS then Ret None else Exc e, n))"

text \<open>\<open>collect\<close> over the probes in the order in which they end, and what \<open>get_n_stun_clients\<close> makes of it: those that have not
  ended by then are cancelled, which is the end \<open>ExCancelled\<close> of their request.\<close>

fun collect_probes :: "nat \<Rightarrow> 'c option ended list \<Rightarrow> 'c list \<Rightarrow> 'c list ended" where
  "collect_probes n [] found = Ret found"
| "collect_probes n (r # rs) found =
     (case r of
        Exc e \<Rightarrow> Exc e
      | Ret None \<Rightarrow> collect_probes n rs found
      | Ret (Some c) \<Rightarrow> if length (found @ [c]) \<ge> n then Ret (found @ [c]) else collect_probes n rs (found @ [c]))"

definition get_n_stun_clients ::
  "nat \<Rightarrow> ('c \<times> exc option \<times> probe_reply ended) list \<Rightarrow> ('c \<times> exc option) list \<Rightarrow> 'c list ended \<times> nat" where
  "get_n_stun_clients n completed pending =
     (collect_probes n (map (\<lambda>(c, opening, reply). fst (try_one c opening reply)) completed) [],
      sum_list (map (\<lambda>(c, opening, reply). snd (try_one c opening reply)) completed) +
      sum_list (map (\<lambda>(c, opening). snd (try_one c opening (Exc ExCancelled))) pending))"

section \<open>Agreement\<close>

text \<open>How a task ended: with a result (None is no result), with an exception as its result, or by raising one.\<close>

datatype 'r task_end = Returned "'r option" | ReturnedExc | RaisedExc

fun check_consensus :: "int \<Rightarrow> 'r task_end list \<Rightarrow> ('r \<Rightarrow> nat) \<Rightarrow> 'r option" where
  "check_consensus min_agree [] votes = None"
| "check_consensus min_agree (t # ts) votes =
     (case t of
        Returned (Some r) \<Rightarrow>
          if int (votes r + 1) \<ge> min_agree then Some r else check_consensus min_agree ts (votes(r := votes r + 1))
      | _ \<Rightarrow> check_consensus min_agree ts votes)"

text \<open>The tasks that ended before the timeout, in the order in which they are looked at: that of their ends, or with
  \<open>wait_all\<close> any order.\<close>

definition concurrent_first_agree_or_best :: "int \<Rightarrow> 'r task_end list \<Rightarrow> 'r option" where
  "concurrent_first_agree_or_best min_agree done = check_consensus min_agree done (\<lambda>_. 0)"

section \<open>Properties\<close>

text \<open>Apart from a mapping, whose pipe goes to the caller, a request leaves no pipe open whatever happens.\<close>

theorem request_closes_pipe: "snd (with_dest_pipe supplied opening act) = 0"
  by (simp add: with_dest_pipe_def get_dest_pipe_def split: option.split)

text \<open>A mapping that fails in another way than by an \<open>OSError\<close> or a timeout leaves its pipe open: no reply and the
  cancellation of the task are such ways.\<close>

theorem mapping_leaks:
  "mapping_pipe False None (Exc ExNoReply) = (Exc ExNoReply, 1)" "mapping_pipe False None (Exc ExCancelled) = (Exc ExCancelled, 1)"
  "snd (mapping_pipe False None (Exc ExOS)) = 0"
  by (simp_all add: mapping_pipe_def get_dest_pipe_def)

text \<open>One server that does not answer ends the whole search with its exception, although another one would do.\<close>

theorem silent_server_aborts:
  "get_n_stun_clients 1 [(a, None, Exc ExNoReply), (b, None, Ret \<lparr>pr_local = Some 1, pr_mapped = Some ([], 2)\<rparr>)] [] = (Exc ExNoReply, 1)"
  by (simp add: get_n_stun_clients_def try_one_def mapping_pipe_def get_dest_pipe_def)

text \<open>Each probe that is cancelled while it waits for its reply leaves a pipe open.\<close>

theorem cancelled_probes_leak:
  "snd (get_n_stun_clients n [] (map (\<lambda>c. (c, None)) cs)) = length cs"
  by (induction cs) (simp_all add: get_n_stun_clients_def try_one_def mapping_pipe_def get_dest_pipe_def)

lemma consensus_from:
  assumes "1 \<le> m" "\<forall>r. int (votes r) < m"
  shows "(case check_consensus m ts votes of
      None \<Rightarrow> \<forall>r. int (votes r + count_list ts (Returned (Some r))) < m
    | Some r \<Rightarrow> \<exists>pre post. ts = pre @ Returned (Some r) # post \<and> int (votes r + count_list pre (Returned (Some r)) + 1) = m \<and>
        (\<forall>x. int (votes x + count_list pre (Returned (Some x))) < m))"
  using assms
proof (induction m ts votes rule: check_consensus.induct)
  case (1 m votes)
  then show ?case by simp
next
  case (2 m t ts votes)
  have skip: ?case if "\<And>r. t \<noteq> Returned (Some r)" "check_consensus m (t # ts) votes = check_consensus m ts votes"
    "case check_consensus m ts votes of
      None \<Rightarrow> \<forall>r. int (votes r + count_list ts (Returned (Some r))) < m
    | Some r \<Rightarrow> \<exists>pre post. ts = pre @ Returned (Some r) # post \<and> int (votes r + count_list pre (Returned (Some r)) + 1) = m \<and>
        (\<forall>x. int (votes x + count_list pre (Returned (Some x))) < m)"
  proof (cases "check_consensus m ts votes")
    case None
    with that show ?thesis by simp
  next
    case (Some r)
    with that(3) obtain pre post where "ts = pre @ Returned (Some r) # post"
      "int (votes r + count_list pre (Returned (Some r)) + 1) = m" "\<forall>x. int (votes x + count_list pre (Returned (Some x))) < m"
      by auto
    moreover have "count_list (t # pre) (Returned (Some x)) = count_list pre (Returned (Some x))" for x using that(1) by simp
    ultimately have "t # ts = (t # pre) @ Returned (Some r) # post \<and>
        int (votes r + count_list (t # pre) (Returned (Some r)) + 1) = m \<and>
        (\<forall>x. int (votes x + count_list (t # pre) (Returned (Some x))) < m)" by simp
    then show ?thesis unfolding that(2) Some option.case by blast
  qed
  show ?case
  proof (cases t)
    case (Returned x)
    show ?thesis
    proof (cases x)
      case None
      then show ?thesis using Returned 2 by (intro skip) auto
    next
      case (Some r)
      show ?thesis
      proof (cases "int (votes r + 1) \<ge> m")
        case True
        moreover have "int (votes r) < m" using "2.prems"(2) by blast
        ultimately have "int (votes r + 1) = m" by simp
        then show ?thesis using Returned Some True "2.prems"(2)
          by simp (rule exI [of _ "[]"], simp)
      next
        case False
        let ?v = "votes(r := votes r + 1)"
        have "\<forall>x. int (?v x) < m" using False "2.prems"(2) by simp
        then have ih: "case check_consensus m ts ?v of
            None \<Rightarrow> \<forall>x. int (?v x + count_list ts (Returned (Some x))) < m
          | Some x \<Rightarrow> \<exists>pre post. ts = pre @ Returned (Some x) # post \<and> int (?v x + count_list pre (Returned (Some x)) + 1) = m \<and>
              (\<forall>y. int (?v y + count_list pre (Returned (Some y))) < m)"
          using "2.IH"(2) [OF Returned Some False "2.prems"(1)] by blast
        have step: "votes x + count_list (t # l) (Returned (Some x)) = ?v x + count_list l (Returned (Some x))" for x l
          using Returned Some by simp
        have c: "check_consensus m (t # ts) votes = check_consensus m ts ?v" using Returned Some False by simp
        show ?thesis
        proof (cases "check_consensus m ts ?v")
          case None
          with ih c show ?thesis by (simp add: step del: count_list.simps)
        next
          case (Some y)
          with ih obtain pre post where p: "ts = pre @ Returned (Some y) # post"
            "int (?v y + count_list pre (Returned (Some y)) + 1) = m" "\<forall>z. int (?v z + count_list pre (Returned (Some z))) < m"
            by auto
          have "t # ts = (t # pre) @ Returned (Some y) # post" using p(1) by simp
          moreover have "int (votes y + count_list (t # pre) (Returned (Some y)) + 1) = m" using p(2) step by metis
          moreover have "\<forall>z. int (votes z + count_list (t # pre) (Returned (Some z))) < m" using p(3) step by metis
          ultimately show ?thesis unfolding c Some option.case by blast
        qed
      qed
    qed
  qed (use 2 in \<open>(intro skip; auto)+\<close>)
qed

lemma consensus_first:
  assumes "1 \<le> m"
  shows "case concurrent_first_agree_or_best m ts of
      None \<Rightarrow> \<forall>r. int (count_list ts (Returned (Some r))) < m
    | Some r \<Rightarrow> \<exists>pre post. ts = pre @ Returned (Some r) # post \<and> int (count_list pre (Returned (Some r))) + 1 = m \<and>
        (\<forall>x. int (count_list pre (Returned (Some x))) < m)"
  using consensus_from [of m "\<lambda>_. 0" ts] assms
  by (cases "check_consensus m ts (\<lambda>_. 0)") (simp_all add: concurrent_first_agree_or_best_def add.commute)

lemma consensus_reached:
  assumes "concurrent_first_agree_or_best m ts = Some r" "1 \<le> m"
  shows "m \<le> int (count_list ts (Returned (Some r)))"
  using consensus_first [of m ts] assms by auto

lemma consensus_missed:
  assumes "concurrent_first_agree_or_best m ts = None" "1 \<le> m"
  shows "int (count_list ts (Returned (Some r))) < m"
  using consensus_first [of m ts] assms by simp

text \<open>With a threshold of at least one, the result that is agreed on is the first one that reaches as many tasks as
  the threshold, and there is none exactly when no result reaches it.\<close>

theorem consensus_result:
  assumes "1 \<le> m"
  shows "case concurrent_first_agree_or_best m ts of
      None \<Rightarrow> \<forall>r. int (count_list ts (Returned (Some r))) < m
    | Some r \<Rightarrow> \<exists>pre post. ts = pre @ Returned (Some r) # post \<and> int (count_list pre (Returned (Some r))) + 1 = m \<and>
        (\<forall>x. int (count_list pre (Returned (Some x))) < m)"
  using assms by (rule consensus_first)

theorem consensus_result_witness:
  "concurrent_first_agree_or_best 2 [Returned (Some 1), RaisedExc, Returned (Some 2), Returned None, Returned (Some (1 :: int)), Returned (Some 2)] = Some 1"
proof -
  let ?ts = "[Returned (Some 1), RaisedExc, Returned (Some 2), Returned None, Returned (Some (1 :: int)), Returned (Some 2)]"
  have "concurrent_first_agree_or_best 2 ?ts \<noteq> None"
  proof
    assume n: "concurrent_first_agree_or_best 2 ?ts = None"
    have "(case concurrent_first_agree_or_best 2 ?ts of
      None \<Rightarrow> \<forall>r. int (count_list ?ts (Returned (Some r))) < 2
    | Some r \<Rightarrow> \<exists>pre post. ?ts = pre @ Returned (Some r) # post \<and> int (count_list pre (Returned (Some r))) + 1 = 2 \<and>
        (\<forall>x. int (count_list pre (Returned (Some x))) < 2))" by (rule consensus_result) simp
    then have "int (count_list ?ts (Returned (Some 1))) < 2" unfolding n option.case by blast
    then show False by simp
  qed
  then show ?thesis by (simp add: concurrent_first_agree_or_best_def)
qed

lemma count_mset_list: "count (mset xs) x = count_list xs x"
  by (induction xs) auto

lemma count_le: "count_list xs a + count_list xs b \<le> length xs" if "a \<noteq> b"
  using that by (induction xs) auto

text \<open>C35. With a threshold of more than half of the tasks the agreement does not depend on the order in which they end.\<close>

theorem majority_order_independent:
  assumes "mset ts = mset us" "int (length ts) < 2 * m" "1 \<le> m"
  shows "concurrent_first_agree_or_best m ts = concurrent_first_agree_or_best m us"
proof -
  have c: "count_list ts x = count_list us x" for x using assms(1) by (metis count_mset_list)
  have only: "r = s" if "m \<le> int (count_list ts (Returned (Some r)))" "m \<le> int (count_list ts (Returned (Some s)))" for r s
    using that count_le [of "Returned (Some r)" "Returned (Some s)" ts] assms(2) by fastforce
  show ?thesis
  proof (cases "concurrent_first_agree_or_best m ts")
    case None
    have "concurrent_first_agree_or_best m us \<noteq> Some r" for r
      using consensus_missed [OF None assms(3), of r] consensus_reached [of m us r] assms(3) c by auto
    with None show ?thesis by (cases "concurrent_first_agree_or_best m us") auto
  next
    case (Some r)
    have r: "m \<le> int (count_list ts (Returned (Some r)))" by (rule consensus_reached [OF Some assms(3)])
    show ?thesis
    proof (cases "concurrent_first_agree_or_best m us")
      case None
      from consensus_missed [OF this assms(3), of r] r c show ?thesis by simp
    next
      case (Some s)
      from consensus_reached [OF this assms(3)] c have "m \<le> int (count_list ts (Returned (Some s)))" by simp
      from only [OF r this] \<open>concurrent_first_agree_or_best m ts = Some r\<close> Some show ?thesis by simp
    qed
  qed
qed

theorem majority_order_independent_witness:
  "concurrent_first_agree_or_best 2 [Returned (Some 1), Returned (Some 2), Returned (Some (2 :: int))] =
   concurrent_first_agree_or_best 2 [Returned (Some 2), Returned (Some 1), Returned (Some 2)]"
  by (rule majority_order_independent) simp_all

end
