(* ===== verification/WinIf.thy ===== *)
theory WinIf
  imports Iface
begin

unbundle bit_operations_syntax

text \<open>
  Network interfaces of Windows (\<open>nic/netifaces/windows/\<close>): netmasks and prefix lengths, what is made of the output of
  each of the four backends, and the object \<open>Netifaces\<close> that chooses a backend and answers in the shape of the package
  \<open>netifaces\<close>. The groups that a regular expression finds in the output of a command, the structures of the system
  library and the answers of the registry are arguments.
\<close>

section \<open>Data\<close>

record win_addr =
  wa_addr :: string
  wa_host_limit :: int
  wa_netmask :: "string option"

record win_iface =
  wi_guid :: string
  wi_name :: string
  wi_descr :: string
  wi_con_name :: "string option"
  wi_no :: int
  wi_v6_no :: "int option"
  wi_mac :: string
  wi_addr :: "af \<Rightarrow> win_addr list"
  wi_gws :: "af \<Rightarrow> string option"
  wi_defaults :: "af list"

section \<open>Netmasks\<close>

text \<open>The prefix length of a dotted netmask: four numbers, put together bit by bit, whose complement must be a block
  of ones at the end. \<open>bin(n).count("1")\<close> counts the ones of the absolute value.\<close>

definition dotted_prefix :: "string \<Rightarrow> int option" where
  "dotted_prefix s =
     (let parts = py_split (CHR ''.'') s in
      if length parts \<noteq> 4 then None
      else (case mapr (py_int 10) parts of
              Inl e \<Rightarrow> None
            | Inr ps \<Rightarrow>
                (let n = foldl (\<lambda>n p. push_bit 8 n OR p) 0 ps;
                     inv = NOT n AND 0xFFFFFFFF
                 in if inv AND (inv + 1) \<noteq> 0 then None else Some (int (popcount (nat \<bar>n\<bar>))))))"

definition parse_wmic_subnet :: "string option \<Rightarrow> int option" where
  "parse_wmic_subnet m =
     (case m of
        None \<Rightarrow> None
      | Some s \<Rightarrow>
          if s = [] then None
          else if CHR ''.'' \<in> set s then dotted_prefix s
          else (case py_int 10 s of Inl e \<Rightarrow> None | Inr n \<Rightarrow> Some n))"

definition netmask_to_prefix :: "string option \<Rightarrow> int option" where
  "netmask_to_prefix m =
     (case m of None \<Rightarrow> None | Some s \<Rightarrow> if s = [] then None else dotted_prefix s)"

definition quad :: "int \<Rightarrow> string" where
  "quad m = py_join (CHR ''.'') (map (\<lambda>k. show_int (drop_bit k m AND 0xFF)) [24, 16, 8, 0])"

definition cidr_to_netmask_v4 :: "int \<Rightarrow> string" where
  "cidr_to_netmask_v4 p =
     (if p \<le> 0 then ''0.0.0.0''
      else if 32 \<le> p then ''255.255.255.255''
      else quad (push_bit (nat (32 - p)) 0xFFFFFFFF AND 0xFFFFFFFF))"

definition sanitize_prefix :: "int \<Rightarrow> af \<Rightarrow> int" where
  "sanitize_prefix n a = (if n < 0 \<or> int (af_bitlen a) < n then int (af_bitlen a) else n)"

section \<open>The loopback adapter\<close>

definition is_loopback_iface :: "win_iface \<Rightarrow> bool" where
  "is_loopback_iface i =
     (let es = concat (map (\<lambda>a. map (\<lambda>e. (a, hd (py_split (CHR ''/'') (wa_addr e))))
                                   (filter (\<lambda>e. wa_addr e \<noteq> []) (wi_addr i a))) [IP4, IP6])
      in es \<noteq> [] \<and>
         list_all (\<lambda>(a, ip). if a = IP4 then py_startswith ''127.'' ip else ip = ''::1'') es)"

section \<open>Output of \<open>wmic\<close>\<close>

definition mask_text :: "IPRange \<Rightarrow> string" where
  "mask_text r = (case ir_netmask r of IpStr t \<Rightarrow> t | _ \<Rightarrow> [])"

definition wmic_addr :: "(af \<Rightarrow> int \<Rightarrow> bool) \<Rightarrow> string \<Rightarrow> string option \<Rightarrow> (af \<times> win_addr) result" where
  "wmic_addr priv addr m =
     bindr (ip_range priv (IpStr addr) None None) (\<lambda>r.
       case parse_wmic_subnet m of
         None \<Rightarrow> Inr (ir_af r, \<lparr>wa_addr = addr, wa_host_limit = ir_host_no r, wa_netmask = Some (mask_text r)\<rparr>)
       | Some p \<Rightarrow>
           bindr (if int (af_bitlen (ir_af r)) - p = ir_host_no r then Inr r
                  else bindr (ipr_norm r) (\<lambda>t. ip_range priv (IpStr t) None (Some (int (af_bitlen (ir_af r)) - p)))) (\<lambda>q.
             Inr (ir_af r, \<lparr>wa_addr = addr, wa_host_limit = p, wa_netmask = Some (mask_text q)\<rparr>)))"

fun parse_wmic_addrs ::
  "(af \<Rightarrow> int \<Rightarrow> bool) \<Rightarrow> string list \<Rightarrow> string list \<Rightarrow> (af \<Rightarrow> win_addr list) result" where
  "parse_wmic_addrs priv [] ms = Inr (\<lambda>_. [])"
| "parse_wmic_addrs priv (addr # addrs) ms =
     bindr (wmic_addr priv addr (case ms of [] \<Rightarrow> None | m # _ \<Rightarrow> Some m)) (\<lambda>(a, e).
     bindr (parse_wmic_addrs priv addrs (tl ms)) (\<lambda>t. Inr (t(a := e # t a))))"

text \<open>A row of the main table; its lists are parsed.\<close>

record wmic_row =
  wr_gws :: "string list"
  wr_name :: string
  wr_no :: int
  wr_ips :: "string list"
  wr_subnets :: "string list"
  wr_mac :: string
  wr_guid :: string

text \<open>Only the first family that has a gateway gets one.\<close>

definition first_gw :: "(af \<Rightarrow> win_addr list) \<Rightarrow> af \<Rightarrow> string option" where
  "first_gw g a = (if find (\<lambda>b. g b \<noteq> []) VALID_AFS = Some a then Some (wa_addr (hd (g a))) else None)"

definition show_main :: "(af \<Rightarrow> int \<Rightarrow> bool) \<Rightarrow> wmic_row \<Rightarrow> win_iface result" where
  "show_main priv r =
     bindr (parse_wmic_addrs priv (wr_gws r) []) (\<lambda>g.
     bindr (parse_wmic_addrs priv (wr_ips r) (wr_subnets r)) (\<lambda>ad.
       Inr \<lparr>wi_guid = wr_guid r, wi_name = wr_name r, wi_descr = [], wi_con_name = None, wi_no = wr_no r,
            wi_v6_no = None, wi_mac = wr_mac r, wi_addr = ad, wi_gws = first_gw g, wi_defaults = []\<rparr>))"

text \<open>The default route of a family: the gateway and, for IPv4, the address of its interface.\<close>

record default_gw =
  dg_gw_ip :: string
  dg_if_ip :: "string option"

text \<open>What the three commands gave; None for one that failed. The routes are the MAC addresses by index, in order.\<close>

record wmic_out =
  wo_main :: "win_iface list option"
  wo_con_names :: "(string \<times> string) list option"
  wo_routes :: "((int \<times> string) list \<times> (af \<Rightarrow> default_gw option)) option"

definition do_wmic_cmds :: "(nat \<Rightarrow> wmic_out) \<Rightarrow> wmic_out" where
  "do_wmic_cmds run =
     (case find (\<lambda>k. wo_main (run k) \<noteq> None \<and> wo_main (run k) \<noteq> Some []) [0..<8] of
        Some k \<Rightarrow> run k
      | None \<Rightarrow> run 7)"

definition dashes :: "char set \<Rightarrow> string \<Rightarrow> string" where
  "dashes cs s = map (\<lambda>c. if c \<in> cs then CHR ''-'' else c) s"

fun has_ipr :: "(af \<Rightarrow> int \<Rightarrow> bool) \<Rightarrow> IPRange \<Rightarrow> win_addr list \<Rightarrow> bool result" where
  "has_ipr priv r [] = Inr False"
| "has_ipr priv r (e # es) =
     bindr (ip_range priv (IpStr (wa_addr e)) None None) (\<lambda>s. if ir_eq s r then Inr True else has_ipr priv r es)"

definition wmic_is_default :: "(af \<Rightarrow> int \<Rightarrow> bool) \<Rightarrow> (af \<Rightarrow> default_gw option) \<Rightarrow> win_iface \<Rightarrow> af \<Rightarrow> bool result" where
  "wmic_is_default priv dg e a =
     (case dg a of
        None \<Rightarrow> Inr False
      | Some g \<Rightarrow>
          (case dg_if_ip g of
             None \<Rightarrow> Inr False
           | Some ip \<Rightarrow>
               if ip = [] then Inr False
               else bindr (ip_range priv (IpStr ip) None None) (\<lambda>r. has_ipr priv r (wi_addr e a))))"

fun filter_r :: "('a \<Rightarrow> bool result) \<Rightarrow> 'a list \<Rightarrow> 'a list result" where
  "filter_r p [] = Inr []"
| "filter_r p (x # xs) = bindr (p x) (\<lambda>b. bindr (filter_r p xs) (\<lambda>ys. Inr (if b then x # ys else ys)))"

text \<open>One interface of the main table: None when it has no connection.\<close>

definition wmic_entry ::
  "(af \<Rightarrow> int \<Rightarrow> bool) \<Rightarrow> (string \<times> string) list \<Rightarrow> (string \<times> int) list \<Rightarrow> (af \<Rightarrow> default_gw option) \<Rightarrow> win_iface \<Rightarrow>
    win_iface option result" where
  "wmic_entry priv con idx dg e =
     (case map_of con (show_int (wi_no e)) of
        None \<Rightarrow> Inr None
      | Some cn \<Rightarrow>
          (let no = (case map_of idx (dashes {CHR '':'', CHR '' ''} (py_lower (wi_mac e))) of
                       Some n \<Rightarrow> n | None \<Rightarrow> wi_no e)
           in bindr (filter_r (wmic_is_default priv dg e) [IP4, IP6]) (\<lambda>ds.
                Inr (Some (e\<lparr>wi_con_name := Some cn, wi_no := no, wi_defaults := ds\<rparr>)))))"

fun give_default :: "af \<Rightarrow> default_gw option \<Rightarrow> win_iface list \<Rightarrow> win_iface list" where
  "give_default a dg [] = []"
| "give_default a dg (e # es) =
     (case wi_gws e a of
        None \<Rightarrow> e # give_default a dg es
      | Some g \<Rightarrow>
          if (case dg of None \<Rightarrow> False | Some d \<Rightarrow> g \<noteq> dg_gw_ip d) then e # give_default a dg es
          else e\<lparr>wi_defaults := wi_defaults e @ [a]\<rparr> # es)"

definition wmic_defaults :: "(af \<Rightarrow> default_gw option) \<Rightarrow> win_iface list \<Rightarrow> win_iface list" where
  "wmic_defaults dg es =
     (if list_ex (\<lambda>e. wi_defaults e \<noteq> []) es then es
      else give_default IP6 (dg IP6) (give_default IP4 (dg IP4) es))"

text \<open>The IPv6 addresses by connection name, for Windows XP: the state is the table and the current connection.\<close>

definition v6_header :: "string \<Rightarrow> (int \<times> string) option" where
  "v6_header s =
     (if py_startswith ''Interface'' s
      then (let t = drop 9 s; u = dropWhile is_ws t;
                n = takeWhile is_digit_c u; v = dropWhile is_digit_c u
            in if t \<noteq> u \<and> n \<noteq> [] \<and> v \<noteq> [] \<and> hd v = CHR '':'' \<and> tl v \<noteq> [] \<and> is_ws (hd (tl v)) \<and> dropWhile is_ws (tl v) \<noteq> []
               then (case py_int 10 n of Inr k \<Rightarrow> Some (k, py_strip (tl v)) | Inl e \<Rightarrow> None) else None)
      else None)"

definition v6_line ::
  "(af \<Rightarrow> int \<Rightarrow> bool) \<Rightarrow> string \<Rightarrow> (string \<times> int \<times> win_addr list) list \<times> string option \<Rightarrow>
    (string \<times> int \<times> win_addr list) list \<times> string option" where
  "v6_line priv ln s =
     (case (v6_header (py_strip ln), snd s) of
        (Some (n, name), _) \<Rightarrow> (dict_set name (n, []) (fst s), Some name)
      | (None, None) \<Rightarrow> s
      | (None, Some cur) \<Rightarrow>
          (let parts = py_fields (py_strip ln) in
           if length parts < 5 then s
           else (case bindr (ip_range priv (IpStr (last parts)) None None) (\<lambda>r. bindr (ip_norm (last parts)) (\<lambda>t. Inr (r, t))) of
                   Inl e \<Rightarrow> s
                 | Inr (r, t) \<Rightarrow>
                     if ir_af r \<noteq> IP6 then s
                     else (case map_of (fst s) cur of
                             None \<Rightarrow> s
                           | Some (n, es) \<Rightarrow>
                               (dict_set cur (n, es @ [\<lparr>wa_addr = t, wa_host_limit = ir_host_no r, wa_netmask = Some (mask_text r)\<rparr>])
                                  (fst s), snd s)))))"

definition get_ipv6_from_netsh :: "(af \<Rightarrow> int \<Rightarrow> bool) \<Rightarrow> string result \<Rightarrow> (string \<times> int \<times> win_addr list) list" where
  "get_ipv6_from_netsh priv out =
     (case out of Inl e \<Rightarrow> [] | Inr s \<Rightarrow> fst (fold (v6_line priv) (py_splitlines s) ([], None)))"

definition add_v6 :: "(string \<times> int \<times> win_addr list) list \<Rightarrow> win_iface \<Rightarrow> win_iface" where
  "add_v6 d e =
     (if wi_addr e IP6 \<noteq> [] then e
      else (case map_of d (case wi_con_name e of None \<Rightarrow> [] | Some n \<Rightarrow> n) of
              None \<Rightarrow> e
            | Some (n, es) \<Rightarrow> if es = [] then e else e\<lparr>wi_addr := (wi_addr e)(IP6 := es), wi_no := n\<rparr>))"

definition if_infos_from_wmic ::
  "(af \<Rightarrow> int \<Rightarrow> bool) \<Rightarrow> (nat \<Rightarrow> wmic_out) \<Rightarrow> string result \<Rightarrow> win_iface list result" where
  "if_infos_from_wmic priv run netsh =
     (let out = do_wmic_cmds run in
      case wo_routes out of
        None \<Rightarrow> Inl KeyError
      | Some (macs, dg) \<Rightarrow>
          (case wo_main out of
             None \<Rightarrow> Inl KeyError
           | Some es \<Rightarrow>
               if es \<noteq> [] \<and> wo_con_names out = None then Inl KeyError
               else
                 (let con = (case wo_con_names out of None \<Rightarrow> [] | Some c \<Rightarrow> c);
                      idx = fold (\<lambda>(n, m). dict_set m n) macs []
                  in bindr (mapr (wmic_entry priv con idx dg) es) (\<lambda>rs.
                       let ret = wmic_defaults dg (strip_none rs)
                       in Inr (if list_ex (\<lambda>e. wi_addr e IP6 = []) ret
                               then map (add_v6 (get_ipv6_from_netsh priv netsh)) ret else ret)))))"

section \<open>Output of \<open>netsh\<close>\<close>

text \<open>Whether a route covers the address, with its prefix length and netmask; None for a default route.\<close>

definition route_match :: "(af \<Rightarrow> int \<Rightarrow> bool) \<Rightarrow> string \<Rightarrow> string \<Rightarrow> (int \<times> string) option result" where
  "route_match priv needle pfx =
     (case py_split (CHR ''/'') pfx of
        [ip, c] \<Rightarrow>
          bindr (py_int 10 c) (\<lambda>n.
            if n = 0 then Inr None
            else bindr (ipa_of_str ip) (\<lambda>x.
              let hb = int (af_bitlen (fst x)) - n in
              bindr (ip_range priv (IpStr ip) None (Some hb)) (\<lambda>p.
              bindr (toggle_host_bits (mask_text p) needle False) (\<lambda>t.
              bindr (ip_range priv (IpStr t) None (Some hb)) (\<lambda>m.
                Inr (if ir_eq p m then Some (n, mask_text p) else None))))))
      | _ \<Rightarrow> Inl ValueError)"

definition longer :: "(int \<times> string) option \<Rightarrow> (int \<times> string) option \<Rightarrow> (int \<times> string) option" where
  "longer new best =
     (case new of
        None \<Rightarrow> best
      | Some (n, m) \<Rightarrow> (case best of None \<Rightarrow> Some (n, m) | Some (k, _) \<Rightarrow> if k \<le> n then Some (n, m) else best))"

definition get_host_limit_from_route_infos ::
  "(af \<Rightarrow> int \<Rightarrow> bool) \<Rightarrow> string \<Rightarrow> string list \<Rightarrow> af option \<Rightarrow> (int \<times> string option) result" where
  "get_host_limit_from_route_infos priv needle pfxs a =
     bindr (mapr (route_match priv needle) pfxs) (\<lambda>ms.
       Inr (case fold longer ms None of
              Some (n, m) \<Rightarrow> (n, Some m)
            | None \<Rightarrow> ((case a of Some f \<Rightarrow> int (af_bitlen f) | None \<Rightarrow> 0), None)))"

record netsh_out =
  no_ifs :: "(int \<times> string) list"
  no_addrs :: "af \<Rightarrow> (int \<times> string list) list"
  no_routes :: "af \<Rightarrow> (int \<times> string list) list"
  no_macs :: "(int \<times> string) list"
  no_default :: "af \<Rightarrow> default_gw option"
  no_gws :: "(string \<times> (af \<Rightarrow> string option)) list"

definition netsh_addrs :: "(af \<Rightarrow> int \<Rightarrow> bool) \<Rightarrow> netsh_out \<Rightarrow> int \<Rightarrow> af \<Rightarrow> win_addr list result" where
  "netsh_addrs priv out i a =
     (case map_of (no_addrs out a) i of
        None \<Rightarrow> Inr []
      | Some ips \<Rightarrow>
          mapr (\<lambda>ip. bindr (get_host_limit_from_route_infos priv ip
                              (case map_of (no_routes out a) i of None \<Rightarrow> [] | Some rs \<Rightarrow> rs) (Some a)) (\<lambda>(n, m).
                  Inr \<lparr>wa_addr = ip, wa_host_limit = n, wa_netmask = m\<rparr>)) ips)"

definition netsh_is_default :: "(af \<Rightarrow> int \<Rightarrow> bool) \<Rightarrow> netsh_out \<Rightarrow> (af \<Rightarrow> string option) \<Rightarrow> af \<Rightarrow> bool result" where
  "netsh_is_default priv out gws a =
     (case (no_default out a, gws a) of
        (Some d, Some g) \<Rightarrow>
          bindr (ip_range priv (IpStr g) None None) (\<lambda>r.
          bindr (ip_range priv (IpStr (dg_gw_ip d)) None None) (\<lambda>s. Inr (ir_eq r s)))
      | _ \<Rightarrow> Inr False)"

definition netsh_entry ::
  "(af \<Rightarrow> int \<Rightarrow> bool) \<Rightarrow> (string \<times> string \<times> string) list \<Rightarrow> netsh_out \<Rightarrow> int \<times> string \<Rightarrow> win_iface option result" where
  "netsh_entry priv con out e =
     bindr (netsh_addrs priv out (fst e) IP4) (\<lambda>v4.
     bindr (netsh_addrs priv out (fst e) IP6) (\<lambda>v6.
       case (map_of con (snd e), map_of (no_macs out) (fst e)) of
         (Some (guid, name), Some m) \<Rightarrow>
           (let mac = py_lower (py_rstrip m) in
            case map_of (no_gws out) mac of
              None \<Rightarrow> Inr None
            | Some gws \<Rightarrow>
                bindr (filter_r (netsh_is_default priv out gws) [IP4, IP6]) (\<lambda>ds.
                  Inr (Some \<lparr>wi_guid = guid, wi_name = name, wi_descr = [], wi_con_name = Some (snd e), wi_no = fst e,
                             wi_v6_no = None, wi_mac = mac, wi_addr = (\<lambda>a. case a of IP4 \<Rightarrow> v4 | IP6 \<Rightarrow> v6),
                             wi_gws = gws, wi_defaults = ds\<rparr>)))
       | _ \<Rightarrow> Inr None))"

definition if_infos_from_netsh ::
  "(af \<Rightarrow> int \<Rightarrow> bool) \<Rightarrow> (string \<times> string \<times> string) list \<Rightarrow> netsh_out \<Rightarrow> win_iface list result" where
  "if_infos_from_netsh priv con out =
     bindr (mapr (netsh_entry priv con out) (no_ifs out)) (\<lambda>rs. Inr (strip_none rs))"

section \<open>Output of the PowerShell script\<close>

record ps_row =
  pr_name :: string
  pr_no :: int
  pr_guid :: string
  pr_mac :: string
  pr_gws :: "af \<Rightarrow> string"
  pr_addrs :: string

text \<open>An address with its prefix length, split at the last slash.\<close>

definition rsplit_slash :: "string \<Rightarrow> string \<times> string" where
  "rsplit_slash s =
     (let t = takeWhile (\<lambda>c. c \<noteq> CHR ''/'') (rev s)
      in (take (length s - length t - 1) s, rev t))"

definition ps_addr :: "(af \<Rightarrow> int \<Rightarrow> bool) \<Rightarrow> string \<Rightarrow> (af \<times> win_addr) result" where
  "ps_addr priv line =
     (let (raw, plen) = (if CHR ''/'' \<in> set line
                         then (case rsplit_slash line of (r, p) \<Rightarrow> (r, case py_int 10 p of Inr n \<Rightarrow> Some n | Inl e \<Rightarrow> None))
                         else (line, None));
          addr = ip_strip_cidr (ip_strip_if raw)
      in bindr (ip_range priv (IpStr addr) None None) (\<lambda>r.
           let n = (case plen of Some n \<Rightarrow> n | None \<Rightarrow> int (af_bitlen (ir_af r)))
           in bindr (cidr_to_netmask n (ir_af r)) (\<lambda>m.
                Inr (ir_af r, \<lparr>wa_addr = addr, wa_host_limit = n, wa_netmask = Some m\<rparr>))))"

definition by_family :: "(af \<times> win_addr) list \<Rightarrow> af \<Rightarrow> win_addr list" where
  "by_family es a = map snd (filter (\<lambda>e. fst e = a) es)"

definition ps_defaults :: "(af \<Rightarrow> int option) \<Rightarrow> int \<Rightarrow> af list" where
  "ps_defaults dflt n = filter (\<lambda>a. dflt a = Some n) [IP4, IP6]"

definition ps_info :: "(af \<Rightarrow> int \<Rightarrow> bool) \<Rightarrow> (af \<Rightarrow> int option) \<Rightarrow> ps_row \<Rightarrow> win_iface result" where
  "ps_info priv dflt r =
     bindr (mapr (ps_addr priv) (filter (\<lambda>l. l \<noteq> []) (py_splitlines (filter (\<lambda>c. c \<noteq> CHR '' '') (pr_addrs r))))) (\<lambda>es.
       Inr \<lparr>wi_guid = pr_guid r, wi_name = pr_name r, wi_descr = [], wi_con_name = None, wi_no = pr_no r, wi_v6_no = None,
            wi_mac = pr_mac r, wi_addr = by_family es,
            wi_gws = (\<lambda>a. if pr_gws r a = ''null'' then None else Some (pr_gws r a)),
            wi_defaults = ps_defaults dflt (pr_no r)\<rparr>)"

text \<open>A family without a default interface gets the first one that has a gateway for it. The interfaces of one index that
  is the default of some family share the list of families.\<close>

definition add_first_default :: "(af \<Rightarrow> int option) \<Rightarrow> af \<Rightarrow> win_iface list \<Rightarrow> win_iface list" where
  "add_first_default dflt a is =
     (case is of
        [] \<Rightarrow> []
      | i # rest \<Rightarrow>
          if dflt a \<noteq> None \<or> wi_gws i a = None then is
          else (let put = (\<lambda>j. j\<lparr>wi_defaults := wi_defaults j @ [a]\<rparr>)
                in put i # (if ps_defaults dflt (wi_no i) = [] then rest
                            else map (\<lambda>j. if wi_no j = wi_no i then put j else j) rest)))"

text \<open>The output is checked for three marks before it is searched.\<close>

definition load_ifs_from_ps1 ::
  "(af \<Rightarrow> int \<Rightarrow> bool) \<Rightarrow> string result \<Rightarrow> (af \<Rightarrow> int option) \<Rightarrow> ps_row list \<Rightarrow> win_iface list result" where
  "load_ifs_from_ps1 priv out dflt rows =
     bindr out (\<lambda>s.
       if \<not> py_contains ''InterfaceDescription'' s \<or> py_contains ''MethodNotFound'' s
          \<or> py_contains ''is not recognized as the name'' s
       then Inl GenericException
       else bindr (mapr (ps_info priv dflt) rows) (\<lambda>is.
              Inr (add_first_default dflt IP6 (add_first_default dflt IP4 is))))"

section \<open>The system library\<close>

datatype sock_addr = NoAddr | In4 bytes | In6 bytes nat | OtherFamily

definition hex_pair :: "nat \<Rightarrow> string" where
  "hex_pair n = [digit_c (n div 16), digit_c (n mod 16)]"

definition lstrip_0 :: "string \<Rightarrow> string" where
  "lstrip_0 s = dropWhile (\<lambda>c. c = CHR ''0'') s"

text \<open>A group of an IPv6 address as the code writes it when the system has no function for it.\<close>

definition v6_word_text :: "nat \<Rightarrow> string" where
  "v6_word_text w =
     (let a = w div 256;
          s = lstrip_0 ((if a < 16 then [digit_c a] else hex_pair a) @ hex_pair (w mod 256))
      in if s = [] then ''0'' else s)"

definition v6_manual :: "bytes \<Rightarrow> string" where
  "v6_manual raw = py_join (CHR '':'') (map v6_word_text (v6_words raw))"

definition sockaddr_to_ip :: "(bytes \<Rightarrow> string result) \<Rightarrow> sock_addr \<Rightarrow> string option" where
  "sockaddr_to_ip ntop s =
     (case s of
        NoAddr \<Rightarrow> None
      | In4 b \<Rightarrow> (case inet_ntoa b of Inr t \<Rightarrow> Some t | Inl e \<Rightarrow> None)
      | In6 b scope \<Rightarrow>
          (let ip = (case ntop b of Inr t \<Rightarrow> t | Inl e \<Rightarrow> v6_manual b)
           in Some (if scope \<noteq> 0 then ip @ CHR ''%'' # show_nat scope else ip))
      | OtherFamily \<Rightarrow> None)"

definition mac_from_physical :: "bytes \<Rightarrow> nat \<Rightarrow> string" where
  "mac_from_physical buf len = py_join (CHR '':'') (map (\<lambda>b. hex_pair (unat b)) (take (min len 6) buf))"

record adapter =
  ad_friendly :: "string option"
  ad_descr :: "string option"
  ad_name :: "string option"
  ad_ifindex :: nat
  ad_v6index :: nat
  ad_phys :: bytes
  ad_phys_len :: nat
  ad_unicast :: "(sock_addr \<times> nat) list"

record ip_info =
  ii_descr :: string
  ii_guid :: string
  ii_ifindex :: nat
  ii_v6index :: nat
  ii_mac :: string
  ii_v4 :: "(string \<times> nat) list"
  ii_v6 :: "(string \<times> nat) list"

definition opt_text :: "string option \<Rightarrow> string" where
  "opt_text t = (case t of None \<Rightarrow> [] | Some s \<Rightarrow> s)"

definition adapter_name :: "adapter \<Rightarrow> string" where
  "adapter_name ad =
     (if opt_text (ad_friendly ad) \<noteq> [] then opt_text (ad_friendly ad)
      else if opt_text (ad_descr ad) \<noteq> [] then opt_text (ad_descr ad)
      else case ad_name ad of Some n \<Rightarrow> n | None \<Rightarrow> ''<adapter '' @ show_nat (ad_ifindex ad) @ ''>'')"

definition unicast :: "(bytes \<Rightarrow> string result) \<Rightarrow> adapter \<Rightarrow> af \<Rightarrow> (string \<times> nat) list" where
  "unicast ntop ad a =
     concat (map (\<lambda>(s, p). if (case s of In4 b \<Rightarrow> a = IP4 | In6 b n \<Rightarrow> a = IP6 | _ \<Rightarrow> False)
                           then (case sockaddr_to_ip ntop s of Some t \<Rightarrow> [(t, p)] | None \<Rightarrow> []) else []) (ad_unicast ad))"

definition add_adapter :: "(bytes \<Rightarrow> string result) \<Rightarrow> adapter \<Rightarrow> (string \<times> ip_info) list \<Rightarrow> (string \<times> ip_info) list" where
  "add_adapter ntop ad d =
     (let name = adapter_name ad;
          i = \<lparr>ii_descr = opt_text (ad_descr ad), ii_guid = opt_text (ad_name ad), ii_ifindex = ad_ifindex ad,
               ii_v6index = ad_v6index ad, ii_mac = mac_from_physical (ad_phys ad) (ad_phys_len ad),
               ii_v4 = unicast ntop ad IP4, ii_v6 = unicast ntop ad IP6\<rparr>
      in if name \<noteq> [] \<or> ii_v4 i \<noteq> [] \<or> ii_v6 i \<noteq> [] then dict_set name i d else d)"

definition get_interfaces :: "(bytes \<Rightarrow> string result) \<Rightarrow> adapter list \<Rightarrow> (string \<times> ip_info) list" where
  "get_interfaces ntop ads = fold (add_adapter ntop) ads []"

text \<open>A prefix length of zero counts as unknown, and so does one that the older interface corrects.\<close>

definition v4_prefix :: "(string \<Rightarrow> string option) \<Rightarrow> string \<Rightarrow> int \<Rightarrow> int" where
  "v4_prefix masks ip p =
     (let n = sanitize_prefix p IP4;
          h = (if n = 0 then 32 else n)
      in if h = 32
         then (case netmask_to_prefix (masks ip) of Some f \<Rightarrow> if f < 32 then f else h | None \<Rightarrow> h)
         else h)"

definition v6_prefix :: "int \<Rightarrow> int" where
  "v6_prefix p = (let n = sanitize_prefix p IP6 in if n = 0 then 128 else n)"

definition is_ip :: "(af \<Rightarrow> int \<Rightarrow> bool) \<Rightarrow> string \<Rightarrow> bool" where
  "is_ip priv t = (case ip_range priv (IpStr t) None None of Inr r \<Rightarrow> True | Inl e \<Rightarrow> False)"

definition iphlp_info ::
  "(af \<Rightarrow> int \<Rightarrow> bool) \<Rightarrow> (string \<Rightarrow> string option) \<Rightarrow> string \<times> ip_info \<Rightarrow> win_iface option" where
  "iphlp_info priv masks e =
     (let (friendly, i) = e;
          v4 = map (\<lambda>(t, p). let n = v4_prefix masks t (int p)
                             in \<lparr>wa_addr = t, wa_host_limit = n, wa_netmask = Some (cidr_to_netmask_v4 n)\<rparr>)
                 (filter (\<lambda>(t, p). is_ip priv t) (ii_v4 i));
          v6 = map (\<lambda>(t, p). \<lparr>wa_addr = t, wa_host_limit = v6_prefix (int p), wa_netmask = None\<rparr>)
                 (filter (\<lambda>(t, p). is_ip priv t) (ii_v6 i))
      in if v4 = [] \<and> v6 = [] then None
         else Some \<lparr>wi_guid = (if ii_guid i \<noteq> [] then ii_guid i else friendly), wi_name = friendly, wi_descr = ii_descr i,
                    wi_con_name = None,
                    wi_no = int (if ii_ifindex i \<noteq> 0 then ii_ifindex i else ii_v6index i),
                    wi_v6_no = Some (int (if ii_v6index i \<noteq> 0 then ii_v6index i else ii_ifindex i)),
                    wi_mac = ii_mac i, wi_addr = (\<lambda>a. case a of IP4 \<Rightarrow> v4 | IP6 \<Rightarrow> v6), wi_gws = (\<lambda>_. None),
                    wi_defaults = []\<rparr>)"

definition if_infos_from_iphlpapi ::
  "(af \<Rightarrow> int \<Rightarrow> bool) \<Rightarrow> (bytes \<Rightarrow> string result) \<Rightarrow> (string \<Rightarrow> string option) \<Rightarrow> adapter list \<Rightarrow> win_iface list" where
  "if_infos_from_iphlpapi priv ntop masks ads =
     strip_none (map (iphlp_info priv masks) (get_interfaces ntop ads))"

section \<open>Choosing a backend\<close>

datatype backend = IPHLPAPI | PS1 | WMIC | NETSH

definition nt_ge :: "int \<times> int \<Rightarrow> int \<times> int \<Rightarrow> bool" where
  "nt_ge v w \<longleftrightarrow> fst w < fst v \<or> fst w = fst v \<and> snd w \<le> snd v"

definition vectors :: "int \<times> int \<Rightarrow> bool \<Rightarrow> backend list" where
  "vectors nt lib_ok =
     (if nt_ge nt (5, 1) \<and> lib_ok then [IPHLPAPI] else []) @
     (if nt_ge nt (6, 2) then [PS1] else []) @
     (if nt_ge nt (6, 0) then [WMIC] else []) @
     (if nt_ge nt (6, 0) then [NETSH] else [])"

definition caught :: "py_exn \<Rightarrow> bool" where
  "caught e \<longleftrightarrow> e = OSError \<or> e = ConnectionError2 \<or> e = TimeoutError"

fun try_vectors :: "('b \<Rightarrow> 'i list result) \<Rightarrow> 'b list \<Rightarrow> 'i list result" where
  "try_vectors run [] = Inr []"
| "try_vectors run (b # bs) =
     (case run b of
        Inr is \<Rightarrow> if is = [] then try_vectors run bs else Inr is
      | Inl e \<Rightarrow> if caught e then try_vectors run bs else Inl e)"

fun load_attempts :: "(nat \<Rightarrow> 'b \<Rightarrow> 'i list result) \<Rightarrow> 'b list \<Rightarrow> nat list \<Rightarrow> 'i list result" where
  "load_attempts run bs [] = Inr []"
| "load_attempts run bs (k # ks) =
     bindr (try_vectors (run k) bs) (\<lambda>is. if is \<noteq> [] then Inr is else load_attempts run bs ks)"

section \<open>The object \<open>Netifaces\<close>\<close>

text \<open>The interfaces by GUID, the names under which they are found, and the gateways.\<close>

record win_netifaces =
  wn_infos :: "(string \<times> win_iface) list"
  wn_names :: "(string \<times> string) list"
  wn_default :: "af \<Rightarrow> (string \<times> string) option"
  wn_gws :: "af \<Rightarrow> (string \<times> string \<times> bool) list"

record name_index =
  nx_counts :: "(string \<times> nat) list"
  nx_names :: "(string \<times> string) list"
  nx_infos :: "(string \<times> win_iface) list"

definition unique_name :: "(string \<times> nat) list \<Rightarrow> string \<Rightarrow> string \<times> (string \<times> nat) list" where
  "unique_name counts name =
     (case map_of counts name of
        Some c \<Rightarrow> (name @ '' #'' @ show_nat (c + 1), dict_set name (c + 1) counts)
      | None \<Rightarrow> (name, dict_set name 1 counts))"

definition index_one :: "string \<times> win_iface \<Rightarrow> name_index \<Rightarrow> name_index" where
  "index_one e x =
     (let (g, i) = e;
          (name, counts) = unique_name (nx_counts x) (wi_name i);
          d = dict_set name g (nx_names x)
      in \<lparr>nx_counts = counts,
          nx_names = (if wi_descr i \<noteq> [] \<and> wi_descr i \<noteq> name \<and> \<not> dict_has (wi_descr i) d
                      then dict_set (wi_descr i) g d else d),
          nx_infos = nx_infos x @ [(g, i\<lparr>wi_name := name\<rparr>)]\<rparr>)"

definition index_names :: "(string \<times> win_iface) list \<Rightarrow> name_index" where
  "index_names infos = fold index_one infos \<lparr>nx_counts = [], nx_names = [], nx_infos = []\<rparr>"

definition gw_of :: "win_iface \<Rightarrow> af \<Rightarrow> string option" where
  "gw_of i a = (case wi_gws i a of None \<Rightarrow> None | Some g \<Rightarrow> if g = [] then None else Some g)"

definition win_set_gateways ::
  "(string \<times> win_iface) list \<Rightarrow> (af \<Rightarrow> (string \<times> string) option) \<times> (af \<Rightarrow> (string \<times> string \<times> bool) list)" where
  "win_set_gateways infos =
     fold (\<lambda>(_, i) (d, l).
        (\<lambda>a. case gw_of i a of None \<Rightarrow> d a | Some g \<Rightarrow> if a \<in> set (wi_defaults i) then Some (g, wi_name i) else d a,
         \<lambda>a. case gw_of i a of None \<Rightarrow> l a | Some g \<Rightarrow> l a @ [(g, wi_name i, a \<in> set (wi_defaults i))]))
       infos (\<lambda>_. None, \<lambda>_. [])"

definition index_infos :: "win_iface list \<Rightarrow> win_netifaces result" where
  "index_infos is =
     (let guids = fold (\<lambda>i. dict_set (wi_guid i) i) is []
      in if guids = [] then Inl GenericException
         else (let x = index_names guids; gws = win_set_gateways (nx_infos x)
               in Inr \<lparr>wn_infos = nx_infos x, wn_names = nx_names x, wn_default = fst gws, wn_gws = snd gws\<rparr>))"

definition netifaces_start :: "(nat \<Rightarrow> backend \<Rightarrow> win_iface list result) \<Rightarrow> int \<times> int \<Rightarrow> bool \<Rightarrow> win_netifaces result" where
  "netifaces_start run nt lib_ok = bindr (load_attempts run (vectors nt lib_ok) [0, 1, 2]) index_infos"

definition win_if_info :: "win_netifaces \<Rightarrow> string \<Rightarrow> win_iface result" where
  "win_if_info w name =
     (case map_of (wn_names w) name of
        None \<Rightarrow> Inl KeyError
      | Some g \<Rightarrow> (case map_of (wn_infos w) g of None \<Rightarrow> Inl KeyError | Some i \<Rightarrow> Inr i))"

definition win_guid :: "win_netifaces \<Rightarrow> string \<Rightarrow> string result" where
  "win_guid w name = bindr (win_if_info w name) (\<lambda>i. Inr (wi_guid i))"

definition win_nic_no :: "win_netifaces \<Rightarrow> string \<Rightarrow> int result" where
  "win_nic_no w name = bindr (win_if_info w name) (\<lambda>i. Inr (wi_no i))"

definition win_nic_id :: "win_netifaces \<Rightarrow> af option \<Rightarrow> string \<Rightarrow> int result" where
  "win_nic_id w a name =
     bindr (win_if_info w name) (\<lambda>i.
       Inr (if a = Some IP6 then (case wi_v6_no i of Some n \<Rightarrow> if n = 0 then wi_no i else n | None \<Rightarrow> wi_no i) else wi_no i))"

definition win_ifaddresses :: "win_netifaces \<Rightarrow> string \<Rightarrow> (af \<Rightarrow> addr_info list) result" where
  "win_ifaddresses w name =
     bindr (win_if_info w name) (\<lambda>i.
       Inr (\<lambda>a. map (\<lambda>e. \<lparr>ai_addr = Some (wa_addr e),
                          ai_netmask = (case cidr_to_netmask (wa_host_limit e) a of Inr t \<Rightarrow> Some t | Inl _ \<Rightarrow> None)\<rparr>)
                   (wi_addr i a)))"

definition canonical :: "win_iface \<Rightarrow> string" where
  "canonical i = (if wi_name i \<noteq> [] then wi_name i else wi_descr i)"

definition win_interfaces :: "win_netifaces \<Rightarrow> string list" where
  "win_interfaces w =
     sort (rev (fold (\<lambda>(_, i) seen.
        if canonical i = [] \<or> canonical i \<in> set seen \<or> is_loopback_iface i then seen else canonical i # seen)
       (wn_infos w) []))"

text \<open>What the rest of the program sees of it.\<close>

definition as_netifaces :: "win_netifaces \<Rightarrow> netifaces" where
  "as_netifaces w =
     \<lparr>nf_interfaces = win_interfaces w,
      nf_ifaddresses = (\<lambda>n a. case win_ifaddresses w n of Inl e \<Rightarrow> None | Inr f \<Rightarrow> Some (f a)),
      nf_mac = (\<lambda>n. case win_if_info w n of Inl e \<Rightarrow> None | Inr i \<Rightarrow> Some (wi_mac i))\<rparr>"

section \<open>Reading a netmask\<close>

text \<open>The numbers below a power of two whose bits are ones at the end.\<close>

lemma trailing_ones: "and m (m + 1) = 0 \<longleftrightarrow> (\<exists>j. m = 2 ^ j - (1 :: nat))"
proof (induction m rule: less_induct)
  case (less m)
  show ?case
  proof (cases "even m")
    case True
    then obtain q where q: "m = 2 * q" by blast
    have "and m (m + 1) = m" by (subst and_rec) (simp add: q)
    moreover have "m = 2 ^ j - 1 \<Longrightarrow> m = 0" for j using True by (cases j) auto
    ultimately show ?thesis by (metis diff_self_eq_0 power_0)
  next
    case False
    then obtain q where q: "m = 2 * q + 1" using oddE by blast
    have "and m (m + 1) = 2 * and q (q + 1)" by (subst and_rec) (simp add: q)
    moreover have "(\<exists>j. m = 2 ^ j - 1) \<longleftrightarrow> (\<exists>j. q = 2 ^ j - 1)"
    proof
      assume "\<exists>j. m = 2 ^ j - 1"
      then obtain j where j: "m = 2 ^ j - 1" by blast
      then obtain i where "j = Suc i" using False by (cases j) auto
      then have "q = 2 ^ i - 1" using j q by simp
      then show "\<exists>j. q = 2 ^ j - 1" by blast
    next
      assume "\<exists>j. q = 2 ^ j - 1"
      then obtain j where j: "q = 2 ^ j - 1" by blast
      have "(1 :: nat) \<le> 2 ^ j" by simp
      then have "2 ^ j = Suc q" using j by arith
      then have "m = 2 ^ Suc j - 1" using q by simp
      then show "\<exists>j. m = 2 ^ j - 1" by blast
    qed
    ultimately show ?thesis using less.IH [of q] q by simp
  qed
qed

lemma foldl_or: "foldl (\<lambda>n p. push_bit 8 n OR p) 0 (map (\<lambda>b. uint b) bs) = be_val (bs :: bytes)"
proof (induction bs rule: rev_induct)
  case Nil
  then show ?case by simp
next
  case (snoc b bs)
  have "0 \<le> uint b" "uint b < 2 ^ 8" using uint_byte_bounds [of b] by simp_all
  then show ?case using snoc push_or_add [of "uint b" 8 "be_val bs"] by simp
qed

lemma show_nat_dot: "CHR ''.'' \<notin> set (show_nat n)"
  by (rule show_nat_notin) (simp_all add: ord_c_def)

lemma dotted_quad: "dotted_prefix (py_join (CHR ''.'') (map (\<lambda>b. show_nat (unat b)) [a, b, c, d])) =
    (let n = be_val [a, b, c, d]; inv = 0xFFFFFFFF - n
     in if inv AND (inv + 1) \<noteq> 0 then None else Some (int (popcount (nat n))))"
proof -
  let ?bs = "[a, b, c, d]" and ?n = "be_val [a, b, c, d]"
  have n: "0 \<le> ?n" "?n < 2 ^ 32" using be_val_bounds [of ?bs] by simp_all
  have "py_split (CHR ''.'') (py_join (CHR ''.'') (map (\<lambda>b. show_nat (unat b)) ?bs)) = map (\<lambda>b. show_nat (unat b)) ?bs"
    by (rule py_split_join) (auto simp: show_nat_dot)
  moreover have "mapr (py_int 10) (map (\<lambda>b. show_nat (unat b)) ?bs) = Inr (map (\<lambda>b. uint b) ?bs)"
    by simp
  moreover have "NOT ?n AND 0xFFFFFFFF = 0xFFFFFFFF - ?n"
  proof -
    have "NOT ?n AND 0xFFFFFFFF = take_bit 32 (NOT ?n)" by (simp add: take_bit_eq_mask mask_eq_exp_minus_1)
    also have "\<dots> = (- ?n - 1) mod 2 ^ 32" by (simp add: take_bit_eq_mod not_int_def)
    also have "\<dots> = 0xFFFFFFFF - ?n" using n by (simp add: zmod_trivial_iff flip: mod_add_self2 [of "- ?n - 1"])
    finally show ?thesis .
  qed
  ultimately show ?thesis
    using n foldl_or [of ?bs] by (simp add: dotted_prefix_def Let_def)
qed

lemma and_nat_int: "(int a AND int b) = int (a AND b)"
  by (simp add: of_nat_and_eq)

lemma complement_mask:
  assumes "n < 2 ^ 32"
  shows "(0xFFFFFFFF - int n) AND (0xFFFFFFFF - int n + 1) = 0 \<longleftrightarrow> (\<exists>k<33. int n = mask_int 32 k)"
proof -
  define i where "i = 0xFFFFFFFF - n"
  have i: "int i = 0xFFFFFFFF - int n" "i + 1 = 2 ^ 32 - n" using assms by (simp_all add: i_def)
  have "0xFFFFFFFF - int n + 1 = int (i + 1)" using i(1) by simp
  then have "(0xFFFFFFFF - int n) AND (0xFFFFFFFF - int n + 1) = int (and i (i + 1))"
    by (simp only: i(1) [symmetric] and_nat_int)
  also have "\<dots> = 0 \<longleftrightarrow> (\<exists>j. i = 2 ^ j - 1)" by (simp only: of_nat_eq_0_iff trailing_ones)
  also have "\<dots> \<longleftrightarrow> (\<exists>k<33. int n = mask_int 32 k)"
  proof
    assume "\<exists>j. i = 2 ^ j - 1"
    then obtain j where "i = 2 ^ j - 1" by blast
    moreover have "(1 :: nat) \<le> 2 ^ j" by simp
    ultimately have j: "2 ^ j = i + 1" by arith
    then have "(2 :: nat) ^ j \<le> 2 ^ 32" using i assms by simp
    then have "j \<le> 32" using power_le_imp_le_exp [of "2 :: nat" j 32] by simp
    moreover have "int n = 2 ^ 32 - int (2 ^ j)" unfolding j using i assms by simp
    ultimately have "int n = mask_int 32 (32 - j) \<and> 32 - j < 33"
      by (simp add: mask_int_def left_diff_distrib flip: power_add)
    then show "\<exists>k<33. int n = mask_int 32 k" by blast
  next
    assume "\<exists>k<33. int n = mask_int 32 k"
    then obtain k where k: "k < 33" "int n = mask_int 32 k" by blast
    then have "int n = 2 ^ 32 - 2 ^ (32 - k)"
      by (simp add: mask_int_def left_diff_distrib flip: power_add)
    then have "int i = int (2 ^ (32 - k) - 1)" by (simp add: i of_nat_diff)
    then have "i = 2 ^ (32 - k) - 1" by (simp only: of_nat_eq_iff)
    then show "\<exists>j. i = 2 ^ j - 1" by blast
  qed
  finally show ?thesis .
qed

lemma dotted_text:
  assumes "n < 2 ^ 32"
  shows "dotted_prefix (ipa_text (IP4, int n)) =
    (if \<exists>k<33. int n = mask_int 32 k then Some (int (popcount n)) else None)"
proof -
  define bs where "bs = be_bytes 4 (int n)"
  have v: "be_val bs = int n" using assms by (simp add: bs_def be_val_be_bytes)
  have "length bs = 4" by (simp add: bs_def)
  then obtain a b c d where bs: "bs = [a, b, c, d]" by (auto simp: numeral_eq_Suc length_Suc_conv)
  have "ipa_text (IP4, int n) = py_join (CHR ''.'') (map (\<lambda>b. show_nat (unat b)) bs)"
    by (simp add: ipa_text_def bs_def)
  then show ?thesis
    using complement_mask [OF assms] dotted_quad [of a b c d] v by (simp add: bs Let_def)
qed

lemma dotted_text_find:
  assumes "n < 2 ^ 32"
  shows "dotted_prefix (ipa_text (IP4, int n)) = map_option int (find (\<lambda>k. int n = mask_int 32 k) [0..<33])"
proof (cases "find (\<lambda>k. int n = mask_int 32 k) [0..<33]")
  case None
  then have "\<not> (\<exists>k<33. int n = mask_int 32 k)" by (auto simp: find_None_iff simp del: upt_Suc)
  then show ?thesis using dotted_text [OF assms] None by simp
next
  case (Some k)
  then obtain i where "i < length [0..<33]" "int n = mask_int 32 ([0..<33] ! i)" "k = [0..<33] ! i"
    unfolding find_Some_iff by blast
  then have k: "k < 33" "int n = mask_int 32 k" by simp_all
  then have "popcount n = k" using popcount_mask_int [of k 32] by (simp flip: k(2))
  moreover have "\<exists>k<33. int n = mask_int 32 k" using k by blast
  ultimately show ?thesis using dotted_text [OF assms] Some by simp
qed

text \<open>A dotted address is read as a netmask exactly when it is one, and then its prefix length is the number
  of its leading ones.\<close>

theorem dotted_prefix_mask:
  "dotted_prefix (ipa_text (IP4, uint (w :: 32 word))) =
     map_option int (find (\<lambda>k. uint w = mask_int 32 k) [0..<33])"
proof -
  have "unat w < 2 ^ 32" using unsigned_less [of w, where 'a = nat] by simp
  then have "dotted_prefix (ipa_text (IP4, int (unat w))) = map_option int (find (\<lambda>k. int (unat w) = mask_int 32 k) [0..<33])"
    by (rule dotted_text_find)
  then show ?thesis by (simp only: of_nat_unat)
qed

lemma be_bytes_4: "be_bytes 4 m = map (\<lambda>j. word_of_int (m div 2 ^ j)) [24, 16, 8, 0]"
proof -
  have "be_bytes 4 m = be_bytes (Suc (Suc (Suc (Suc 0)))) m" by (simp add: numeral_eq_Suc)
  then show ?thesis by (simp only: be_bytes.simps) (simp flip: zdiv_zmult2_eq)
qed

lemma show_byte: "show_nat (unat (word_of_int (m div 2 ^ j) :: byte)) = show_int (drop_bit j m AND 0xFF)"
proof -
  have "drop_bit j m AND 0xFF = uint (word_of_int (m div 2 ^ j) :: byte)"
    using take_bit_eq_mask [of 8 "m div 2 ^ j"]
    by (simp add: drop_bit_eq_div uint_word_of_int take_bit_eq_mod mask_eq_exp_minus_1)
  then show ?thesis by (simp add: show_int_def)
qed

lemma quad_ipa_text: "ipa_text (IP4, m) = quad m"
  by (simp only: ipa_text_def be_bytes_4 quad_def show_byte prod.case af.case list.map)

lemma quad_mask: "k \<le> 32 \<Longrightarrow> ipa_text (IP4, mask_int 32 k) = cidr_to_netmask_v4 (int k)"
proof -
  assume k: "k \<le> 32"
  consider "k = 0" | "k = 32" | "0 < k" "k < 32" using k by linarith
  then show ?thesis
  proof cases
    case 3
    have "push_bit (32 - k) 0xFFFFFFFF AND 0xFFFFFFFF = (mask_int 32 k :: int)"
    proof -
      have "(2 :: int) ^ 32 = 2 ^ (32 - k) * 2 ^ k" using 3 by (simp flip: power_add)
      moreover have "push_bit (32 - k) 0xFFFFFFFF AND 0xFFFFFFFF = take_bit 32 (push_bit (32 - k) (0xFFFFFFFF :: int))"
        by (simp add: take_bit_eq_mask mask_eq_exp_minus_1)
      moreover have "\<dots> = 2 ^ (32 - k) * take_bit k 0xFFFFFFFF"
        using 3 take_bit_push_bit [of 32 "32 - k" "0xFFFFFFFF :: int"] by (simp add: push_bit_eq_mult mult.commute)
      moreover have "take_bit k (0xFFFFFFFF :: int) = 2 ^ k - 1"
      proof -
        have "(0xFFFFFFFF :: int) = mask 32" by (simp add: mask_eq_exp_minus_1)
        moreover have "take_bit k (mask 32 :: int) = mask k" using 3 by (simp add: take_bit_of_mask min_def)
        ultimately show ?thesis by (simp only: mask_eq_exp_minus_1 [of k])
      qed
      ultimately show ?thesis by (simp add: mask_int_def)
    qed
    then show ?thesis using 3 by (simp add: cidr_to_netmask_v4_def quad_ipa_text nat_diff_distrib)
  qed (simp_all add: cidr_to_netmask_v4_def mask_int_def quad_ipa_text quad_def show_int_def show_nat.simps digit_c_lits)
qed

lemma cidr_v4:
  "\<exists>k\<le>32. int k = max 0 (min 32 h) \<and> cidr_to_netmask h IP4 = Inr (ipa_text (IP4, mask_int 32 k)) \<and>
     cidr_to_netmask_v4 h = ipa_text (IP4, mask_int 32 k)"
proof -
  obtain k where k: "k = nat (max 0 (min 32 h))" by blast
  then have kb: "k \<le> 32" and kh: "int k = max 0 (min 32 h)" by auto
  let ?t = "ipa_text (IP4, mask_int 32 k)"
  have c: "cidr_to_netmask h IP4 = cidr_to_netmask (int k) IP4"
    unfolding kh by (simp add: cidr_to_netmask_def Let_def af_bitlen_def)
  have "cidr_to_netmask h IP4 = Inr ?t"
    unfolding c using cidr_to_netmask_text [of "int k" IP4] kb by (simp add: af_bitlen_def)
  moreover have "cidr_to_netmask_v4 h = ?t"
    unfolding quad_mask [OF kb] kh by (auto simp: cidr_to_netmask_v4_def max_def min_def)
  ultimately show ?thesis using kb kh by blast
qed

lemma cidr_v4_eq: "cidr_to_netmask h IP4 = Inr (cidr_to_netmask_v4 h)"
  using cidr_v4 [of h] by auto

text \<open>C32. The netmask of a prefix length, clamped to the width of an address, is the same text in both ways of
  writing it, and both readers give the length back.\<close>

theorem netmask_read_back:
  "\<exists>t. cidr_to_netmask h IP4 = Inr t \<and> cidr_to_netmask_v4 h = t \<and>
       parse_wmic_subnet (Some t) = Some (max 0 (min 32 h)) \<and> netmask_to_prefix (Some t) = Some (max 0 (min 32 h))"
proof -
  obtain k where kb: "k \<le> 32" and kh: "int k = max 0 (min 32 h)"
    and t: "cidr_to_netmask h IP4 = Inr (ipa_text (IP4, mask_int 32 k))" "cidr_to_netmask_v4 h = ipa_text (IP4, mask_int 32 k)"
    using cidr_v4 [of h] by blast
  let ?t = "ipa_text (IP4, mask_int 32 k)"
  define n where "n = nat (mask_int 32 k)"
  then have n: "mask_int 32 k = int n" "n < 2 ^ 32" using mask_int_bounds [OF kb] by (simp_all add: nat_less_iff)
  have "\<exists>k<33. int n = mask_int 32 k" by (rule exI [of _ k]) (use kb n(1) in simp)
  moreover have "popcount n = k" using popcount_mask_int [OF kb] by (simp add: n(1))
  ultimately have p: "dotted_prefix ?t = Some (int k)" unfolding n(1) using dotted_text [OF n(2)] by simp
  have "CHR ''.'' \<in> set ?t" by (simp add: quad_ipa_text quad_def)
  then show ?thesis
    using t p kh by (auto simp: parse_wmic_subnet_def netmask_to_prefix_def)
qed

section \<open>IPv6 text without the system's help\<close>

lemma digits_val_lstrip: "0 < b \<Longrightarrow> digits_val b 0 (lstrip_0 s) = digits_val b 0 s"
proof (induction s)
  case (Cons c s)
  have "digit_val (CHR ''0'') = Some 0" by code_simp
  then show ?case using Cons by (auto simp: lstrip_0_def split: option.split)
qed (simp add: lstrip_0_def)

lemma v6_word_group:
  assumes "w < 65536"
  shows "v6_group (v6_word_text w) = Some (be_bytes 2 (int w))"
    and "v6_word_text w \<noteq> []" and "set (v6_word_text w) \<subseteq> digit_c ` {..<16}"
proof -
  let ?a = "w div 256"
  let ?s = "(if ?a < 16 then [digit_c ?a] else hex_pair ?a) @ hex_pair (w mod 256)"
  have a: "?a < 256" using assms by simp
  have sub: "set (lstrip_0 ?s) \<subseteq> set ?s" by (auto simp: lstrip_0_def dest: set_dropWhileD)
  have chars: "set ?s \<subseteq> digit_c ` {..<16}"
    using a by (auto simp: hex_pair_def)
  have len: "length (lstrip_0 ?s) \<le> 4"
    using length_dropWhile_le [of "\<lambda>c. c = CHR ''0''" ?s] by (auto simp: lstrip_0_def hex_pair_def split: if_splits)
  have zero: "CHR ''0'' = digit_c 0" by code_simp
  have "digits_val 16 0 ?s = Some w"
  proof -
    have "w = (?a div 16 * 16 + ?a mod 16) * 256 + (w mod 256 div 16 * 16 + w mod 256 mod 16)" by simp
    moreover have "w mod 256 div 16 < 16" by auto
    ultimately show ?thesis using a by (auto simp: hex_pair_def algebra_simps)
  qed
  then have val: "digits_val 16 0 (lstrip_0 ?s) = Some w" by (simp add: digits_val_lstrip del: digits_val.simps)
  show "v6_group (v6_word_text w) = Some (be_bytes 2 (int w))"
  proof (cases "lstrip_0 ?s = []")
    case True
    then have "w = 0" using val by simp
    moreover have "v6_group ''0'' = Some (be_bytes 2 0)" by code_simp
    ultimately show ?thesis using True by (simp add: v6_word_text_def Let_def)
  next
    case False
    then show ?thesis using len val by (simp add: v6_word_text_def Let_def v6_group_def parse_nat_def)
  qed
  show "v6_word_text w \<noteq> []" by (simp add: v6_word_text_def Let_def)
  show "set (v6_word_text w) \<subseteq> digit_c ` {..<16}"
    using sub chars by (auto simp: v6_word_text_def Let_def zero)
qed

lemma v6_word_notin:
  assumes "w < 65536" "\<not> (48 \<le> ord_c c \<and> ord_c c \<le> 57)" "\<not> (97 \<le> ord_c c \<and> ord_c c \<le> 122)"
  shows "c \<notin> set (v6_word_text w)"
proof
  assume "c \<in> set (v6_word_text w)"
  then obtain d where "d < 16" "c = digit_c d" using v6_word_group(3) [OF assms(1)] by auto
  with digit_c_neq [OF _ assms(2,3), of d] show False by simp
qed

lemma v6_manual_groups:
  "even (length bs) \<Longrightarrow> v6_groups v (map v6_word_text (v6_words bs)) = Some bs"
proof (induction bs rule: v6_words.induct)
  case (1 a b bs)
  have w: "unat a * 256 + unat b < 65536" by (rule v6_words_less [of _ "a # b # bs"]) simp
  have "CHR ''.'' \<notin> set (v6_word_text (unat a * 256 + unat b))" by (rule v6_word_notin [OF w]) code_simp+
  moreover have "v6_group (v6_word_text (unat a * 256 + unat b)) = Some [a, b]"
    by (simp only: v6_word_group(1) [OF w] be_bytes_pair)
  ultimately show ?case using 1 by simp
qed auto

text \<open>The text of an IPv6 address that the code writes itself where the system has no function for it is read
  back as the same address.\<close>

theorem v6_manual_roundtrip:
  assumes "length raw = 16"
  shows "inet_pton6 (v6_manual raw) = Inr raw"
proof -
  have words: "v6_words raw \<noteq> []" using assms by (cases raw rule: v6_words.cases) auto
  have col: "CHR '':'' \<notin> set (v6_word_text w)" "v6_word_text w \<noteq> []" if "w \<in> set (v6_words raw)" for w
  proof -
    have "w < 65536" using that by (rule v6_words_less)
    then show "CHR '':'' \<notin> set (v6_word_text w)" by (rule v6_word_notin) code_simp+
    show "v6_word_text w \<noteq> []" using v6_word_group(2) [OF \<open>w < 65536\<close>] .
  qed
  have "v6_manual raw \<noteq> []"
    using words col by (cases "v6_words raw"; cases "tl (v6_words raw)") (auto simp: v6_manual_def)
  moreover have "split_dcolon (v6_manual raw) = None"
    unfolding v6_manual_def by (rule split_dcolon_join) (auto simp: col)
  moreover have "py_split (CHR '':'') (v6_manual raw) = map v6_word_text (v6_words raw)"
    unfolding v6_manual_def by (rule py_split_join) (auto simp: col words)
  ultimately show ?thesis using assms by (simp add: inet_pton6_def v6_side_def v6_manual_groups)
qed

theorem v6_manual_roundtrip_witness:
  "inet_pton6 (v6_manual ((0xfe :: byte) # 0x80 # replicate 12 0 @ [0x12, 0x03])) = Inr (0xfe # 0x80 # replicate 12 0 @ [0x12, 0x03])"
  by (rule v6_manual_roundtrip) simp

section \<open>The choice of a backend\<close>

lemma try_vectors_first:
  "try_vectors run bs = Inr is \<Longrightarrow> is \<noteq> [] \<Longrightarrow>
   \<exists>pre b post. bs = pre @ b # post \<and> run b = Inr is \<and>
     (\<forall>p\<in>set pre. run p = Inr [] \<or> (\<exists>e. caught e \<and> run p = Inl e))"
proof (induction bs)
  case (Cons b bs)
  show ?case
  proof (cases "run b = Inr is")
    case True
    then show ?thesis by (intro exI [of _ "[]"] exI [of _ b] exI [of _ bs]) simp
  next
    case False
    then have b: "run b = Inr [] \<or> (\<exists>e. caught e \<and> run b = Inl e)" and "try_vectors run bs = Inr is"
      using Cons.prems by (auto split: sum.splits if_splits)
    then obtain pre c post where "bs = pre @ c # post" "run c = Inr is"
      "\<forall>p\<in>set pre. run p = Inr [] \<or> (\<exists>e. caught e \<and> run p = Inl e)"
      using Cons.IH Cons.prems by blast
    then show ?thesis using b by (intro exI [of _ "b # pre"] exI [of _ c] exI [of _ post]) auto
  qed
qed simp

lemma load_attempts_first:
  "load_attempts run bs ks = Inr is \<Longrightarrow> is \<noteq> [] \<Longrightarrow>
   \<exists>k\<in>set ks. try_vectors (run k) bs = Inr is"
  by (induction ks) (auto simp: bindr_eq_Inr split: if_splits)

text \<open>What \<open>start\<close> works with are the interfaces of one backend, and in that attempt every backend before it
  found none or failed with a system error or a timeout.\<close>

theorem backend_choice:
  assumes "netifaces_start run nt lib_ok = Inr w"
  shows "\<exists>k pre b post infos. k < 3 \<and> vectors nt lib_ok = pre @ b # post \<and> run k b = Inr infos \<and> infos \<noteq> [] \<and>
    index_infos infos = Inr w \<and> (\<forall>p\<in>set pre. run k p = Inr [] \<or> (\<exists>e. caught e \<and> run k p = Inl e))"
proof -
  obtain infos where res: "load_attempts run (vectors nt lib_ok) [0, 1, 2] = Inr infos" "index_infos infos = Inr w"
    using assms by (auto simp: netifaces_start_def bindr_eq_Inr)
  then have ne: "infos \<noteq> []" by (auto simp: index_infos_def Let_def)
  obtain k where k: "k \<in> set [0, 1, 2]" "try_vectors (run k) (vectors nt lib_ok) = Inr infos"
    using load_attempts_first [OF res(1) ne] by blast
  then have "k < 3" by auto
  then show ?thesis using try_vectors_first [OF k(2) ne] res(2) ne by blast
qed

text \<open>The script of the second backend reports its failures with the general class of exceptions, which ends
  \<open>start\<close> although \<open>wmic\<close> and \<open>netsh\<close> have not been asked.\<close>

theorem ps1_failure_stops:
  assumes "run 0 IPHLPAPI = Inr []" "run 0 PS1 = load_ifs_from_ps1 priv (Inr ''Access denied'') dflt rows"
  shows "netifaces_start run (10, 0) lib_ok = Inl GenericException"
proof -
  have "py_contains ''InterfaceDescription'' ''Access denied'' = False" by code_simp
  then have "run 0 PS1 = Inl GenericException" by (simp add: assms(2) load_ifs_from_ps1_def)
  then show ?thesis
    using assms(1) by (simp add: netifaces_start_def vectors_def nt_ge_def caught_def)
qed

section \<open>The names of the interfaces\<close>

text \<open>Every name leads to an interface that has it as its name or its description, every interface is found under
  the name with which it is listed, and what is the name of an interface leads to one of that name.\<close>

definition name_leads :: "name_index \<Rightarrow> string \<Rightarrow> bool" where
  "name_leads x n \<longleftrightarrow> (case map_of (nx_names x) n of
      None \<Rightarrow> False
    | Some g \<Rightarrow> (case map_of (nx_infos x) g of None \<Rightarrow> False | Some i \<Rightarrow> wi_name i = n))"

definition index_ok :: "name_index \<Rightarrow> bool" where
  "index_ok x \<longleftrightarrow>
     dict_ok (nx_infos x) \<and>
     (\<forall>k g. map_of (nx_names x) k = Some g \<longrightarrow>
        (\<exists>i. map_of (nx_infos x) g = Some i \<and> (wi_name i = k \<or> wi_descr i = k))) \<and>
     (\<forall>e\<in>set (nx_infos x). canonical (snd e) \<noteq> [] \<longrightarrow> dict_has (canonical (snd e)) (nx_names x)) \<and>
     (\<forall>e\<in>set (nx_infos x). name_leads x (wi_name (snd e)))"

lemma index_one_ok:
  assumes ok: "index_ok x" and new: "g \<notin> fst ` set (nx_infos x)"
  shows "index_ok (index_one (g, i) x)" and "fst ` set (nx_infos (index_one (g, i) x)) = insert g (fst ` set (nx_infos x))"
proof -
  have fresh: "map_of (nx_infos x) g = None" using new by (simp add: map_of_eq_None_iff)
  obtain name counts where p: "unique_name (nx_counts x) (wi_name i) = (name, counts)" by fastforce
  have infos: "nx_infos (index_one (g, i) x) = nx_infos x @ [(g, i\<lparr>wi_name := name\<rparr>)]"
    and names: "nx_names (index_one (g, i) x) =
      (let d = dict_set name g (nx_names x)
       in if wi_descr i \<noteq> [] \<and> wi_descr i \<noteq> name \<and> \<not> dict_has (wi_descr i) d then dict_set (wi_descr i) g d else d)"
    by (simp_all add: index_one_def p Let_def)
  show "fst ` set (nx_infos (index_one (g, i) x)) = insert g (fst ` set (nx_infos x))" by (simp add: infos)
  have old: "\<exists>j. map_of (nx_infos x) h = Some j \<and> (wi_name j = k \<or> wi_descr j = k)" if "map_of (nx_names x) k = Some h" for k h
    using ok that by (auto simp: index_ok_def)
  have "dict_ok (nx_infos (index_one (g, i) x))"
    using ok new by (auto simp: index_ok_def dict_ok_def infos)
  moreover have "\<exists>j. map_of (nx_infos (index_one (g, i) x)) h = Some j \<and> (wi_name j = k \<or> wi_descr j = k)"
    if "map_of (nx_names (index_one (g, i) x)) k = Some h" for k h
  proof (cases "map_of (nx_names x) k = Some h \<and> h \<noteq> g")
    case True
    then show ?thesis using old [of k h] by (auto simp: infos map_add_def split: option.splits)
  next
    case False
    have "h = g \<and> (k = name \<or> k = wi_descr i)"
    proof -
      have "map_of (nx_names x) k \<noteq> Some g" using old [of k g] fresh by auto
      then show ?thesis using that False by (auto simp: names Let_def split: if_splits)
    qed
    then show ?thesis using fresh by (auto simp: infos map_add_def split: option.splits)
  qed
  moreover have "dict_has (canonical (snd e)) (nx_names (index_one (g, i) x))"
    if e: "e \<in> set (nx_infos (index_one (g, i) x))" "canonical (snd e) \<noteq> []" for e
  proof (cases "e \<in> set (nx_infos x)")
    case True
    then have "dict_has (canonical (snd e)) (nx_names x)" using ok e by (auto simp: index_ok_def)
    then show ?thesis by (auto simp: names Let_def dict_has_map_of)
  next
    case False
    then have "e = (g, i\<lparr>wi_name := name\<rparr>)" using e by (simp add: infos)
    then show ?thesis using e(2) by (auto simp: names Let_def dict_has_map_of canonical_def split: if_splits)
  qed
  moreover have "name_leads (index_one (g, i) x) (wi_name (snd e))" if e: "e \<in> set (nx_infos (index_one (g, i) x))" for e
  proof (cases "wi_name (snd e) = name")
    case True
    have "map_of (nx_names (index_one (g, i) x)) name = Some g" by (simp add: names Let_def)
    moreover have "map_of (nx_infos (index_one (g, i) x)) g = Some (i\<lparr>wi_name := name\<rparr>)"
      using fresh by (simp add: infos map_add_def)
    ultimately show ?thesis by (simp add: name_leads_def True)
  next
    case False
    let ?n = "wi_name (snd e)"
    have "e \<in> set (nx_infos x)" using e False by (auto simp: infos)
    then have "name_leads x ?n" using ok by (simp add: index_ok_def)
    then obtain h j where h: "map_of (nx_names x) ?n = Some h" "map_of (nx_infos x) h = Some j" "wi_name j = ?n"
      by (auto simp: name_leads_def split: option.splits)
    then have "map_of (nx_names (index_one (g, i) x)) ?n = Some h"
      using False by (auto simp: names Let_def dict_has_map_of)
    moreover have "map_of (nx_infos (index_one (g, i) x)) h = Some j"
      using h(2) by (simp add: infos map_add_def)
    ultimately show ?thesis using h(3) by (simp add: name_leads_def)
  qed
  ultimately show "index_ok (index_one (g, i) x)" by (simp add: index_ok_def)
qed

lemma index_names_ok: "dict_ok d \<Longrightarrow> index_ok (index_names d)"
proof -
  have "dict_ok d \<Longrightarrow> index_ok x \<Longrightarrow> fst ` set d \<inter> fst ` set (nx_infos x) = {} \<Longrightarrow> index_ok (fold index_one d x)" for x
  proof (induction d arbitrary: x)
    case (Cons e d)
    obtain g i where e: "e = (g, i)" by (cases e)
    have new: "g \<notin> fst ` set (nx_infos x)" using Cons.prems by (auto simp: e)
    have "index_ok (fold index_one d (index_one e x))"
    proof (rule Cons.IH)
      show "dict_ok d" using Cons.prems by (simp add: dict_ok_def)
      show "index_ok (index_one e x)" using index_one_ok(1) [OF Cons.prems(2) new] by (simp add: e)
      show "fst ` set d \<inter> fst ` set (nx_infos (index_one e x)) = {}"
        using Cons.prems index_one_ok(2) [OF Cons.prems(2) new] by (auto simp: e dict_ok_def)
    qed
    then show ?case by simp
  qed simp
  from this [of "\<lparr>nx_counts = [], nx_names = [], nx_infos = []\<rparr>"]
  show "dict_ok d \<Longrightarrow> index_ok (index_names d)" by (simp add: index_names_def index_ok_def)
qed

lemma dict_ok_fold_set: "dict_ok d \<Longrightarrow> dict_ok (fold (\<lambda>i. dict_set (f i) (g i)) xs d)"
  by (induction xs arbitrary: d) auto

lemma listed_from:
  "n \<in> set (fold (\<lambda>(_, i) seen.
      if canonical i = [] \<or> canonical i \<in> set seen \<or> is_loopback_iface i then seen else canonical i # seen) d seen) \<Longrightarrow>
   n \<in> set seen \<or> (\<exists>e\<in>set d. canonical (snd e) = n \<and> n \<noteq> [] \<and> \<not> is_loopback_iface (snd e))"
  by (induction d arbitrary: seen) (fastforce split: if_splits prod.splits)+

lemma listed_distinct:
  "distinct seen \<Longrightarrow> distinct (fold (\<lambda>(_, i) seen.
      if canonical i = [] \<or> canonical i \<in> set seen \<or> is_loopback_iface i then seen else canonical i # seen) d seen)"
  by (induction d arbitrary: seen) (auto split: prod.splits)

text \<open>C30. The names of the interfaces are listed in order and once each, and none of them stands for a loopback adapter
  alone. A listed name that is the name of an adapter leads to an adapter of that name, whatever the others have for
  a description; any other listed name (it is the description of an adapter without a name) leads to an adapter
  with that description.\<close>

theorem listed_names_resolve:
  assumes "netifaces_start run nt lib_ok = Inr w"
  shows "sorted (win_interfaces w) \<and> distinct (win_interfaces w) \<and>
    (\<forall>n\<in>set (win_interfaces w).
       (\<exists>i. win_if_info w n = Inr i \<and>
          (if \<exists>e\<in>set (wn_infos w). wi_name (snd e) = n then wi_name i = n else wi_descr i = n)) \<and>
       (\<exists>e\<in>set (wn_infos w). canonical (snd e) = n \<and> \<not> is_loopback_iface (snd e)))"
proof -
  obtain infos where "index_infos infos = Inr w"
    using assms by (auto simp: netifaces_start_def bindr_eq_Inr)
  then obtain x where x: "index_ok x" "wn_infos w = nx_infos x" "wn_names w = nx_names x"
    using index_names_ok [OF dict_ok_fold_set [OF dict_ok_Nil, where f = wi_guid and g = "\<lambda>i. i" and xs = infos]]
    by (auto simp: index_infos_def Let_def split: if_splits)
  have "\<exists>i. win_if_info w n = Inr i \<and>
      (if \<exists>e\<in>set (wn_infos w). wi_name (snd e) = n then wi_name i = n else wi_descr i = n)" (is ?A)
    and "\<exists>e\<in>set (wn_infos w). canonical (snd e) = n \<and> \<not> is_loopback_iface (snd e)" (is ?B)
    if "n \<in> set (win_interfaces w)" for n
  proof -
    have "\<exists>e\<in>set (wn_infos w). canonical (snd e) = n \<and> n \<noteq> [] \<and> \<not> is_loopback_iface (snd e)"
      using that listed_from [of n "wn_infos w" "[]"] by (simp add: win_interfaces_def)
    then obtain e where e: "e \<in> set (wn_infos w)" "canonical (snd e) = n" "n \<noteq> []" "\<not> is_loopback_iface (snd e)" by blast
    then have "dict_has n (nx_names x)" using x by (auto simp: index_ok_def)
    then obtain g where g: "map_of (nx_names x) n = Some g" by (auto simp: dict_has_map_of)
    then obtain i where i: "map_of (nx_infos x) g = Some i" "wi_name i = n \<or> wi_descr i = n"
      using x(1) by (auto simp: index_ok_def)
    have in_infos: "(g, i) \<in> set (nx_infos x)" using i(1) by (rule map_of_SomeD)
    have "wi_name i = n" if "\<exists>e\<in>set (nx_infos x). wi_name (snd e) = n"
      using that x(1) g i(1) by (auto simp: index_ok_def name_leads_def)
    with g x i in_infos show ?A by (force simp: win_if_info_def)
    show ?B using e by blast
  qed
  then show ?thesis
    using listed_distinct [of "[]" "wn_infos w"] by (simp add: win_interfaces_def)
qed

text \<open>Two adapters of one model and a third whose name is the one that the second is given: the name leads to the third
  only, although the code means to keep all names apart.\<close>

definition plain_adapter :: "string \<Rightarrow> string \<Rightarrow> win_iface" where
  "plain_adapter guid name =
     \<lparr>wi_guid = guid, wi_name = name, wi_descr = [], wi_con_name = None, wi_no = 1, wi_v6_no = None, wi_mac = [],
      wi_addr = (\<lambda>a. if a = IP4 then [\<lparr>wa_addr = ''10.0.0.5'', wa_host_limit = 24, wa_netmask = None\<rparr>] else []),
      wi_gws = (\<lambda>_. None), wi_defaults = []\<rparr>"

theorem third_adapter_hides_second:
  "case index_infos [plain_adapter ''g1'' ''X'', plain_adapter ''g2'' ''X'', plain_adapter ''g3'' ''X #2''] of
     Inl e \<Rightarrow> False
   | Inr w \<Rightarrow> map (\<lambda>e. wi_name (snd e)) (wn_infos w) = [''X'', ''X #2'', ''X #2''] \<and>
       win_guid w ''X #2'' = Inr ''g3''"
proof -
  have "show_nat (Suc (Suc 0)) = ''2''" by code_simp
  then show ?thesis
    by (simp add: index_infos_def plain_adapter_def index_names_def index_one_def unique_name_def Let_def
        win_guid_def win_if_info_def)
qed

theorem backend_choice_witness:
  "\<exists>w. (\<exists>(k :: nat) pre b post infos. k < 3 \<and> vectors (10, 0) True = pre @ b # post \<and>
     (if b = IPHLPAPI then Inl OSError else if b = PS1 then Inr [] else Inr [plain_adapter ''g1'' ''X'']) = Inr infos \<and>
     infos \<noteq> [] \<and> index_infos infos = Inr w)"
proof -
  define run where "run = (\<lambda>(k :: nat) b. if b = IPHLPAPI then Inl OSError else if b = PS1 then Inr [] else Inr [plain_adapter ''g1'' ''X''])"
  have "\<exists>w. netifaces_start run (10, 0) True = Inr w"
    by (simp add: run_def netifaces_start_def vectors_def nt_ge_def caught_def index_infos_def Let_def)
  then obtain w where w: "netifaces_start run (10, 0) True = Inr w" by blast
  show ?thesis using backend_choice [OF w] unfolding run_def by blast
qed

theorem listed_names_resolve_witness:
  "\<exists>w. netifaces_start (\<lambda>k b. Inr [plain_adapter ''g1'' ''X'', plain_adapter ''g2'' ''Y''\<lparr>wi_descr := ''X''\<rparr>]) (6, 1) True = Inr w \<and>
     win_interfaces w = [''X'', ''Y''] \<and> (\<exists>i. win_if_info w ''X'' = Inr i \<and> wi_name i = ''X'')"
proof -
  let ?run = "\<lambda>(k :: nat) (b :: backend). Inr [plain_adapter ''g1'' ''X'', plain_adapter ''g2'' ''Y''\<lparr>wi_descr := ''X''\<rparr>] :: win_iface list result"
  obtain w where w: "netifaces_start ?run (6, 1) True = Inr w"
    by (simp add: netifaces_start_def vectors_def nt_ge_def index_infos_def plain_adapter_def Let_def)
  have n: "win_interfaces w = [''X'', ''Y'']" "\<exists>e\<in>set (wn_infos w). wi_name (snd e) = ''X''"
    using w by (auto simp: netifaces_start_def vectors_def nt_ge_def index_infos_def plain_adapter_def index_names_def
        index_one_def unique_name_def win_interfaces_def canonical_def is_loopback_iface_def Let_def)
  from listed_names_resolve [OF w] n show ?thesis by (intro exI [of _ w]) (simp add: w)
qed

section \<open>Prefix lengths and gateways\<close>

lemma fold_longer:
  "(case fold longer ms best of
      None \<Rightarrow> best = None \<and> (\<forall>x\<in>set ms. x = None)
    | Some (n, m) \<Rightarrow> (best = Some (n, m) \<or> Some (n, m) \<in> set ms) \<and>
        (\<forall>k l. best = Some (k, l) \<or> Some (k, l) \<in> set ms \<longrightarrow> k \<le> n))"
proof (induction ms arbitrary: best)
  case Nil
  then show ?case by (auto split: option.split)
next
  case (Cons x ms)
  show ?case
    using Cons.IH [of "longer x best"] by (auto simp: longer_def split: option.splits if_splits) fastforce+
qed

text \<open>The prefix length of an address is the longest of the routes that cover it, with the netmask of such a
  route; when none does it is the full length and there is no netmask.\<close>

theorem longest_route:
  assumes "get_host_limit_from_route_infos priv needle routes (Some a) = Inr (n, m)"
  shows "\<exists>ms. mapr (route_match priv needle) routes = Inr ms \<and>
    (case m of
       None \<Rightarrow> n = int (af_bitlen a) \<and> (\<forall>x\<in>set ms. x = None)
     | Some t \<Rightarrow> Some (n, t) \<in> set ms \<and> (\<forall>k l. Some (k, l) \<in> set ms \<longrightarrow> k \<le> n))"
proof -
  obtain ms where ms: "mapr (route_match priv needle) routes = Inr ms"
    and r: "(case fold longer ms None of Some (n, m) \<Rightarrow> (n, Some m) | None \<Rightarrow> (int (af_bitlen a), None)) = (n, m)"
    using assms unfolding get_host_limit_from_route_infos_def option.case by (auto simp: bindr_eq_Inr)
  then show ?thesis using fold_longer [where ms = ms and best = None] by (auto split: option.splits)
qed

lemma set_strip_none: "y \<in> set (strip_none xs) \<longleftrightarrow> Some y \<in> set xs"
  by (induction xs) (auto simp: strip_none_def List.map_filter_simps split: option.splits)

lemma sanitize_bounds: "0 \<le> sanitize_prefix n a \<and> sanitize_prefix n a \<le> int (af_bitlen a)"
  by (simp add: sanitize_prefix_def)

lemma v4_prefix_bounds: "0 \<le> v4_prefix masks ip p \<and> v4_prefix masks ip p \<le> 32"
proof -
  have "netmask_to_prefix m = Some f \<Longrightarrow> 0 \<le> f" for m f
    by (auto simp: netmask_to_prefix_def dotted_prefix_def Let_def split: option.splits if_splits sum.splits)
  then show ?thesis
    using sanitize_bounds [of p IP4] by (auto simp: v4_prefix_def Let_def af_bitlen_def split: option.splits)
qed

lemma v6_prefix_bounds: "0 < v6_prefix p \<and> v6_prefix p \<le> 128"
  using sanitize_bounds [of p IP6] by (auto simp: v6_prefix_def Let_def af_bitlen_def)

text \<open>Whatever the system library leaves in the fields it does not set, the prefix lengths of the addresses are
  lengths of their family, and the netmask of an IPv4 address is the one of its prefix length.\<close>

theorem iphlp_prefix_bounds:
  assumes "i \<in> set (if_infos_from_iphlpapi priv ntop masks ads)" "e \<in> set (wi_addr i a)"
  shows "0 \<le> wa_host_limit e \<and> wa_host_limit e \<le> int (af_bitlen a) \<and>
    (case a of IP4 \<Rightarrow> map_option Inr (wa_netmask e) = Some (cidr_to_netmask (wa_host_limit e) IP4)
             | IP6 \<Rightarrow> wa_netmask e = None \<and> 0 < wa_host_limit e)"
proof -
  obtain f where "iphlp_info priv masks f = Some i"
    using assms(1) by (auto simp: if_infos_from_iphlpapi_def set_strip_none)
  moreover obtain friendly j where "f = (friendly, j)" by (cases f)
  ultimately have i: "wi_addr i = (\<lambda>a. case a of
      IP4 \<Rightarrow> map (\<lambda>(t, p). \<lparr>wa_addr = t, wa_host_limit = v4_prefix masks t (int p),
                            wa_netmask = Some (cidr_to_netmask_v4 (v4_prefix masks t (int p)))\<rparr>)
               (filter (\<lambda>(t, p). is_ip priv t) (ii_v4 j))
    | IP6 \<Rightarrow> map (\<lambda>(t, p). \<lparr>wa_addr = t, wa_host_limit = v6_prefix (int p), wa_netmask = None\<rparr>)
               (filter (\<lambda>(t, p). is_ip priv t) (ii_v6 j)))"
    by (auto simp: iphlp_info_def Let_def split: if_splits)
  show ?thesis
  proof (cases a)
    case IP4
    then obtain t p where "e = \<lparr>wa_addr = t, wa_host_limit = v4_prefix masks t p,
        wa_netmask = Some (cidr_to_netmask_v4 (v4_prefix masks t p))\<rparr>"
      using assms(2) by (auto simp: i)
    then show ?thesis using v4_prefix_bounds [of masks t p] IP4 by (simp add: cidr_v4_eq af_bitlen_def)
  next
    case IP6
    then obtain p where "wa_host_limit e = v6_prefix p" "wa_netmask e = None"
      using assms(2) by (auto simp: i)
    then show ?thesis using v6_prefix_bounds [of p] IP6 by (simp add: af_bitlen_def)
  qed
qed

lemma gateways_step:
  "fst (win_set_gateways (infos @ [e])) a =
     (case gw_of (snd e) a of None \<Rightarrow> fst (win_set_gateways infos) a
      | Some g \<Rightarrow> if a \<in> set (wi_defaults (snd e)) then Some (g, wi_name (snd e)) else fst (win_set_gateways infos) a)"
  "snd (win_set_gateways (infos @ [e])) a =
     (case gw_of (snd e) a of None \<Rightarrow> snd (win_set_gateways infos) a
      | Some g \<Rightarrow> snd (win_set_gateways infos) a @ [(g, wi_name (snd e), a \<in> set (wi_defaults (snd e)))])"
  by (cases "gw_of (snd e) a"; simp add: win_set_gateways_def case_prod_beta)+

text \<open>The gateways of a family are those of the interfaces that have one, in order, and the default one is the
  last of them that the system chose.\<close>

theorem gateways_listed:
  "snd (win_set_gateways infos) a =
     [(g, wi_name i, a \<in> set (wi_defaults i)). (_, i) \<leftarrow> infos, g \<leftarrow> (case gw_of i a of None \<Rightarrow> [] | Some g \<Rightarrow> [g])] \<and>
   fst (win_set_gateways infos) a =
     map_option (\<lambda>(g, n, d). (g, n)) (find (\<lambda>(g, n, d). d) (rev (snd (win_set_gateways infos) a)))"
proof (induction infos rule: rev_induct)
  case Nil
  then show ?case by (simp add: win_set_gateways_def)
next
  case (snoc e infos)
  then show ?case by (cases e) (simp add: gateways_step split: option.split)
qed

section \<open>Routes and addresses\<close>

lemma ip_range_of_text_bits:
  assumes a: "ipa_ok a" and b: "b \<le> af_bitlen (fst a)"
  shows "\<exists>p. ip_range priv (IpStr (ipa_text a)) None (Some (int b)) =
    Inr (built p (IpStr (ipa_text a)) a (IpStr (ipa_text (fst a, mask_int (af_bitlen (fst a)) (af_bitlen (fst a) - b)))) b)"
proof -
  have "base_addr (IpStr (ipa_text a)) None = Inr (IpStr (ipa_text a), a)"
    using a by (simp add: base_addr_def norm_arg_def ip_norm_plain ipa_of_str_text)
  moreover have "cidr_to_netmask (int (af_bitlen (fst a)) - int b) (fst a) =
      Inr (ipa_text (fst a, mask_int (af_bitlen (fst a)) (af_bitlen (fst a) - b)))"
    using cidr_to_netmask_text [of "int (af_bitlen (fst a)) - int b" "fst a"] b by (simp flip: of_nat_diff)
  ultimately show ?thesis
    using derive_built [OF b, of priv "IpStr (ipa_text a)"] by (simp add: ip_range_def Let_def) 
qed

lemma same_block:
  fixes s t :: int
  assumes "0 < (k :: int)"
  shows "range_intersects (s * k, s * k + (k - 1)) (t * k, t * k + (k - 1)) \<longleftrightarrow> s = t"
proof -
  have "s = t" if "s * k \<le> t * k + (k - 1)" "t * k \<le> s * k + (k - 1)"
  proof -
    have "s * k < (t + 1) * k" "t * k < (s + 1) * k" using that by (simp_all add: algebra_simps)
    then show ?thesis using assms by (simp add: mult_less_cancel_right)
  qed
  then show ?thesis using assms by (auto simp: range_intersects_overlap)
qed

lemma built_block:
  assumes "b < af_bitlen (fst x)"
  shows "ir_r (built p ip x m b) = (snd x div 2 ^ b * 2 ^ b, snd x div 2 ^ b * 2 ^ b + (2 ^ b - 1))"
  using assms by (simp add: built_def Let_def minus_mod_eq_div_mult)

lemma cleared_div: "k \<le> b \<Longrightarrow> n div 2 ^ k * 2 ^ k div 2 ^ b = n div (2 ^ b :: nat)"
proof -
  assume "k \<le> b"
  then obtain d where d: "b = k + d" using le_Suc_ex by blast
  show ?thesis by (simp add: d power_add div_mult2_eq)
qed

lemma route_match_value:
  assumes x: "ipa_ok (f, N)" and m: "ipa_ok (f, int m)" and n: "0 < n" "n \<le> af_bitlen f"
  shows "route_match priv (ipa_text (f, int m)) (ipa_text (f, N) @ CHR ''/'' # show_nat n) =
    Inr (if int m div 2 ^ (af_bitlen f - n) = N div 2 ^ (af_bitlen f - n)
         then Some (int n, ipa_text (f, mask_int (af_bitlen f) n)) else None)"
proof -
  let ?w = "af_bitlen f"
  let ?b = "?w - n" and ?mask = "ipa_text (f, mask_int (af_bitlen f) n)"
  have b: "?b < ?w" "?b \<le> ?w" "?w - ?b = n" "int ?b = int ?w - int n" using n by simp_all
  have split: "py_split (CHR ''/'') (ipa_text (f, N) @ CHR ''/'' # show_nat n) = [ipa_text (f, N), show_nat n]"
    by (simp add: py_split_app py_split_notin ipa_text_plain show_nat_notin ord_c_def)
  obtain p where p: "ip_range priv (IpStr (ipa_text (f, N))) None (Some (int ?b)) =
      Inr (built p (IpStr (ipa_text (f, N))) (f, N) (IpStr ?mask) ?b)"
    using ip_range_of_text_bits [OF x, of ?b priv] b by auto
  let ?k = "length (bin_digits m) - nat (int n)"
  let ?t = "m div 2 ^ ?k * 2 ^ ?k"
  have mw: "m < 2 ^ ?w" using m by (simp add: ipa_ok_def)
  have "?t \<le> m" by (rule div_times_less_eq_dividend)
  then have "?t < 2 ^ ?w" using mw by (rule le_less_trans)
  then have "int ?t < int (2 ^ ?w)" by (rule of_nat_less_iff [THEN iffD2])
  then have t: "ipa_ok (f, int ?t)" by (simp only: ipa_ok_def fst_conv snd_conv of_nat_power of_nat_numeral of_nat_0_le_iff simp_thms)
  obtain v where "?w = Suc v" using n by (cases ?w) auto
  then have "length (bin_digits m) \<le> ?w" using length_bin_digits_le [of m v] mw by simp
  then have k: "?k \<le> ?b" by simp
  have toggle: "toggle_host_bits ?mask (ipa_text (f, int m)) False = Inr (ipa_text (f, int ?t))"
    using toggle_value [OF ipa_of_str_text [OF m] netmask_to_cidr_mask [OF n(2)], of False] by (simp add: ipa_text_plain)
  obtain q where q: "ip_range priv (IpStr (ipa_text (f, int ?t))) None (Some (int ?b)) =
      Inr (built q (IpStr (ipa_text (f, int ?t))) (f, int ?t) (IpStr ?mask) ?b)"
    using ip_range_of_text_bits [OF t, of ?b priv] b by auto
  have "int ?t div 2 ^ ?b = int m div 2 ^ ?b"
    using arg_cong [OF cleared_div [OF k, of m], of int] by (simp only: zdiv_int of_nat_power of_nat_numeral)
  then have eq: "ir_eq (built p (IpStr (ipa_text (f, N))) (f, N) (IpStr ?mask) ?b)
        (built q (IpStr (ipa_text (f, int ?t))) (f, int ?t) (IpStr ?mask) ?b) \<longleftrightarrow>
      int m div 2 ^ ?b = N div 2 ^ ?b"
    using b(1) by (auto simp: ir_eq_def built_block same_block)
  define P where "P = built p (IpStr (ipa_text (f, N))) (f, N) (IpStr ?mask) ?b"
  define Q where "Q = built q (IpStr (ipa_text (f, int ?t))) (f, int ?t) (IpStr ?mask) ?b"
  have mask: "mask_text P = ?mask" by (simp add: P_def mask_text_def)
  have "int n \<noteq> 0" using n by simp
  then show ?thesis
    unfolding route_match_def split list.case py_int_show_nat bindr_simps if_False ipa_of_str_text [OF x] Let_def fst_conv
      p [unfolded b(4), folded P_def] mask toggle q [unfolded b(4), folded Q_def] eq [folded P_def Q_def]
    by simp
qed

text \<open>C24. A route with a prefix length covers exactly the addresses that agree with its own on so many leading bits,
  also for addresses that begin with zero bits, of which \<open>toggle_host_bits\<close> counts only the rest.\<close>

theorem route_covers:
  assumes x: "ipa_ok (f, N)" and m: "ipa_ok (f, int m)" and n: "0 < n" "n \<le> af_bitlen f"
  shows "route_match priv (ipa_text (f, int m)) (ipa_text (f, N) @ CHR ''/'' # show_nat n) =
    Inr (if int m div 2 ^ (af_bitlen f - n) = N div 2 ^ (af_bitlen f - n)
         then Some (int n, ipa_text (f, mask_int (af_bitlen f) n)) else None)"
  using assms by (rule route_match_value)

lemma ten_texts:
  "ipa_text (IP4, 168430130) = ''10.10.10.50''" "ipa_text (IP4, 168430080) = ''10.10.10.0''"
  "ipa_text (IP4, mask_int 32 24) = ''255.255.255.0''" "show_nat 24 = ''24''"
  by (simp_all add: quad_ipa_text quad_def show_int_def show_nat.simps digit_c_lits mask_int_def)

theorem route_covers_witness:
  "route_match (\<lambda>_ _. False) ''10.10.10.50'' ''10.10.10.0/24'' = Inr (Some (24, ''255.255.255.0''))"
  using route_covers [of IP4 168430080 168430130 24 "\<lambda>_ _. False"] by (simp add: ten_texts ipa_ok_def af_bitlen_def)

text \<open>The longer of two routes that cover the address decides.\<close>

lemma ten_net: "route_match priv ''10.10.10.50'' ''10.10.10.0/24'' = Inr (Some (24, ''255.255.255.0''))"
  using route_match_value [of IP4 168430080 168430130 24 priv] by (simp add: ten_texts ipa_ok_def af_bitlen_def)

theorem longest_route_witness:
  "\<exists>ms. mapr (route_match (\<lambda>_ _. False) ''10.10.10.50'') [''10.10.10.0/24'', ''0.0.0.0/0''] = Inr ms \<and>
     Some (24, ''255.255.255.0'') \<in> set ms \<and> (\<forall>k l. Some (k, l) \<in> set ms \<longrightarrow> k \<le> 24)"
proof -
  have "route_match (\<lambda>_ _. False) ''10.10.10.50'' ''0.0.0.0/0'' = Inr None"
    by (simp add: route_match_def py_int_def py_strip_def is_ws_def base_prefix_def parse_nat_def digit_val_def ord_c_def Let_def)
  then have "get_host_limit_from_route_infos (\<lambda>_ _. False) ''10.10.10.50'' [''10.10.10.0/24'', ''0.0.0.0/0''] (Some IP4) =
      Inr (24, Some ''255.255.255.0'')"
    by (simp add: get_host_limit_from_route_infos_def ten_net longer_def)
  from longest_route [OF this] show ?thesis by simp
qed

section \<open>What is lost in the output of \<open>wmic\<close>\<close>

lemma single_host_fields:
  assumes "ip_range priv (IpStr addr) None None = Inr r"
  shows "ir_host_no r = 1"
  using assms by (auto simp: ip_range_def derive_def Let_def bindr_eq_Inr split: prod.splits if_splits)

text \<open>An address without an entry for its subnet gets the number of hosts, which is one, where a prefix length belongs, and
  the interface object makes a netmask of it that holds half of all addresses.\<close>

theorem wmic_no_subnet:
  assumes "ip_range priv (IpStr addr) None None = Inr r"
  shows "\<exists>m. wmic_addr priv addr None = Inr (ir_af r, \<lparr>wa_addr = addr, wa_host_limit = 1, wa_netmask = m\<rparr>)"
    and "cidr_to_netmask 1 IP4 = Inr ''128.0.0.0''"
proof -
  show "\<exists>m. wmic_addr priv addr None = Inr (ir_af r, \<lparr>wa_addr = addr, wa_host_limit = 1, wa_netmask = m\<rparr>)"
    using assms single_host_fields [OF assms] by (simp add: wmic_addr_def parse_wmic_subnet_def)
  have "(push_bit 31 0xFFFFFFFF AND 0xFFFFFFFF :: int) = 2147483648" by (simp add: push_bit_eq_mult)
  then show "cidr_to_netmask 1 IP4 = Inr ''128.0.0.0''"
    by (simp add: cidr_v4_eq cidr_to_netmask_v4_def quad_def show_int_def show_nat.simps digit_c_lits)
qed

text \<open>A prefix that leaves one host bit keeps the netmask of a single host, because the number of host bits is compared
  with the number of hosts.\<close>

theorem wmic_prefix31:
  assumes "ip_range priv (IpStr addr) None None = Inr r" "ir_af r = IP4"
  shows "wmic_addr priv addr (Some ''31'') = Inr (IP4, \<lparr>wa_addr = addr, wa_host_limit = 31, wa_netmask = Some (mask_text r)\<rparr>)"
proof -
  have "py_int 10 ''31'' = Inr 31" by code_simp
  then have "parse_wmic_subnet (Some ''31'') = Some 31" by (simp add: parse_wmic_subnet_def)
  then show ?thesis using assms single_host_fields [OF assms(1)] by (simp add: wmic_addr_def af_bitlen_def)
qed

text \<open>An interface that has gateways of both families loses the one for IPv6.\<close>

theorem wmic_second_gateway_lost:
  assumes "show_main priv r = Inr i" "parse_wmic_addrs priv (wr_gws r) [] = Inr g" "g IP4 \<noteq> []" "g IP6 \<noteq> []"
  shows "wi_gws i IP4 = Some (wa_addr (hd (g IP4))) \<and> wi_gws i IP6 = None"
  using assms by (auto simp: show_main_def bindr_eq_Inr first_gw_def VALID_AFS_def)

section \<open>An adapter of the system library\<close>

theorem iphlp_prefix_bounds_witness:
  "\<exists>priv ntop masks i e. i \<in> set (if_infos_from_iphlpapi priv ntop masks
       [\<lparr>ad_friendly = Some ''X'', ad_descr = None, ad_name = Some ''g'', ad_ifindex = 3, ad_v6index = 0, ad_phys = [],
         ad_phys_len = 0, ad_unicast = [(In4 [10, 10, 10, 50], 218)]\<rparr>]) \<and> e \<in> set (wi_addr i IP4) \<and>
     wa_host_limit e = 32 \<and> 0 \<le> wa_host_limit e \<and> wa_host_limit e \<le> int (af_bitlen IP4)"
proof -
  let ?ad = "\<lparr>ad_friendly = Some ''X'', ad_descr = None, ad_name = Some ''g'', ad_ifindex = 3, ad_v6index = 0, ad_phys = [],
         ad_phys_len = 0, ad_unicast = [(In4 [10, 10, 10, 50], 218)]\<rparr>"
  let ?priv = "\<lambda>_ _. False" and ?ntop = "\<lambda>_. Inl OSError" and ?masks = "\<lambda>_. None"
  have quad: "inet_ntoa [10, 10, 10, 50] = Inr ''10.10.10.50''"
    by (simp add: inet_ntoa_def show_nat.simps digit_c_lits)
  have ip: "is_ip ?priv ''10.10.10.50''"
    using ip_range_of_text [of "(IP4, 168430130)" ?priv] by (auto simp: ten_texts ipa_ok_def af_bitlen_def is_ip_def)
  obtain i e where ie: "i \<in> set (if_infos_from_iphlpapi ?priv ?ntop ?masks [?ad])" "e \<in> set (wi_addr i IP4)" "wa_host_limit e = 32"
    using ip by (simp add: if_infos_from_iphlpapi_def get_interfaces_def add_adapter_def adapter_name_def opt_text_def unicast_def
        sockaddr_to_ip_def quad iphlp_info_def v4_prefix_def sanitize_prefix_def netmask_to_prefix_def af_bitlen_def Let_def
        set_strip_none)
  then show ?thesis using iphlp_prefix_bounds [OF ie(1,2)] by blast
qed

end
