(* ===== verification/Daemon.thy ===== *)
theory Daemon
  imports Routes PyDict
begin

text \<open>
  Servers of a process (\<open>net/daemon.py\<close>): the name of the lock file of a server, adding a listener with its checks for
  another server, the port that the system chooses, and listening on the local addresses of an interface. The table of
  servers is kept with the pipes that were opened. The outcomes of the system calls for one listener are a record of
  the model; pipes are numbers.
\<close>

section \<open>The lock file\<close>

datatype serv_proto = TCP | UDP

text \<open>\<open>re.sub("[:]+", "_", s)\<close>.\<close>

fun sub_colons :: "string \<Rightarrow> string" where
  "sub_colons [] = []"
| "sub_colons (c # s) =
     (if c = CHR '':''
      then (case s of d # t \<Rightarrow> if d = CHR '':'' then sub_colons s else CHR ''_'' # sub_colons s | [] \<Rightarrow> [CHR ''_''])
      else c # sub_colons s)"

definition lock_ip :: "string \<Rightarrow> string result" where
  "lock_ip ip =
     bindr (ip_norm ip) (\<lambda>t.
       let u = map (\<lambda>c. if c = CHR ''.'' then CHR ''_'' else c) (sub_colons t)
       in Inr (if u = [] then ''0'' else u))"

definition get_serv_lock :: "af \<Rightarrow> serv_proto \<Rightarrow> int \<Rightarrow> string \<Rightarrow> string result" where
  "get_serv_lock a p port ip =
     bindr (lock_ip ip) (\<lambda>t.
       Inr ((if a = IP4 then ''v4'' else ''v6'') @ ''_'' @ (if p = TCP then ''tcp'' else ''udp'') @ ''_'' @
            show_int port @ ''_'' @ t @ ''_pid.txt''))"

section \<open>Listeners\<close>

text \<open>The outcomes for one listener: binding the route, which gives the address; the lock, None without the library; the
  connection that looks for another server; opening the pipe; and the port that the system reports.\<close>

record listen_env =
  le_bind :: "string result"
  le_lock :: "bool option"
  le_probe :: "unit result"
  le_pipe :: "nat result"
  le_port :: "int result"

record daemon =
  dm_servers :: "((af \<times> serv_proto \<times> int \<times> string) \<times> nat) list"
  dm_opened :: "nat list"

text \<open>\<open>async_wrap_errors\<close> without a timeout: None for every exception but the programming errors, which pass.\<close>

definition wrap_errors :: "'a result \<Rightarrow> 'a option result" where
  "wrap_errors r =
     (case r of
        Inr x \<Rightarrow> Inr (Some x)
      | Inl e \<Rightarrow> if e \<in> {AttributeError, TypeError, AssertionError, NotImplementedError} then Inl e else Inr None)"

definition is_serv_listening :: "serv_proto \<Rightarrow> int \<Rightarrow> unit result \<Rightarrow> bool result" where
  "is_serv_listening p port probe =
     (if p = UDP \<or> port = 0 then Inr False
      else (case probe of
              Inr _ \<Rightarrow> Inr True
            | Inl e \<Rightarrow> if e \<in> {OSError, ConnectionError2, TimeoutError} then Inr False else Inl e))"

definition add_listener ::
  "af \<Rightarrow> serv_proto \<Rightarrow> string option \<Rightarrow> int \<Rightarrow> listen_env \<Rightarrow> daemon \<Rightarrow> (int \<times> nat) result \<times> daemon" where
  "add_listener a p bound port env d =
     (case bound of
        None \<Rightarrow> (Inl AssertionError, d)
      | Some ip \<Rightarrow>
          (let conflict =
             (if port = 0 then Inr False
              else bindr (get_serv_lock a p port ip) (\<lambda>_.
                     if le_lock env = Some False then Inr True
                     else bindr (wrap_errors (is_serv_listening p port (le_probe env))) (\<lambda>l. Inr (l = Some True))))
           in case conflict of
                Inl e \<Rightarrow> (Inl e, d)
              | Inr True \<Rightarrow> (Inl OSError, d)
              | Inr False \<Rightarrow>
                  (case le_pipe env of
                     Inl e \<Rightarrow> (Inl e, d)
                   | Inr s \<Rightarrow>
                       (let d' = d\<lparr>dm_opened := dm_opened d @ [s]\<rparr>
                        in case (if port = 0 then le_port env else Inr port) of
                             Inl e \<Rightarrow> (Inl e, d')
                           | Inr n \<Rightarrow> (Inr (n, s), d'\<lparr>dm_servers := dict_set (a, p, n, ip) s (dm_servers d')\<rparr>)))))"

section \<open>Listening on local addresses\<close>

text \<open>The addresses of the routes for IPv4, each once; the inner loop stops when the limit is passed.\<close>

fun pick_ips :: "nat option \<Rightarrow> IPRange list \<Rightarrow> IPRange list \<Rightarrow> nat \<Rightarrow> IPRange list \<times> IPRange list \<times> nat" where
  "pick_ips limit [] seen cnt = ([], seen, cnt)"
| "pick_ips limit (r # rs) seen cnt =
     (if list_ex (ir_eq r) seen then pick_ips limit rs seen cnt
      else if (case limit of None \<Rightarrow> False | Some l \<Rightarrow> l < cnt + 1) then ([], seen @ [r], cnt + 1)
      else (case pick_ips limit rs (seen @ [r]) (cnt + 1) of (out, seen', cnt') \<Rightarrow> (r # out, seen', cnt')))"

fun pick_routes :: "nat option \<Rightarrow> IPRange list list \<Rightarrow> IPRange list \<Rightarrow> nat \<Rightarrow> IPRange list" where
  "pick_routes limit [] seen cnt = []"
| "pick_routes limit (rs # rss) seen cnt =
     (case pick_ips limit rs seen cnt of (out, seen', cnt') \<Rightarrow> out @ pick_routes limit rss seen' cnt')"

definition pick_link_locals :: "nat option \<Rightarrow> IPRange list \<Rightarrow> IPRange list" where
  "pick_link_locals limit lls = (case limit of None \<Rightarrow> lls | Some l \<Rightarrow> take l lls)"

text \<open>One listener after the other; the first port that the system chose is used for the others too. Only for IPv6 an
  error of binding is caught.\<close>

fun listen_addrs ::
  "af \<Rightarrow> serv_proto \<Rightarrow> listen_env list \<Rightarrow> int \<Rightarrow> daemon \<Rightarrow> ((int \<times> nat) option list \<times> int) result \<times> daemon" where
  "listen_addrs a p [] port d = (Inr ([], port), d)"
| "listen_addrs a p (e # es) port d =
     (case (if a = IP4 then bindr (le_bind e) (\<lambda>ip. Inr (Some ip)) else wrap_errors (le_bind e)) of
        Inl x \<Rightarrow> (Inl x, d)
      | Inr bound \<Rightarrow>
          (case add_listener a p bound port e d of
             (r, d1) \<Rightarrow>
               (case wrap_errors r of
                  Inl x \<Rightarrow> (Inl x, d1)
                | Inr out \<Rightarrow>
                    (case listen_addrs a p es (if port = 0 \<and> out \<noteq> None then fst (the out) else port) d1 of
                       (Inl x, d2) \<Rightarrow> (Inl x, d2)
                     | (Inr (outs, q), d2) \<Rightarrow> (Inr (out # outs, q), d2)))))"

text \<open>The outcomes for the \<open>k\<close>-th address of a family.\<close>

fun listen_afs ::
  "(af \<Rightarrow> listen_env list) \<Rightarrow> serv_proto \<Rightarrow> af list \<Rightarrow> int \<Rightarrow> daemon \<Rightarrow> (int \<times> nat) option list result \<times> daemon" where
  "listen_afs envs p [] port d = (Inr [], d)"
| "listen_afs envs p (a # as) port d =
     (case listen_addrs a p (envs a) port d of
        (Inl x, d1) \<Rightarrow> (Inl x, d1)
      | (Inr (outs, q), d1) \<Rightarrow>
          (case listen_afs envs p as q d1 of
             (Inl x, d2) \<Rightarrow> (Inl x, d2)
           | (Inr outs', d2) \<Rightarrow> (Inr (outs @ outs'), d2)))"

definition local_ips :: "nat option \<Rightarrow> (af \<Rightarrow> Route list) \<Rightarrow> af \<Rightarrow> IPRange list" where
  "local_ips limit rp a =
     (case a of
        IP4 \<Rightarrow> pick_routes limit (map ro_nic_ips (rp IP4)) [] 0
      | IP6 \<Rightarrow> (case rp IP6 of [] \<Rightarrow> [] | r # _ \<Rightarrow> pick_link_locals limit (ro_link_locals r)))"

definition listen_local ::
  "serv_proto \<Rightarrow> int \<Rightarrow> af list \<Rightarrow> (af \<Rightarrow> Route list) \<Rightarrow> nat option \<Rightarrow> (af \<Rightarrow> IPRange \<Rightarrow> nat \<Rightarrow> listen_env) \<Rightarrow> daemon \<Rightarrow>
    (int \<times> nat) list result \<times> daemon" where
  "listen_local p port afs rp limit env d =
     (case listen_afs (\<lambda>a. map (\<lambda>(k, r). env a r k) (enumerate 0 (local_ips limit rp a))) p afs port d of
        (r, d') \<Rightarrow> (bindr r (\<lambda>outs. Inr (strip_none outs)), d'))"

text \<open>\<open>listen_all\<close> and \<open>listen_loopback\<close>: one listener for each family with the port that was asked for.\<close>

fun listen_each :: "serv_proto \<Rightarrow> int \<Rightarrow> (af \<times> listen_env) list \<Rightarrow> daemon \<Rightarrow> (int \<times> nat) list result \<times> daemon" where
  "listen_each p port [] d = (Inr [], d)"
| "listen_each p port ((a, e) # es) d =
     (case le_bind e of
        Inl x \<Rightarrow> (Inl x, d)
      | Inr ip \<Rightarrow>
          (case add_listener a p (Some ip) port e d of
             (r, d1) \<Rightarrow>
               (case wrap_errors r of
                  Inl x \<Rightarrow> (Inl x, d1)
                | Inr out \<Rightarrow>
                    (case listen_each p port es d1 of
                       (Inl x, d2) \<Rightarrow> (Inl x, d2)
                     | (Inr outs, d2) \<Rightarrow> (Inr (strip_none [out] @ outs), d2)))))"

text \<open>The servers that \<open>close\<close> and \<open>add_msg_cb\<close> visit, one family and protocol after the other.\<close>

definition for_server_in_daemon :: "daemon \<Rightarrow> nat list" where
  "for_server_in_daemon d =
     concat (map (\<lambda>a. concat (map (\<lambda>p. map snd (filter (\<lambda>e. fst (fst e) = a \<and> fst (snd (fst e)) = p) (dm_servers d))) [TCP, UDP]))
       [IP4, IP6])"

section \<open>The name of a lock file\<close>

lemma sub_colons_none: "CHR '':'' \<notin> set s \<Longrightarrow> sub_colons s = s"
  by (induction s) auto

lemma sub_colons_app:
  "CHR '':'' \<notin> set p \<Longrightarrow> s \<noteq> [] \<Longrightarrow> hd s \<noteq> CHR '':'' \<Longrightarrow> sub_colons (p @ CHR '':'' # s) = p @ CHR ''_'' # sub_colons s"
  by (induction p) (auto split: list.splits)

lemma hd_join: "p \<noteq> [] \<Longrightarrow> py_join c (p # ps) \<noteq> [] \<and> hd (py_join c (p # ps)) = hd p"
  by (cases ps) auto

lemma sub_colons_join:
  "\<forall>p\<in>set ps. p \<noteq> [] \<and> CHR '':'' \<notin> set p \<Longrightarrow> sub_colons (py_join (CHR '':'') ps) = py_join (CHR ''_'') ps"
proof (induction "CHR '':''" ps rule: py_join.induct)
  case (3 p q ps)
  moreover have "hd q \<noteq> CHR '':''" using 3 by (metis hd_in_set list.set_intros)
  ultimately show ?case using hd_join [of q "CHR '':''" ps] by (simp add: sub_colons_app)
qed (auto simp: sub_colons_none)

lemma map_join: "\<forall>p\<in>set ps. c \<notin> set p \<Longrightarrow> map (\<lambda>x. if x = c then d else x) (py_join c ps) = py_join d ps"
  by (induction c ps rule: py_join.induct) (auto intro: map_idI)

lemma map_none: "c \<notin> set s \<Longrightarrow> map (\<lambda>x. if x = c then d else x) s = s"
  by (rule map_idI) auto

text \<open>The parts of an address text, and the character that joins them.\<close>

lemma text_parts:
  obtains ps where "ipa_text a = py_join (if fst a = IP4 then CHR ''.'' else CHR '':'') ps" "ps \<noteq> []"
    "\<forall>p\<in>set ps. p \<noteq> [] \<and> CHR ''.'' \<notin> set p \<and> CHR '':'' \<notin> set p \<and> CHR ''_'' \<notin> set p"
proof (cases "fst a")
  case IP4
  let ?ps = "map (\<lambda>b. show_nat (unat b)) (be_bytes 4 (snd a))"
  have "be_bytes 4 (snd a) \<noteq> []" using length_be_bytes [of 4 "snd a"] by (metis list.size(3) zero_neq_numeral)
  then show thesis
    using IP4 by (intro that [of ?ps]) (auto simp: ipa_text_def show_nat_notin ord_c_def split: prod.split)
next
  case IP6
  let ?ps = "map hex4 (v6_words (be_bytes 16 (snd a)))"
  have "v6_words (be_bytes 16 (snd a)) \<noteq> []"
    using length_be_bytes [of 16 "snd a"] by (cases "be_bytes 16 (snd a)" rule: v6_words.cases) auto
  moreover have "hex4 w \<noteq> []" for w using hex4_digits(2) [of w] by auto
  moreover have "CHR ''.'' \<notin> set (hex4 w)" "CHR '':'' \<notin> set (hex4 w)" "CHR ''_'' \<notin> set (hex4 w)" for w
    by (rule hex4_notin; code_simp)+
  ultimately show thesis
    using IP6 by (intro that [of ?ps]) (auto simp: ipa_text_def split: prod.split)
qed

text \<open>The same text with an underscore for every separator.\<close>

definition lock_parts :: "af \<Rightarrow> serv_proto \<Rightarrow> nat \<Rightarrow> string list \<Rightarrow> string list" where
  "lock_parts a p n ps =
     [if a = IP4 then ''v4'' else ''v6'', if p = TCP then ''tcp'' else ''udp'', show_nat n] @ ps @ [''pid.txt'']"

lemma join_snoc: "ps \<noteq> [] \<Longrightarrow> py_join c (ps @ [q]) = py_join c ps @ c # q"
  by (induction c ps rule: py_join.induct) auto

lemma join_Cons: "ps \<noteq> [] \<Longrightarrow> py_join c (p # ps) = p @ c # py_join c ps"
  by (cases ps) auto

lemma lock_name_parts:
  assumes "ipa_ok x" and t: "ipa_text x = py_join (if fst x = IP4 then CHR ''.'' else CHR '':'') ps" "ps \<noteq> []"
    and ps: "\<forall>p\<in>set ps. p \<noteq> [] \<and> CHR ''.'' \<notin> set p \<and> CHR '':'' \<notin> set p \<and> CHR ''_'' \<notin> set p"
  shows "get_serv_lock a p (int n) (ipa_text x) = Inr (py_join (CHR ''_'') (lock_parts a p n ps))"
proof -
  let ?t = "py_join (CHR ''_'') ps"
  obtain q qs where "ps = q # qs" using t(2) by (cases ps) auto
  then have ne: "?t \<noteq> []" using hd_join [of q "CHR ''_''" qs] ps by simp
  have dots: "CHR ''.'' \<notin> set ?t" using ps by (auto dest!: set_py_join)
  have "map (\<lambda>c. if c = CHR ''.'' then CHR ''_'' else c) (sub_colons (ipa_text x)) = ?t"
  proof (cases "fst x")
    case IP4
    then have "CHR '':'' \<notin> set (ipa_text x)" using t ps by (auto dest!: set_py_join)
    then show ?thesis using IP4 t ps by (simp add: sub_colons_none map_join)
  next
    case IP6
    then show ?thesis using t ps dots by (simp add: sub_colons_join map_none)
  qed
  then have "lock_ip (ipa_text x) = Inr ?t"
    using ne unfolding lock_ip_def ip_norm_plain [OF assms(1)] bindr_simps Let_def by (simp only: if_False)
  then show ?thesis
    using t(2) by (simp add: get_serv_lock_def lock_parts_def show_int_def join_Cons join_snoc)
qed

text \<open>C34. Two servers have the same lock file only when they have the same family, transport, port and
  address.\<close>

theorem lock_file_unique:
  assumes "get_serv_lock a p (int n) (ipa_text x) = Inr f" "get_serv_lock b q (int m) (ipa_text y) = Inr f"
    and ok: "ipa_ok x" "ipa_ok y" "fst x = a" "fst y = b"
  shows "a = b \<and> p = q \<and> n = m \<and> x = y"
proof -
  obtain ps where ps: "ipa_text x = py_join (if fst x = IP4 then CHR ''.'' else CHR '':'') ps" "ps \<noteq> []"
    "\<forall>p\<in>set ps. p \<noteq> [] \<and> CHR ''.'' \<notin> set p \<and> CHR '':'' \<notin> set p \<and> CHR ''_'' \<notin> set p" by (rule text_parts)
  obtain qs where qs: "ipa_text y = py_join (if fst y = IP4 then CHR ''.'' else CHR '':'') qs" "qs \<noteq> []"
    "\<forall>p\<in>set qs. p \<noteq> [] \<and> CHR ''.'' \<notin> set p \<and> CHR '':'' \<notin> set p \<and> CHR ''_'' \<notin> set p" by (rule text_parts)
  have us: "CHR ''_'' \<notin> set (show_nat k)" for k by (rule show_nat_notin) (simp add: ord_c_def)
  have split: "py_split (CHR ''_'') (py_join (CHR ''_'') (lock_parts c r k rs)) = lock_parts c r k rs"
    if "\<forall>p\<in>set rs. CHR ''_'' \<notin> set p" for c r k rs
    using that us by (intro py_split_join) (auto simp: lock_parts_def)
  have "py_join (CHR ''_'') (lock_parts a p n ps) = py_join (CHR ''_'') (lock_parts b q m qs)"
    using assms(1,2) unfolding lock_name_parts [OF ok(1) ps] lock_name_parts [OF ok(2) qs] by simp
  moreover have "\<forall>p\<in>set ps. CHR ''_'' \<notin> set p" "\<forall>p\<in>set qs. CHR ''_'' \<notin> set p" using ps(3) qs(3) by blast+
  ultimately have "lock_parts a p n ps = lock_parts b q m qs" using split by metis
  then have e: "a = b" "p = q" "show_nat n = show_nat m" "ps = qs"
    by (cases a; cases b; cases p; cases q; simp add: lock_parts_def)+
  have "n = m" by (metis e(3) parse_show_nat option.inject)
  moreover have "ipa_text x = ipa_text y" using ps(1) qs(1) e ok by simp
  then have "x = y" by (metis ipa_of_str_text ok(1,2) sum.inject(2))
  ultimately show ?thesis using e by simp
qed

theorem lock_file_unique_witness:
  "\<exists>f. get_serv_lock IP4 TCP (int 80) (ipa_text (IP4, 5)) = Inr f \<and> (IP4, 5 :: int) = (IP4, 5) \<and> (80 :: nat) = 80"
proof -
  have ok: "ipa_ok (IP4, 5)" by (simp add: ipa_ok_def af_bitlen_def)
  obtain ps where ps: "ipa_text (IP4, 5) = py_join (if fst (IP4, 5 :: int) = IP4 then CHR ''.'' else CHR '':'') ps" "ps \<noteq> []"
    "\<forall>p\<in>set ps. p \<noteq> [] \<and> CHR ''.'' \<notin> set p \<and> CHR '':'' \<notin> set p \<and> CHR ''_'' \<notin> set p" by (rule text_parts)
  note f = lock_name_parts [OF ok ps, of IP4 TCP 80]
  show ?thesis using lock_file_unique [OF f f ok ok] f by simp
qed

section \<open>Which addresses are listened on\<close>

text \<open>A limit on what is still taken, and that no address overlaps an earlier one.\<close>

fun all_new :: "IPRange list \<Rightarrow> IPRange list \<Rightarrow> bool" where
  "all_new seen [] = True"
| "all_new seen (r # rs) = (\<not> list_ex (ir_eq r) seen \<and> all_new (seen @ [r]) rs)"

lemma all_new_app: "all_new seen (xs @ ys) \<longleftrightarrow> all_new seen xs \<and> all_new (seen @ xs) ys"
  by (induction xs arbitrary: seen) auto

lemma pick_ips_new:
  "pick_ips limit rs seen cnt = (out, seen', cnt') \<Longrightarrow>
   all_new seen out \<and> (\<exists>rest. seen' = seen @ out @ rest) \<and> cnt + length out \<le> cnt' \<and>
   (case limit of None \<Rightarrow> True | Some l \<Rightarrow> length out \<le> l - cnt)"
proof (induction limit rs seen cnt arbitrary: out seen' cnt' rule: pick_ips.induct)
  case (2 limit r rs seen cnt)
  show ?case
  proof (cases "list_ex (ir_eq r) seen")
    case True
    then show ?thesis using 2 by simp
  next
    case new: False
    show ?thesis
    proof (cases "case limit of None \<Rightarrow> False | Some l \<Rightarrow> l < cnt + 1")
      case True
      then show ?thesis using 2 new by (auto split: option.splits)
    next
      case False
      obtain o1 s1 c1 where r: "pick_ips limit rs (seen @ [r]) (cnt + 1) = (o1, s1, c1)" by (metis prod_cases3)
      have e: "out = r # o1" "seen' = s1" "cnt' = c1" using 2(3) new False r by (auto split: option.splits)
      show ?thesis using 2(2) [OF _ _ r] new False by (auto simp: e split: option.splits)
    qed
  qed
qed (auto split: option.split)

lemma all_new_weaken: "all_new (a @ b @ c) xs \<Longrightarrow> all_new (a @ c) xs"
  by (induction xs arbitrary: c) auto

lemma pick_routes_new:
  "all_new seen (pick_routes limit rss seen cnt) \<and>
   (case limit of None \<Rightarrow> True | Some l \<Rightarrow> length (pick_routes limit rss seen cnt) \<le> l - cnt)"
proof (induction rss arbitrary: seen cnt)
  case (Cons rs rss)
  obtain o1 s1 c1 where r: "pick_ips limit rs seen cnt = (o1, s1, c1)" by (metis prod_cases3)
  obtain rest where s1: "s1 = seen @ o1 @ rest" and o1: "all_new seen o1" "cnt + length o1 \<le> c1"
    using pick_ips_new [OF r] by blast
  have "all_new (seen @ o1) (pick_routes limit rss s1 c1)"
    using Cons.IH [of s1 c1] all_new_weaken [of "seen @ o1" rest "[]"] by (simp add: s1)
  moreover have "pick_routes limit (rs # rss) seen cnt = o1 @ pick_routes limit rss s1 c1" by (simp add: r)
  ultimately show ?case
    using Cons.IH [of s1 c1] pick_ips_new [OF r] o1 by (auto simp: all_new_app split: option.splits)
qed (auto split: option.split)

text \<open>At most so many IPv4 addresses as the limit says are listened on, and no two of them overlap, over all the
  routes of the interface.\<close>

theorem local_ips_limited:
  "all_new [] (local_ips limit rp IP4) \<and>
   (case limit of None \<Rightarrow> True | Some l \<Rightarrow> length (local_ips limit rp IP4) \<le> l \<and> length (local_ips limit rp IP6) \<le> l)"
  using pick_routes_new [of "[]" limit "map ro_nic_ips (rp IP4)" 0]
  by (auto simp: local_ips_def pick_link_locals_def split: option.splits list.split)

section \<open>One port for all listeners\<close>

lemma add_listener_port:
  "add_listener a p bound port e d = (Inr (n, s), d') \<Longrightarrow>
   (port \<noteq> 0 \<longrightarrow> n = port) \<and> (port = 0 \<longrightarrow> le_port e = Inr n)"
  by (auto simp: add_listener_def Let_def split: option.splits sum.splits bool.splits if_splits)

lemma wrap_errors_Some: "wrap_errors r = Inr (Some x) \<Longrightarrow> r = Inr x"
  by (auto simp: wrap_errors_def split: sum.splits if_splits)

text \<open>Starting from a chosen port every listener gets it; starting from none, all get the first one.\<close>

definition one_port :: "int \<Rightarrow> (int \<times> nat) option list \<Rightarrow> int \<Rightarrow> bool" where
  "one_port port outs q \<longleftrightarrow>
     (port \<noteq> 0 \<longrightarrow> q = port) \<and> (\<forall>x\<in>set outs. case x of None \<Rightarrow> True | Some (n, s) \<Rightarrow> n = q \<and> n \<noteq> 0)"

lemma one_port_app: "one_port port xs q \<Longrightarrow> one_port q ys r \<Longrightarrow> one_port port (xs @ ys) r"
  by (cases "q = 0") (fastforce simp: one_port_def split: option.splits)+

lemma listen_addrs_port:
  "listen_addrs a p es port d = (Inr (outs, q), d') \<Longrightarrow> \<forall>e\<in>set es. \<forall>n. le_port e = Inr n \<longrightarrow> n \<noteq> 0 \<Longrightarrow>
   one_port port outs q"
proof (induction a p es port d arbitrary: outs q d' rule: listen_addrs.induct)
  case (1 a p port d)
  then show ?case by (simp add: one_port_def)
next
  case (2 a p e es port d)
  from 2(2) obtain bound r d1 out outs' where b: "(if a = IP4 then bindr (le_bind e) (\<lambda>ip. Inr (Some ip)) else wrap_errors (le_bind e)) = Inr bound"
    and r: "add_listener a p bound port e d = (r, d1)" "wrap_errors r = Inr out"
    and rest: "listen_addrs a p es (if port = 0 \<and> out \<noteq> None then fst (the out) else port) d1 = (Inr (outs', q), d')"
    and outs: "outs = out # outs'"
    by (auto split: sum.splits prod.splits)
  let ?next = "if port = 0 \<and> out \<noteq> None then fst (the out) else port"
  have "one_port ?next outs' q" using 2(1) [OF b r(1) [symmetric] r(2) rest] 2(3) by simp
  moreover have "one_port port [out] ?next"
    using r add_listener_port [of a p bound port e d] 2(3) wrap_errors_Some [of r]
    by (cases out) (fastforce simp: one_port_def)+
  ultimately show ?case using one_port_app [of port "[out]" ?next outs' q] by (simp add: outs)
qed
lemma listen_afs_port:
  "listen_afs envs p as port d = (Inr outs, d') \<Longrightarrow> \<forall>a. \<forall>e\<in>set (envs a). \<forall>n. le_port e = Inr n \<longrightarrow> n \<noteq> 0 \<Longrightarrow>
   \<exists>q. one_port port outs q"
proof (induction envs p as port d arbitrary: outs d' rule: listen_afs.induct)
  case (1 envs p port d)
  then show ?case by (auto simp: one_port_def)
next
  case (2 envs p a as port d)
  from 2(2) obtain xs q d1 ys where x: "listen_addrs a p (envs a) port d = (Inr (xs, q), d1)"
    and y: "listen_afs envs p as q d1 = (Inr ys, d')" and outs: "outs = xs @ ys"
    by (auto split: sum.splits prod.splits)
  have "one_port port xs q" using listen_addrs_port [OF x] 2(3) by blast
  moreover obtain r where "one_port q ys r" using 2(1) [OF x [symmetric] refl refl y] 2(3) by blast
  ultimately show ?case using one_port_app outs by blast
qed

text \<open>C36. When the system reports only ports other than zero, all listeners of one call have the same port: the one
  that was asked for, or else the one that the system chose for the first.\<close>

theorem listeners_share_port:
  assumes "listen_local p port afs rp limit env d = (Inr outs, d')"
    "\<forall>a r k n. le_port (env a r k) = Inr n \<longrightarrow> n \<noteq> 0"
  shows "\<exists>q. (\<forall>x\<in>set outs. fst x = q) \<and> (port \<noteq> 0 \<longrightarrow> q = port)"
proof -
  obtain xs where xs: "listen_afs (\<lambda>a. map (\<lambda>(k, r). env a r k) (enumerate 0 (local_ips limit rp a))) p afs port d = (Inr xs, d')"
    and outs: "outs = strip_none xs"
    using assms(1) by (auto simp: listen_local_def bindr_eq_Inr split: prod.splits)
  have "\<forall>a. \<forall>e\<in>set (map (\<lambda>(k, r). env a r k) (enumerate 0 (local_ips limit rp a))). \<forall>n. le_port e = Inr n \<longrightarrow> n \<noteq> 0"
    using assms(2) by (auto simp: case_prod_beta)
  then obtain q where q: "one_port port xs q" using listen_afs_port [OF xs] by blast
  have "x \<in> set outs \<Longrightarrow> Some x \<in> set xs" for x
    unfolding outs by (induction xs) (auto simp: strip_none_def List.map_filter_simps split: option.splits)
  then show ?thesis using q by (fastforce simp: one_port_def)
qed

text \<open>A call on an interface with one IPv4 address and one link-local address, for which the system chooses port 40000.\<close>

definition demo_route :: "af \<Rightarrow> Route" where
  "demo_route a =
     (let r = built False (IpInt 5) (a, 5) (IpInt 0) 0
      in \<lparr>bd_ips = None, bd_interface = None, bd_af = a, bd_resolved = False, bd_port = 0, bd_tups = None,
          ro_nic_ips = [r], ro_ext_ips = [r], ro_link_locals = [r], ro_route_offset = None, ro_host_offset = None\<rparr>)"

definition demo_listen :: "af \<Rightarrow> IPRange \<Rightarrow> nat \<Rightarrow> listen_env" where
  "demo_listen a r k = \<lparr>le_bind = Inr (ipa_text (a, 5)), le_lock = Some True, le_probe = Inl OSError,
     le_pipe = Inr (if a = IP4 then 7 else 8), le_port = Inr 40000\<rparr>"

theorem listeners_share_port_witness:
  "\<exists>d'. listen_local TCP 0 [IP4, IP6] (\<lambda>a. [demo_route a]) (Some 1) demo_listen \<lparr>dm_servers = [], dm_opened = []\<rparr> =
       (Inr [(40000, 7), (40000, 8)], d') \<and>
     (\<exists>q. \<forall>x\<in>set [(40000 :: int, 7 :: nat), (40000, 8)]. fst x = q)"
proof -
  have "ipa_ok (IP6, 5)" by (simp add: ipa_ok_def af_bitlen_def)
  then obtain f where lock: "get_serv_lock IP6 TCP 40000 (ipa_text (IP6, 5)) = Inr f"
    unfolding get_serv_lock_def lock_ip_def by (simp only: ip_norm_plain bindr_simps Let_def)
  have "\<exists>d'. listen_local TCP 0 [IP4, IP6] (\<lambda>a. [demo_route a]) (Some 1) demo_listen \<lparr>dm_servers = [], dm_opened = []\<rparr> =
      (Inr [(40000, 7), (40000, 8)], d')"
    by (simp add: listen_local_def local_ips_def demo_route_def demo_listen_def pick_link_locals_def add_listener_def
        wrap_errors_def is_serv_listening_def lock Let_def strip_none_def List.map_filter_simps)
  then obtain d' where d: "listen_local TCP 0 [IP4, IP6] (\<lambda>a. [demo_route a]) (Some 1) demo_listen \<lparr>dm_servers = [], dm_opened = []\<rparr> =
      (Inr [(40000, 7), (40000, 8)], d')" by blast
  show ?thesis using listeners_share_port [OF d] d by (auto simp: demo_listen_def)
qed

section \<open>Failures\<close>

text \<open>When the port cannot be read back the pipe stays open although no server is registered, so \<open>close\<close> does not
  reach it.\<close>

theorem unread_port_leaks:
  assumes "le_pipe e = Inr s" "le_port e = Inl OSError"
  shows "case add_listener a p (Some ip) 0 e d of (r, d') \<Rightarrow>
    r = Inl OSError \<and> s \<in> set (dm_opened d') \<and> for_server_in_daemon d' = for_server_in_daemon d"
  using assms by (simp add: add_listener_def for_server_in_daemon_def Let_def)

text \<open>An IPv6 address that cannot be bound is meant to be skipped, but the listener is added all the same and fails
  with an \<open>AssertionError\<close>, which ends the call and loses the listeners that were already started.\<close>

theorem unbound_v6_aborts:
  assumes "le_bind e = Inl OSError"
  shows "listen_addrs IP6 p (e # es) port d = (Inl AssertionError, d)"
  using assms by (simp add: wrap_errors_def add_listener_def)

end
