(* ===== verification/Spec2Isabelle.thy ===== *)
theory Spec2Isabelle
  imports TcpStream TcpGraph TcpIssues TcpConn TcpTimers NatTest NatCache Pipe SysClock Topology RouteBuild PipeShim Http Iface Bridge Updater PipeLife StunProbe WinIf Daemon
begin

text \<open>
  \<^bold>\<open>A verification of aionetiface.\<close>

  aionetiface is a networking library in Python. It finds the network interfaces of a host with their routes and
  external addresses, classifies the NAT in front of each, opens pipes (sockets with a uniform interface) that are
  bound to a chosen route, and brings along what peers need to reach each other: STUN, node addresses, acknowledged
  datagrams, a network clock, an HTTP client and server, and a TCP implementation of its own over captured frames, for
  simultaneous opens that the system does not allow. The code is under \<open>src/src/aionetiface/\<close>; the paths below are
  relative to it. Each definition carries the name of the function that it models, or a close one where the name is
  taken in HOL or by another module.

  \<^bold>\<open>How the code is modelled.\<close> A class is a record, its methods are functions that return the updated record; an
  enumeration is a datatype. Python's integers are \<open>int\<close>, a text is a list of characters with codes below 256, a byte
  string is a list of 8-bit words, and what the code masks to a width (sequence numbers, windows, header fields) is a
  word of that width. A dictionary whose order matters is the list of its items. An exception is a value: results are
  \<open>py_exn + 'a\<close>, and an operation that changes state before it raises returns both. Times are rationals. Most
  loops are structural recursions or folds. The loop over the attributes of a STUN message need not end and is a
  \<open>partial_function\<close>, with a theorem that says when it does. Loops that end for another reason than the shape of their
  data are functions with a termination proof: the loops over a route pool (its iterator moves on), the options of a
  TCP header, the carries of a checksum, the rounds of the sending worker, batches, bits and binary digits. Where a
  search can cycle (\<open>sorted_search\<close>) the code itself counts its rounds. The iterator of an address range is run for a
  given number of rounds, and the lemma on it holds for every number from the size of the range on.

  What the code does not compute is an argument: the answers of the system and of other hosts, random draws and
  permutations, hashes and HMAC, the standard library's table of private networks (\<open>priv\<close>), regular expressions
  that a caller brings along, and the content of files. Where several tasks run at once, an operation is one step and
  a property is about every sequence of steps.

  \<^bold>\<open>Foundations.\<close>
  \<^item> \<open>Prelude\<close>: exceptions, results, byte strings, big-endian integers and \<open>struct\<close>. \<open>PyStd\<close>: string methods,
    \<open>int\<close>, \<open>inet_aton\<close>. \<open>PyDict\<close>: dictionaries with their order.
  \<^item> \<open>History\<close>: a locale for a state with operations that keep an invariant, interpreted by the two TCP timers and the
    congestion window. The ARP cache and the NAT cache have locales of their own (\<open>ttl_cache\<close> in \<open>Eth\<close>, \<open>hint_store\<close> in
    \<open>NatCache\<close>), and \<open>PipeShim\<close> one for mailboxes, which the shim and the client of a pipe interpret.
  \<^item> \<open>NumUtils\<close>: numbers, ranges, searches and lists of \<open>utility/utils.py\<close>. \<open>IpAddr\<close>: families, address
    text and netmasks of \<open>net/net_utils.py\<close>. \<open>IpRange\<close>: \<open>net/ip_range.py\<close>.

  \<^bold>\<open>TCP over captured frames\<close> (\<open>net/pcap/\<close>).
  \<^item> \<open>Ipv4\<close>, \<open>Ipv6\<close>, \<open>TcpSegment\<close>: the header codecs. Packing and parsing are inverse, the checksums that
    packing writes verify, and what a checksum can detect is proved; neither parsing nor the driver checks one, the
    code leaves that to a separate function. \<open>Eth\<close>: frames, ARP and the ARP cache. \<open>NextHop\<close>: the tables of the system and
    the choice of the next hop.
  \<^item> \<open>TcpState\<close>: the state machine of \<open>tcp/state.py\<close>. \<open>TcpInv\<close>: its invariant over every history of calls,
    acknowledgements and resets. \<open>TcpGraph\<close>: the next state is the one of the RFC's diagram for the events that a
    segment carries. \<open>TcpHandshake\<close>: two machines and a network that loses, repeats and
    reorders. \<open>TcpStream\<close>: the byte streams of an established pair; from when both sides are
    ESTABLISHED what is read is a beginning of what was written, as long as no side writes more than \<open>2 ^ 32 - 2\<close>
    bytes (after that sequence numbers repeat) in segments of at most 65536 bytes. \<open>TcpIssues\<close>: where the machine departs from its comments.
  \<^item> \<open>TcpConn\<close>: the driver \<open>tcp/conn.py\<close> with the simultaneous open. \<open>TcpTimers\<close>: the retransmission timer and
    the congestion window. \<open>PipeShim\<close>: the surface of a pipe over such a connection, with its queues of at most 100
    messages.

  \<^bold>\<open>Pipes\<close> (\<open>net/pipe/\<close>, \<open>net/\<close>).
  \<^item> \<open>Pipe\<close>: subscriptions, queues and the path of a received packet. \<open>AckUdp\<close>: acknowledged datagrams.
    \<open>PipeLife\<close>: opening with its clean-up, accepting clients, links and callbacks. \<open>Bridge\<close>: the loop that copies
    between two sockets; each takes a beginning of what the other gave. UDP tolerates eight refused datagrams in a row.
  \<^item> \<open>Binds\<close>: the rules for the tuple a socket is bound to. \<open>Address\<close>: destinations. \<open>Daemon\<close>: servers, their lock
    files and listening on local addresses.

  \<^bold>\<open>Interfaces, routes and NAT\<close> (\<open>nic/\<close>).
  \<^item> \<open>Iface\<close>: interfaces, their loading, groups by family and the choice of one. \<open>WinIf\<close>: the four backends for
    Windows, netmasks and prefix lengths, and the object that stands for \<open>netifaces\<close> there.
  \<^item> \<open>Routes\<close>: routes and pools, where one index runs over all external hosts. \<open>RouteBuild\<close>: how routes come about,
    with a lookup that calls itself at most once more.
  \<^item> \<open>NatUtils\<close>: descriptions of a NAT, the pattern of its ports, and what two NATs have in common. \<open>NatTest\<close>: the
    STUN client and the RFC 3489 test. \<open>NatCache\<close>: the cache of results by network fingerprint.

  \<^bold>\<open>Protocols and services.\<close>
  \<^item> \<open>Stun\<close>: messages (\<open>protocol/stun/\<close>). \<open>StunProbe\<close>: who closes the pipe of a request, and the agreement of
    several results (\<open>utility/pattern_factory.py\<close>).
  \<^item> \<open>Topology\<close>: node addresses (\<open>net/topology.py\<close>). \<open>SysClock\<close>: the network clock (\<open>utility/sys_clock.py\<close>).
    \<open>Http\<close>: client and server (\<open>protocol/http/\<close>). \<open>Updater\<close>: the list of servers and its refresh (\<open>updater.py\<close>,
    \<open>servers.py\<close>), with a wait of one to six months after an attempt.

  \<^bold>\<open>How the parts meet.\<close> The driver hands frames through the codecs to the state machine, so its properties hold for
  frames on the wire. An address range is what routes, binds, NAT tests and node addresses are made of, and the lemmas on
  ranges carry over to them. The Windows backends give the record of interfaces that the loading of interfaces reads.
  The NAT test uses the STUN messages, and the cache keeps its result.

  \<^bold>\<open>Kinds of lemmas.\<close> Every component has the behaviour of its operations on all branches with their errors; codecs
  have round trips; caches, tables and machines have invariants over all histories; optimised or hand-written routines
  are equal to a plain definition; and a few theorems show on a concrete run that the code departs from its purpose.
  A theorem with hypotheses has a witness at a concrete input.

  \<^bold>\<open>Not modelled.\<close> System calls and their options (\<open>net/socket.py\<close>, \<open>net/keep_alive.py\<close>), libpcap and its reader
  thread, the patches of the event loop (\<open>net/asyncio/\<close>), TLS and the transports of asyncio, starting processes and
  elevating rights (\<open>utility/cmd_tools.py\<close>), the regular expressions over the output of commands, the registry and
  the structures of the Windows libraries, hashing and signing, logging, formatting and test support, start-up code, and
  the vendored projects: they have no logic of their own that could be stated apart from the system or a library. Of the
  modelled modules, cancellation of tasks, the TURN-only operations of STUN, the building of regular expressions by the
  HTTP server, and the closing of transports are left out.
\<close>

end
